(* ===== verification/Prelude.thy ===== *)
theory Prelude
  imports Main "HOL-Library.Char_ord" "HOL-Library.List_Lexorder"
begin

text \<open>
  What every component of the model shares: the results of code that can abort, exit, throw or
  run into undefined behaviour; the fixed-width signed integers of the source; the generic lemmas
  on lists that the component theories use.

  The modelled build is the one without \<open>NDEBUG\<close>: \<open>BM_CHECK\<close> and \<open>assert\<close> are both
  active in it, so a failed check is a value of the model and not a silent continuation.
\<close>

section \<open>Automation collections\<close>

named_theorems res_simps \<open>evaluation rules for the result monad\<close>
named_theorems dbl_simps \<open>evaluation rules for IEEE double arithmetic\<close>

section \<open>Results of code that may fail\<close>

text \<open>
  \<open>CheckFailed\<close> is \<open>BM_CHECK\<close> (src/src/check.h) calling the abort handler, \<open>AssertFailed\<close> is
  \<open>assert\<close>, \<open>ExitWith\<close> is \<open>std::exit\<close>, \<open>Threw\<close> a C++ exception that leaves the function, and
  \<open>Undefined\<close> a step whose behaviour the language leaves undefined (a null dereference, an index
  out of range, signed overflow).  The string says which condition it was.
\<close>

datatype failure =
    CheckFailed string
  | AssertFailed string
  | ExitWith int
  | Threw string
  | Undefined string

type_synonym 'a res = "failure + 'a"

definition rbind :: "'a res \<Rightarrow> ('a \<Rightarrow> 'b res) \<Rightarrow> 'b res" where
  "rbind m f = (case m of Inl e \<Rightarrow> Inl e | Inr x \<Rightarrow> f x)"

lemma rbind_Inl [simp, res_simps]: "rbind (Inl e) f = Inl e"
  by (simp add: rbind_def)

lemma rbind_Inr [simp, res_simps]: "rbind (Inr x) f = f x"
  by (simp add: rbind_def)

lemma rbind_eq_Inr: "rbind m f = Inr r \<longleftrightarrow> (\<exists>v. f v = Inr r \<and> m = Inr v)"
  by (cases m) auto

lemma rbind_eq_Inl: "rbind m f = Inl e \<longleftrightarrow> m = Inl e \<or> (\<exists>x. m = Inr x \<and> f x = Inl e)"
  by (cases m) auto

lemma rbind_assoc: "rbind (rbind m f) g = rbind m (\<lambda>x. rbind (f x) g)"
  by (cases m) auto

lemma rbind_cong [fundef_cong]:
  "m = m' \<Longrightarrow> (\<And>x. m' = Inr x \<Longrightarrow> f x = f' x) \<Longrightarrow> rbind m f = rbind m' f'"
  by (cases m') auto

lemma rbindE:
  assumes "rbind m f = Inr y"
  obtains x where "m = Inr x" "f x = Inr y"
  using assms by (auto simp: rbind_eq_Inr)

definition BM_CHECK :: "bool \<Rightarrow> string \<Rightarrow> unit res" where
  "BM_CHECK b what = (if b then Inr () else Inl (CheckFailed what))"

definition ASSERT :: "bool \<Rightarrow> string \<Rightarrow> unit res" where
  "ASSERT b what = (if b then Inr () else Inl (AssertFailed what))"

lemma BM_CHECK_simps [simp, res_simps]:
  "BM_CHECK True w = Inr ()" "BM_CHECK False w = Inl (CheckFailed w)"
  by (simp_all add: BM_CHECK_def)

lemma ASSERT_simps [simp, res_simps]:
  "ASSERT True w = Inr ()" "ASSERT False w = Inl (AssertFailed w)"
  by (simp_all add: ASSERT_def)

lemma BM_CHECK_eq_Inr [simp]: "BM_CHECK b w = Inr u \<longleftrightarrow> b"
  by (simp add: BM_CHECK_def)

lemma ASSERT_eq_Inr [simp]: "ASSERT b w = Inr u \<longleftrightarrow> b"
  by (simp add: ASSERT_def)

lemma rbind_BM_CHECK:
  "rbind (BM_CHECK b w) f = (if b then f () else Inl (CheckFailed w))"
  by simp

lemma rbind_ASSERT:
  "rbind (ASSERT b w) f = (if b then f () else Inl (AssertFailed w))"
  by simp

text \<open>A range-\<open>for\<close> loop whose body may fail, with the loop's state passed along.\<close>

fun rfold :: "('s \<Rightarrow> 'a \<Rightarrow> 's res) \<Rightarrow> 's \<Rightarrow> 'a list \<Rightarrow> 's res" where
  "rfold f s [] = Inr s"
| "rfold f s (x # xs) = rbind (f s x) (\<lambda>s'. rfold f s' xs)"

lemma rfold_append: "rfold f s (xs @ ys) = rbind (rfold f s xs) (\<lambda>s'. rfold f s' ys)"
  by (induction xs arbitrary: s) (simp_all add: rbind_assoc)

text \<open>An invariant of the body is an invariant of the loop.\<close>

lemma rfold_invariant:
  assumes "rfold f s xs = Inr s'" and "P s"
    and "\<And>t x t'. x \<in> set xs \<Longrightarrow> P t \<Longrightarrow> f t x = Inr t' \<Longrightarrow> P t'"
  shows "P s'"
  using assms
proof (induction xs arbitrary: s)
  case Nil
  then show ?case by simp
next
  case (Cons x xs)
  from Cons.prems(1) obtain t where "f s x = Inr t" and "rfold f t xs = Inr s'"
    by (auto elim: rbindE)
  then show ?case using Cons by (metis list.set_intros)
qed

lemma rfold_total:
  assumes "\<And>t x. x \<in> set xs \<Longrightarrow> f t x = Inr (g t x)"
  shows "rfold f s xs = Inr (foldl g s xs)"
  using assms by (induction xs arbitrary: s) simp_all

section \<open>Signed integers of fixed width\<close>

text \<open>
  The source computes on \<open>int64_t\<close> and \<open>int\<close>, where overflow is undefined behaviour and not
  wrap-around.  A signed value is an \<open>int\<close> of the model, and an operation that could leave the
  range goes through \<open>chk_int\<close>.
\<close>

definition int64_max :: int where "int64_max = 9223372036854775807"
definition int64_min :: int where "int64_min = -9223372036854775808"
definition int32_max :: int where "int32_max = 2147483647"
definition int32_min :: int where "int32_min = -2147483648"

definition in_i64 :: "int \<Rightarrow> bool" where
  "in_i64 x \<longleftrightarrow> int64_min \<le> x \<and> x \<le> int64_max"

definition in_i32 :: "int \<Rightarrow> bool" where
  "in_i32 x \<longleftrightarrow> int32_min \<le> x \<and> x \<le> int32_max"

definition chk_int :: "(int \<Rightarrow> bool) \<Rightarrow> int \<Rightarrow> int res" where
  "chk_int inr x = (if inr x then Inr x else Inl (Undefined ''signed integer overflow''))"

lemmas int_width_defs = int64_max_def int64_min_def int32_max_def int32_min_def
  in_i64_def in_i32_def

lemma chk_int_in [simp, res_simps]: "inr x \<Longrightarrow> chk_int inr x = Inr x"
  by (simp add: chk_int_def)

lemma chk_int_eq_Inr: "chk_int inr x = Inr y \<longleftrightarrow> inr x \<and> y = x"
  by (auto simp: chk_int_def)

text \<open>C++ integer division and remainder truncate towards zero; dividing by zero is undefined.\<close>

definition cquot :: "int \<Rightarrow> int \<Rightarrow> int" where
  "cquot num den =
     (if (num < 0) = (den < 0) then \<bar>num\<bar> div \<bar>den\<bar> else - (\<bar>num\<bar> div \<bar>den\<bar>))"

lemma cquot_nonneg: "0 \<le> num \<Longrightarrow> 0 < den \<Longrightarrow> cquot num den = num div den"
  by (simp add: cquot_def)

section \<open>Lists and strings\<close>

lemma nth_append_right: "length xs \<le> i \<Longrightarrow> (xs @ ys) ! i = ys ! (i - length xs)"
  by (simp add: nth_append)

lemma sorted_wrt_less_append:
  "sorted_wrt (<) (xs @ ys) \<longleftrightarrow>
     sorted_wrt (<) xs \<and> sorted_wrt (<) ys \<and> (\<forall>x\<in>set xs. \<forall>y\<in>set ys. x < (y::'a::linorder))"
  by (auto simp: sorted_wrt_append)

text \<open>Prefix test: \<open>strncmp(str, p, strlen(p)) == 0\<close>, and \<open>str.rfind(p, 0) == 0\<close>.\<close>

definition starts_with :: "string \<Rightarrow> string \<Rightarrow> bool" where
  "starts_with s p \<longleftrightarrow> take (length p) s = p"

lemma starts_with_append [simp]: "starts_with (p @ s) p"
  by (simp add: starts_with_def)

lemma starts_with_iff: "starts_with s p \<longleftrightarrow> (\<exists>t. s = p @ t)"
proof
  assume "starts_with s p"
  then show "\<exists>t. s = p @ t"
    unfolding starts_with_def by (metis append_take_drop_id)
qed auto

text \<open>\<open>hay.find(needle) != npos\<close>.\<close>

fun contains :: "string \<Rightarrow> string \<Rightarrow> bool" where
  "contains [] n = (n = [])"
| "contains (c # s) n = (starts_with (c # s) n \<or> contains s n)"

lemma contains_starts_with: "starts_with s n \<Longrightarrow> contains s n"
  by (cases s) (auto simp: starts_with_def)

lemma contains_iff: "contains s n \<longleftrightarrow> (\<exists>a b. s = a @ n @ b)"
proof
  show "contains s n \<Longrightarrow> \<exists>a b. s = a @ n @ b"
  proof (induction s)
    case (Cons c s)
    then show ?case
      by (metis append_Cons append_Nil contains.simps(2) starts_with_iff)
  qed simp
next
  assume "\<exists>a b. s = a @ n @ b"
  then obtain a b where "s = a @ n @ b" by blast
  then show "contains s n"
    by (induction a arbitrary: s) (auto intro: contains_starts_with)
qed

end
