(* ===== verification/Ranges.thy ===== *)
theory Ranges
  imports Prelude
begin

text \<open>
  The argument generators of src/src/benchmark_register.h and the two public helpers
  \<open>CreateRange\<close> and \<open>CreateDenseRange\<close> of src/src/benchmark_register.cc.

  The templates are instantiated at \<open>int64_t\<close> (arguments) and at \<open>int\<close> (thread counts); the model
  takes the largest value \<open>kmax\<close> of the type as an argument, its smallest value is \<open>- kmax - 1\<close>.
  Every arithmetic step that could leave the type is checked with \<open>chk_int\<close>, so a result
  \<open>Inr xs\<close> also says that no signed overflow happened on the way.
\<close>

section \<open>The generators\<close>

definition in_T :: "int \<Rightarrow> int \<Rightarrow> bool" where
  "in_T kmax x \<longleftrightarrow> - kmax - 1 \<le> x \<and> x \<le> kmax"

text \<open>
  The loop of \<open>AddPowers\<close>.  The source only enters it with \<open>1 \<le> i\<close> and \<open>2 \<le> mult\<close>; outside of
  these the model gives up at once, which makes the function total.
\<close>

function powers_loop :: "int \<Rightarrow> int \<Rightarrow> int \<Rightarrow> int \<Rightarrow> int list \<Rightarrow> int \<Rightarrow> int list res" where
  "powers_loop kmax lo hi mult dst i =
     (if i < 1 \<or> mult < 2 then Inl (Undefined ''loop entered outside its precondition'')
      else if i \<le> hi then
        (let dst' = (if lo \<le> i then dst @ [i] else dst) in
         if i > cquot kmax mult then Inr dst'
         else rbind (chk_int (in_T kmax) (i * mult)) (\<lambda>i'. powers_loop kmax lo hi mult dst' i'))
      else Inr dst)"
  by pat_completeness auto
termination
proof (relation "measure (\<lambda>(kmax, lo, hi, mult, dst, i). nat (hi + 1 - i))")
  show "wf (measure (\<lambda>(kmax, lo, hi, mult, dst :: int list, i). nat (hi + 1 - i)))" by simp
next
  fix kmax lo hi mult i i' :: int and dst dst' :: "int list"
  assume "\<not> (i < 1 \<or> mult < 2)" "i \<le> hi" "chk_int (in_T kmax) (i * mult) = Inr i'"
  moreover from this have "i * 2 \<le> i * mult" by (intro mult_left_mono) auto
  ultimately show "((kmax, lo, hi, mult, dst', i'), (kmax, lo, hi, mult, dst, i))
      \<in> measure (\<lambda>(kmax, lo, hi, mult, dst, i). nat (hi + 1 - i))"
    by (auto simp: chk_int_eq_Inr)
qed

declare powers_loop.simps [simp del]

definition AddPowers :: "int \<Rightarrow> int list \<Rightarrow> int \<Rightarrow> int \<Rightarrow> int \<Rightarrow> int list res" where
  "AddPowers kmax dst lo hi mult =
     rbind (BM_CHECK (lo \<ge> 0) ''lo >= 0'') (\<lambda>_.
     rbind (BM_CHECK (hi \<ge> lo) ''hi >= lo'') (\<lambda>_.
     rbind (BM_CHECK (mult \<ge> 2) ''mult >= 2'') (\<lambda>_.
     powers_loop kmax lo hi mult dst 1)))"

text \<open>
  \<open>AddPowers\<close> returns the iterator to the first element it added; the caller negates and
  reverses from there on.
\<close>

definition AddNegatedPowers :: "int \<Rightarrow> int list \<Rightarrow> int \<Rightarrow> int \<Rightarrow> int \<Rightarrow> int list res" where
  "AddNegatedPowers kmax dst lo hi mult =
     rbind (BM_CHECK (lo > - kmax - 1) ''lo > min'') (\<lambda>_.
     rbind (BM_CHECK (hi > - kmax - 1) ''hi > min'') (\<lambda>_.
     rbind (BM_CHECK (hi \<ge> lo) ''hi >= lo'') (\<lambda>_.
     rbind (BM_CHECK (hi \<le> 0) ''hi <= 0'') (\<lambda>_.
     rbind (chk_int (in_T kmax) (- lo)) (\<lambda>lo_complement.
     rbind (chk_int (in_T kmax) (- hi)) (\<lambda>hi_complement.
     rbind (AddPowers kmax dst hi_complement lo_complement mult) (\<lambda>dst'.
       (let start_offset = length dst;
            negated = map (\<lambda>t. t * -1) (drop start_offset dst')
        in Inr (take start_offset dst' @ rev negated)))))))))"

definition AddRange :: "int \<Rightarrow> int list \<Rightarrow> int \<Rightarrow> int \<Rightarrow> int \<Rightarrow> int list res" where
  "AddRange kmax dst lo hi mult =
     rbind (BM_CHECK (hi \<ge> lo) ''hi >= lo'') (\<lambda>_.
     rbind (BM_CHECK (mult \<ge> 2) ''mult >= 2'') (\<lambda>_.
     (let dst0 = dst @ [lo] in
      if lo = hi then Inr dst0
      else rbind (chk_int (in_T kmax) (lo + 1)) (\<lambda>lo_inner.
        if lo_inner = hi then Inr (dst0 @ [hi])
        else rbind (chk_int (in_T kmax) (hi - 1)) (\<lambda>hi_inner.
          rbind (if lo_inner < 0 then AddNegatedPowers kmax dst0 lo_inner (min hi_inner (-1)) mult
                 else Inr dst0) (\<lambda>dst1.
          (let dst2 = (if lo < 0 \<and> hi \<ge> 0 then dst1 @ [0] else dst1) in
           rbind (if hi_inner > 0 then AddPowers kmax dst2 (max lo_inner 1) hi_inner mult
                  else Inr dst2) (\<lambda>dst3.
           Inr (if hi \<noteq> last dst3 then dst3 @ [hi] else dst3)))))))))"

definition CreateRange :: "int \<Rightarrow> int \<Rightarrow> int \<Rightarrow> int list res" where
  "CreateRange lo hi multi = AddRange int64_max [] lo hi multi"

text \<open>
  The loop of \<open>DenseRange\<close> and \<open>CreateDenseRange\<close>, \<open>for (arg = start; arg <= limit; arg += step)\<close>.
  It does not check its step: at step zero it never ends (\<open>None\<close>), and where \<open>arg + step\<close> leaves
  \<open>int64_t\<close> the behaviour is undefined.
\<close>

partial_function (option) dense_loop :: "int \<Rightarrow> int \<Rightarrow> int list \<Rightarrow> int \<Rightarrow> int list res option" where
  "dense_loop limit step acc arg =
     (if arg \<le> limit then
        (case chk_int in_i64 (arg + step) of
           Inl e \<Rightarrow> Some (Inl e)
         | Inr arg' \<Rightarrow> dense_loop limit step (acc @ [arg]) arg')
      else Some (Inr acc))"

definition CreateDenseRange :: "int \<Rightarrow> int \<Rightarrow> int \<Rightarrow> int list res option" where
  "CreateDenseRange start limit step =
     (if start \<le> limit then dense_loop limit step [] start
      else Some (Inl (CheckFailed ''start <= limit'')))"

section \<open>What the generators produce\<close>

text \<open>The powers of \<open>mult\<close>, which is what the loop walks through.\<close>

definition is_power :: "int \<Rightarrow> int \<Rightarrow> bool" where
  "is_power mult x \<longleftrightarrow> (\<exists>k::nat. x = mult ^ k)"

lemma is_power_one [simp, intro]: "is_power m 1"
  unfolding is_power_def by (metis power_0)

lemma is_power_mult [intro]: "is_power m i \<Longrightarrow> is_power m (i * m)"
  unfolding is_power_def by (metis power_Suc2)

lemma is_power_pos: "is_power m x \<Longrightarrow> 2 \<le> m \<Longrightarrow> 1 \<le> x"
  by (auto simp: is_power_def)

lemma no_power_between:
  assumes "is_power m i" "is_power m x" "2 \<le> m" "i < x"
  shows "i * m \<le> x"
proof -
  from assms obtain a b where ab: "i = m ^ a" "x = m ^ b" by (auto simp: is_power_def)
  with assms have "a < b" by (simp add: power_strict_increasing_iff)
  then have "m ^ Suc a \<le> m ^ b" using assms by (intro power_increasing) auto
  then show ?thesis by (simp add: ab mult.commute)
qed

lemma powers_loop_spec:
  assumes "is_power mult i" "2 \<le> mult" "0 \<le> kmax" "hi \<le> kmax"
  shows "\<exists>ys. powers_loop kmax lo hi mult dst i = Inr (dst @ ys) \<and> sorted_wrt (<) ys \<and>
    set ys = {x. is_power mult x \<and> i \<le> x \<and> lo \<le> x \<and> x \<le> hi}"
  using assms
proof (induction kmax lo hi mult dst i rule: powers_loop.induct)
  case (1 kmax lo hi mult dst i)
  have i1: "1 \<le> i" using "1.prems" is_power_pos by auto
  define here where "here = (if lo \<le> i then [i] else [])"
  have only: "{x. is_power mult x \<and> i \<le> x \<and> lo \<le> x \<and> x \<le> hi} =
      (if i \<le> hi then set here else {}) \<union> {x. is_power mult x \<and> i * mult \<le> x \<and> lo \<le> x \<and> x \<le> hi}"
    (is "?A = ?B \<union> ?C")
  proof -
    have "i * 2 \<le> i * mult" using i1 "1.prems" by (intro mult_left_mono) auto
    then have "i \<le> i * mult" using i1 by simp
    moreover have "x = i \<or> i * mult \<le> x" if "is_power mult x" "i \<le> x" for x
      using no_power_between[OF "1.prems"(1) that(1) "1.prems"(2)] that by force
    ultimately show ?thesis
      using "1.prems" by (auto simp: here_def split: if_splits)
  qed
  consider (out) "hi < i" | (stop) "i \<le> hi" "i > cquot kmax mult"
    | (step) "i \<le> hi" "i \<le> cquot kmax mult" by linarith
  then show ?case
  proof cases
    case out
    then show ?thesis using i1 "1.prems"
      by (subst powers_loop.simps) (auto intro!: exI[of _ "[]"])
  next
    case stop
    have "kmax div mult + 1 \<le> i" using stop "1.prems" by (simp add: cquot_nonneg)
    then have "(kmax div mult + 1) * mult \<le> i * mult"
      using "1.prems" by (intro mult_right_mono) auto
    moreover have "kmax < (kmax div mult + 1) * mult"
      using "1.prems" pos_mod_bound[of mult kmax] div_mult_mod_eq[of kmax mult]
      unfolding distrib_right by linarith
    ultimately have "kmax < i * mult" by simp
    then have "?C = {}" using "1.prems" by auto
    moreover have "\<exists>ys. powers_loop kmax lo hi mult dst i = Inr (dst @ ys) \<and> ys = here"
      using stop i1 "1.prems" by (subst powers_loop.simps) (auto simp: here_def)
    ultimately show ?thesis using stop only by (auto simp: here_def)
  next
    case step
    have fits: "i * mult \<le> kmax"
    proof -
      have "i * mult \<le> (kmax div mult) * mult"
        using step "1.prems" by (intro mult_right_mono) (auto simp: cquot_nonneg)
      also have "\<dots> \<le> kmax"
        using "1.prems" pos_mod_sign[of mult kmax] div_mult_mod_eq[of kmax mult] by linarith
      finally show ?thesis .
    qed
    have i2: "0 \<le> i * mult" using i1 "1.prems" by simp
    have chk: "chk_int (in_T kmax) (i * mult) = Inr (i * mult)"
      using fits i2 "1.prems" by (simp add: in_T_def chk_int_def)
    have pw: "is_power mult (i * mult)" using "1.prems" by auto
    obtain ys where ys: "powers_loop kmax lo hi mult (dst @ here) (i * mult) = Inr ((dst @ here) @ ys)"
      "sorted_wrt (<) ys" "set ys = ?C"
      using "1.IH"[OF _ step(1) refl _ chk] i1 "1.prems" step pw
      by (auto simp: here_def split: if_splits)
    have "i < i * mult" using i1 "1.prems" by simp
    then have srt: "sorted_wrt (<) (here @ ys)"
      using ys by (auto simp: here_def)
    have "powers_loop kmax lo hi mult dst i = Inr (dst @ (here @ ys))"
      using ys(1) chk step i1 "1.prems" by (subst powers_loop.simps) (auto simp: here_def)
    then show ?thesis using srt only step ys(3) by (intro exI[of _ "here @ ys"]) auto
  qed
qed

lemma AddPowers_spec:
  assumes "0 \<le> lo" "lo \<le> hi" "2 \<le> mult" "0 \<le> kmax" "hi \<le> kmax"
  shows "\<exists>ys. AddPowers kmax dst lo hi mult = Inr (dst @ ys) \<and> sorted_wrt (<) ys \<and>
    set ys = {x. is_power mult x \<and> lo \<le> x \<and> x \<le> hi}"
proof -
  have "{x. is_power mult x \<and> 1 \<le> x \<and> lo \<le> x \<and> x \<le> hi} = {x. is_power mult x \<and> lo \<le> x \<and> x \<le> hi}"
    using is_power_pos assms by blast
  then show ?thesis
    using powers_loop_spec[OF is_power_one, of mult kmax hi lo dst] assms
    by (simp add: AddPowers_def)
qed

lemma sorted_wrt_rev_uminus:
  "sorted_wrt (<) ys \<Longrightarrow> sorted_wrt (<) (rev (map uminus ys))" for ys :: "int list"
  by (simp add: sorted_wrt_rev sorted_wrt_map)

lemma AddNegatedPowers_spec:
  assumes "lo \<le> hi" "hi \<le> 0" "2 \<le> mult" "- kmax \<le> lo"
  shows "\<exists>ys. AddNegatedPowers kmax dst lo hi mult = Inr (dst @ ys) \<and> sorted_wrt (<) ys \<and>
    set ys = {x. is_power mult (- x) \<and> lo \<le> x \<and> x \<le> hi}"
proof -
  obtain ps where ps: "AddPowers kmax dst (- hi) (- lo) mult = Inr (dst @ ps)"
    "sorted_wrt (<) ps" "set ps = {x. is_power mult x \<and> - hi \<le> x \<and> x \<le> - lo}"
    using AddPowers_spec[of "- hi" "- lo" mult kmax dst] assms by auto
  have chk: "chk_int (in_T kmax) (- lo) = Inr (- lo)" "chk_int (in_T kmax) (- hi) = Inr (- hi)"
    using assms by (auto simp: in_T_def)
  have "AddNegatedPowers kmax dst lo hi mult = Inr (dst @ rev (map uminus ps))"
    using assms chk ps(1) by (simp add: AddNegatedPowers_def rbind_BM_CHECK Let_def)
  moreover have "set (rev (map uminus ps)) = {x. is_power mult (- x) \<and> lo \<le> x \<and> x \<le> hi}"
    by (force simp: ps(3) image_iff)
  ultimately show ?thesis
    using sorted_wrt_rev_uminus[OF ps(2)] by blast
qed

text \<open>The values a range is to contain: its ends, zero, and the powers between them, of both signs.\<close>

definition range_values :: "int \<Rightarrow> int \<Rightarrow> int \<Rightarrow> int set" where
  "range_values lo hi mult =
     {lo, hi} \<union> {x. lo < x \<and> x < hi \<and> (x = 0 \<or> is_power mult x \<or> is_power mult (- x))}"

text \<open>The two calls \<open>AddRange\<close> makes, on the open interval between its ends.\<close>

lemma AddRange_negative_part:
  assumes "lo + 1 < hi" "2 \<le> mult" "- kmax - 1 \<le> lo"
  shows "\<exists>neg. (if lo + 1 < 0 then AddNegatedPowers kmax dst (lo + 1) (min (hi - 1) (-1)) mult
      else Inr dst) = Inr (dst @ neg) \<and> sorted_wrt (<) neg \<and>
    set neg = {x. is_power mult (- x) \<and> lo < x \<and> x < hi}"
proof (cases "lo + 1 < 0")
  case True
  moreover have "{x. is_power mult (- x) \<and> lo + 1 \<le> x \<and> x \<le> min (hi - 1) (-1)} =
      {x. is_power mult (- x) \<and> lo < x \<and> x < hi}"
    using is_power_pos assms by force
  ultimately show ?thesis
    using AddNegatedPowers_spec[of "lo + 1" "min (hi - 1) (-1)" mult kmax dst] assms by simp
next
  case False
  then have "{x. is_power mult (- x) \<and> lo < x \<and> x < hi} = {}"
    using is_power_pos assms by force
  then show ?thesis using False by (intro exI[of _ "[]"]) simp
qed

lemma AddRange_positive_part:
  assumes "lo + 1 < hi" "2 \<le> mult" "0 < kmax" "hi \<le> kmax"
  shows "\<exists>pos. (if hi - 1 > 0 then AddPowers kmax dst (max (lo + 1) 1) (hi - 1) mult
      else Inr dst) = Inr (dst @ pos) \<and> sorted_wrt (<) pos \<and>
    set pos = {x. is_power mult x \<and> lo < x \<and> x < hi}"
proof (cases "hi - 1 > 0")
  case True
  moreover have "{x. is_power mult x \<and> max (lo + 1) 1 \<le> x \<and> x \<le> hi - 1} =
      {x. is_power mult x \<and> lo < x \<and> x < hi}"
    using is_power_pos assms by force
  ultimately show ?thesis
    using AddPowers_spec[of "max (lo + 1) 1" "hi - 1" mult kmax dst] assms by simp
next
  case False
  then have "{x. is_power mult x \<and> lo < x \<and> x < hi} = {}"
    using is_power_pos assms by force
  then show ?thesis using False by (intro exI[of _ "[]"]) simp
qed

text \<open>Adding the upper end unless it is already there keeps a sorted list sorted.\<close>

lemma sorted_snoc_unless_last:
  fixes ys :: "int list"
  assumes "sorted_wrt (<) ys" "ys \<noteq> []" "\<forall>x \<in> set ys. x \<le> hi"
  shows "sorted_wrt (<) (if hi \<noteq> last ys then ys @ [hi] else ys)"
proof -
  obtain as a where ys: "ys = as @ [a]" using assms(2) by (metis rev_exhaust)
  have "x < a" if "x \<in> set as" for x
    using assms(1) that by (simp add: ys sorted_wrt_less_append)
  then show ?thesis
    using assms by (fastforce simp: ys sorted_wrt_less_append)
qed

lemma AddRange_spec:
  assumes "lo \<le> hi" "2 \<le> mult" "0 < kmax" "- kmax - 1 \<le> lo" "hi \<le> kmax"
  shows "\<exists>ys. AddRange kmax dst lo hi mult = Inr (dst @ ys) \<and> sorted_wrt (<) ys \<and>
    set ys = range_values lo hi mult \<and> hd ys = lo \<and> last ys = hi"
proof -
  consider (one) "lo = hi" | (two) "lo + 1 = hi" | (more) "lo + 1 < hi"
    using assms by linarith
  then show ?thesis
  proof cases
    case one
    then show ?thesis using assms
      by (auto simp: AddRange_def range_values_def intro!: exI[of _ "[lo]"])
  next
    case two
    have "chk_int (in_T kmax) hi = Inr hi" using assms two by (auto simp: in_T_def)
    moreover have "range_values lo hi mult = {lo, hi}" using two by (auto simp: range_values_def)
    ultimately show ?thesis using assms two
      by (auto simp: AddRange_def intro!: exI[of _ "[lo, hi]"])
  next
    case more
    have chk: "chk_int (in_T kmax) (lo + 1) = Inr (lo + 1)" "chk_int (in_T kmax) (hi - 1) = Inr (hi - 1)"
      using assms more by (auto simp: in_T_def)
    obtain neg where neg:
      "(if lo + 1 < 0 then AddNegatedPowers kmax (dst @ [lo]) (lo + 1) (min (hi - 1) (-1)) mult
        else Inr (dst @ [lo])) = Inr ((dst @ [lo]) @ neg)" "sorted_wrt (<) neg"
      "set neg = {x. is_power mult (- x) \<and> lo < x \<and> x < hi}"
      using AddRange_negative_part[OF more assms(2,4)] by blast
    define zero where "zero = (if lo < 0 \<and> hi \<ge> 0 then [0] else [] :: int list)"
    have zero: "(if lo < 0 \<and> hi \<ge> 0 then d @ [0] else d) = d @ zero" for d
      by (simp add: zero_def)
    obtain pos where pos:
      "(if hi - 1 > 0 then AddPowers kmax (((dst @ [lo]) @ neg) @ zero) (max (lo + 1) 1) (hi - 1) mult
        else Inr (((dst @ [lo]) @ neg) @ zero)) = Inr ((((dst @ [lo]) @ neg) @ zero) @ pos)"
      "sorted_wrt (<) pos" "set pos = {x. is_power mult x \<and> lo < x \<and> x < hi}"
      using AddRange_positive_part[OF more assms(2,3,5)] by blast
    define ys where "ys = lo # neg @ zero @ pos"
    let ?zs = "if hi \<noteq> last ys then ys @ [hi] else ys"
    have ends: "(lo = hi) = False" "(lo + 1 = hi) = False" using more by auto
    have "AddRange kmax dst lo hi mult = Inr (if hi \<noteq> last ((((dst @ [lo]) @ neg) @ zero) @ pos)
        then ((((dst @ [lo]) @ neg) @ zero) @ pos) @ [hi] else (((dst @ [lo]) @ neg) @ zero) @ pos)"
      by (simp only: AddRange_def rbind_BM_CHECK Let_def assms(1,2) ends if_True if_False chk
          rbind_Inr neg(1) zero pos(1))
    then have res: "AddRange kmax dst lo hi mult = Inr (dst @ ?zs)"
      by (simp add: ys_def)
    have sign: "x < 0" if "x \<in> set neg" for x using that neg(3) is_power_pos assms by force
    have sign': "0 < x" if "x \<in> set pos" for x using that pos(3) is_power_pos assms by force
    have cross: "x < y" if "x \<in> set neg" "y \<in> set pos" for x y
      using sign[OF that(1)] sign'[OF that(2)] by simp
    have inside: "lo < x" if "x \<in> set neg \<union> set pos" for x using that neg(3) pos(3) by auto
    have "sorted_wrt (<) ys"
      using neg(2) pos(2) sign sign' cross inside
      by (cases "lo < 0 \<and> hi \<ge> 0") (auto simp: ys_def sorted_wrt_less_append zero_def)
    moreover have zeros: "set zero = {x. x = 0 \<and> lo < 0 \<and> 0 \<le> hi}" by (auto simp: zero_def)
    have elements: "x \<in> set ys \<longleftrightarrow> x = lo \<or> is_power mult (- x) \<and> lo < x \<and> x < hi \<or>
        x = 0 \<and> lo < 0 \<and> 0 \<le> hi \<or> is_power mult x \<and> lo < x \<and> x < hi" for x
      by (simp add: ys_def neg(3) pos(3) zeros)
    have "x \<le> hi" if "x \<in> set ys" for x using that more unfolding elements by linarith
    then have "\<forall>x \<in> set ys. x \<le> hi" by blast
    ultimately have "sorted_wrt (<) ?zs" by (intro sorted_snoc_unless_last) (auto simp: ys_def)
    moreover have "last ys \<in> set ys"
      by (rule last_in_set) (simp add: ys_def)
    then have "set ?zs = set ys \<union> {hi}"
      by auto
    moreover have "set ys \<union> {hi} = range_values lo hi mult"
    proof (rule set_eqI)
      fix x
      show "x \<in> set ys \<union> {hi} \<longleftrightarrow> x \<in> range_values lo hi mult"
        unfolding range_values_def Un_iff elements mem_Collect_eq insert_iff using more by (cases "x = hi"; cases "x = lo") auto
    qed
    ultimately show ?thesis using res by (intro exI[of _ ?zs]) (simp add: ys_def)
  qed
qed

lemma AddRange_failures:
  "hi < lo \<Longrightarrow> AddRange kmax dst lo hi mult = Inl (CheckFailed ''hi >= lo'')"
  "lo \<le> hi \<Longrightarrow> mult < 2 \<Longrightarrow> AddRange kmax dst lo hi mult = Inl (CheckFailed ''mult >= 2'')"
  by (simp_all add: AddRange_def rbind_BM_CHECK)

text \<open>\<open>CreateRange\<close>, at the width of \<open>int64_t\<close>.\<close>

lemma CreateRange_spec:
  assumes "in_i64 lo" "in_i64 hi" "lo \<le> hi" "2 \<le> mult"
  shows "\<exists>xs. CreateRange lo hi mult = Inr xs \<and> sorted_wrt (<) xs \<and> set xs = range_values lo hi mult"
  using AddRange_spec[of lo hi mult int64_max "[]"] assms
  by (auto simp: CreateRange_def int_width_defs)

section \<open>Dense ranges\<close>

lemma dense_loop_steps:
  assumes "0 < step" "limit + step \<le> int64_max" "int64_min \<le> arg"
    and "n = nat (limit - arg + step) div nat step"
  shows "dense_loop limit step acc arg =
    Some (Inr (acc @ map (\<lambda>k. arg + int k * step) [0..<n]))"
  using assms
proof (induction n arbitrary: acc arg)
  case 0
  then have "nat (limit - arg + step) < nat step"
    by (metis div_eq_0_iff nat_eq_iff less_irrefl zero_less_nat_eq)
  then have "\<not> arg \<le> limit" using 0 by auto
  then show ?case by (subst dense_loop.simps) simp
next
  case (Suc n)
  have "nat step \<le> nat (limit - arg + step)"
    using Suc.prems(4) by (metis div_less not_less zero_neq_one Suc_neq_Zero)
  then have le: "arg \<le> limit" using Suc.prems(1) by linarith
  have "chk_int in_i64 (arg + step) = Inr (arg + step)"
    using Suc.prems le by (auto simp: chk_int_def int_width_defs)
  moreover have "n = nat (limit - (arg + step) + step) div nat step"
  proof -
    have "nat (limit - arg + step) = nat (limit - arg) + nat step"
      using le Suc.prems(1) by (simp add: nat_add_distrib)
    then have "nat (limit - arg + step) div nat step = Suc (nat (limit - arg) div nat step)"
      using Suc.prems(1) div_add_self2[of "nat step" "nat (limit - arg)"] by simp
    then show ?thesis using Suc.prems(4) by simp
  qed
  ultimately have "dense_loop limit step acc arg = Some (Inr ((acc @ [arg]) @
      map (\<lambda>k. (arg + step) + int k * step) [0..<n]))"
    using Suc.IH[of "arg + step" "acc @ [arg]"] Suc.prems le
    by (subst dense_loop.simps) simp
  moreover have "map (\<lambda>k. arg + int k * step) [0..<Suc n] =
      arg # map (\<lambda>k. (arg + step) + int k * step) [0..<n]"
    by (subst upt_conv_Cons, simp, subst map_Suc_upt[symmetric]) (simp add: comp_def algebra_simps)
  ultimately show ?case by simp
qed

text \<open>
  With a positive step and room for one step past the limit, exactly the values \<open>start + k * step\<close>
  up to the limit come out; with step zero the loop does not return.
\<close>

lemma CreateDenseRange_spec:
  assumes "0 < step" "int64_min \<le> start" "start \<le> limit" "limit + step \<le> int64_max"
  shows "CreateDenseRange start limit step =
    Some (Inr (map (\<lambda>k. start + int k * step) [0..<Suc (nat ((limit - start) div step))]))"
proof -
  have "nat (limit - start + step) div nat step = Suc (nat ((limit - start) div step))"
    using assms div_add_self2[of "nat step" "nat (limit - start)"]
    by (simp add: nat_add_distrib nat_div_distrib)
  then show ?thesis
    using dense_loop_steps[OF assms(1,4,2) refl, of "[]"] assms(3)
    by (simp add: CreateDenseRange_def)
qed

lemma dense_loop_zero:
  assumes "arg \<le> limit" "in_i64 arg"
  shows "dense_loop limit 0 acc arg = None"
proof (rule ccontr)
  assume "dense_loop limit 0 acc arg \<noteq> None"
  then obtain r where "dense_loop limit 0 acc arg = Some r" by blast
  then have "0 = (0::int) \<longrightarrow> arg \<le> limit \<longrightarrow> \<not> in_i64 arg"
    by (rule dense_loop.raw_induct[where P = "\<lambda>limit step acc arg r.
        step = 0 \<longrightarrow> arg \<le> limit \<longrightarrow> \<not> in_i64 arg", rotated])
      (auto split: if_splits sum.splits simp: chk_int_def)
  then show False using assms by blast
qed

section \<open>Properties\<close>

text \<open>C32: \<open>CreateDenseRange\<close> with a positive step and room for one more step after the limit returns
  exactly the values \<open>start\<close>, \<open>start + step\<close>, ... up to the limit, without overflow; with step zero,
  which it does not check for, it never returns.\<close>

theorem CreateDenseRange_exact:
  assumes "in_i64 start" "start \<le> limit" "limit + step \<le> int64_max" "0 \<le> step"
  shows "CreateDenseRange start limit step =
    (if step = 0 then None
     else Some (Inr (map (\<lambda>k. start + int k * step) [0..<Suc (nat ((limit - start) div step))])))"
  using CreateDenseRange_spec[of step start limit] dense_loop_zero[of start limit] assms
  by (auto simp: CreateDenseRange_def in_i64_def)

theorem CreateDenseRange_exact_witness:
  "CreateDenseRange 3 10 4 = Some (Inr [3, 7]) \<and> CreateDenseRange 3 10 0 = None"
  using CreateDenseRange_exact[of 3 10 4] CreateDenseRange_exact[of 3 10 0]
  by (simp add: int_width_defs upt_rec)

end
