(* ===== verification/Doubles.thy ===== *)
theory Doubles
  imports Prelude Complex_Main "HOL-Library.Log_Nat"
begin

text \<open>
  The \<open>double\<close> of the source: IEEE 754 binary64 with rounding to nearest, ties to even, which is
  what the supported compilers use.  A finite value is held as the rational number it denotes,
  so arithmetic is exact rational arithmetic followed by one rounding.  Signed zero, infinities and
  NaN are separate constructors.  Two things are left out: the payload and sign bit of NaN.

  The lemmas give what proofs about floating-point code need: rounding is monotone, it is the
  identity on representable numbers (all integers up to \<open>2\<^sup>5\<^sup>3\<close> among them), and comparisons with
  NaN are false.
\<close>

section \<open>Powers of two and the binary logarithm\<close>

abbreviation pow2 :: "int \<Rightarrow> rat" where
  "pow2 e \<equiv> 2 powi e"

lemma pow2_pos [simp]: "0 < pow2 e"
  by simp

lemma pow2_add: "pow2 (a + b) = pow2 a * pow2 b"
  by (simp add: power_int_add)

lemma pow2_mono: "a \<le> b \<Longrightarrow> pow2 a \<le> pow2 b"
  by (rule power_int_increasing) simp_all

lemma pow2_less_iff: "pow2 a < pow2 b \<longleftrightarrow> a < b"
  by (meson linorder_not_less not_less_iff_gr_or_eq one_less_numeral_iff pow2_mono
      power_int_strict_increasing semiring_norm(76))

lemma pow2_le_iff: "pow2 a \<le> pow2 b \<longleftrightarrow> a \<le> b"
  using pow2_less_iff[of b a] by (simp add: not_less[symmetric])

lemma pow2_nonneg_int:
  assumes "0 \<le> e" shows "pow2 e = of_int (2 ^ nat e)"
  using assms by (simp add: power_int_def)

lemma pow2_diff_Ints:
  assumes "a \<le> b" shows "pow2 b / pow2 a = of_int (2 ^ nat (b - a))"
proof -
  have "pow2 b = pow2 (b - a) * pow2 a"
    by (metis diff_add_cancel pow2_add)
  with assms show ?thesis by (simp add: pow2_nonneg_int)
qed

definition ilog2 :: "rat \<Rightarrow> int" where
  "ilog2 r = (let (n, d) = quotient_of r; e = bitlen n - bitlen d
              in if pow2 e \<le> r then e else e - 1)"

lemma bitlen_pow2:
  assumes "0 < n" shows "pow2 (bitlen n - 1) \<le> of_int n" "of_int n < pow2 (bitlen n)"
proof -
  from assms have b: "0 < bitlen n"
    by (metis bitlen_eq_zero_iff bitlen_nonneg leD order_le_less)
  from assms bitlen_bounds[of n]
  have c: "2 ^ nat (bitlen n - 1) \<le> n" "n < 2 ^ nat (bitlen n)" by auto
  have "(of_int (2 ^ nat (bitlen n - 1)) :: rat) \<le> of_int n"
    using c(1) by (simp only: of_int_le_iff)
  then show "pow2 (bitlen n - 1) \<le> of_int n"
    using b by (simp add: pow2_nonneg_int)
  have "(of_int n :: rat) < of_int (2 ^ nat (bitlen n))"
    using c(2) by (simp only: of_int_less_iff)
  then show "of_int n < pow2 (bitlen n)"
    using b by (simp add: pow2_nonneg_int)
qed

lemma ilog2_bounds:
  assumes "0 < r" shows "pow2 (ilog2 r) \<le> r \<and> r < pow2 (ilog2 r + 1)"
proof -
  obtain n d where q: "quotient_of r = (n, d)" by force
  then have d: "0 < d" and r: "r = of_int n / of_int d"
    by (auto simp: quotient_of_denom_pos quotient_of_div)
  with assms have n: "0 < n"
    by (simp add: zero_less_divide_iff)
  let ?e = "bitlen n - bitlen d"
  have "r < pow2 (bitlen n) / pow2 (bitlen d - 1)"
    unfolding r using bitlen_pow2[OF n] bitlen_pow2[OF d] d n
    by (intro frac_less) auto
  also have "\<dots> = pow2 (?e + 1)"
    by (simp add: power_int_add power_int_diff field_simps)
  finally have up: "r < pow2 (?e + 1)" .
  have "pow2 (?e - 1) = pow2 (bitlen n - 1) / pow2 (bitlen d)"
    by (simp add: power_int_add power_int_diff field_simps)
  also have "\<dots> \<le> r"
    unfolding r using bitlen_pow2[OF n] bitlen_pow2[OF d] d n
    by (intro frac_le) auto
  finally have lo: "pow2 (?e - 1) \<le> r" .
  show ?thesis
    using up lo by (auto simp: ilog2_def q Let_def)
qed

lemma ilog2_eqI: "pow2 e \<le> r \<Longrightarrow> r < pow2 (e + 1) \<Longrightarrow> ilog2 r = e"
proof -
  assume a: "pow2 e \<le> r" "r < pow2 (e + 1)"
  then have "0 < r" by (meson less_le_trans pow2_pos)
  from ilog2_bounds[OF this] a have "pow2 e < pow2 (ilog2 r + 1)" "pow2 (ilog2 r) < pow2 (e + 1)"
    by (auto intro: le_less_trans)
  then show "ilog2 r = e" by (simp add: pow2_less_iff)
qed

lemma ilog2_mono: "0 < r \<Longrightarrow> r \<le> s \<Longrightarrow> ilog2 r \<le> ilog2 s"
proof -
  assume "0 < r" "r \<le> s"
  with ilog2_bounds[of r] ilog2_bounds[of s] have "pow2 (ilog2 r) < pow2 (ilog2 s + 1)"
    by linarith
  then show "ilog2 r \<le> ilog2 s" by (simp add: pow2_less_iff)
qed

section \<open>Rounding to the nearest integer\<close>

text \<open>Ties go to the even integer.\<close>

definition rne :: "rat \<Rightarrow> int" where
  "rne x = (let f = \<lfloor>x\<rfloor>; d = x - of_int f
            in if d < 1/2 then f else if 1/2 < d then f + 1 else if even f then f else f + 1)"

lemma rne_error: "\<bar>of_int (rne x) - x\<bar> \<le> 1/2"
  using floor_correct[of x] unfolding rne_def Let_def by (simp split: if_splits)

lemma rne_of_int [simp]: "rne (of_int n) = n"
  by (simp add: rne_def)

lemma rne_mono:
  assumes "x \<le> y" shows "rne x \<le> rne y"
proof (cases "\<lfloor>x\<rfloor> = \<lfloor>y\<rfloor>")
  case True
  with assms show ?thesis by (auto simp: rne_def Let_def)
next
  case False
  with floor_mono[OF assms] have "\<lfloor>x\<rfloor> + 1 \<le> \<lfloor>y\<rfloor>" by simp
  moreover have "rne x \<le> \<lfloor>x\<rfloor> + 1" "\<lfloor>y\<rfloor> \<le> rne y"
    by (auto simp: rne_def Let_def)
  ultimately show ?thesis by linarith
qed

lemma rne_minus: "rne (- x) = - rne x"
proof (cases "x = of_int \<lfloor>x\<rfloor>")
  case True
  then have "rne (- x) = rne (of_int (- \<lfloor>x\<rfloor>))" by simp
  also have "\<dots> = - rne x" using True by (metis rne_of_int)
  finally show ?thesis .
next
  case False
  then have "\<lfloor>- x\<rfloor> = - \<lfloor>x\<rfloor> - 1"
    by (simp add: floor_minus ceiling_altdef)
  then show ?thesis
    by (auto simp: rne_def Let_def)
qed

lemma rne_le_iff_int: "x \<le> of_int n \<Longrightarrow> rne x \<le> n"
  using rne_mono[of x "of_int n"] by simp

lemma int_le_rne: "of_int n \<le> x \<Longrightarrow> n \<le> rne x"
  using rne_mono[of "of_int n" x] by simp

section \<open>Rounding to binary64\<close>

text \<open>
  \<open>grid_exp r\<close> is the exponent of the last place of a number as large as \<open>r\<close>: 53 significant bits,
  never below \<open>-1074\<close> (subnormals).  \<open>round53\<close> rounds to a multiple of that place, before overflow.
\<close>

definition grid_exp :: "rat \<Rightarrow> int" where
  "grid_exp r = max (ilog2 \<bar>r\<bar> - 52) (-1074)"

definition round53 :: "rat \<Rightarrow> rat" where
  "round53 r = (if r = 0 then 0
                else let q = pow2 (grid_exp r) in of_int (rne (r / q)) * q)"

text \<open>A number that binary64 represents, leaving the upper exponent bound aside.\<close>

definition representable :: "rat \<Rightarrow> bool" where
  "representable v \<longleftrightarrow> (\<exists>m e. v = of_int m * pow2 e \<and> \<bar>m\<bar> \<le> 2 ^ 53 \<and> -1074 \<le> e)"

lemma grid_exp_minus [simp]: "grid_exp (- r) = grid_exp r"
  by (simp add: grid_exp_def)

lemma round53_minus: "round53 (- r) = - round53 r"
  by (simp add: round53_def Let_def rne_minus)

lemma round53_0 [simp]: "round53 0 = 0"
  by (simp add: round53_def)

lemma round53_on_grid:
  assumes "r = of_int m * pow2 e" and "grid_exp r \<le> e"
  shows "round53 r = r"
proof (cases "r = 0")
  case False
  have "r / pow2 (grid_exp r) = of_int (m * 2 ^ nat (e - grid_exp r))"
    using assms pow2_diff_Ints[OF assms(2)] by (simp add: field_simps)
  then have "rne (r / pow2 (grid_exp r)) = m * 2 ^ nat (e - grid_exp r)"
    by (simp only: rne_of_int)
  with False show ?thesis
    by (simp add: round53_def Let_def)
       (metis \<open>r / pow2 (grid_exp r) = of_int (m * 2 ^ nat (e - grid_exp r))\<close>
          nonzero_eq_divide_eq pow2_pos less_irrefl of_int_mult of_int_power of_int_numeral)
qed simp

lemma representable_round53:
  assumes "representable v" shows "round53 v = v"
proof (cases "v = 0")
  case False
  from assms obtain m e where v: "v = of_int m * pow2 e" and m: "\<bar>m\<bar> \<le> 2 ^ 53" and e: "-1074 \<le> e"
    by (auto simp: representable_def)
  have av: "\<bar>v\<bar> = of_int \<bar>m\<bar> * pow2 e" by (simp add: v abs_mult)
  have "0 < \<bar>v\<bar>" using False by simp
  note lb = ilog2_bounds[OF this]
  show ?thesis
  proof (cases "grid_exp v \<le> e")
    case True
    then show ?thesis by (rule round53_on_grid[OF v])
  next
    case False
    with e have g: "e + 53 \<le> ilog2 \<bar>v\<bar>" "grid_exp v = ilog2 \<bar>v\<bar> - 52"
      by (auto simp: grid_exp_def)
    have "\<bar>v\<bar> \<le> of_int (2 ^ 53) * pow2 e"
      unfolding av using m by (intro mult_right_mono) (simp_all only: of_int_le_iff, simp)
    also have "\<dots> = pow2 (53 + e)" by (simp add: pow2_add pow2_nonneg_int)
    finally have "\<bar>v\<bar> \<le> pow2 (53 + e)" .
    moreover have "pow2 (53 + e) \<le> pow2 (ilog2 \<bar>v\<bar>)"
      using g(1) by (intro pow2_mono) simp
    ultimately have "\<bar>v\<bar> = pow2 (ilog2 \<bar>v\<bar>)" using lb by linarith
    then have "v = of_int 1 * pow2 (ilog2 \<bar>v\<bar>) \<or> v = of_int (-1) * pow2 (ilog2 \<bar>v\<bar>)"
      by (auto simp: abs_if split: if_splits)
    then show ?thesis
      using g(2) by (metis round53_on_grid diff_le_eq le_add_same_cancel1 zero_le_numeral)
  qed
qed simp

lemma representableI: "v = of_int m * pow2 e \<Longrightarrow> \<bar>m\<bar> \<le> 2 ^ 53 \<Longrightarrow> -1074 \<le> e \<Longrightarrow> representable v"
  by (auto simp: representable_def)

lemma representable_int: "\<bar>n\<bar> \<le> 2 ^ 53 \<Longrightarrow> representable (of_int n)"
  by (rule representableI[of _ n 0]) simp_all

lemma representable_pow2: "-1074 \<le> e \<Longrightarrow> representable (pow2 e)"
  by (rule representableI[of _ 1 e]) simp_all

lemma representable_minus [simp]: "representable (- v) = representable v"
proof -
  have "representable v \<Longrightarrow> representable (- v)" for v
  proof -
    assume "representable v"
    then obtain m e where "v = of_int m * pow2 e" "\<bar>m\<bar> \<le> 2 ^ 53" "-1074 \<le> e"
      unfolding representable_def by blast
    then show "representable (- v)"
      by (intro representableI[of _ "- m" e]) simp_all
  qed
  from this[of v] this[of "- v"] show ?thesis by auto
qed

text \<open>Rounding stays within the significand, so its results are representable.\<close>

lemma scaled_bound:
  assumes "r \<noteq> 0" shows "\<bar>r / pow2 (grid_exp r)\<bar> < 2 ^ 53"
proof -
  have "\<bar>r\<bar> < pow2 (ilog2 \<bar>r\<bar> + 1)" using ilog2_bounds[of "\<bar>r\<bar>"] assms by simp
  also have "\<dots> \<le> pow2 (53 + grid_exp r)" by (intro pow2_mono) (simp add: grid_exp_def)
  also have "\<dots> = 2 ^ 53 * pow2 (grid_exp r)" by (simp add: pow2_add pow2_nonneg_int)
  finally show ?thesis by (simp add: abs_divide pos_divide_less_eq)
qed

lemma representable_round53_result: "representable (round53 r)"
proof (cases "r = 0")
  case True
  then show ?thesis using representable_int[of 0] by simp
next
  case False
  let ?x = "r / pow2 (grid_exp r)"
  have "?x \<le> of_int (2 ^ 53)" "of_int (- (2 ^ 53)) \<le> ?x"
    using scaled_bound[OF False] unfolding abs_less_iff by (simp_all only: of_int_minus of_int_power of_int_numeral) linarith+
  then have "\<bar>rne ?x\<bar> \<le> 2 ^ 53"
    using rne_le_iff_int[of ?x "2 ^ 53"] int_le_rne[of "- (2 ^ 53)" ?x] by linarith
  then show ?thesis
    using False by (intro representableI[of _ "rne ?x" "grid_exp r"])
      (simp_all add: round53_def Let_def grid_exp_def)
qed

lemma round53_idem [simp]: "round53 (round53 r) = round53 r"
  by (rule representable_round53[OF representable_round53_result])

lemma round53_error: "\<bar>round53 r - r\<bar> \<le> pow2 (grid_exp r) / 2"
proof (cases "r = 0")
  case False
  let ?q = "pow2 (grid_exp r)"
  have "\<bar>round53 r - r\<bar> = \<bar>of_int (rne (r / ?q)) - r / ?q\<bar> * ?q"
    unfolding abs_mult_pos[OF less_imp_le[OF pow2_pos]] left_diff_distrib
    using False by (simp add: round53_def Let_def)
  also have "\<dots> \<le> 1 / 2 * ?q"
    by (intro mult_right_mono rne_error) simp
  finally show ?thesis by simp
qed simp

subsection \<open>Rounding is monotone\<close>

lemma round53_pos:
  "0 < r \<Longrightarrow> round53 r = of_int (rne (r / pow2 (grid_exp r))) * pow2 (grid_exp r)"
  by (simp add: round53_def Let_def)

lemma round53_nonneg: "0 \<le> r \<Longrightarrow> 0 \<le> round53 r"
  using int_le_rne[of 0 "r / pow2 (grid_exp r)"] by (simp add: round53_def Let_def)

lemma round53_le_pow2:
  assumes "0 < r" "r \<le> pow2 k" "grid_exp r \<le> k"
  shows "round53 r \<le> pow2 k"
proof -
  have "r / pow2 (grid_exp r) \<le> pow2 k / pow2 (grid_exp r)"
    using assms(2) by (simp add: divide_right_mono)
  also have "\<dots> = of_int (2 ^ nat (k - grid_exp r))"
    by (rule pow2_diff_Ints[OF assms(3)])
  finally have "rne (r / pow2 (grid_exp r)) \<le> 2 ^ nat (k - grid_exp r)"
    by (rule rne_le_iff_int)
  then have "of_int (rne (r / pow2 (grid_exp r))) \<le> (of_int (2 ^ nat (k - grid_exp r)) :: rat)"
    by (simp only: of_int_le_iff)
  then have "round53 r \<le> of_int (2 ^ nat (k - grid_exp r)) * pow2 (grid_exp r)"
    using assms(1) round53_pos by (simp only: mult_right_mono[OF _ less_imp_le[OF pow2_pos]])
  also have "\<dots> = pow2 k"
    using pow2_diff_Ints[OF assms(3)] by (simp add: field_simps)
  finally show ?thesis .
qed

lemma pow2_le_round53:
  assumes "0 < r" "pow2 k \<le> r" "grid_exp r \<le> k"
  shows "pow2 k \<le> round53 r"
proof -
  have "of_int (2 ^ nat (k - grid_exp r)) = pow2 k / pow2 (grid_exp r)"
    by (rule pow2_diff_Ints[OF assms(3), symmetric])
  also have "\<dots> \<le> r / pow2 (grid_exp r)"
    using assms(2) by (simp add: divide_right_mono)
  finally have "2 ^ nat (k - grid_exp r) \<le> rne (r / pow2 (grid_exp r))"
    by (rule int_le_rne)
  then have "(of_int (2 ^ nat (k - grid_exp r)) :: rat) \<le> of_int (rne (r / pow2 (grid_exp r)))"
    by (simp only: of_int_le_iff)
  then have "of_int (2 ^ nat (k - grid_exp r)) * pow2 (grid_exp r) \<le> round53 r"
    using assms(1) round53_pos by (simp only: mult_right_mono[OF _ less_imp_le[OF pow2_pos]])
  moreover have "of_int (2 ^ nat (k - grid_exp r)) * pow2 (grid_exp r) = pow2 k"
    using pow2_diff_Ints[OF assms(3)] by (simp add: field_simps)
  ultimately show ?thesis by simp
qed

lemma round53_mono_pos:
  assumes "0 < r" "r \<le> s" shows "round53 r \<le> round53 s"
proof -
  from assms have s: "0 < s" by simp
  have g: "grid_exp r \<le> grid_exp s"
    using ilog2_mono[OF assms] assms s by (simp add: grid_exp_def)
  show ?thesis
  proof (cases "grid_exp r = grid_exp s")
    case True
    have "rne (r / pow2 (grid_exp s)) \<le> rne (s / pow2 (grid_exp s))"
      using assms by (intro rne_mono divide_right_mono) auto
    with True assms s show ?thesis
      by (simp add: round53_def Let_def)
  next
    case False
    with g have s_exp: "grid_exp s = ilog2 s - 52" "grid_exp r < grid_exp s"
      using s by (auto simp: grid_exp_def)
    then have "ilog2 r + 1 \<le> ilog2 s"
      using assms s by (auto simp: grid_exp_def)
    then have "pow2 (ilog2 r + 1) \<le> pow2 (ilog2 s)" by (rule pow2_mono)
    with ilog2_bounds[OF assms(1)] have "r \<le> pow2 (ilog2 s)" by linarith
    then have "round53 r \<le> pow2 (ilog2 s)"
      using assms(1) s_exp by (intro round53_le_pow2) auto
    also have "\<dots> \<le> round53 s"
      using ilog2_bounds[OF s] s s_exp by (intro pow2_le_round53) auto
    finally show ?thesis .
  qed
qed

lemma round53_mono:
  assumes "r \<le> s" shows "round53 r \<le> round53 s"
proof (cases "0 < r")
  case True
  then show ?thesis using assms by (rule round53_mono_pos)
next
  case False
  show ?thesis
  proof (cases "0 \<le> s")
    case True
    then have "0 \<le> round53 s" by (rule round53_nonneg)
    moreover have "round53 r \<le> 0"
      using False round53_nonneg[of "- r"] by (simp add: round53_minus)
    ultimately show ?thesis by simp
  next
    case False
    then have "round53 (- s) \<le> round53 (- r)"
      using assms by (intro round53_mono_pos) auto
    then show ?thesis by (simp add: round53_minus)
  qed
qed

lemma round53_le_representable: "r \<le> v \<Longrightarrow> representable v \<Longrightarrow> round53 r \<le> v"
  by (metis round53_mono representable_round53)

lemma representable_le_round53: "v \<le> r \<Longrightarrow> representable v \<Longrightarrow> v \<le> round53 r"
  by (metis round53_mono representable_round53)

section \<open>The type of doubles\<close>

text \<open>\<open>Infty True\<close> is negative infinity; \<open>Fin 0\<close> is positive zero.\<close>

datatype double = NaN | Infty bool | NegZero | Fin rat

fun dval :: "double \<Rightarrow> rat" where
  "dval (Fin r) = r"
| "dval _ = 0"

fun dfinite :: "double \<Rightarrow> bool" where
  "dfinite NaN = False"
| "dfinite (Infty _) = False"
| "dfinite _ = True"

fun dneg :: "double \<Rightarrow> bool" where
  "dneg (Infty b) = b"
| "dneg NegZero = True"
| "dneg (Fin r) = (r < 0)"
| "dneg NaN = False"

fun wf_double :: "double \<Rightarrow> bool" where
  "wf_double (Fin r) = (representable r \<and> \<bar>r\<bar> < 2 ^ 1024)"
| "wf_double _ = True"

definition rnd :: "rat \<Rightarrow> double" where
  "rnd r = (let v = round53 r in
     if 2 ^ 1024 \<le> \<bar>v\<bar> then Infty (v < 0) else if v = 0 \<and> r < 0 then NegZero else Fin v)"

definition signed_zero :: "bool \<Rightarrow> double" where
  "signed_zero b = (if b then NegZero else Fin 0)"

text \<open>Rounding a product or quotient: an exact or underflown zero takes the sign of the operands.\<close>

definition rnd_signed :: "bool \<Rightarrow> rat \<Rightarrow> double" where
  "rnd_signed b r = (if round53 r = 0 then signed_zero b else rnd r)"

subsection \<open>Arithmetic and comparison\<close>

instantiation double :: "{zero, one, plus, uminus, minus, times, inverse, ord}"
begin

definition zero_double :: double where "0 = Fin 0"

definition one_double :: double where "1 = Fin 1"

fun plus_double :: "double \<Rightarrow> double \<Rightarrow> double" where
  "plus_double NaN _ = NaN"
| "plus_double _ NaN = NaN"
| "plus_double (Infty a) (Infty b) = (if a = b then Infty a else NaN)"
| "plus_double (Infty a) _ = Infty a"
| "plus_double _ (Infty b) = Infty b"
| "plus_double NegZero NegZero = NegZero"
| "plus_double x y = rnd (dval x + dval y)"

fun uminus_double :: "double \<Rightarrow> double" where
  "uminus_double NaN = NaN"
| "uminus_double (Infty b) = Infty (\<not> b)"
| "uminus_double NegZero = Fin 0"
| "uminus_double (Fin r) = (if r = 0 then NegZero else Fin (- r))"

definition minus_double :: "double \<Rightarrow> double \<Rightarrow> double" where
  "x - y = x + - (y :: double)"

fun times_double :: "double \<Rightarrow> double \<Rightarrow> double" where
  "times_double NaN _ = NaN"
| "times_double _ NaN = NaN"
| "times_double (Infty a) y =
     (if dfinite y \<and> dval y = 0 then NaN else Infty (a \<noteq> dneg y))"
| "times_double x (Infty b) =
     (if dfinite x \<and> dval x = 0 then NaN else Infty (dneg x \<noteq> b))"
| "times_double x y = rnd_signed (dneg x \<noteq> dneg y) (dval x * dval y)"

fun divide_double :: "double \<Rightarrow> double \<Rightarrow> double" where
  "divide_double NaN _ = NaN"
| "divide_double _ NaN = NaN"
| "divide_double (Infty a) y = (if dfinite y then Infty (a \<noteq> dneg y) else NaN)"
| "divide_double x (Infty b) = signed_zero (dneg x \<noteq> b)"
| "divide_double x y =
     (if dval y = 0 then (if dval x = 0 then NaN else Infty (dneg x \<noteq> dneg y))
      else rnd_signed (dneg x \<noteq> dneg y) (dval x / dval y))"

definition inverse_double :: "double \<Rightarrow> double" where
  "inverse_double x = (1 :: double) div x"

fun less_double :: "double \<Rightarrow> double \<Rightarrow> bool" where
  "less_double NaN _ = False"
| "less_double _ NaN = False"
| "less_double (Infty a) (Infty b) = (a \<and> \<not> b)"
| "less_double (Infty a) _ = a"
| "less_double _ (Infty b) = (\<not> b)"
| "less_double x y = (dval x < dval y)"

fun less_eq_double :: "double \<Rightarrow> double \<Rightarrow> bool" where
  "less_eq_double NaN _ = False"
| "less_eq_double _ NaN = False"
| "less_eq_double (Infty a) (Infty b) = (a \<or> \<not> b)"
| "less_eq_double (Infty a) _ = a"
| "less_eq_double _ (Infty b) = (\<not> b)"
| "less_eq_double x y = (dval x \<le> dval y)"

instance ..

end

text \<open>The \<open>==\<close> of the source, which is not HOL equality: NaN differs from itself, the zeros agree.\<close>

definition deq :: "double \<Rightarrow> double \<Rightarrow> bool" where
  "deq x y \<longleftrightarrow> x \<le> y \<and> y \<le> x"

text \<open>\<open>std::max\<close> and \<open>std::min\<close>, with the argument order that decides what a NaN does.\<close>

definition std_max :: "'a::ord \<Rightarrow> 'a \<Rightarrow> 'a" where
  "std_max a b = (if a < b then b else a)"

definition std_min :: "'a::ord \<Rightarrow> 'a \<Rightarrow> 'a" where
  "std_min a b = (if b < a then b else a)"

fun dabs :: "double \<Rightarrow> double" where
  "dabs NaN = NaN"
| "dabs (Infty _) = Infty False"
| "dabs NegZero = Fin 0"
| "dabs (Fin r) = Fin \<bar>r\<bar>"

subsection \<open>Conversions\<close>

text \<open>\<open>static_cast<double>\<close> of an integer.\<close>

definition double_of_int :: "int \<Rightarrow> double" where
  "double_of_int n = rnd (of_int n)"

text \<open>\<open>static_cast<int64_t>\<close> of a double truncates; out of range it is undefined.\<close>

definition int_of_double :: "double \<Rightarrow> int res" where
  "int_of_double x =
     (if dfinite x then
        (let n = (if dval x < 0 then - \<lfloor>- dval x\<rfloor> else \<lfloor>dval x\<rfloor>)
         in if in_i64 n then Inr n else Inl (Undefined ''double to int64 out of range''))
      else Inl (Undefined ''double to int64 out of range''))"

text \<open>\<open>std::llround\<close> and \<open>std::lround\<close>: half away from zero; out of range the result is unspecified.\<close>

definition llround :: "double \<Rightarrow> int res" where
  "llround x =
     (if dfinite x then
        (let n = (if dval x < 0 then - \<lfloor>- dval x + 1/2\<rfloor> else \<lfloor>dval x + 1/2\<rfloor>)
         in if in_i64 n then Inr n else Inl (Undefined ''llround out of range''))
      else Inl (Undefined ''llround out of range''))"

function isqrt :: "int \<Rightarrow> int" where
  "isqrt n = (if n \<le> 0 then 0
              else let s = 2 * isqrt (n div 4) in if (s + 1) * (s + 1) \<le> n then s + 1 else s)"
  by pat_completeness auto
termination
  by (relation "measure nat") auto

declare isqrt.simps [simp del]

text \<open>\<open>std::sqrt\<close> is correctly rounded: scale to a 53-bit integer square root, then round to even.\<close>

fun dsqrt :: "double \<Rightarrow> double" where
  "dsqrt NaN = NaN"
| "dsqrt NegZero = NegZero"
| "dsqrt (Infty b) = (if b then NaN else Infty False)"
| "dsqrt (Fin r) =
     (if r < 0 then NaN else if r = 0 then Fin 0 else
      let e = ilog2 r div 2 - 52;
          t = r / pow2 (2 * e);
          f = isqrt \<lfloor>t\<rfloor>;
          h = (of_int f + 1/2) * (of_int f + 1/2)
      in Fin (of_int (if t < h \<or> t = h \<and> even f then f else f + 1) * pow2 e))"

section \<open>Facts about doubles\<close>

subsection \<open>Exact results\<close>

lemma rnd_exact:
  assumes "representable v" "\<bar>v\<bar> < 2 ^ 1024" shows "rnd v = Fin v"
  using assms by (auto simp: rnd_def Let_def representable_round53 not_le)

lemma double_of_int_exact:
  assumes "\<bar>n\<bar> \<le> 2 ^ 53" shows "double_of_int n = Fin (of_int n)"
proof -
  have "\<bar>of_int n :: rat\<bar> \<le> of_int (2 ^ 53)"
    using assms by (simp only: of_int_abs[symmetric] of_int_le_iff)
  also have "\<dots> < 2 ^ 1024" by simp
  finally show ?thesis
    unfolding double_of_int_def using assms by (intro rnd_exact representable_int)
qed

lemma wf_rnd: "wf_double (rnd r)"
  by (simp add: rnd_def Let_def representable_round53_result)

text \<open>A certificate for a rounded value: the significand \<open>m\<close> and exponent \<open>e\<close> of the result.\<close>

lemma rnd_certificate:
  assumes "pow2 (e + 52) \<le> r" "r < pow2 (e + 53)" "-1074 \<le> e" "e \<le> 970"
    and "\<bar>r / pow2 e - of_int m\<bar> < 1 / 2" and "v = of_int m * pow2 e" and "v < 2 ^ 1024"
  shows "rnd r = Fin v"
proof -
  have r: "0 < r" using assms(1) by (meson less_le_trans pow2_pos)
  have "ilog2 r = e + 52"
    by (rule ilog2_eqI) (use assms(1,2) in \<open>simp_all add: add.commute add.left_commute\<close>)
  with r assms(3) have g: "grid_exp r = e" by (simp add: grid_exp_def)
  have "\<bar>of_int (rne (r / pow2 e)) - r / pow2 e\<bar> \<le> 1 / 2" by (rule rne_error)
  with assms(5) have "\<bar>of_int (rne (r / pow2 e)) - (of_int m :: rat)\<bar> < 1" by linarith
  then have "rne (r / pow2 e) = m" by linarith
  with r g assms(6) have v: "round53 r = v"
    by (simp add: round53_pos)
  have "0 \<le> v" using round53_nonneg[of r] r v by simp
  with v assms(7) r show ?thesis by (simp add: rnd_def Let_def)
qed

subsection \<open>Order\<close>

lemma less_Fin [simp]: "Fin a < Fin b \<longleftrightarrow> a < b"
  and le_Fin [simp]: "Fin a \<le> Fin b \<longleftrightarrow> a \<le> b"
  by simp_all

lemma less_finite: "dfinite x \<Longrightarrow> dfinite y \<Longrightarrow> x < y \<longleftrightarrow> dval x < dval y"
  by (cases x; cases y) simp_all

lemma le_finite: "dfinite x \<Longrightarrow> dfinite y \<Longrightarrow> x \<le> y \<longleftrightarrow> dval x \<le> dval y"
  by (cases x; cases y) simp_all

lemma less_NaN [simp]: "\<not> x < NaN" "\<not> NaN < x"
  by (cases x; simp)+

lemma le_NaN [simp]: "\<not> x \<le> NaN" "\<not> NaN \<le> x"
  by (cases x; simp)+

lemma double_irrefl [simp]: "\<not> x < (x :: double)"
  by (cases x) auto

lemma double_le_refl: "x \<noteq> NaN \<Longrightarrow> x \<le> (x :: double)"
  by (cases x) auto

lemma double_le_trans: "x \<le> y \<Longrightarrow> y \<le> z \<Longrightarrow> x \<le> (z :: double)"
  by (cases x; cases y; cases z) auto

lemma double_less_imp_le: "x < y \<Longrightarrow> x \<le> (y :: double)"
  by (cases x; cases y) auto

lemma double_not_less: "x \<noteq> NaN \<Longrightarrow> y \<noteq> NaN \<Longrightarrow> \<not> x < y \<longleftrightarrow> y \<le> (x :: double)"
  by (cases x; cases y) auto

lemma dval_rnd: "dfinite (rnd r) \<Longrightarrow> dval (rnd r) = round53 r"
  by (auto simp: rnd_def Let_def split: if_splits)

lemma rnd_neq_NaN [simp]: "rnd r \<noteq> NaN"
  by (simp add: rnd_def Let_def)

lemma rnd_finite: "\<bar>round53 r\<bar> < 2 ^ 1024 \<Longrightarrow> dfinite (rnd r)"
  by (auto simp: rnd_def Let_def)

lemma rnd_mono: "r \<le> s \<Longrightarrow> rnd r \<le> rnd s"
proof -
  assume "r \<le> s"
  then have "round53 r \<le> round53 s" by (rule round53_mono)
  then show ?thesis by (auto simp: rnd_def Let_def abs_if split: if_splits)
qed

lemma rnd_le_Fin: "r \<le> v \<Longrightarrow> representable v \<Longrightarrow> \<bar>v\<bar> < 2 ^ 1024 \<Longrightarrow> rnd r \<le> Fin v"
  by (metis rnd_exact rnd_mono)

lemma Fin_le_rnd: "v \<le> r \<Longrightarrow> representable v \<Longrightarrow> \<bar>v\<bar> < 2 ^ 1024 \<Longrightarrow> Fin v \<le> rnd r"
  by (metis rnd_exact rnd_mono)

lemma std_max_finite:
  "dfinite x \<Longrightarrow> dfinite y \<Longrightarrow> dfinite (std_max x y) \<and> dval (std_max x y) = max (dval x) (dval y)"
  by (auto simp: std_max_def less_finite)

lemma rnd_sandwich:
  assumes "representable a" "representable b" "\<bar>a\<bar> < 2 ^ 1024" "\<bar>b\<bar> < 2 ^ 1024" "a \<le> r" "r \<le> b"
  shows "dfinite (rnd r) \<and> a \<le> dval (rnd r) \<and> dval (rnd r) \<le> b"
proof -
  have "a \<le> round53 r" "round53 r \<le> b"
    using assms by (auto intro: representable_le_round53 round53_le_representable)
  moreover from this assms have "\<bar>round53 r\<bar> < 2 ^ 1024" by linarith
  ultimately show ?thesis using rnd_finite dval_rnd by auto
qed

subsection \<open>Arithmetic on finite operands\<close>

lemma rnd_signed_finite:
  "dfinite (rnd r) \<Longrightarrow> dfinite (rnd_signed b r) \<and> dval (rnd_signed b r) = round53 r"
  by (auto simp: rnd_signed_def signed_zero_def dval_rnd)

lemma times_finite:
  "dfinite x \<Longrightarrow> dfinite y \<Longrightarrow> x * y = rnd_signed (dneg x \<noteq> dneg y) (dval x * dval y)"
  by (cases x; cases y) simp_all

lemma divide_finite:
  "dfinite x \<Longrightarrow> dfinite y \<Longrightarrow> dval y \<noteq> 0 \<Longrightarrow>
     x / y = rnd_signed (dneg x \<noteq> dneg y) (dval x / dval y)"
  by (cases x; cases y) simp_all

lemma plus_finite:
  "dfinite x \<Longrightarrow> dfinite y \<Longrightarrow> dfinite (rnd (dval x + dval y)) \<Longrightarrow>
     dfinite (x + y) \<and> dval (x + y) = round53 (dval x + dval y)"
  by (cases x; cases y) (auto simp: dval_rnd)

subsection \<open>Evaluation on exact operands\<close>

text \<open>For concrete computations whose intermediate results are all representable.\<close>

lemma representable_numerals [dbl_simps]:
  "representable 0" "representable 1"
  "(numeral n :: int) \<le> 2 ^ 53 \<Longrightarrow> representable (numeral n)"
  "(numeral n :: int) \<le> 2 ^ 53 \<Longrightarrow> representable (- numeral n)"
  using representable_int[of 0] representable_int[of 1] representable_int[of "numeral n"]
    representable_int[of "- numeral n"] by simp_all

lemma representable_halves [dbl_simps]:
  "(numeral n :: int) \<le> 2 ^ 53 \<Longrightarrow> representable (numeral n / 2)" "representable (1 / 2)"
  "(numeral n :: int) \<le> 2 ^ 53 \<Longrightarrow> representable (numeral n / 4)" "representable (1 / 4)"
  "(numeral n :: int) \<le> 2 ^ 53 \<Longrightarrow> representable (numeral n / 8)" "representable (1 / 8)"
  using representableI[of _ "numeral n" "-1"] representableI[of "1/2" 1 "-1"]
    representableI[of _ "numeral n" "-2"] representableI[of "1/4" 1 "-2"]
    representableI[of _ "numeral n" "-3"] representableI[of "1/8" 1 "-3"]
  by (simp_all add: power_int_def field_simps)

lemma rnd_signed_exact [dbl_simps]:
  "representable r \<Longrightarrow> \<bar>r\<bar> < 2 ^ 1024 \<Longrightarrow> rnd_signed b r = (if r = 0 then signed_zero b else Fin r)"
  by (simp add: rnd_signed_def representable_round53 rnd_exact)

lemmas rnd_exact_eval [dbl_simps] = rnd_exact double_of_int_exact signed_zero_def

end
