(* ===== verification/StdMap.thy ===== *)
theory StdMap
  imports Prelude
begin

text \<open>
  \<open>std::map\<close> (and \<open>std::set\<close>, a map to \<open>unit\<close>): a list of key/value pairs in increasing key order,
  because the source iterates over its maps and prints what it finds in that order.  Strings are
  compared as \<open>std::string\<close> does, character by character as unsigned bytes.  The locale \<open>ordered_map\<close>
  is the interface the other components rely on; its facts about loops of \<open>emplace\<close> are proved once
  there and used through the interpretation \<open>smap\<close> on the sorted list.
\<close>

section \<open>The interface\<close>

locale ordered_map =
  fixes lookup :: "'m \<Rightarrow> 'k::linorder \<Rightarrow> 'v option"
    and put :: "'k \<Rightarrow> 'v \<Rightarrow> 'm \<Rightarrow> 'm"
    and entries :: "'m \<Rightarrow> ('k \<times> 'v) list"
    and invar :: "'m \<Rightarrow> bool"
  assumes lookup_put: "invar m \<Longrightarrow> lookup (put k v m) = (lookup m)(k \<mapsto> v)"
    and invar_put: "invar m \<Longrightarrow> invar (put k v m)"
    and entries_lookup: "invar m \<Longrightarrow> map_of (entries m) = lookup m"
    and entries_sorted: "invar m \<Longrightarrow> sorted_wrt (<) (map fst (entries m))"
begin

lemma keys_of_entries: "invar m \<Longrightarrow> fst ` set (entries m) = dom (lookup m)"
  by (simp add: dom_map_of_conv_image_fst[symmetric] entries_lookup)

text \<open>Two maps with the same bindings are iterated over in the same order.\<close>

lemma entries_unique:
  assumes "invar m" "invar m'" "lookup m = lookup m'"
  shows "entries m = entries m'"
proof (rule map_sorted_distinct_set_unique[of fst])
  have d: "distinct (map fst (entries x))" if "invar x" for x
    using entries_sorted[OF that] by (simp add: strict_sorted_iff)
  have m: "set (entries x) = {(k, v). lookup x k = Some v}" if "invar x" for x
    using d[OF that] entries_lookup[OF that] by (auto simp flip: map_of_eq_Some_iff)
  show eq: "set (entries m) = set (entries m')"
    by (simp only: m[OF assms(1)] m[OF assms(2)] assms(3))
  show "inj_on fst (set (entries m) \<union> set (entries m'))"
    unfolding eq Un_absorb m[OF assms(2)] by (auto simp: inj_on_def)
  show "sorted (map fst (entries m))" "distinct (map fst (entries m))"
    "sorted (map fst (entries m'))" "distinct (map fst (entries m'))"
    using assms d entries_sorted by (auto simp: strict_sorted_iff)
qed

text \<open>A loop that emplaces: entries already there win, then the first of the new ones.\<close>

lemma emplace_all:
  assumes "invar m"
  defines "emplace \<equiv> (\<lambda>m (k, v). if lookup m k = None then put k v m else m)"
  shows "invar (foldl emplace m kvs) \<and> lookup (foldl emplace m kvs) = map_of kvs ++ lookup m"
  using assms(1)
proof (induction kvs arbitrary: m)
  case (Cons kv kvs)
  obtain k v where kv: "kv = (k, v)" by force
  have step: "invar (emplace m kv)" "lookup (emplace m kv) = [k \<mapsto> v] ++ lookup m"
    using Cons.prems by (auto simp: emplace_def kv lookup_put invar_put fun_eq_iff map_add_def
        split: option.splits)
  have "map_of kvs ++ ([k \<mapsto> v] ++ lookup m) = map_of (kv # kvs) ++ lookup m"
    unfolding map_add_assoc by (rule ext) (auto simp: kv map_add_def split: option.splits)
  then show ?case
    using Cons.IH[OF step(1)] by (simp only: step(2) foldl_Cons)
qed simp

end

section \<open>The model: a sorted association list\<close>

type_synonym ('k, 'v) stdmap = "('k \<times> 'v) list"

definition map_invar :: "('k::linorder, 'v) stdmap \<Rightarrow> bool" where
  "map_invar m \<longleftrightarrow> sorted_wrt (<) (map fst m)"

text \<open>\<open>m[k] = v\<close>.\<close>

fun map_put :: "'k::linorder \<Rightarrow> 'v \<Rightarrow> ('k, 'v) stdmap \<Rightarrow> ('k, 'v) stdmap" where
  "map_put k v [] = [(k, v)]"
| "map_put k v ((k', v') # m) =
     (if k < k' then (k, v) # (k', v') # m
      else if k = k' then (k, v) # m
      else (k', v') # map_put k v m)"

text \<open>\<open>m.emplace(k, v)\<close>: the map, and whether the insertion took place.\<close>

definition map_emplace :: "'k::linorder \<Rightarrow> 'v \<Rightarrow> ('k, 'v) stdmap \<Rightarrow> ('k, 'v) stdmap \<times> bool" where
  "map_emplace k v m = (if map_of m k = None then (map_put k v m, True) else (m, False))"

text \<open>\<open>m.erase(k)\<close>.\<close>

definition map_erase :: "'k::linorder \<Rightarrow> ('k, 'v) stdmap \<Rightarrow> ('k, 'v) stdmap" where
  "map_erase k m = filter (\<lambda>kv. fst kv \<noteq> k) m"

lemma map_of_map_put: "map_of (map_put k v m) = (map_of m)(k \<mapsto> v)"
  by (induction m) (auto simp: fun_eq_iff)

lemma keys_map_put: "fst ` set (map_put k v m) = insert k (fst ` set m)"
  by (simp flip: dom_map_of_conv_image_fst add: map_of_map_put)

lemma map_invar_put: "map_invar m \<Longrightarrow> map_invar (map_put k v m)"
  unfolding map_invar_def
proof (induction m)
  case (Cons kv m)
  obtain k' v' where kv: "kv = (k', v')" by force
  have "\<forall>x \<in> set (map fst (map_put k v m)). x = k \<or> k' < x"
    using Cons.prems keys_map_put[of k v m] by (auto simp: kv)
  then show ?case using Cons by (auto simp: kv)
qed simp

lemma map_invar_erase: "map_invar m \<Longrightarrow> map_invar (map_erase k m)"
  by (simp add: map_invar_def map_erase_def sorted_wrt_map sorted_wrt_filter)

lemma map_of_erase: "map_of (map_erase k m) = (map_of m)(k := None)"
  by (induction m) (auto simp: map_erase_def fun_eq_iff)

lemma map_invar_Nil [simp]: "map_invar []"
  by (simp add: map_invar_def)

lemma map_invar_map_snd: "map_invar (map (\<lambda>(k, v). (k, f k v)) m) = map_invar m"
  by (simp add: map_invar_def case_prod_unfold comp_def)

interpretation smap: ordered_map map_of map_put "\<lambda>m. m" map_invar
  by unfold_locales (simp_all add: map_of_map_put map_invar_put, simp add: map_invar_def)

lemma map_put_length:
  assumes "map_invar m"
  shows "length (map_put k v m) = (if map_of m k = None then Suc (length m) else length m)"
proof -
  have len: "length x = card (dom (map_of x))" if "map_invar x" for x :: "('a, 'b) stdmap"
    using that distinct_card[of "map fst x"]
    by (simp add: map_invar_def strict_sorted_iff dom_map_of_conv_image_fst)
  show ?thesis
    by (simp add: len assms map_invar_put map_of_map_put card_insert_if finite_dom_map_of domIff)
qed

text \<open>A \<open>std::set\<close> of keys.\<close>

definition set_insert :: "'k::linorder \<Rightarrow> 'k list \<Rightarrow> 'k list" where
  "set_insert k s = map fst (map_put k () (map (\<lambda>x. (x, ())) s))"

lemma set_set_insert [simp]: "set (set_insert k s) = insert k (set s)"
  using keys_map_put[of k "()" "map (\<lambda>x. (x, ())) s"] by (simp add: set_insert_def image_image)

lemma sorted_set_insert: "sorted_wrt (<) s \<Longrightarrow> sorted_wrt (<) (set_insert k s)"
  using map_invar_put[of "map (\<lambda>x. (x, ())) s" k "()"]
  by (simp add: set_insert_def map_invar_def comp_def)

end
