(* ===== verification/CText.thy ===== *)
theory CText
  imports Prelude Doubles
begin

text \<open>
  The conversions between numbers and text that the source takes from the C and C++ standard
  library: \<open>printf\<close> conversions and \<open>ostream\<close> insertion of integers and doubles (a finite double
  is printed from its exact value, as glibc does), \<open>strtol\<close>, \<open>strtoul\<close> and \<open>strtod\<close> in the "C"
  locale, and the character classes of \<open>ctype.h\<close>.  A C string is a \<open>string\<close> without NUL; the end
  pointer of a \<open>strto*\<close> function is modelled by the rest of the input it points to.
\<close>

section \<open>C strings\<close>

text \<open>What a C function sees of the characters of a \<open>std::string\<close>: those before the first NUL.\<close>

definition c_str :: "string \<Rightarrow> string" where
  "c_str str = takeWhile (\<lambda>c. c \<noteq> CHR 0x00) str"

lemma c_str_plain: "CHR 0x00 \<notin> set str \<Longrightarrow> c_str str = str"
  by (simp add: c_str_def takeWhile_eq_all_conv) metis

section \<open>Characters\<close>

definition is_space :: "char \<Rightarrow> bool" where
  "is_space c \<longleftrightarrow> of_char c \<in> {32, 9, 10, 11, 12, 13 :: nat}"

definition is_digit :: "char \<Rightarrow> bool" where
  "is_digit c \<longleftrightarrow> 48 \<le> (of_char c :: nat) \<and> (of_char c :: nat) \<le> 57"

definition is_upper :: "char \<Rightarrow> bool" where
  "is_upper c \<longleftrightarrow> 65 \<le> (of_char c :: nat) \<and> (of_char c :: nat) \<le> 90"

definition is_lower :: "char \<Rightarrow> bool" where
  "is_lower c \<longleftrightarrow> 97 \<le> (of_char c :: nat) \<and> (of_char c :: nat) \<le> 122"

definition is_alnum :: "char \<Rightarrow> bool" where
  "is_alnum c \<longleftrightarrow> is_digit c \<or> is_upper c \<or> is_lower c"

definition to_lower :: "char \<Rightarrow> char" where
  "to_lower c = (if is_upper c then char_of (of_char c + 32 :: nat) else c)"

definition to_upper :: "char \<Rightarrow> char" where
  "to_upper c = (if is_lower c then char_of (of_char c - 32 :: nat) else c)"

definition digit_value :: "char \<Rightarrow> nat" where
  "digit_value c = of_char c - 48"

definition digit_char :: "nat \<Rightarrow> char" where
  "digit_char d = char_of (48 + d)"

lemma digit_char_inverse [simp]: "d < 10 \<Longrightarrow> digit_value (digit_char d) = d"
  by (simp add: digit_value_def digit_char_def)

lemma is_digit_digit_char [simp]: "d < 10 \<Longrightarrow> is_digit (digit_char d)"
  by (simp add: is_digit_def digit_char_def)

lemma digit_not_space: "is_digit c \<Longrightarrow> \<not> is_space c"
  by (auto simp: is_digit_def is_space_def)

section \<open>Integers to text\<close>

fun show_nat :: "nat \<Rightarrow> string" where
  "show_nat n = (if n < 10 then [digit_char n] else show_nat (n div 10) @ [digit_char (n mod 10)])"

declare show_nat.simps [simp del]

definition show_int :: "int \<Rightarrow> string" where
  "show_int n = (if n < 0 then ''-'' @ show_nat (nat (- n)) else show_nat (nat n))"

lemma show_nat_neq_Nil [simp]: "show_nat n \<noteq> []"
  by (subst show_nat.simps) simp

lemma show_nat_digits: "\<forall>c \<in> set (show_nat n). is_digit c"
proof (induction n rule: show_nat.induct)
  case (1 n)
  then show ?case by (subst show_nat.simps) (auto split: if_splits)
qed

definition pad_left :: "nat \<Rightarrow> string \<Rightarrow> string" where
  "pad_left w s = replicate (w - length s) CHR '' '' @ s"

definition pad_right :: "nat \<Rightarrow> string \<Rightarrow> string" where
  "pad_right w s = s @ replicate (w - length s) CHR '' ''"

lemma length_pad_left [simp]: "length (pad_left w s) = max w (length s)"
  by (simp add: pad_left_def)

lemma length_pad_right [simp]: "length (pad_right w s) = max w (length s)"
  by (simp add: pad_right_def)

section \<open>Text to integers\<close>

fun read_digits :: "nat \<Rightarrow> string \<Rightarrow> nat \<times> string" where
  "read_digits acc [] = (acc, [])"
| "read_digits acc (c # s) =
     (if is_digit c then read_digits (10 * acc + digit_value c) s else (acc, c # s))"

definition split_sign :: "string \<Rightarrow> bool \<times> string" where
  "split_sign s = (case s of
       c # t \<Rightarrow> if c = CHR ''-'' then (True, t) else if c = CHR ''+'' then (False, t) else (False, s)
     | [] \<Rightarrow> (False, []))"

text \<open>
  \<open>strtol(s, &end, 10)\<close> for a 64-bit \<open>long\<close>: the value, the text \<open>end\<close> points to, and whether
  \<open>errno\<close> was set to \<open>ERANGE\<close>.  Without a digit nothing is consumed and the value is 0.
\<close>

definition strtol :: "string \<Rightarrow> int \<times> string \<times> bool" where
  "strtol s = (let (neg, t) = split_sign (dropWhile is_space s) in
     case t of
       c # _ \<Rightarrow>
         if is_digit c then
           (let (n, rest) = read_digits 0 t; v = (if neg then - int n else int n)
            in if v < int64_min then (int64_min, rest, True)
               else if int64_max < v then (int64_max, rest, True) else (v, rest, False))
         else (0, s, False)
     | [] \<Rightarrow> (0, s, False))"

lemma read_digits_append:
  assumes "\<forall>c \<in> set s. is_digit c"
  shows "read_digits acc (s @ t) = read_digits (foldl (\<lambda>a c. 10 * a + digit_value c) acc s) t"
  using assms by (induction s arbitrary: acc) simp_all

lemma read_digits_stop: "t = [] \<or> \<not> is_digit (hd t) \<Longrightarrow> read_digits acc t = (acc, t)"
  by (cases t) auto

lemma foldl_show_nat: "foldl (\<lambda>a c. 10 * a + digit_value c) 0 (show_nat n) = n"
proof (induction n rule: show_nat.induct)
  case (1 n)
  then show ?case by (subst show_nat.simps) auto
qed

lemma length_show_nat_le: "0 < k \<Longrightarrow> length (show_nat n) \<le> k \<longleftrightarrow> n < 10 ^ k"
proof (induction n arbitrary: k rule: show_nat.induct)
  case (1 n)
  show ?case
  proof (cases "n < 10")
    case True
    then have "n < 10 ^ k" using 1(2) by (metis One_nat_def Suc_leI less_le_trans numeral_One one_le_numeral
        power_increasing power_one_right)
    then show ?thesis using True 1(2) by (subst show_nat.simps) simp
  next
    case False
    show ?thesis
    proof (cases "k = 1")
      case True
      then show ?thesis using False by (subst show_nat.simps) simp
    next
      case k: False
      then obtain j where j: "k = Suc j" "0 < j" using 1(2) by (cases k) auto
      have "n div 10 < 10 ^ j \<longleftrightarrow> n < 10 ^ Suc j" by (simp add: div_less_iff_less_mult mult.commute)
      then show ?thesis using False 1(1)[of j] j by (subst show_nat.simps) simp
    qed
  qed
qed

lemma read_digits_show_nat:
  "t = [] \<or> \<not> is_digit (hd t) \<Longrightarrow> read_digits 0 (show_nat n @ t) = (n, t)"
  by (simp add: read_digits_append show_nat_digits foldl_show_nat read_digits_stop)

lemma show_nat_Cons: obtains c s where "show_nat n = c # s" "is_digit c"
proof -
  obtain c s where "show_nat n = c # s" by (cases "show_nat n") auto
  with show_nat_digits[of n] that show thesis by auto
qed

text \<open>Printing an integer and reading it back, with any text after it that is not a digit.\<close>

lemma strtol_show_int:
  assumes "in_i64 n" and t: "t = [] \<or> \<not> is_digit (hd t)"
  shows "strtol (show_int n @ t) = (n, t, False)"
proof (cases "n < 0")
  case True
  obtain c s where s: "show_nat (nat (- n)) = c # s" "is_digit c" by (rule show_nat_Cons)
  have "read_digits 0 (c # s @ t) = (nat (- n), t)"
    using read_digits_show_nat[OF t, of "nat (- n)"] s by simp
  with True s assms(1) show ?thesis
    by (simp add: strtol_def show_int_def is_space_def split_sign_def int_width_defs
        del: read_digits.simps)
next
  case False
  obtain c s where s: "show_nat (nat n) = c # s" "is_digit c" by (rule show_nat_Cons)
  have r: "read_digits 0 (c # s @ t) = (nat n, t)"
    using read_digits_show_nat[OF t, of "nat n"] s by simp
  have "c \<noteq> CHR ''-''" "c \<noteq> CHR ''+''" using s(2) by (auto simp: is_digit_def)
  with False r s assms(1) digit_not_space[OF s(2)] show ?thesis
    by (simp add: strtol_def show_int_def split_sign_def int_width_defs del: read_digits.simps)
qed

text \<open>The end pointer never leaves the string: what is left is a suffix of the input.\<close>

lemma read_digits_suffix: "\<exists>p. s = p @ snd (read_digits acc s)"
proof (induction s arbitrary: acc)
  case (Cons c s)
  then show ?case by simp (metis append_Cons append_Nil)
qed simp

lemma suffix_dropWhile: "\<exists>p. s = p @ dropWhile P s"
  by (metis takeWhile_dropWhile_id)

lemma split_sign_suffix: "\<exists>p. s = p @ snd (split_sign s)"
  by (auto simp: split_sign_def split: list.splits intro: exI[of _ "[]"] exI[of _ "[_]"])

lemma strtol_suffix: "\<exists>p. s = p @ fst (snd (strtol s))"
proof -
  obtain p where p: "s = p @ dropWhile is_space s" using suffix_dropWhile by blast
  obtain neg t where t: "split_sign (dropWhile is_space s) = (neg, t)" by force
  then obtain q where q: "dropWhile is_space s = q @ t"
    using split_sign_suffix[of "dropWhile is_space s"] by auto
  obtain r where r: "t = r @ snd (read_digits 0 t)" using read_digits_suffix by blast
  obtain n rest where rd: "read_digits 0 t = (n, rest)" by force
  have s: "s = (p @ q @ r) @ rest" using p q r rd by (metis append.assoc snd_conv)
  show ?thesis
  proof (cases t)
    case Nil
    then show ?thesis by (simp add: strtol_def t)
  next
    case (Cons c t')
    have "fst (snd (strtol s)) = rest \<or> fst (snd (strtol s)) = s"
      using rd t unfolding Cons by (simp add: strtol_def Let_def del: read_digits.simps)
    then show ?thesis using s by (metis append_Nil)
  qed
qed

section \<open>Text to doubles\<close>

definition lower :: "string \<Rightarrow> string" where
  "lower s = map to_lower s"

definition hex_value :: "char \<Rightarrow> nat option" where
  "hex_value c = (if is_digit c then Some (digit_value c)
     else if is_alnum c \<and> of_char (to_lower c) \<le> (102 :: nat) then Some (of_char (to_lower c) - 87) else None)"

definition dec_value :: "char \<Rightarrow> nat option" where
  "dec_value c = (if is_digit c then Some (digit_value c) else None)"

text \<open>Digits in base \<open>b\<close>: the accumulated value, the number of digits read, the rest.\<close>

fun read_base :: "(char \<Rightarrow> nat option) \<Rightarrow> nat \<Rightarrow> nat \<Rightarrow> nat \<Rightarrow> string \<Rightarrow> nat \<times> nat \<times> string" where
  "read_base dv b acc k [] = (acc, k, [])"
| "read_base dv b acc k (c # s) =
     (case dv c of Some d \<Rightarrow> read_base dv b (b * acc + d) (Suc k) s | None \<Rightarrow> (acc, k, c # s))"

text \<open>Digits with an optional fraction: the significand, the number of fraction digits, the rest.\<close>

definition read_mantissa :: "(char \<Rightarrow> nat option) \<Rightarrow> nat \<Rightarrow> string \<Rightarrow> (nat \<times> nat \<times> string) option" where
  "read_mantissa dv b s = (let (m, k, r) = read_base dv b 0 0 s in
     case r of
       c # r' \<Rightarrow>
         if c = CHR ''.'' then
           (let (m', k', r'') = read_base dv b m 0 r'
            in if k + k' = 0 then None else Some (m', k', r''))
         else if k = 0 then None else Some (m, 0, r)
     | [] \<Rightarrow> if k = 0 then None else Some (m, 0, []))"

text \<open>An exponent suffix is only consumed when a digit follows its letter and sign.\<close>

definition read_exponent :: "char \<Rightarrow> string \<Rightarrow> int \<times> string" where
  "read_exponent e s = (case s of
       c # t \<Rightarrow>
         if to_lower c = e then
           (let (neg, u) = split_sign t in
            case u of
              d # _ \<Rightarrow> if is_digit d
                       then (let (n, r) = read_digits 0 u in (if neg then - int n else int n, r))
                       else (0, s)
            | [] \<Rightarrow> (0, s))
         else (0, s)
     | [] \<Rightarrow> (0, []))"

definition finite_result :: "bool \<Rightarrow> rat \<Rightarrow> double \<times> bool" where
  "finite_result neg v =
     (let d = rnd_signed neg (if neg then - v else v)
      in (d, \<not> dfinite d \<or> v < pow2 (-1022) \<and> round53 v \<noteq> v))"

text \<open>\<open>strtod(s, &end)\<close>: the value, the rest of the text, and whether \<open>errno\<close> is \<open>ERANGE\<close>.\<close>

definition strtod :: "string \<Rightarrow> double \<times> string \<times> bool" where
  "strtod s = (let (neg, t) = split_sign (dropWhile is_space s); l = lower t in
     if starts_with l ''infinity'' then (Infty neg, drop 8 t, False)
     else if starts_with l ''inf'' then (Infty neg, drop 3 t, False)
     else if starts_with l ''nan'' then
       (NaN, (case drop 3 t of
                c # u \<Rightarrow> (if c = CHR ''('' then
                            (let w = dropWhile (\<lambda>x. is_alnum x \<or> x = CHR ''_'') u
                             in case w of d # w' \<Rightarrow> if d = CHR '')'' then w' else drop 3 t | [] \<Rightarrow> drop 3 t)
                          else drop 3 t)
              | [] \<Rightarrow> []), False)
     else
       (case (if starts_with l ''0x'' then read_mantissa hex_value 16 (drop 2 t) else None) of
          Some (m, k, r) \<Rightarrow>
            (let (e, r') = read_exponent CHR ''p'' r;
                 (d, er) = finite_result neg (of_nat m * pow2 (e - 4 * int k))
             in (d, r', er))
        | None \<Rightarrow>
            (case read_mantissa dec_value 10 t of
               Some (m, k, r) \<Rightarrow>
                 (let (e, r') = read_exponent CHR ''e'' r;
                      (d, er) = finite_result neg (of_nat m * 10 powi (e - int k))
                  in (d, r', er))
             | None \<Rightarrow> (Fin 0, s, False))))"

section \<open>Doubles to text\<close>

text \<open>The decimal exponent of a positive rational, and the digits of the \<open>%e\<close> conversion.\<close>

definition ilog10 :: "rat \<Rightarrow> int" where
  "ilog10 r = (let (n, d) = quotient_of r;
                   e = int (length (show_nat (nat n))) - int (length (show_nat (nat d)))
               in if 10 powi e \<le> r then e else e - 1)"

definition sci_digits :: "nat \<Rightarrow> rat \<Rightarrow> int \<times> int" where
  "sci_digits p r = (let x = ilog10 r; m = rne (r / 10 powi (x - int p))
     in if m = 10 ^ Suc p then (10 ^ p, x + 1) else (m, x))"

definition insert_point :: "nat \<Rightarrow> string \<Rightarrow> string" where
  "insert_point p s =
     (let z = replicate (Suc p - length s) CHR ''0'' @ s; k = length z - p
      in if p = 0 then z else take k z @ ''.'' @ drop k z)"

definition fixed_digits :: "nat \<Rightarrow> rat \<Rightarrow> string" where
  "fixed_digits p r = insert_point p (show_nat (nat (rne (r * 10 ^ p))))"

definition show_exponent :: "int \<Rightarrow> string" where
  "show_exponent x = (if x < 0 then ''e-'' else ''e+'') @
     (if \<bar>x\<bar> < 10 then ''0'' else []) @ show_nat (nat \<bar>x\<bar>)"

definition sci_string :: "nat \<Rightarrow> rat \<Rightarrow> string" where
  "sci_string p r = (if r = 0 then insert_point p (show_nat 0) @ ''e+00''
     else let (m, x) = sci_digits p r in insert_point p (show_nat (nat m)) @ show_exponent x)"

definition strip_zeros :: "string \<Rightarrow> string" where
  "strip_zeros s = (if CHR ''.'' \<in> set s
     then (let t = rev (dropWhile (\<lambda>c. c = CHR ''0'') (rev s))
           in if t \<noteq> [] \<and> last t = CHR ''.'' then butlast t else t)
     else s)"

definition general_string :: "nat \<Rightarrow> rat \<Rightarrow> string" where
  "general_string p r = (if r = 0 then ''0'' else
     let (m, x) = sci_digits (p - 1) r in
     if x < -4 \<or> int p \<le> x
     then strip_zeros (insert_point (p - 1) (show_nat (nat m))) @ show_exponent x
     else strip_zeros (fixed_digits (nat (int p - 1 - x)) r))"

definition show_double :: "(rat \<Rightarrow> string) \<Rightarrow> double \<Rightarrow> string" where
  "show_double f d = (case d of
       NaN \<Rightarrow> ''nan''
     | Infty b \<Rightarrow> (if b then ''-inf'' else ''inf'')
     | _ \<Rightarrow> (if dneg d then ''-'' else []) @ f \<bar>dval d\<bar>)"

text \<open>\<open>%.<p>f\<close>, \<open>%.<p>e\<close> (also \<open>std::scientific\<close>), and \<open>ostream << double\<close> with precision 6.\<close>

definition fmt_f :: "nat \<Rightarrow> double \<Rightarrow> string" where
  "fmt_f p = show_double (fixed_digits p)"

definition fmt_e :: "nat \<Rightarrow> double \<Rightarrow> string" where
  "fmt_e p = show_double (sci_string p)"

definition ostream_double :: "double \<Rightarrow> string" where
  "ostream_double = show_double (general_string 6)"

end
