(* ===== verification/Types.thy ===== *)
theory Types
  imports Prelude Doubles StdMap CText "HOL-Library.Word"
begin

unbundle bit_operations_syntax

text \<open>
  The data of src/include/benchmark/benchmark.h that the components pass to each other: the
  enumerations, user counters, the measured runs and the small functions on them.

  A record field has the name of the member, with a short prefix for its class (\<open>c_\<close> for
  \<open>Counter\<close>, \<open>r_\<close> for \<open>BenchmarkReporter::Run\<close>, and so on) because record fields are global names.
  Bit-flag enumerations are 32-bit words.  A pointer to a pure function (\<open>BigOFunc\<close>,
  \<open>StatisticsFunc\<close>) is the function.
\<close>

section \<open>Enumerations\<close>

datatype TimeUnit = kNanosecond | kMicrosecond | kMillisecond | kSecond

datatype BigO = oNone | o1 | oN | oNSquared | oNCubed | oLogN | oNLogN | oAuto | oLambda

datatype StatisticUnit = kTime | kPercentage

datatype Skipped = NotSkipped | SkippedWithMessage | SkippedWithError

datatype RunType = RT_Iteration | RT_Aggregate

fun GetTimeUnitString :: "TimeUnit \<Rightarrow> string" where
  "GetTimeUnitString kSecond = ''s''"
| "GetTimeUnitString kMillisecond = ''ms''"
| "GetTimeUnitString kMicrosecond = ''us''"
| "GetTimeUnitString kNanosecond = ''ns''"

fun GetTimeUnitMultiplier :: "TimeUnit \<Rightarrow> double" where
  "GetTimeUnitMultiplier kSecond = Fin 1"
| "GetTimeUnitMultiplier kMillisecond = Fin 1000"
| "GetTimeUnitMultiplier kMicrosecond = Fin 1000000"
| "GetTimeUnitMultiplier kNanosecond = Fin 1000000000"

text \<open>\<open>AggregationReportMode\<close>.\<close>

type_synonym arm = "32 word"

definition ARM_Unspecified :: arm where "ARM_Unspecified = 0"
definition ARM_Default :: arm where "ARM_Default = 1"
definition ARM_FileReportAggregatesOnly :: arm where "ARM_FileReportAggregatesOnly = 2"
definition ARM_DisplayReportAggregatesOnly :: arm where "ARM_DisplayReportAggregatesOnly = 4"
definition ARM_ReportAggregatesOnly :: arm where
  "ARM_ReportAggregatesOnly = ARM_FileReportAggregatesOnly OR ARM_DisplayReportAggregatesOnly"

lemmas arm_defs = ARM_Unspecified_def ARM_Default_def ARM_FileReportAggregatesOnly_def
  ARM_DisplayReportAggregatesOnly_def ARM_ReportAggregatesOnly_def

section \<open>User counters\<close>

type_synonym counter_flags = "32 word"

definition kDefaults :: counter_flags where "kDefaults = 0"
definition kIsRate :: counter_flags where "kIsRate = 1"
definition kAvgThreads :: counter_flags where "kAvgThreads = 2"
definition kAvgThreadsRate :: counter_flags where "kAvgThreadsRate = kIsRate OR kAvgThreads"
definition kIsIterationInvariant :: counter_flags where "kIsIterationInvariant = 4"
definition kIsIterationInvariantRate :: counter_flags where
  "kIsIterationInvariantRate = kIsRate OR kIsIterationInvariant"
definition kAvgIterations :: counter_flags where "kAvgIterations = 8"
definition kAvgIterationsRate :: counter_flags where
  "kAvgIterationsRate = kIsRate OR kAvgIterations"
definition kInvert :: counter_flags where "kInvert = 0x80000000"

lemmas counter_flag_defs = kDefaults_def kIsRate_def kAvgThreads_def kAvgThreadsRate_def
  kIsIterationInvariant_def kIsIterationInvariantRate_def kAvgIterations_def
  kAvgIterationsRate_def kInvert_def

datatype OneK = kIs1000 | kIs1024

record Counter =
  c_value :: double
  c_flags :: counter_flags
  c_oneK :: OneK

text \<open>The converting constructor \<open>Counter(double v = 0., Flags f = kDefaults, OneK k = kIs1000)\<close>.\<close>

definition counter_of :: "double \<Rightarrow> Counter" where
  "counter_of v = \<lparr>c_value = v, c_flags = kDefaults, c_oneK = kIs1000\<rparr>"

type_synonym UserCounters = "(string, Counter) stdmap"

section \<open>Statistics and memory results\<close>

record Statistics =
  st_name :: string
  st_compute :: "double list \<Rightarrow> double"
  st_unit :: StatisticUnit

definition TombstoneValue :: int where "TombstoneValue = int64_max"

record MemoryResult =
  m_num_allocs :: int
  m_max_bytes_used :: int
  m_total_allocated_bytes :: int
  m_net_heap_growth :: int
  m_memory_iterations :: int

definition MemoryResult_init :: MemoryResult where
  "MemoryResult_init = \<lparr>m_num_allocs = 0, m_max_bytes_used = 0,
     m_total_allocated_bytes = TombstoneValue, m_net_heap_growth = TombstoneValue,
     m_memory_iterations = 0\<rparr>"

section \<open>The name of a benchmark instance\<close>

record BenchmarkName =
  n_function_name :: string
  n_args :: string
  n_min_time :: string
  n_min_warmup_time :: string
  n_iterations :: string
  n_repetitions :: string
  n_time_type :: string
  n_threads :: string

definition BenchmarkName_init :: BenchmarkName where
  "BenchmarkName_init = \<lparr>n_function_name = [], n_args = [], n_min_time = [],
     n_min_warmup_time = [], n_iterations = [], n_repetitions = [], n_time_type = [],
     n_threads = []\<rparr>"

section \<open>A measured run\<close>

record Run =
  r_run_name :: BenchmarkName
  r_family_index :: int
  r_per_family_instance_index :: int
  r_run_type :: RunType
  r_aggregate_name :: string
  r_aggregate_unit :: StatisticUnit
  r_report_label :: string
  r_skipped :: Skipped
  r_skip_message :: string
  r_iterations :: int
  r_threads :: int
  r_repetition_index :: int
  r_repetitions :: int
  r_time_unit :: TimeUnit
  r_real_accumulated_time :: double
  r_cpu_accumulated_time :: double
  r_max_heapbytes_used :: double
  r_use_real_time_for_initial_big_o :: bool
  r_complexity :: BigO
  r_complexity_lambda :: "(int \<Rightarrow> double) option"
  r_complexity_n :: int
  r_statistics :: "Statistics list option"
  r_report_big_o :: bool
  r_report_rms :: bool
  r_counters :: UserCounters
  r_memory_result :: MemoryResult
  r_allocs_per_iter :: double

definition no_repetition_index :: int where "no_repetition_index = -1"

text \<open>
  The default constructor.  It leaves \<open>family_index\<close>, \<open>per_family_instance_index\<close>,
  \<open>repetition_index\<close> and \<open>repetitions\<close> uninitialised; the model takes their value as the argument
  \<open>junk\<close>, so that nothing can be proved about them before they are assigned.
\<close>

definition Run_init :: "int \<Rightarrow> TimeUnit \<Rightarrow> Run" where
  "Run_init junk default_time_unit = \<lparr>r_run_name = BenchmarkName_init, r_family_index = junk,
     r_per_family_instance_index = junk, r_run_type = RT_Iteration, r_aggregate_name = [],
     r_aggregate_unit = kTime, r_report_label = [], r_skipped = NotSkipped, r_skip_message = [],
     r_iterations = 1, r_threads = 1, r_repetition_index = junk, r_repetitions = junk,
     r_time_unit = default_time_unit, r_real_accumulated_time = Fin 0,
     r_cpu_accumulated_time = Fin 0, r_max_heapbytes_used = Fin 0,
     r_use_real_time_for_initial_big_o = False, r_complexity = oNone,
     r_complexity_lambda = None, r_complexity_n = 0, r_statistics = None,
     r_report_big_o = False, r_report_rms = False, r_counters = [],
     r_memory_result = MemoryResult_init, r_allocs_per_iter = Fin 0\<rparr>"

text \<open>\<open>GetAdjustedRealTime\<close> and \<open>GetAdjustedCPUTime\<close> (src/src/reporter.cc).\<close>

definition GetAdjustedRealTime :: "Run \<Rightarrow> double" where
  "GetAdjustedRealTime r =
     (let new_time = r_real_accumulated_time r * GetTimeUnitMultiplier (r_time_unit r) in
      if r_iterations r \<noteq> 0 then new_time / double_of_int (r_iterations r) else new_time)"

definition GetAdjustedCPUTime :: "Run \<Rightarrow> double" where
  "GetAdjustedCPUTime r =
     (let new_time = r_cpu_accumulated_time r * GetTimeUnitMultiplier (r_time_unit r) in
      if r_iterations r \<noteq> 0 then new_time / double_of_int (r_iterations r) else new_time)"

end
