(* ===== verification/Names.thy ===== *)
theory Names
  imports Types
begin

text \<open>
  The printable name of a benchmark: \<open>join\<close> and \<open>BenchmarkName::str\<close> of src/src/benchmark_name.cc,
  and \<open>Run::benchmark_name\<close> of src/src/reporter.cc.
\<close>

text \<open>\<open>join_impl\<close>: the delimiter goes in only between non-empty parts.\<close>

fun join_impl :: "string \<Rightarrow> char \<Rightarrow> string list \<Rightarrow> string" where
  "join_impl s delimiter [] = s"
| "join_impl s delimiter (head # tail) =
     (let s1 = (if s \<noteq> [] \<and> head \<noteq> [] then s @ [delimiter] else s)
      in join_impl (s1 @ head) delimiter tail)"

definition join :: "char \<Rightarrow> string list \<Rightarrow> string" where
  "join delimiter ts = join_impl [] delimiter ts"

definition name_parts :: "BenchmarkName \<Rightarrow> string list" where
  "name_parts n = [n_function_name n, n_args n, n_min_time n, n_min_warmup_time n,
     n_iterations n, n_repetitions n, n_time_type n, n_threads n]"

definition BenchmarkName_str :: "BenchmarkName \<Rightarrow> string" where
  "BenchmarkName_str n = join (CHR ''/'') (name_parts n)"

definition benchmark_name :: "Run \<Rightarrow> string" where
  "benchmark_name r =
     (let name = BenchmarkName_str (r_run_name r) in
      if r_run_type r = RT_Aggregate then name @ ''_'' @ r_aggregate_name r else name)"

section \<open>Meaning\<close>

fun intercalate :: "'a \<Rightarrow> 'a list list \<Rightarrow> 'a list" where
  "intercalate d [] = []"
| "intercalate d [x] = x"
| "intercalate d (x # y # zs) = x @ d # intercalate d (y # zs)"

lemma intercalate_Cons: "intercalate d (x # xs) = x @ (if xs = [] then [] else d # intercalate d xs)"
  by (cases xs) auto

lemma join_impl_spec:
  "join_impl s d ts =
     (if s = [] then intercalate d (filter (\<lambda>t. t \<noteq> []) ts)
      else intercalate d (s # filter (\<lambda>t. t \<noteq> []) ts))"
proof (induction s d ts rule: join_impl.induct)
  case (2 s d head tail)
  then show ?case
    by (cases "s = []"; cases "head = []") (simp_all add: intercalate_Cons)
qed simp

text \<open>Joining is interleaving the non-empty parts with the delimiter, whatever is empty.\<close>

lemma join_spec: "join d ts = intercalate d (filter (\<lambda>t. t \<noteq> []) ts)"
  by (simp add: join_def join_impl_spec)

text \<open>Splitting an interleaving at the delimiter gives the parts back.\<close>

fun split_at :: "'a \<Rightarrow> 'a list \<Rightarrow> 'a list list" where
  "split_at d [] = [[]]"
| "split_at d (c # s) =
     (if c = d then [] # split_at d s else (c # hd (split_at d s)) # tl (split_at d s))"

lemma split_at_neq_Nil [simp]: "split_at d s \<noteq> []"
  by (cases s) auto

lemma split_at_append: "d \<notin> set x \<Longrightarrow> split_at d (x @ d # s) = x # split_at d s"
  by (induction x) auto

lemma split_at_id: "d \<notin> set x \<Longrightarrow> split_at d x = [x]"
  by (induction x) auto

lemma split_at_intercalate:
  "xs \<noteq> [] \<Longrightarrow> \<forall>x \<in> set xs. d \<notin> set x \<Longrightarrow> split_at d (intercalate d xs) = xs"
  by (induction d xs rule: intercalate.induct) (auto simp: split_at_append split_at_id)

lemma intercalate_inj:
  assumes "\<forall>x \<in> set xs. d \<notin> set x \<and> x \<noteq> []" "\<forall>y \<in> set ys. d \<notin> set y \<and> y \<noteq> []"
    and "intercalate d xs = intercalate d ys"
  shows "xs = ys"
proof (cases "xs = [] \<or> ys = []")
  case True
  have "intercalate d zs = [] \<Longrightarrow> \<forall>z \<in> set zs. z \<noteq> [] \<Longrightarrow> zs = []" for zs :: "'a list list"
    by (cases zs) (auto simp: intercalate_Cons split: if_splits)
  then show ?thesis using True assms by (metis intercalate.simps(1))
next
  case False
  then show ?thesis using assms split_at_intercalate by metis
qed

end
