(* ===== verification/Register.thy ===== *)
theory Register
  imports Ranges Names
begin

text \<open>
  The registration object \<open>internal::Benchmark\<close> (src/src/benchmark_register.cc): its state, the
  chained methods that configure it, and its accessors.  A method that checks its arguments with
  \<open>BM_CHECK\<close> returns a result.  The process-wide default time unit and the number of CPUs are
  arguments where the code reads them.  Callbacks and the thread-runner factory are opaque handles
  (\<open>None\<close> is the empty \<open>std::function\<close>): the model never looks into user code.

  Vector sizes are taken to fit an \<open>int\<close>, as the casts \<open>static_cast<int>(v.size())\<close> assume.
\<close>

section \<open>State\<close>

type_synonym callback = nat

record Benchmark =
  b_name :: string
  b_aggregation_report_mode :: arm
  b_arg_names :: "string list"
  b_args :: "int list list"
  b_time_unit :: TimeUnit
  b_use_default_time_unit :: bool
  b_range_multiplier :: int
  b_min_time :: double
  b_min_warmup_time :: double
  b_iterations :: int
  b_repetitions :: int
  b_measure_process_cpu_time :: bool
  b_use_real_time :: bool
  b_use_manual_time :: bool
  b_complexity :: BigO
  b_complexity_lambda :: "(int \<Rightarrow> double) option"
  b_statistics :: "Statistics list"
  b_thread_counts :: "int list"
  b_setup :: "callback option"
  b_teardown :: "callback option"
  b_threadrunner :: "callback option"

definition kRangeMultiplier :: int where "kRangeMultiplier = 8"

definition ComputeStatistics ::
  "string \<Rightarrow> (double list \<Rightarrow> double) \<Rightarrow> StatisticUnit \<Rightarrow> Benchmark \<Rightarrow> Benchmark" where
  "ComputeStatistics name statistics unit b =
     b\<lparr>b_statistics := b_statistics b @ [\<lparr>st_name = name, st_compute = statistics, st_unit = unit\<rparr>]\<rparr>"

text \<open>The constructor; the four built-in statistics are its arguments (they are in \<open>Stats\<close>).\<close>

definition Benchmark_new ::
  "(double list \<Rightarrow> double) \<Rightarrow> (double list \<Rightarrow> double) \<Rightarrow> (double list \<Rightarrow> double) \<Rightarrow>
   (double list \<Rightarrow> double) \<Rightarrow> TimeUnit \<Rightarrow> string \<Rightarrow> Benchmark" where
  "Benchmark_new mean median stddev cv default_time_unit name =
     (let b = \<lparr>b_name = name, b_aggregation_report_mode = ARM_Unspecified, b_arg_names = [],
        b_args = [], b_time_unit = default_time_unit, b_use_default_time_unit = True,
        b_range_multiplier = kRangeMultiplier, b_min_time = Fin 0, b_min_warmup_time = Fin 0,
        b_iterations = 0, b_repetitions = 0, b_measure_process_cpu_time = False,
        b_use_real_time = False, b_use_manual_time = False, b_complexity = oNone,
        b_complexity_lambda = None, b_statistics = [], b_thread_counts = [], b_setup = None,
        b_teardown = None, b_threadrunner = None\<rparr>
      in ComputeStatistics ''cv'' cv kPercentage
          (ComputeStatistics ''stddev'' stddev kTime
            (ComputeStatistics ''median'' median kTime
              (ComputeStatistics ''mean'' mean kTime b))))"

section \<open>Accessors\<close>

definition ArgsCnt :: "Benchmark \<Rightarrow> int" where
  "ArgsCnt b =
     (case b_args b of
        [] \<Rightarrow> if b_arg_names b = [] then -1 else int (length (b_arg_names b))
      | front # _ \<Rightarrow> int (length front))"

definition GetArgName :: "Benchmark \<Rightarrow> int \<Rightarrow> string res" where
  "GetArgName b arg =
     rbind (BM_CHECK (arg \<ge> 0) ''arg >= 0'') (\<lambda>_.
     rbind (BM_CHECK (nat arg < length (b_arg_names b)) ''uarg < arg_names_.size()'') (\<lambda>_.
     Inr (b_arg_names b ! nat arg)))"

definition GetTimeUnit :: "TimeUnit \<Rightarrow> Benchmark \<Rightarrow> TimeUnit" where
  "GetTimeUnit default_time_unit b =
     (if b_use_default_time_unit b then default_time_unit else b_time_unit b)"

text \<open>\<open>IsZero\<close> (src/src/benchmark.cc): below the machine epsilon \<open>2 ^ -52\<close>.\<close>

definition IsZero :: "double \<Rightarrow> bool" where
  "IsZero n \<longleftrightarrow> dabs n < Fin (1 / 4503599627370496)"

section \<open>Arguments\<close>

definition SetName :: "string \<Rightarrow> Benchmark \<Rightarrow> Benchmark" where
  "SetName name b = b\<lparr>b_name := name\<rparr>"

definition Arg :: "int \<Rightarrow> Benchmark \<Rightarrow> Benchmark res" where
  "Arg x b =
     rbind (BM_CHECK (ArgsCnt b = -1 \<or> ArgsCnt b = 1) ''ArgsCnt() == -1 || ArgsCnt() == 1'') (\<lambda>_.
     Inr (b\<lparr>b_args := b_args b @ [[x]]\<rparr>))"

definition Unit :: "TimeUnit \<Rightarrow> Benchmark \<Rightarrow> Benchmark" where
  "Unit unit b = b\<lparr>b_time_unit := unit, b_use_default_time_unit := False\<rparr>"

definition Range :: "int \<Rightarrow> int \<Rightarrow> Benchmark \<Rightarrow> Benchmark res" where
  "Range start limit b =
     rbind (BM_CHECK (ArgsCnt b = -1 \<or> ArgsCnt b = 1) ''ArgsCnt() == -1 || ArgsCnt() == 1'') (\<lambda>_.
     rbind (AddRange int64_max [] start limit (b_range_multiplier b)) (\<lambda>arglist.
     Inr (b\<lparr>b_args := b_args b @ map (\<lambda>i. [i]) arglist\<rparr>)))"

text \<open>
  \<open>ArgsProduct\<close>: \<open>indices\<close> is a counter with one digit per list, the first one the fastest.
  \<open>advance\<close> is its \<open>do ... while\<close> loop; with no list at all it reads \<open>indices[0]\<close> of an empty
  vector.  The number of combinations is a \<open>size_t\<close>.
\<close>

function advance :: "int list list \<Rightarrow> nat list \<Rightarrow> nat \<Rightarrow> nat list res" where
  "advance arglists indices arg =
     (if arg < length arglists \<and> arg < length indices then
        if arglists ! arg = [] then Inl (Undefined ''remainder by zero'')
        else
          (let indices' = indices[arg := (indices ! arg + 1) mod length (arglists ! arg)] in
           if indices' ! arg = 0 \<and> arg + 1 < length arglists
           then advance arglists indices' (arg + 1) else Inr indices')
      else Inl (Undefined ''vector index out of range''))"
  by pat_completeness auto
termination
  by (relation "measure (\<lambda>(arglists, indices, arg). length arglists - arg)") auto

declare advance.simps [simp del]

fun args_product_loop ::
  "int list list \<Rightarrow> nat \<Rightarrow> int list list \<Rightarrow> nat list \<Rightarrow> int list list res" where
  "args_product_loop arglists 0 acc indices = Inr acc"
| "args_product_loop arglists (Suc k) acc indices =
     (let args = map (\<lambda>arg. arglists ! arg ! (indices ! arg)) [0..<length arglists] in
      rbind (advance arglists indices 0) (\<lambda>indices'.
      args_product_loop arglists k (acc @ [args]) indices'))"

definition ArgsProduct :: "int list list \<Rightarrow> Benchmark \<Rightarrow> Benchmark res" where
  "ArgsProduct arglists b =
     rbind (BM_CHECK (ArgsCnt b = -1 \<or> ArgsCnt b = int (length arglists))
       ''ArgsCnt() == -1 || ArgsCnt() == arglists.size()'') (\<lambda>_.
     (let total = foldl (\<lambda>res arglist. res * length arglist mod 2 ^ 64) 1 arglists in
      rbind (args_product_loop arglists total (b_args b) (replicate (length arglists) 0)) (\<lambda>args.
      Inr (b\<lparr>b_args := args\<rparr>))))"

definition Ranges :: "(int \<times> int) list \<Rightarrow> Benchmark \<Rightarrow> Benchmark res" where
  "Ranges ranges b =
     rbind (BM_CHECK (ArgsCnt b = -1 \<or> ArgsCnt b = int (length ranges))
       ''ArgsCnt() == -1 || ArgsCnt() == ranges.size()'') (\<lambda>_.
     rbind (rfold (\<lambda>arglists (lo, hi).
         rbind (AddRange int64_max [] lo hi (b_range_multiplier b)) (\<lambda>l. Inr (arglists @ [l])))
       [] ranges) (\<lambda>arglists.
     ArgsProduct arglists b))"

definition ArgName :: "string \<Rightarrow> Benchmark \<Rightarrow> Benchmark res" where
  "ArgName name b =
     rbind (BM_CHECK (ArgsCnt b = -1 \<or> ArgsCnt b = 1) ''ArgsCnt() == -1 || ArgsCnt() == 1'') (\<lambda>_.
     Inr (b\<lparr>b_arg_names := [name]\<rparr>))"

definition ArgNames :: "string list \<Rightarrow> Benchmark \<Rightarrow> Benchmark res" where
  "ArgNames names b =
     rbind (BM_CHECK (ArgsCnt b = -1 \<or> ArgsCnt b = int (length names))
       ''ArgsCnt() == -1 || ArgsCnt() == names.size()'') (\<lambda>_.
     Inr (b\<lparr>b_arg_names := names\<rparr>))"

text \<open>
  \<open>DenseRange\<close>.  When its loop does not end (step zero) it appends until the allocation of the
  argument vector fails.
\<close>

definition DenseRange :: "int \<Rightarrow> int \<Rightarrow> int \<Rightarrow> Benchmark \<Rightarrow> Benchmark res" where
  "DenseRange start limit step b =
     rbind (BM_CHECK (ArgsCnt b = -1 \<or> ArgsCnt b = 1) ''ArgsCnt() == -1 || ArgsCnt() == 1'') (\<lambda>_.
     rbind (BM_CHECK (start \<le> limit) ''start <= limit'') (\<lambda>_.
     (case dense_loop limit step [] start of
        None \<Rightarrow> Inl (Threw ''std::bad_alloc'')
      | Some r \<Rightarrow> rbind r (\<lambda>xs. Inr (b\<lparr>b_args := b_args b @ map (\<lambda>x. [x]) xs\<rparr>)))))"

definition Args :: "int list \<Rightarrow> Benchmark \<Rightarrow> Benchmark res" where
  "Args args b =
     rbind (BM_CHECK (ArgsCnt b = -1 \<or> ArgsCnt b = int (length args))
       ''ArgsCnt() == -1 || ArgsCnt() == args.size()'') (\<lambda>_.
     Inr (b\<lparr>b_args := b_args b @ [args]\<rparr>))"

definition ArgPair :: "int \<Rightarrow> int \<Rightarrow> Benchmark \<Rightarrow> Benchmark res" where
  "ArgPair x y b = Args [x, y] b"

definition RangePair :: "int \<Rightarrow> int \<Rightarrow> int \<Rightarrow> int \<Rightarrow> Benchmark \<Rightarrow> Benchmark res" where
  "RangePair lo1 hi1 lo2 hi2 b = Ranges [(lo1, hi1), (lo2, hi2)] b"

section \<open>Callbacks, durations, modes\<close>

definition Setup :: "callback option \<Rightarrow> Benchmark \<Rightarrow> Benchmark res" where
  "Setup setup b =
     rbind (BM_CHECK (setup \<noteq> None) ''setup != nullptr'') (\<lambda>_. Inr (b\<lparr>b_setup := setup\<rparr>))"

definition Teardown :: "callback option \<Rightarrow> Benchmark \<Rightarrow> Benchmark res" where
  "Teardown teardown b =
     rbind (BM_CHECK (teardown \<noteq> None) ''teardown != nullptr'') (\<lambda>_.
     Inr (b\<lparr>b_teardown := teardown\<rparr>))"

definition RangeMultiplier :: "int \<Rightarrow> Benchmark \<Rightarrow> Benchmark res" where
  "RangeMultiplier multiplier b =
     rbind (BM_CHECK (multiplier > 1) ''multiplier > 1'') (\<lambda>_.
     Inr (b\<lparr>b_range_multiplier := multiplier\<rparr>))"

definition MinTime :: "double \<Rightarrow> Benchmark \<Rightarrow> Benchmark res" where
  "MinTime t b =
     rbind (BM_CHECK (t > Fin 0) ''t > 0.0'') (\<lambda>_.
     rbind (BM_CHECK (b_iterations b = 0) ''iterations_ == 0'') (\<lambda>_.
     Inr (b\<lparr>b_min_time := t\<rparr>)))"

definition MinWarmUpTime :: "double \<Rightarrow> Benchmark \<Rightarrow> Benchmark res" where
  "MinWarmUpTime t b =
     rbind (BM_CHECK (t \<ge> Fin 0) ''t >= 0.0'') (\<lambda>_.
     rbind (BM_CHECK (b_iterations b = 0) ''iterations_ == 0'') (\<lambda>_.
     Inr (b\<lparr>b_min_warmup_time := t\<rparr>)))"

definition Iterations :: "int \<Rightarrow> Benchmark \<Rightarrow> Benchmark res" where
  "Iterations n b =
     rbind (BM_CHECK (n > 0) ''n > 0'') (\<lambda>_.
     rbind (BM_CHECK (IsZero (b_min_time b)) ''IsZero(min_time_)'') (\<lambda>_.
     rbind (BM_CHECK (IsZero (b_min_warmup_time b)) ''IsZero(min_warmup_time_)'') (\<lambda>_.
     Inr (b\<lparr>b_iterations := n\<rparr>))))"

definition Repetitions :: "int \<Rightarrow> Benchmark \<Rightarrow> Benchmark res" where
  "Repetitions n b =
     rbind (BM_CHECK (n > 0) ''n > 0'') (\<lambda>_. Inr (b\<lparr>b_repetitions := n\<rparr>))"

definition ReportAggregatesOnly :: "bool \<Rightarrow> Benchmark \<Rightarrow> Benchmark" where
  "ReportAggregatesOnly value b =
     b\<lparr>b_aggregation_report_mode := (if value then ARM_ReportAggregatesOnly else ARM_Default)\<rparr>"

definition DisplayAggregatesOnly :: "bool \<Rightarrow> Benchmark \<Rightarrow> Benchmark" where
  "DisplayAggregatesOnly value b =
     (let mode = b_aggregation_report_mode b OR ARM_Default in
      b\<lparr>b_aggregation_report_mode :=
         (if value then mode OR ARM_DisplayReportAggregatesOnly
          else mode AND NOT ARM_DisplayReportAggregatesOnly)\<rparr>)"

definition MeasureProcessCPUTime :: "Benchmark \<Rightarrow> Benchmark" where
  "MeasureProcessCPUTime b = b\<lparr>b_measure_process_cpu_time := True\<rparr>"

definition UseRealTime :: "Benchmark \<Rightarrow> Benchmark res" where
  "UseRealTime b =
     rbind (BM_CHECK (\<not> b_use_manual_time b) ''!use_manual_time_'') (\<lambda>_.
     Inr (b\<lparr>b_use_real_time := True\<rparr>))"

definition UseManualTime :: "Benchmark \<Rightarrow> Benchmark res" where
  "UseManualTime b =
     rbind (BM_CHECK (\<not> b_use_real_time b) ''!use_real_time_'') (\<lambda>_.
     Inr (b\<lparr>b_use_manual_time := True\<rparr>))"

definition Complexity :: "BigO \<Rightarrow> Benchmark \<Rightarrow> Benchmark" where
  "Complexity complexity b = b\<lparr>b_complexity := complexity\<rparr>"

definition Complexity_lambda :: "(int \<Rightarrow> double) option \<Rightarrow> Benchmark \<Rightarrow> Benchmark" where
  "Complexity_lambda complexity b = b\<lparr>b_complexity_lambda := complexity, b_complexity := oLambda\<rparr>"

section \<open>Threads\<close>

definition Threads :: "int \<Rightarrow> Benchmark \<Rightarrow> Benchmark res" where
  "Threads t b =
     rbind (BM_CHECK (t > 0) ''t > 0'') (\<lambda>_.
     Inr (b\<lparr>b_thread_counts := b_thread_counts b @ [t]\<rparr>))"

definition ThreadRange :: "int \<Rightarrow> int \<Rightarrow> Benchmark \<Rightarrow> Benchmark res" where
  "ThreadRange min_threads max_threads b =
     rbind (BM_CHECK (min_threads > 0) ''min_threads > 0'') (\<lambda>_.
     rbind (BM_CHECK (max_threads \<ge> min_threads) ''max_threads >= min_threads'') (\<lambda>_.
     rbind (AddRange int32_max (b_thread_counts b) min_threads max_threads 2) (\<lambda>counts.
     Inr (b\<lparr>b_thread_counts := counts\<rparr>))))"

function dense_threads_loop :: "int \<Rightarrow> int \<Rightarrow> int list \<Rightarrow> int \<Rightarrow> int list res" where
  "dense_threads_loop max_threads stride acc i =
     (if i < max_threads then
        if stride < 1 then Inl (Undefined ''loop entered outside its precondition'')
        else rbind (chk_int in_i32 (i + stride)) (\<lambda>i'.
          dense_threads_loop max_threads stride (acc @ [i]) i')
      else Inr acc)"
  by pat_completeness auto
termination
  by (relation "measure (\<lambda>(max_threads, stride, acc, i). nat (max_threads - i))")
    (auto simp: chk_int_eq_Inr)

declare dense_threads_loop.simps [simp del]

definition DenseThreadRange :: "int \<Rightarrow> int \<Rightarrow> int \<Rightarrow> Benchmark \<Rightarrow> Benchmark res" where
  "DenseThreadRange min_threads max_threads stride b =
     rbind (BM_CHECK (min_threads > 0) ''min_threads > 0'') (\<lambda>_.
     rbind (BM_CHECK (max_threads \<ge> min_threads) ''max_threads >= min_threads'') (\<lambda>_.
     rbind (BM_CHECK (stride \<ge> 1) ''stride >= 1'') (\<lambda>_.
     rbind (dense_threads_loop max_threads stride (b_thread_counts b) min_threads) (\<lambda>counts.
     Inr (b\<lparr>b_thread_counts := counts @ [max_threads]\<rparr>)))))"

definition ThreadPerCpu :: "int \<Rightarrow> Benchmark \<Rightarrow> Benchmark" where
  "ThreadPerCpu num_cpus b = b\<lparr>b_thread_counts := b_thread_counts b @ [num_cpus]\<rparr>"

definition ThreadRunner :: "callback option \<Rightarrow> Benchmark \<Rightarrow> Benchmark" where
  "ThreadRunner factory b = b\<lparr>b_threadrunner := factory\<rparr>"

section \<open>Chains of calls\<close>

text \<open>
  Every configuring method, as data: a registration is a chain of these calls on a fresh object, and
  \<open>Apply(custom_arguments)\<close> runs such a chain that the user wrote.
\<close>

datatype builder_call =
    CName string | CArg int | CUnit TimeUnit | CRange int int | CDenseRange int int int
  | CArgs "int list" | CArgPair int int | CRanges "(int \<times> int) list" | CRangePair int int int int
  | CArgsProduct "int list list" | CArgName string | CArgNames "string list"
  | CSetup "callback option" | CTeardown "callback option" | CRangeMultiplier int
  | CMinTime double | CMinWarmUpTime double | CIterations int | CRepetitions int
  | CReportAggregatesOnly bool | CDisplayAggregatesOnly bool | CMeasureProcessCPUTime
  | CUseRealTime | CUseManualTime | CComplexity BigO | CComplexityLambda "(int \<Rightarrow> double) option"
  | CComputeStatistics string "double list \<Rightarrow> double" StatisticUnit
  | CThreads int | CThreadRange int int | CDenseThreadRange int int int | CThreadPerCpu
  | CThreadRunner "callback option"

fun call :: "int \<Rightarrow> builder_call \<Rightarrow> Benchmark \<Rightarrow> Benchmark res" where
  "call cpus (CName n) b = Inr (SetName n b)"
| "call cpus (CArg x) b = Arg x b"
| "call cpus (CUnit u) b = Inr (Unit u b)"
| "call cpus (CRange lo hi) b = Range lo hi b"
| "call cpus (CDenseRange lo hi step) b = DenseRange lo hi step b"
| "call cpus (CArgs as) b = Args as b"
| "call cpus (CArgPair x y) b = ArgPair x y b"
| "call cpus (CRanges rs) b = Ranges rs b"
| "call cpus (CRangePair lo1 hi1 lo2 hi2) b = RangePair lo1 hi1 lo2 hi2 b"
| "call cpus (CArgsProduct ls) b = ArgsProduct ls b"
| "call cpus (CArgName n) b = ArgName n b"
| "call cpus (CArgNames ns) b = ArgNames ns b"
| "call cpus (CSetup s) b = Setup s b"
| "call cpus (CTeardown s) b = Teardown s b"
| "call cpus (CRangeMultiplier m) b = RangeMultiplier m b"
| "call cpus (CMinTime t) b = MinTime t b"
| "call cpus (CMinWarmUpTime t) b = MinWarmUpTime t b"
| "call cpus (CIterations n) b = Iterations n b"
| "call cpus (CRepetitions n) b = Repetitions n b"
| "call cpus (CReportAggregatesOnly v) b = Inr (ReportAggregatesOnly v b)"
| "call cpus (CDisplayAggregatesOnly v) b = Inr (DisplayAggregatesOnly v b)"
| "call cpus CMeasureProcessCPUTime b = Inr (MeasureProcessCPUTime b)"
| "call cpus CUseRealTime b = UseRealTime b"
| "call cpus CUseManualTime b = UseManualTime b"
| "call cpus (CComplexity c) b = Inr (Complexity c b)"
| "call cpus (CComplexityLambda f) b = Inr (Complexity_lambda f b)"
| "call cpus (CComputeStatistics n f u) b = Inr (ComputeStatistics n f u b)"
| "call cpus (CThreads t) b = Threads t b"
| "call cpus (CThreadRange lo hi) b = ThreadRange lo hi b"
| "call cpus (CDenseThreadRange lo hi s) b = DenseThreadRange lo hi s b"
| "call cpus CThreadPerCpu b = Inr (ThreadPerCpu cpus b)"
| "call cpus (CThreadRunner f) b = Inr (ThreadRunner f b)"

definition Apply :: "int \<Rightarrow> builder_call list \<Rightarrow> Benchmark \<Rightarrow> Benchmark res" where
  "Apply cpus calls b = rfold (\<lambda>b c. call cpus c b) b calls"

section \<open>The cartesian product of \<open>ArgsProduct\<close>\<close>

text \<open>The combinations in the order the code produces them: the first list varies fastest.\<close>

fun product_fast :: "'a list list \<Rightarrow> 'a list list" where
  "product_fast [] = [[]]"
| "product_fast (l # ls) = concat (map (\<lambda>rest. map (\<lambda>x. x # rest) l) (product_fast ls))"

text \<open>The counter after \<open>i\<close> steps: the mixed-radix digits of \<open>i\<close>.\<close>

fun digits :: "'a list list \<Rightarrow> nat \<Rightarrow> nat list" where
  "digits [] i = []"
| "digits (l # ls) i = (i mod length l) # digits ls (i div length l)"

abbreviation combinations :: "'a list list \<Rightarrow> nat" where
  "combinations ls \<equiv> prod_list (map length ls)"

lemma length_digits [simp]: "length (digits ls i) = length ls"
  by (induction ls arbitrary: i) auto

lemma length_product_fast: "length (product_fast ls) = combinations ls"
proof (induction ls)
  case (Cons l ls)
  have "length (concat (map (\<lambda>rest. map (\<lambda>x. x # rest) l) ps)) = length l * length ps" for ps
    by (induction ps) auto
  then show ?case using Cons by simp
qed simp

lemma nth_concat_map_rows:
  assumes "i < length l * length ps"
  shows "concat (map (\<lambda>rest. map (\<lambda>x. x # rest) l) ps) ! i =
    l ! (i mod length l) # ps ! (i div length l)"
  using assms
proof (induction ps arbitrary: i)
  case (Cons p ps)
  show ?case
  proof (cases "i < length l")
    case False
    then have "i - length l < length l * length ps" using Cons.prems by simp
    moreover have "length l \<noteq> 0" using Cons.prems by (cases l) auto
    moreover have "i div length l = Suc ((i - length l) div length l)"
      using False calculation(2) by (simp add: le_div_geq)
    ultimately show ?thesis
      using Cons.IH[of "i - length l"] False by (simp add: nth_append le_mod_geq)
  qed (simp add: nth_append)
qed simp

lemma nth_product_fast:
  "i < combinations ls \<Longrightarrow> product_fast ls ! i = map2 (!) ls (digits ls i)"
proof (induction ls arbitrary: i)
  case (Cons l ls)
  moreover have "i div length l < combinations ls"
    using Cons.prems by (simp add: less_mult_imp_div_less mult.commute)
  ultimately show ?case
    using nth_concat_map_rows[of i l "product_fast ls"] by (simp add: length_product_fast)
qed simp

text \<open>One turn of the counter.\<close>

lemma advance_digits:
  assumes "ls \<noteq> []" "\<forall>l \<in> set ls. l \<noteq> []" "length ipre = length pre"
  shows "advance (pre @ ls) (ipre @ digits ls i) (length pre) = Inr (ipre @ digits ls (i + 1))"
  using assms
proof (induction ls arbitrary: pre ipre i)
  case (Cons l ls)
  let ?n = "length l"
  have n: "0 < ?n" using Cons.prems by simp
  have digit: "(i mod ?n + 1) mod ?n = (i + 1) mod ?n" by presburger
  have upd: "(ipre @ digits (l # ls) i)[length pre := (i + 1) mod ?n] =
      ipre @ ((i + 1) mod ?n) # digits ls (i div ?n)"
    using Cons.prems(3) by (simp add: list_update_append)
  have idx: "(ipre @ digits (l # ls) i) ! length pre = i mod ?n"
      "(ipre @ ((i + 1) mod ?n) # digits ls (i div ?n)) ! length pre = (i + 1) mod ?n"
    using Cons.prems(3) by (simp_all add: nth_append)
  show ?case
  proof (cases "(i + 1) mod ?n = 0")
    case False
    then have "(i + 1) div ?n = i div ?n" by (simp add: div_Suc mod_Suc split: if_splits)
    then show ?thesis using False n idx upd digit Cons.prems(3)
      by (subst advance.simps) (simp add: Let_def nth_append)
  next
    case True
    then have carry: "(i + 1) div ?n = i div ?n + 1" by (simp add: div_Suc)
    show ?thesis
    proof (cases "ls = []")
      case True
      then show ?thesis using n idx upd digit Cons.prems(3)
        by (subst advance.simps) (simp add: Let_def nth_append)
    next
      case False
      then have "advance ((pre @ [l]) @ ls) ((ipre @ [0]) @ digits ls (i div ?n)) (length (pre @ [l])) =
          Inr ((ipre @ [0]) @ digits ls (i div ?n + 1))"
        using Cons.prems by (intro Cons.IH) auto
      then show ?thesis using True False n idx upd digit carry Cons.prems(3)
        by (subst advance.simps) (simp add: Let_def nth_append)
    qed
  qed
qed simp

lemma args_product_loop_spec:
  assumes "ls \<noteq> []" "\<forall>l \<in> set ls. l \<noteq> []" "i + k = combinations ls"
  shows "args_product_loop ls k acc (digits ls i) = Inr (acc @ drop i (product_fast ls))"
  using assms
proof (induction k arbitrary: acc i)
  case 0
  then show ?case by (simp add: length_product_fast)
next
  case (Suc k)
  have "map (\<lambda>arg. ls ! arg ! (digits ls i ! arg)) [0..<length ls] = product_fast ls ! i"
    using Suc.prems nth_product_fast[of i ls] by (intro nth_equalityI) simp_all
  moreover have "drop i (product_fast ls) = product_fast ls ! i # drop (Suc i) (product_fast ls)"
    using Suc.prems by (intro Cons_nth_drop_Suc[symmetric]) (simp add: length_product_fast)
  ultimately show ?case
    using advance_digits[of ls "[]" "[]" i] Suc.IH[of "Suc i"] Suc.prems by simp
qed

lemma digits_0: "digits ls 0 = replicate (length ls) 0"
  by (induction ls) auto

lemma product_fast_Nil: "[] \<in> set ls \<Longrightarrow> product_fast ls = []"
  by (induction ls) auto

lemma foldl_total:
  "foldl (\<lambda>res l. res * length l mod N) (r mod N) ls = r * combinations ls mod N"
proof (induction ls arbitrary: r)
  case (Cons l ls)
  show ?case using Cons[of "r * length l"] by (simp add: mod_mult_left_eq mult.assoc)
qed simp

lemma ArgsProduct_spec:
  assumes "ArgsCnt b = -1 \<or> ArgsCnt b = int (length ls)" "ls \<noteq> []" "combinations ls < 2 ^ 64"
  shows "ArgsProduct ls b = Inr (b\<lparr>b_args := b_args b @ product_fast ls\<rparr>)"
proof -
  have total: "foldl (\<lambda>res l. res * length l mod 2 ^ 64) 1 ls = combinations ls"
    using foldl_total[of "2 ^ 64" 1 ls] assms(3) by simp
  show ?thesis
  proof (cases "[] \<in> set ls")
    case True
    then have "combinations ls = 0" by (force simp: prod_list_zero_iff)
    then show ?thesis using True total assms(1)
      by (simp add: ArgsProduct_def product_fast_Nil rbind_BM_CHECK)
  next
    case False
    then have "args_product_loop ls (combinations ls) (b_args b) (digits ls 0) =
        Inr (b_args b @ product_fast ls)"
      using args_product_loop_spec[of ls 0 "combinations ls"] assms(2) by auto
    then show ?thesis using total assms(1)
      by (simp add: ArgsProduct_def digits_0 rbind_BM_CHECK)
  qed
qed

lemma set_product_fast: "set (product_fast ls) = {xs. list_all2 (\<lambda>x l. x \<in> set l) xs ls}"
proof (induction ls)
  case (Cons l ls)
  then show ?case by (auto simp: list_all2_Cons2)
qed auto

lemma distinct_product_fast: "\<forall>l \<in> set ls. distinct l \<Longrightarrow> distinct (product_fast ls)"
proof (induction ls)
  case (Cons l ls)
  have "distinct (concat (map (\<lambda>rest. map (\<lambda>x. x # rest) l) ps))" if "distinct ps" for ps
    using that Cons.prems by (induction ps) (auto simp: distinct_map inj_on_def)
  then show ?case using Cons by simp
qed simp

section \<open>The invariant of a registration\<close>

text \<open>
  What the rest of the library relies on: every argument vector has the arity that the names have,
  at most one of real and manual time, an iteration count only without a minimum time, and
  positive thread counts.
\<close>

definition wf_args :: "Benchmark \<Rightarrow> bool" where
  "wf_args b \<longleftrightarrow> (\<exists>n. (\<forall>a \<in> set (b_args b). length a = n) \<and>
     (b_arg_names b \<noteq> [] \<longrightarrow> length (b_arg_names b) = n))"

definition wf_modes :: "Benchmark \<Rightarrow> bool" where
  "wf_modes b \<longleftrightarrow>
     \<not> (b_use_real_time b \<and> b_use_manual_time b) \<and>
     0 \<le> b_iterations b \<and> 0 \<le> b_repetitions b \<and> 2 \<le> b_range_multiplier b \<and>
     (b_iterations b \<noteq> 0 \<longrightarrow> IsZero (b_min_time b) \<and> IsZero (b_min_warmup_time b)) \<and>
     b_min_time b \<ge> Fin 0 \<and> b_min_warmup_time b \<ge> Fin 0 \<and>
     (\<forall>t \<in> set (b_thread_counts b). 0 < t)"

definition wf_Benchmark :: "Benchmark \<Rightarrow> bool" where
  "wf_Benchmark b \<longleftrightarrow> wf_args b \<and> wf_modes b"

lemmas builder_defs = SetName_def Arg_def Unit_def Range_def ArgName_def ArgNames_def DenseRange_def
  Args_def Setup_def Teardown_def RangeMultiplier_def MinTime_def MinWarmUpTime_def
  Iterations_def Repetitions_def ReportAggregatesOnly_def DisplayAggregatesOnly_def
  MeasureProcessCPUTime_def UseRealTime_def UseManualTime_def Complexity_def
  Complexity_lambda_def ComputeStatistics_def Threads_def ThreadRange_def DenseThreadRange_def
  ThreadPerCpu_def ThreadRunner_def

lemma wf_args_Nil: "ArgsCnt b = -1 \<Longrightarrow> b_args b = [] \<and> b_arg_names b = []"
  by (auto simp: ArgsCnt_def split: list.splits if_splits)

lemma wf_args_cnt:
  assumes "wf_args b" "ArgsCnt b = int n"
  shows "(\<forall>a \<in> set (b_args b). length a = n) \<and>
    (b_arg_names b \<noteq> [] \<longrightarrow> length (b_arg_names b) = n)"
proof -
  from assms(1) obtain m where m: "\<forall>a \<in> set (b_args b). length a = m"
    "b_arg_names b \<noteq> [] \<longrightarrow> length (b_arg_names b) = m" by (auto simp: wf_args_def)
  then have "m = n" if "b_args b \<noteq> [] \<or> b_arg_names b \<noteq> []"
    using assms(2) that by (auto simp: ArgsCnt_def split: list.splits if_splits)
  then show ?thesis using m by (cases "b_args b = [] \<and> b_arg_names b = []") auto
qed

text \<open>Appending vectors of the checked arity, and setting names of it, keep the arguments in order.\<close>

lemma wf_args_append:
  assumes "wf_args b" "ArgsCnt b = -1 \<or> ArgsCnt b = int n" "\<forall>a \<in> set new. length a = n"
  shows "wf_args (b\<lparr>b_args := b_args b @ new\<rparr>)"
  using assms wf_args_Nil[of b] wf_args_cnt[of b n]
  unfolding wf_args_def by (intro exI[of _ n]) auto

lemma wf_args_names:
  assumes "wf_args b" "ArgsCnt b = -1 \<or> ArgsCnt b = int (length names)"
  shows "wf_args (b\<lparr>b_arg_names := names\<rparr>)"
  using assms wf_args_Nil[of b] wf_args_cnt[of b "length names"]
  unfolding wf_args_def by (intro exI[of _ "length names"]) auto

lemma wf_args_args_only:
  "wf_args b \<Longrightarrow> b_args b' = b_args b \<Longrightarrow> b_arg_names b' = b_arg_names b \<Longrightarrow> wf_args b'"
  by (simp add: wf_args_def)

text \<open>A method that only touches the arguments, and leaves them well-formed.\<close>

definition args_only :: "Benchmark \<Rightarrow> Benchmark \<Rightarrow> bool" where
  "args_only b b' \<longleftrightarrow> wf_args b' \<and> (\<exists>args names. b' = b\<lparr>b_args := args, b_arg_names := names\<rparr>)"

lemma args_onlyI: "wf_args (b\<lparr>b_args := args\<rparr>) \<Longrightarrow> args_only b (b\<lparr>b_args := args\<rparr>)"
  unfolding args_only_def by (auto intro!: exI[of _ args] exI[of _ "b_arg_names b"])

lemma args_onlyI2: "wf_args (b\<lparr>b_arg_names := names\<rparr>) \<Longrightarrow> args_only b (b\<lparr>b_arg_names := names\<rparr>)"
  unfolding args_only_def by (auto intro!: exI[of _ "b_args b"] exI[of _ names])

lemma append_singletons_wf:
  assumes "wf_args b" "ArgsCnt b = -1 \<or> ArgsCnt b = 1"
  shows "args_only b (b\<lparr>b_args := b_args b @ map (\<lambda>x. [x]) xs\<rparr>)"
  using wf_args_append[OF assms(1), of 1 "map (\<lambda>x. [x]) xs"] assms(2) by (auto intro: args_onlyI)

lemma args_product_loop_arity:
  "args_product_loop ls k acc ix = Inr r \<Longrightarrow> \<exists>new. r = acc @ new \<and> (\<forall>a \<in> set new. length a = length ls)"
proof (induction ls k acc ix rule: args_product_loop.induct)
  case (2 ls k acc ix)
  from "2.prems" obtain ix' where ix': "advance ls ix 0 = Inr ix'"
    and rest: "args_product_loop ls k (acc @ [map (\<lambda>arg. ls ! arg ! (ix ! arg)) [0..<length ls]]) ix' = Inr r"
    by (auto simp: Let_def elim: rbindE)
  from "2.IH"[OF refl ix' rest] obtain new where
    "r = (acc @ [map (\<lambda>arg. ls ! arg ! (ix ! arg)) [0..<length ls]]) @ new"
    "\<forall>a \<in> set new. length a = length ls" by blast
  then show ?case by (intro exI[of _ "map (\<lambda>arg. ls ! arg ! (ix ! arg)) [0..<length ls] # new"]) auto
qed simp

lemma ArgsProduct_wf:
  assumes "wf_args b" "ArgsProduct ls b = Inr b'"
  shows "args_only b b'"
proof -
  from assms(2) obtain r where cnt: "ArgsCnt b = -1 \<or> ArgsCnt b = int (length ls)"
    and r: "args_product_loop ls (foldl (\<lambda>res l. res * length l mod 2 ^ 64) 1 ls) (b_args b)
        (replicate (length ls) 0) = Inr r"
    and b': "b' = b\<lparr>b_args := r\<rparr>"
    unfolding ArgsProduct_def rbind_BM_CHECK by (auto split: if_splits elim!: rbindE)
  from args_product_loop_arity[OF r] wf_args_append[OF assms(1) cnt] b'
  show ?thesis by (auto intro: args_onlyI)
qed

lemma ranges_fold_length:
  "rfold (\<lambda>arglists (lo, hi). rbind (AddRange k [] lo hi m) (\<lambda>l. Inr (arglists @ [l]))) acc rs = Inr ls \<Longrightarrow>
   length ls = length acc + length rs"
  by (induction rs arbitrary: acc) (auto elim!: rbindE)

lemma Ranges_wf:
  assumes "wf_args b" "Ranges rs b = Inr b'"
  shows "args_only b b'"
proof -
  from assms(2) obtain ls where "ArgsProduct ls b = Inr b'"
    unfolding Ranges_def rbind_BM_CHECK by (auto split: if_splits elim!: rbindE)
  then show ?thesis by (rule ArgsProduct_wf[OF assms(1)])
qed

text \<open>Thread counts stay positive.\<close>

lemma powers_loop_positive:
  "powers_loop k lo hi m dst i = Inr r \<Longrightarrow> \<forall>t \<in> set dst. 0 < t \<Longrightarrow> \<forall>t \<in> set r. 0 < t"
proof (induction k lo hi m dst i rule: powers_loop.induct)
  case (1 k lo hi m dst i)
  define dst' where "dst' = (if lo \<le> i then dst @ [i] else dst)"
  show ?case
  proof (cases "\<not> (i < 1 \<or> m < 2) \<and> i \<le> hi")
    case True
    then have pos: "\<forall>t \<in> set dst'. 0 < t" using "1.prems"(2) by (auto simp: dst'_def)
    from True "1.prems"(1) consider "r = dst'"
      | i' where "\<not> i > cquot k m" "chk_int (in_T k) (i * m) = Inr i'"
          "powers_loop k lo hi m dst' i' = Inr r"
      by (subst (asm) powers_loop.simps) (auto simp: Let_def dst'_def split: if_splits elim!: rbindE)
    then show ?thesis using "1.IH"[OF _ _ dst'_def] True pos by cases auto
  next
    case False
    then show ?thesis using "1.prems"
      by (subst (asm) powers_loop.simps) (auto split: if_splits)
  qed
qed

lemma ThreadRange_positive:
  assumes "AddRange int32_max dst lo hi 2 = Inr r" "0 < lo" "\<forall>t \<in> set dst. 0 < t"
  shows "\<forall>t \<in> set r. 0 < t"
proof -
  have "\<not> lo + 1 < 0" "\<not> lo < 0" using assms(2) by auto
  then show ?thesis using assms
    unfolding AddRange_def rbind_BM_CHECK AddPowers_def
    by (auto simp: Let_def chk_int_eq_Inr split: if_splits elim!: rbindE dest!: powers_loop_positive)
qed

lemma dense_threads_positive:
  "dense_threads_loop hi stride acc i = Inr r \<Longrightarrow> 0 < i \<Longrightarrow> \<forall>t \<in> set acc. 0 < t \<Longrightarrow>
   \<forall>t \<in> set r. 0 < t"
proof (induction hi stride acc i rule: dense_threads_loop.induct)
  case (1 hi stride acc i)
  show ?case
  proof (cases "i < hi")
    case True
    with "1.prems"(1) obtain i' where "\<not> stride < 1" "chk_int in_i32 (i + stride) = Inr i'"
      "dense_threads_loop hi stride (acc @ [i]) i' = Inr r"
      by (subst (asm) dense_threads_loop.simps) (auto split: if_splits elim!: rbindE)
    then show ?thesis using "1.IH"[OF True] "1.prems" True by (auto simp: chk_int_eq_Inr)
  next
    case False
    then show ?thesis using "1.prems" by (subst (asm) dense_threads_loop.simps) auto
  qed
qed

lemma Arg_wf: "wf_args b \<Longrightarrow> Arg x b = Inr b' \<Longrightarrow> args_only b b'"
  using append_singletons_wf[of b "[x]"] by (auto simp: Arg_def elim!: rbindE)

lemma Range_wf: "wf_args b \<Longrightarrow> Range lo hi b = Inr b' \<Longrightarrow> args_only b b'"
  by (auto simp: Range_def append_singletons_wf elim!: rbindE)

lemma DenseRange_wf: "wf_args b \<Longrightarrow> DenseRange lo hi step b = Inr b' \<Longrightarrow> args_only b b'"
  by (auto simp: DenseRange_def append_singletons_wf elim!: rbindE split: option.splits)

lemma Args_wf: "wf_args b \<Longrightarrow> Args as b = Inr b' \<Longrightarrow> args_only b b'"
  by (auto simp: Args_def intro!: args_onlyI wf_args_append[of b "length as"] elim!: rbindE)

lemma ArgNames_wf: "wf_args b \<Longrightarrow> ArgNames ns b = Inr b' \<Longrightarrow> args_only b b'"
  by (auto simp: ArgNames_def intro!: args_onlyI2 wf_args_names elim!: rbindE)

lemma ArgName_wf: "wf_args b \<Longrightarrow> ArgName n b = Inr b' \<Longrightarrow> args_only b b'"
  using ArgNames_wf[of b "[n]"] by (auto simp: ArgName_def ArgNames_def rbind_BM_CHECK split: if_splits)

lemmas args_ops_wf = Arg_wf Range_wf DenseRange_wf Args_wf ArgNames_wf ArgName_wf ArgsProduct_wf
  Ranges_wf

lemma args_only_wf: "args_only b b' \<Longrightarrow> wf_Benchmark b \<Longrightarrow> wf_Benchmark b'"
  by (auto simp: args_only_def wf_Benchmark_def wf_modes_def)

lemmas checked_ops_defs = Setup_def Teardown_def RangeMultiplier_def MinTime_def MinWarmUpTime_def
  Iterations_def Repetitions_def UseRealTime_def UseManualTime_def Threads_def ThreadRange_def
  DenseThreadRange_def

lemmas plain_ops_defs = SetName_def Unit_def ReportAggregatesOnly_def DisplayAggregatesOnly_def
  MeasureProcessCPUTime_def Complexity_def Complexity_lambda_def ComputeStatistics_def
  ThreadPerCpu_def ThreadRunner_def Let_def

lemma thread_ops_wf:
  assumes "wf_Benchmark b"
  shows "Threads t b = Inr b' \<Longrightarrow> wf_Benchmark b'"
    "ThreadRange lo hi b = Inr b' \<Longrightarrow> wf_Benchmark b'"
    "DenseThreadRange lo hi s b = Inr b' \<Longrightarrow> wf_Benchmark b'"
proof -
  have keep: "wf_Benchmark (b\<lparr>b_thread_counts := ts\<rparr>)" if "\<forall>t \<in> set ts. 0 < t" for ts
    using assms that by (simp add: wf_Benchmark_def wf_modes_def wf_args_def)
  have pos: "\<forall>t \<in> set (b_thread_counts b). 0 < t"
    using assms by (simp add: wf_Benchmark_def wf_modes_def)
  show "Threads t b = Inr b' \<Longrightarrow> wf_Benchmark b'"
    using pos by (auto simp: Threads_def elim!: rbindE intro!: keep)
  show "ThreadRange lo hi b = Inr b' \<Longrightarrow> wf_Benchmark b'"
    using ThreadRange_positive pos by (auto simp: ThreadRange_def elim!: rbindE intro!: keep)
  show "DenseThreadRange lo hi s b = Inr b' \<Longrightarrow> wf_Benchmark b'"
    using dense_threads_positive pos
    by (auto simp: DenseThreadRange_def elim!: rbindE intro!: keep)
qed

text \<open>What an update of one field does to the invariant.\<close>

lemma wf_irrelevant_updates:
  "wf_Benchmark (b\<lparr>b_name := s\<rparr>) = wf_Benchmark b"
  "wf_Benchmark (b\<lparr>b_time_unit := u\<rparr>) = wf_Benchmark b"
  "wf_Benchmark (b\<lparr>b_use_default_time_unit := v\<rparr>) = wf_Benchmark b"
  "wf_Benchmark (b\<lparr>b_aggregation_report_mode := m\<rparr>) = wf_Benchmark b"
  "wf_Benchmark (b\<lparr>b_measure_process_cpu_time := v\<rparr>) = wf_Benchmark b"
  "wf_Benchmark (b\<lparr>b_complexity := c\<rparr>) = wf_Benchmark b"
  "wf_Benchmark (b\<lparr>b_complexity_lambda := f\<rparr>) = wf_Benchmark b"
  "wf_Benchmark (b\<lparr>b_statistics := sts\<rparr>) = wf_Benchmark b"
  "wf_Benchmark (b\<lparr>b_setup := cb\<rparr>) = wf_Benchmark b"
  "wf_Benchmark (b\<lparr>b_teardown := cb\<rparr>) = wf_Benchmark b"
  "wf_Benchmark (b\<lparr>b_threadrunner := cb\<rparr>) = wf_Benchmark b"
  by (simp_all add: wf_Benchmark_def wf_modes_def wf_args_def)

lemma wf_relevant_updates:
  assumes "wf_Benchmark b"
  shows "2 \<le> m \<Longrightarrow> wf_Benchmark (b\<lparr>b_range_multiplier := m\<rparr>)"
    "b_iterations b = 0 \<Longrightarrow> t \<ge> Fin 0 \<Longrightarrow> wf_Benchmark (b\<lparr>b_min_time := t\<rparr>)"
    "b_iterations b = 0 \<Longrightarrow> t \<ge> Fin 0 \<Longrightarrow> wf_Benchmark (b\<lparr>b_min_warmup_time := t\<rparr>)"
    "0 < n \<Longrightarrow> IsZero (b_min_time b) \<Longrightarrow> IsZero (b_min_warmup_time b) \<Longrightarrow>
       wf_Benchmark (b\<lparr>b_iterations := n\<rparr>)"
    "0 < n \<Longrightarrow> wf_Benchmark (b\<lparr>b_repetitions := n\<rparr>)"
    "\<not> b_use_manual_time b \<Longrightarrow> wf_Benchmark (b\<lparr>b_use_real_time := True\<rparr>)"
    "\<not> b_use_real_time b \<Longrightarrow> wf_Benchmark (b\<lparr>b_use_manual_time := True\<rparr>)"
    "0 < k \<Longrightarrow> wf_Benchmark (b\<lparr>b_thread_counts := b_thread_counts b @ [k]\<rparr>)"
  using assms by (simp_all add: wf_Benchmark_def wf_modes_def wf_args_def ball_Un)

lemma checked_ops_wf:
  assumes "wf_Benchmark b"
  shows "Setup cb b = Inr b' \<Longrightarrow> wf_Benchmark b'"
    "Teardown cb b = Inr b' \<Longrightarrow> wf_Benchmark b'"
    "RangeMultiplier m b = Inr b' \<Longrightarrow> wf_Benchmark b'"
    "MinTime t b = Inr b' \<Longrightarrow> wf_Benchmark b'"
    "MinWarmUpTime t b = Inr b' \<Longrightarrow> wf_Benchmark b'"
    "Iterations n b = Inr b' \<Longrightarrow> wf_Benchmark b'"
    "Repetitions k b = Inr b' \<Longrightarrow> wf_Benchmark b'"
    "UseRealTime b = Inr b' \<Longrightarrow> wf_Benchmark b'"
    "UseManualTime b = Inr b' \<Longrightarrow> wf_Benchmark b'"
  using assms
  by (auto simp: checked_ops_defs wf_irrelevant_updates wf_relevant_updates double_less_imp_le elim!: rbindE)

lemma plain_ops_wf:
  assumes "wf_Benchmark b"
  shows "wf_Benchmark (SetName s b)" "wf_Benchmark (Unit u b)"
    "wf_Benchmark (ReportAggregatesOnly v b)" "wf_Benchmark (DisplayAggregatesOnly v b)"
    "wf_Benchmark (MeasureProcessCPUTime b)" "wf_Benchmark (Complexity c b)"
    "wf_Benchmark (Complexity_lambda f b)" "wf_Benchmark (ComputeStatistics s g st b)"
    "wf_Benchmark (ThreadRunner h b)" "0 < cpus \<Longrightarrow> wf_Benchmark (ThreadPerCpu cpus b)"
  using assms by (simp_all add: plain_ops_defs wf_irrelevant_updates wf_relevant_updates)

lemma call_wf:
  assumes "wf_Benchmark b" "0 < cpus" "call cpus c b = Inr b'"
  shows "wf_Benchmark b'"
proof -
  have args: "wf_args b" using assms(1) by (simp add: wf_Benchmark_def)
  note args_ops = args_ops_wf[OF args, THEN args_only_wf, OF _ assms(1)]
  show ?thesis
    using assms(3)
    by (cases c; simp add: ArgPair_def RangePair_def)
      (elim args_ops thread_ops_wf[OF assms(1)] checked_ops_wf[OF assms(1)]
        | (drule sym, simp add: plain_ops_wf[OF assms(1)] assms(2)))+
qed

lemma Apply_wf: "wf_Benchmark b \<Longrightarrow> 0 < cpus \<Longrightarrow> Apply cpus cs b = Inr b' \<Longrightarrow> wf_Benchmark b'"
  unfolding Apply_def by (erule rfold_invariant[where P = wf_Benchmark]) (auto intro: call_wf)

lemma Benchmark_new_wf: "wf_Benchmark (Benchmark_new m md sd cv u name)"
  by (simp add: Benchmark_new_def ComputeStatistics_def wf_Benchmark_def wf_args_def wf_modes_def
      kRangeMultiplier_def)

section \<open>Properties\<close>

text \<open>C16: Whatever chain of configuring methods a user (or the function given to \<open>Apply\<close>) calls on a
  freshly constructed benchmark, if no check fails the registration is well-formed: every argument
  vector has one arity, which is that of the argument names when there are any; real time and manual
  time are not both on; a fixed iteration count excludes a minimum time; the range multiplier is
  at least two and every thread count is positive.\<close>

theorem builder_chain_wf:
  assumes "0 < cpus" "Apply cpus calls (Benchmark_new mean median stddev cv unit name) = Inr b"
  shows "wf_Benchmark b"
  using Apply_wf[OF Benchmark_new_wf assms] .

theorem builder_chain_wf_witness:
  "\<exists>b. Apply 4 [CArg 8, CThreads 2, CUseRealTime] (Benchmark_new (\<lambda>_. Fin 0) (\<lambda>_. Fin 0) (\<lambda>_. Fin 0)
     (\<lambda>_. Fin 0) kNanosecond ''BM_x'') = Inr b \<and> wf_Benchmark b \<and> b_args b = [[8]]"
proof -
  let ?new = "Benchmark_new (\<lambda>_. Fin 0) (\<lambda>_. Fin 0) (\<lambda>_. Fin 0) (\<lambda>_. Fin 0) kNanosecond ''BM_x''"
  obtain b where b: "Apply 4 [CArg 8, CThreads 2, CUseRealTime] ?new = Inr b" "b_args b = [[8]]"
    by (simp add: Apply_def Benchmark_new_def ComputeStatistics_def Arg_def ArgsCnt_def Threads_def
        UseRealTime_def)
  show ?thesis using builder_chain_wf[OF _ b(1)] b by auto
qed

text \<open>C17: \<open>ArgsProduct\<close>, for lists with fewer than 2 ^ 64 combinations.  Lists that are not as many as the arguments the
  benchmark has are refused.  For at least one list it appends one argument vector for each combination of the lists'
  elements, as many as there are combinations, each once when no list repeats a value, the first list
  varying fastest, and accesses no list or index out of range on the way; without any list it does: it reads the
  first of no indices.\<close>

theorem ArgsProduct_cartesian:
  assumes "combinations ls < 2 ^ 64"
  shows "if ArgsCnt b \<noteq> -1 \<and> ArgsCnt b \<noteq> int (length ls)
    then ArgsProduct ls b = Inl (CheckFailed ''ArgsCnt() == -1 || ArgsCnt() == arglists.size()'')
    else if ls = [] then ArgsProduct ls b = Inl (Undefined ''vector index out of range'')
    else \<exists>new. ArgsProduct ls b = Inr (b\<lparr>b_args := b_args b @ new\<rparr>) \<and> length new = combinations ls \<and>
      set new = {xs. list_all2 (\<lambda>x l. x \<in> set l) xs ls} \<and> ((\<forall>l \<in> set ls. distinct l) \<longrightarrow> distinct new) \<and>
      (\<forall>i < length new. new ! i = map2 (!) ls (digits ls i))"
proof (cases "(ArgsCnt b = -1 \<or> ArgsCnt b = int (length ls)) \<and> ls \<noteq> []")
  case True
  then have "ArgsProduct ls b = Inr (b\<lparr>b_args := b_args b @ product_fast ls\<rparr>)"
    using ArgsProduct_spec[of b ls] assms by auto
  then have "\<exists>new. ArgsProduct ls b = Inr (b\<lparr>b_args := b_args b @ new\<rparr>) \<and> length new = combinations ls \<and>
      set new = {xs. list_all2 (\<lambda>x l. x \<in> set l) xs ls} \<and> ((\<forall>l \<in> set ls. distinct l) \<longrightarrow> distinct new) \<and>
      (\<forall>i < length new. new ! i = map2 (!) ls (digits ls i))"
    by (intro exI[of _ "product_fast ls"])
      (simp add: length_product_fast set_product_fast distinct_product_fast nth_product_fast)
  with True show ?thesis by auto
next
  case False
  have "args_product_loop [] 1 acc [] = Inl (Undefined ''vector index out of range'')" for acc
    by (subst One_nat_def, subst args_product_loop.simps, subst advance.simps) simp
  with False show ?thesis by (auto simp: ArgsProduct_def BM_CHECK_def)
qed

theorem ArgsProduct_cartesian_witness:
  "\<exists>new. ArgsProduct [[1, 2], [7, 8]] (Benchmark_new (\<lambda>_. Fin 0) (\<lambda>_. Fin 0) (\<lambda>_. Fin 0) (\<lambda>_. Fin 0) kSecond ''f'') =
     Inr ((Benchmark_new (\<lambda>_. Fin 0) (\<lambda>_. Fin 0) (\<lambda>_. Fin 0) (\<lambda>_. Fin 0) kSecond ''f'')\<lparr>b_args := new\<rparr>) \<and>
     distinct new \<and> set new = {xs. list_all2 (\<lambda>x l. x \<in> set l) xs [[1, 2], [7, 8]]}"
proof -
  let ?b = "Benchmark_new (\<lambda>_. Fin 0) (\<lambda>_. Fin 0) (\<lambda>_. Fin 0) (\<lambda>_. Fin 0) kSecond ''f''"
  have new: "ArgsCnt ?b = -1" "b_args ?b = []"
    by (simp_all add: Benchmark_new_def ComputeStatistics_def ArgsCnt_def)
  show ?thesis
    using ArgsProduct_cartesian[of "[[1, 2], [7, 8]]" ?b] new by auto
qed

text \<open>\<open>Range\<close> on a well-formed benchmark with one argument (or none yet) appends, in increasing order
  and without repetition, exactly the two limits, zero if it lies between them, and every positive or
  negated power of the range multiplier that lies between them; no addition, negation or
  multiplication on the way leaves \<open>int64_t\<close>.\<close>

theorem Range_args:
  assumes "wf_Benchmark b" "ArgsCnt b = -1 \<or> ArgsCnt b = 1" "in_i64 lo" "in_i64 hi" "lo \<le> hi"
  shows "\<exists>xs. Range lo hi b = Inr (b\<lparr>b_args := b_args b @ map (\<lambda>x. [x]) xs\<rparr>) \<and>
    sorted_wrt (<) xs \<and> set xs = range_values lo hi (b_range_multiplier b)"
proof -
  have "2 \<le> b_range_multiplier b" using assms(1) by (simp add: wf_Benchmark_def wf_modes_def)
  from CreateRange_spec[OF assms(3,4,5) this] show ?thesis
    using assms(2) by (auto simp: Range_def CreateRange_def)
qed

theorem Range_args_witness:
  "\<exists>xs. Range (-9) 70 (Benchmark_new (\<lambda>_. Fin 0) (\<lambda>_. Fin 0) (\<lambda>_. Fin 0) (\<lambda>_. Fin 0) kSecond ''f'') =
     Inr ((Benchmark_new (\<lambda>_. Fin 0) (\<lambda>_. Fin 0) (\<lambda>_. Fin 0) (\<lambda>_. Fin 0) kSecond ''f'')\<lparr>b_args := map (\<lambda>x. [x]) xs\<rparr>) \<and>
     sorted_wrt (<) xs \<and> set xs = range_values (-9) 70 8"
proof -
  let ?b = "Benchmark_new (\<lambda>_. Fin 0) (\<lambda>_. Fin 0) (\<lambda>_. Fin 0) (\<lambda>_. Fin 0) kSecond ''f''"
  have new: "ArgsCnt ?b = -1" "b_args ?b = []" "b_range_multiplier ?b = 8"
    by (simp_all add: Benchmark_new_def ComputeStatistics_def ArgsCnt_def kRangeMultiplier_def)
  show ?thesis
    using Range_args[OF Benchmark_new_wf, of "\<lambda>_. Fin 0" "\<lambda>_. Fin 0" "\<lambda>_. Fin 0" "\<lambda>_. Fin 0" kSecond "''f''" "-9" 70]
    by (auto simp: new int_width_defs)
qed

end
