(* ===== verification/Instances.thy ===== *)
theory Instances
  imports Register
begin

text \<open>
  From registrations to runnable instances: \<open>BenchmarkInstance\<close> (src/src/benchmark_api_internal.cc)
  and \<open>BenchmarkFamilies\<close> with \<open>FindBenchmarks\<close> (src/src/benchmark_register.cc).

  The regular-expression engine is outside of the sources: \<open>compile\<close> stands for \<open>Regex::Init\<close> and
  \<open>Regex::Match\<close>; it gives an error message or the predicate on names.
\<close>

section \<open>Instances\<close>

record BenchmarkInstance =
  i_name :: BenchmarkName
  i_family_index :: int
  i_per_family_instance_index :: int
  i_aggregation_report_mode :: arm
  i_args :: "int list"
  i_time_unit :: TimeUnit
  i_measure_process_cpu_time :: bool
  i_use_real_time :: bool
  i_use_manual_time :: bool
  i_complexity :: BigO
  i_complexity_lambda :: "(int \<Rightarrow> double) option"
  i_statistics :: "Statistics list"
  i_repetitions :: int
  i_min_time :: double
  i_min_warmup_time :: double
  i_iterations :: int
  i_threads :: int
  i_setup :: "callback option"
  i_teardown :: "callback option"
  i_threadrunner :: "callback option"

text \<open>The loop that builds the argument part of the name; \<open>arg_i\<close> counts along.\<close>

fun name_args_loop :: "string list \<Rightarrow> nat \<Rightarrow> string \<Rightarrow> int list \<Rightarrow> string" where
  "name_args_loop arg_names arg_i acc [] = acc"
| "name_args_loop arg_names arg_i acc (arg # args) =
     (let acc = (if acc \<noteq> [] then acc @ ''/'' else acc);
          acc = (if arg_i < length arg_names \<and> arg_names ! arg_i \<noteq> []
                 then acc @ c_str (arg_names ! arg_i) @ '':'' else acc)
      in name_args_loop arg_names (arg_i + 1) (acc @ show_int arg) args)"

definition time_type_name :: "Benchmark \<Rightarrow> string" where
  "time_type_name b =
     (let t = (if b_measure_process_cpu_time b then ''process_time'' else []) in
      if b_use_manual_time b then (if t \<noteq> [] then t @ ''/'' else t) @ ''manual_time''
      else if b_use_real_time b then (if t \<noteq> [] then t @ ''/'' else t) @ ''real_time''
      else t)"

definition instance_name :: "Benchmark \<Rightarrow> int list \<Rightarrow> int \<Rightarrow> BenchmarkName" where
  "instance_name b args thread_count =
     \<lparr>n_function_name = b_name b,
      n_args = name_args_loop (b_arg_names b) 0 [] args,
      n_min_time = (if \<not> IsZero (b_min_time b) then ''min_time:'' @ fmt_f 3 (b_min_time b) else []),
      n_min_warmup_time = (if \<not> IsZero (b_min_warmup_time b)
        then ''min_warmup_time:'' @ fmt_f 3 (b_min_warmup_time b) else []),
      n_iterations = (if b_iterations b \<noteq> 0
        then ''iterations:'' @ show_int (b_iterations b mod 2 ^ 64) else []),
      n_repetitions = (if b_repetitions b \<noteq> 0 then ''repeats:'' @ show_int (b_repetitions b) else []),
      n_time_type = time_type_name b,
      n_threads = (if b_thread_counts b \<noteq> [] then ''threads:'' @ show_int thread_count else [])\<rparr>"

definition BenchmarkInstance_new ::
  "TimeUnit \<Rightarrow> Benchmark \<Rightarrow> int \<Rightarrow> int \<Rightarrow> int list \<Rightarrow> int \<Rightarrow> BenchmarkInstance" where
  "BenchmarkInstance_new default_unit b family_idx per_family_instance_idx args thread_count =
     \<lparr>i_name = instance_name b args thread_count,
      i_family_index = family_idx,
      i_per_family_instance_index = per_family_instance_idx,
      i_aggregation_report_mode = b_aggregation_report_mode b,
      i_args = args,
      i_time_unit = GetTimeUnit default_unit b,
      i_measure_process_cpu_time = b_measure_process_cpu_time b,
      i_use_real_time = b_use_real_time b,
      i_use_manual_time = b_use_manual_time b,
      i_complexity = b_complexity b,
      i_complexity_lambda = b_complexity_lambda b,
      i_statistics = b_statistics b,
      i_repetitions = b_repetitions b,
      i_min_time = b_min_time b,
      i_min_warmup_time = b_min_warmup_time b,
      i_iterations = b_iterations b,
      i_threads = thread_count,
      i_setup = b_setup b,
      i_teardown = b_teardown b,
      i_threadrunner = b_threadrunner b\<rparr>"

section \<open>The registry of families\<close>

text \<open>A deleted family is a null pointer.\<close>

type_synonym BenchmarkFamilies = "Benchmark option list"

definition AddBenchmark :: "Benchmark \<Rightarrow> BenchmarkFamilies \<Rightarrow> nat \<times> BenchmarkFamilies" where
  "AddBenchmark family families = (length families, families @ [Some family])"

definition ClearBenchmarks :: "BenchmarkFamilies \<Rightarrow> BenchmarkFamilies" where
  "ClearBenchmarks families = []"

definition kDisabledPrefix :: string where "kDisabledPrefix = ''DISABLED_''"

definition kMaxFamilySize :: nat where "kMaxFamilySize = 100"

definition name_selected :: "(string \<Rightarrow> bool) \<Rightarrow> bool \<Rightarrow> string \<Rightarrow> bool" where
  "name_selected matches is_negative_filter full_name \<longleftrightarrow>
     \<not> starts_with full_name kDisabledPrefix \<and>
     ((matches full_name \<and> \<not> is_negative_filter) \<or> (\<not> matches full_name \<and> is_negative_filter))"

record find_state =
  fs_benchmarks :: "BenchmarkInstance list"
  fs_next_family_index :: int
  fs_per_family_instance_index :: int
  fs_err :: string

text \<open>The body of the two inner loops.\<close>

definition consider_instance ::
  "TimeUnit \<Rightarrow> (string \<Rightarrow> bool) \<Rightarrow> bool \<Rightarrow> Benchmark \<Rightarrow> int \<Rightarrow> find_state \<Rightarrow> int list \<times> int \<Rightarrow> find_state" where
  "consider_instance default_unit matches is_negative_filter family family_index s =
     (\<lambda>(args, num_threads).
       let inst = BenchmarkInstance_new default_unit family family_index
             (fs_per_family_instance_index s) args num_threads
       in if name_selected matches is_negative_filter (BenchmarkName_str (i_name inst))
          then s\<lparr>fs_benchmarks := fs_benchmarks s @ [inst],
                 fs_per_family_instance_index := fs_per_family_instance_index s + 1,
                 fs_next_family_index :=
                   (if fs_next_family_index s = family_index then fs_next_family_index s + 1
                    else fs_next_family_index s)\<rparr>
          else s)"

definition thread_counts_of :: "Benchmark \<Rightarrow> int list" where
  "thread_counts_of family = (if b_thread_counts family = [] then [1] else b_thread_counts family)"

text \<open>One family: the defaulted empty argument list, the warning, the loops over its instances.\<close>

definition find_in_family ::
  "TimeUnit \<Rightarrow> (string \<Rightarrow> bool) \<Rightarrow> bool \<Rightarrow> find_state \<Rightarrow> Benchmark option \<Rightarrow> (find_state \<times> Benchmark option) res" where
  "find_in_family default_unit matches is_negative_filter s family_ptr =
     (case family_ptr of
        None \<Rightarrow> Inr (s\<lparr>fs_per_family_instance_index := 0\<rparr>, None)
      | Some family0 \<Rightarrow>
          rbind (if ArgsCnt family0 = -1 then Args [] family0 else Inr family0) (\<lambda>family.
          (let family_index = fs_next_family_index s;
               thread_counts = thread_counts_of family;
               family_size = length (b_args family) * length thread_counts;
               s1 = s\<lparr>fs_per_family_instance_index := 0,
                      fs_err := fs_err s @
                        (if family_size > kMaxFamilySize
                         then ''The number of inputs is very large. '' @ b_name family @
                              '' will be repeated at least '' @ show_int (int family_size) @
                              '' times.'' @ ''\<newline>''
                         else [])\<rparr>;
               s2 = foldl (\<lambda>s args. foldl (\<lambda>s num_threads.
                      consider_instance default_unit matches is_negative_filter family family_index s
                        (args, num_threads)) s thread_counts) s1 (b_args family)
           in Inr (s2, Some family))))"

definition FindBenchmarks ::
  "TimeUnit \<Rightarrow> (string \<Rightarrow> string + (string \<Rightarrow> bool)) \<Rightarrow> BenchmarkFamilies \<Rightarrow> string \<Rightarrow>
   BenchmarkInstance list \<Rightarrow> (bool \<times> BenchmarkFamilies \<times> find_state) res" where
  "FindBenchmarks default_unit compile families spec benchmarks =
     (let is_negative_filter = (case spec of [] \<Rightarrow> False | c # _ \<Rightarrow> c = CHR ''-'');
          spec' = (if is_negative_filter then tl spec else spec);
          s0 = \<lparr>fs_benchmarks = benchmarks, fs_next_family_index = 0, fs_per_family_instance_index = 0,
                fs_err = []\<rparr>
      in case compile spec' of
           Inl error_msg \<Rightarrow> Inr (False, families,
             s0\<lparr>fs_err := ''Could not compile benchmark re: '' @ error_msg @ ''\<newline>''\<rparr>)
         | Inr matches \<Rightarrow>
             rbind (rfold (\<lambda>(s, fams) fam.
                 rbind (find_in_family default_unit matches is_negative_filter s fam) (\<lambda>(s', fam').
                 Inr (s', fams @ [fam']))) (s0, []) families) (\<lambda>(s, fams).
             Inr (True, fams, s)))"

section \<open>What is found\<close>

text \<open>The family that \<open>FindBenchmarks\<close> works on: without arguments it gets one empty argument list.\<close>

definition with_default_args :: "Benchmark \<Rightarrow> Benchmark" where
  "with_default_args f = (if ArgsCnt f = -1 then f\<lparr>b_args := b_args f @ [[]]\<rparr> else f)"

definition candidates :: "Benchmark \<Rightarrow> (int list \<times> int) list" where
  "candidates f = concat (map (\<lambda>args. map (Pair args) (thread_counts_of f)) (b_args f))"

definition selected :: "(string \<Rightarrow> bool) \<Rightarrow> bool \<Rightarrow> Benchmark \<Rightarrow> (int list \<times> int) list" where
  "selected matches neg f =
     filter (\<lambda>(args, t). name_selected matches neg (BenchmarkName_str (instance_name f args t))) (candidates f)"

definition instances_of ::
  "TimeUnit \<Rightarrow> int \<Rightarrow> Benchmark \<Rightarrow> (int list \<times> int) list \<Rightarrow> BenchmarkInstance list" where
  "instances_of u j f sel = map (\<lambda>(k, args, t). BenchmarkInstance_new u f j (int k) args t) (enumerate 0 sel)"

lemma consider_fold:
  fixes matches neg f cs
  assumes "fs_next_family_index s = j + (if fs_per_family_instance_index s = 0 then 0 else 1)"
    and "fs_per_family_instance_index s = int p"
  defines "sel \<equiv> filter (\<lambda>(args, t). name_selected matches neg (BenchmarkName_str (instance_name f args t))) cs"
  shows "foldl (consider_instance u matches neg f j) s cs = s\<lparr>
    fs_benchmarks := fs_benchmarks s @
      map (\<lambda>(k, args, t). BenchmarkInstance_new u f j (int k) args t) (enumerate p sel),
    fs_per_family_instance_index := int (p + length sel),
    fs_next_family_index := j + (if p + length sel = 0 then 0 else 1)\<rparr>"
  using assms(1,2) unfolding sel_def
proof (induction cs arbitrary: s p)
  case (Cons c cs)
  obtain args t where c: "c = (args, t)" by force
  let ?one = "consider_instance u matches neg f j s c"
  show ?case
  proof (cases "name_selected matches neg (BenchmarkName_str (instance_name f args t))")
    case True
    then have one: "?one = s\<lparr>fs_benchmarks := fs_benchmarks s @ [BenchmarkInstance_new u f j (int p) args t],
        fs_per_family_instance_index := int (Suc p), fs_next_family_index := j + 1\<rparr>"
      using Cons.prems by (auto simp: consider_instance_def c BenchmarkInstance_new_def Let_def)
    show ?thesis
      using Cons.IH[of ?one "Suc p"] True by (simp add: one[unfolded c] c)
  next
    case False
    then have "?one = s" by (simp add: consider_instance_def c BenchmarkInstance_new_def Let_def)
    then show ?thesis using Cons.IH[OF Cons.prems] False by (simp add: c)
  qed
qed auto

lemma foldl_nested: "foldl (\<lambda>s a. foldl (\<lambda>s t. g s (a, t)) s ts) s as = foldl g s (concat (map (\<lambda>a. map (Pair a) ts) as))"
proof (induction as arbitrary: s)
  case (Cons a as)
  have "foldl (\<lambda>s t. g s (a, t)) s ts = foldl g s (map (Pair a) ts)" for s
    by (induction ts arbitrary: s) auto
  then show ?case using Cons by simp
qed simp

lemma find_in_family_Some:
  "\<exists>err. find_in_family u matches neg s (Some f) = Inr (
     s\<lparr>fs_benchmarks := fs_benchmarks s @
         instances_of u (fs_next_family_index s) (with_default_args f) (selected matches neg (with_default_args f)),
       fs_per_family_instance_index := int (length (selected matches neg (with_default_args f))),
       fs_next_family_index := fs_next_family_index s +
         (if selected matches neg (with_default_args f) = [] then 0 else 1),
       fs_err := err\<rparr>, Some (with_default_args f))"
proof -
  let ?f = "with_default_args f"
  have def_args: "(if ArgsCnt f = -1 then Args [] f else Inr f) = Inr ?f"
    by (auto simp: with_default_args_def Args_def)
  define e where "e = fs_err s @ (if length (b_args ?f) * length (thread_counts_of ?f) > kMaxFamilySize
      then ''The number of inputs is very large. '' @ b_name ?f @ '' will be repeated at least '' @
        show_int (int (length (b_args ?f) * length (thread_counts_of ?f))) @ '' times.'' @ ''\<newline>''
      else [])"
  show ?thesis
    by (intro exI[of _ e], simp only: e_def[symmetric] option.case find_in_family_def def_args Let_def
        rbind_Inr foldl_nested candidates_def[symmetric])
      (simp add:
        consider_fold[where j = "fs_next_family_index s" and p = 0] selected_def instances_of_def)
qed

text \<open>The families that have something selected, with what is selected.\<close>

definition matching_families ::
  "(string \<Rightarrow> bool) \<Rightarrow> bool \<Rightarrow> BenchmarkFamilies \<Rightarrow> (Benchmark \<times> (int list \<times> int) list) list" where
  "matching_families matches neg families =
     filter (\<lambda>(f, sel). sel \<noteq> [])
       (map (\<lambda>f. (with_default_args f, selected matches neg (with_default_args f)))
         (List.map_filter id families))"

lemma find_all_families:
  assumes "fs_next_family_index s = int j"
  shows "\<exists>s' fams'. rfold (\<lambda>(s, fams) fam.
        rbind (find_in_family u matches neg s fam) (\<lambda>(s', fam'). Inr (s', fams @ [fam']))) (s, fams) families
      = Inr (s', fams @ map (map_option with_default_args) families) \<and>
    fs_benchmarks s' = fs_benchmarks s @ concat (map (\<lambda>(j, f, sel). instances_of u (int j) f sel)
      (enumerate j (matching_families matches neg families)))"
  using assms
proof (induction families arbitrary: s j fams)
  case Nil
  then show ?case by (simp add: matching_families_def map_filter_simps)
next
  case (Cons fam families)
  show ?case
  proof (cases fam)
    case None
    then show ?thesis
      using Cons.IH[of "s\<lparr>fs_per_family_instance_index := 0\<rparr>" j "fams @ [None]"] Cons.prems
      by (simp add: find_in_family_def matching_families_def map_filter_simps)
  next
    case (Some f)
    let ?sel = "selected matches neg (with_default_args f)"
    obtain err where one: "find_in_family u matches neg s (Some f) = Inr (
       s\<lparr>fs_benchmarks := fs_benchmarks s @ instances_of u (fs_next_family_index s) (with_default_args f) ?sel,
         fs_per_family_instance_index := int (length ?sel),
         fs_next_family_index := fs_next_family_index s + (if ?sel = [] then 0 else 1),
         fs_err := err\<rparr>, Some (with_default_args f))" (is "_ = Inr (?s1, _)")
      using find_in_family_Some by blast
    have "fs_next_family_index ?s1 = int (if ?sel = [] then j else Suc j)" using Cons.prems by simp
    from Cons.IH[OF this, of "fams @ [Some (with_default_args f)]"] show ?thesis
      using Cons.prems by (auto simp: Some one matching_families_def map_filter_simps instances_of_def)
  qed
qed

lemma FindBenchmarks_found:
  assumes "compile (if neg then tl spec else spec) = Inr matches"
    and "neg = (spec \<noteq> [] \<and> hd spec = CHR ''-'')"
  shows "\<exists>s. FindBenchmarks u compile families spec [] =
      Inr (True, map (map_option with_default_args) families, s) \<and>
    fs_benchmarks s = concat (map (\<lambda>(j, f, sel).
        map (\<lambda>(k, args, t). BenchmarkInstance_new u f (int j) (int k) args t) (enumerate 0 sel))
      (enumerate 0 (matching_families matches neg families)))"
proof -
  have neg: "(case spec of [] \<Rightarrow> False | c # _ \<Rightarrow> c = CHR ''-'') = neg"
    using assms(2) by (cases spec) auto
  show ?thesis
    using find_all_families[of "\<lparr>fs_benchmarks = [], fs_next_family_index = 0,
        fs_per_family_instance_index = 0, fs_err = []\<rparr>" 0 u matches neg "[]" families]
    by (auto simp: FindBenchmarks_def neg assms(1) Let_def instances_of_def)
qed

text \<open>C10: \<open>FindBenchmarks\<close> with a pattern that compiles returns, family by family and in the order of the
  nested loops over argument lists and thread counts, one instance for exactly those whose full name is
  not disabled and matches (does not match, after a leading minus).  The families that have at
  least one instance are numbered 0, 1, 2, ... and the instances of each family 0, 1, 2, ..., without
  gaps, whatever else was filtered out.\<close>

theorem FindBenchmarks_selects:
  assumes "compile (if neg then tl spec else spec) = Inr matches"
    and "neg = (spec \<noteq> [] \<and> hd spec = CHR ''-'')"
  shows "\<exists>s. FindBenchmarks u compile families spec [] =
      Inr (True, map (map_option with_default_args) families, s) \<and>
    fs_benchmarks s = concat (map (\<lambda>(j, f, sel).
        map (\<lambda>(k, args, t). BenchmarkInstance_new u f (int j) (int k) args t) (enumerate 0 sel))
      (enumerate 0 (matching_families matches neg families)))"
  by (rule FindBenchmarks_found) (rule assms)+

theorem FindBenchmarks_selects_witness:
  "\<exists>s. FindBenchmarks kNanosecond (\<lambda>p. Inr (\<lambda>n. contains n p))
      [Some (Benchmark_new (\<lambda>_. Fin 0) (\<lambda>_. Fin 0) (\<lambda>_. Fin 0) (\<lambda>_. Fin 0) kSecond ''BM_a''),
       Some (Benchmark_new (\<lambda>_. Fin 0) (\<lambda>_. Fin 0) (\<lambda>_. Fin 0) (\<lambda>_. Fin 0) kSecond ''BM_b'')] ''-_a'' [] =
      Inr (True, [Some (with_default_args (Benchmark_new (\<lambda>_. Fin 0) (\<lambda>_. Fin 0) (\<lambda>_. Fin 0) (\<lambda>_. Fin 0) kSecond ''BM_a'')),
        Some (with_default_args (Benchmark_new (\<lambda>_. Fin 0) (\<lambda>_. Fin 0) (\<lambda>_. Fin 0) (\<lambda>_. Fin 0) kSecond ''BM_b''))], s) \<and>
    map (\<lambda>i. (BenchmarkName_str (i_name i), i_family_index i)) (fs_benchmarks s) = [(''BM_b'', 0)]"
proof -
  let ?B = "Benchmark_new (\<lambda>_. Fin 0) (\<lambda>_. Fin 0) (\<lambda>_. Fin 0) (\<lambda>_. Fin 0) kSecond"
  let ?m = "\<lambda>n. contains n ''_a''"
  have name: "BenchmarkName_str (instance_name (with_default_args (?B s)) [] 1) = s" for s
    by (simp add: BenchmarkName_str_def join_spec name_parts_def instance_name_def with_default_args_def
        Benchmark_new_def ComputeStatistics_def IsZero_def time_type_name_def ArgsCnt_def)
  have "candidates (with_default_args (?B s)) = [([], 1)]" for s
    by (simp add: candidates_def thread_counts_of_def with_default_args_def Benchmark_new_def
        ComputeStatistics_def ArgsCnt_def)
  then have "matching_families ?m True [Some (?B ''BM_a''), Some (?B ''BM_b'')] =
      [(with_default_args (?B ''BM_b''), [([], 1)])]"
    by (simp add: matching_families_def map_filter_simps selected_def name name_selected_def
        kDisabledPrefix_def starts_with_def)
  then show ?thesis
    using FindBenchmarks_selects[of "\<lambda>p. Inr (\<lambda>n. contains n p)" True "''-_a''" ?m kNanosecond
        "[Some (?B ''BM_a''), Some (?B ''BM_b'')]"]
    by (auto simp: name BenchmarkInstance_new_def)
qed

end
