(* ===== verification/Counters.thy ===== *)
theory Counters
  imports Types
begin

text \<open>
  User counters (src/src/counter.cc): finishing a counter at the end of a run, adding up the
  counters of two threads, and comparing the names of two counter maps.
\<close>

section \<open>Operations\<close>

definition Finish_counter :: "Counter \<Rightarrow> int \<Rightarrow> double \<Rightarrow> double \<Rightarrow> double" where
  "Finish_counter c iterations cpu_time num_threads =
     (let v = c_value c;
          v = (if c_flags c AND kIsRate \<noteq> 0 then v / cpu_time else v);
          v = (if c_flags c AND kAvgThreads \<noteq> 0 then v / num_threads else v);
          v = (if c_flags c AND kIsIterationInvariant \<noteq> 0 then v * double_of_int iterations else v);
          v = (if c_flags c AND kAvgIterations \<noteq> 0 then v / double_of_int iterations else v);
          v = (if c_flags c AND kInvert \<noteq> 0 then Fin 1 / v else v)
      in v)"

definition Finish :: "UserCounters \<Rightarrow> int \<Rightarrow> double \<Rightarrow> double \<Rightarrow> UserCounters" where
  "Finish l iterations cpu_time num_threads =
     map (\<lambda>(name, c). (name, c\<lparr>c_value := Finish_counter c iterations cpu_time num_threads\<rparr>)) l"

definition Increment :: "UserCounters \<Rightarrow> UserCounters \<Rightarrow> UserCounters" where
  "Increment l r =
     (let l1 = map (\<lambda>(name, c). (name,
              case map_of r name of
                Some c' \<Rightarrow> c\<lparr>c_value := c_value c + c_value c'\<rparr>
              | None \<Rightarrow> c)) l
      in foldl (\<lambda>l (name, c). if map_of l name = None then map_put name c l else l) l1 r)"

definition SameNames :: "UserCounters \<Rightarrow> UserCounters \<Rightarrow> bool" where
  "SameNames l r \<longleftrightarrow> length l = length r \<and> (\<forall>(name, c) \<in> set l. map_of r name \<noteq> None)"

section \<open>Meaning\<close>

lemma map_of_map_snd: "map_of (map (\<lambda>(k, v). (k, f k v)) m) k = map_option (f k) (map_of m k)"
  by (induction m) auto

lemma Finish_invar: "map_invar (Finish l it t n) = map_invar l"
  unfolding Finish_def by (rule map_invar_map_snd)

lemma Finish_lookup:
  "map_of (Finish l it t n) k =
     map_option (\<lambda>c. c\<lparr>c_value := Finish_counter c it t n\<rparr>) (map_of l k)"
  unfolding Finish_def by (rule map_of_map_snd)

text \<open>Both loops of \<open>Increment\<close> at once; the second is a loop of emplacements.\<close>

lemma Increment_invar_lookup:
  assumes "map_invar l"
  shows "map_invar (Increment l r) \<and> map_of (Increment l r) k =
    (case (map_of l k, map_of r k) of
       (Some c, Some c') \<Rightarrow> Some (c\<lparr>c_value := c_value c + c_value c'\<rparr>)
     | (Some c, None) \<Rightarrow> Some c
     | (None, c') \<Rightarrow> c')"
proof -
  define f where "f name c = (case map_of r name of
      Some c' \<Rightarrow> c\<lparr>c_value := c_value c + c_value c'\<rparr> | None \<Rightarrow> c)" for name and c :: Counter
  let ?l1 = "map (\<lambda>(name, c). (name, f name c)) l"
  have inv: "map_invar ?l1" using assms by (simp add: map_invar_map_snd)
  have eq: "Increment l r = foldl (\<lambda>m (k, v). if map_of m k = None then map_put k v m else m) ?l1 r"
    by (simp add: Increment_def f_def)
  have "map_of (Increment l r) = map_of r ++ map_of ?l1"
    using smap.emplace_all[OF inv, of r] by (simp add: eq)
  moreover have "map_of ?l1 k = map_option (f k) (map_of l k)" by (rule map_of_map_snd)
  moreover have "map_invar (Increment l r)"
    using smap.emplace_all[OF inv, of r] by (simp add: eq)
  ultimately show ?thesis
    by (auto simp: map_add_def f_def split: option.splits)
qed

lemma length_as_card: "map_invar m \<Longrightarrow> length m = card (fst ` set m)"
  using distinct_card[of "map fst m"] by (simp add: map_invar_def strict_sorted_iff)

lemma SameNames_iff:
  assumes "map_invar l" "map_invar r"
  shows "SameNames l r \<longleftrightarrow> fst ` set l = fst ` set r"
proof -
  have "(\<forall>(name, c) \<in> set l. map_of r name \<noteq> None) \<longleftrightarrow> fst ` set l \<subseteq> fst ` set r"
    by (auto simp: map_of_eq_None_iff) force
  moreover have "length l = length r \<longleftrightarrow> card (fst ` set l) = card (fst ` set r)"
    using assms by (simp add: length_as_card)
  ultimately show ?thesis
    unfolding SameNames_def using card_subset_eq[of "fst ` set r" "fst ` set l"] by auto
qed

lemma double_add_commute: "x + y = y + (x :: double)"
  by (cases x; cases y) (auto simp: add.commute)

section \<open>Properties\<close>

text \<open>Adding up the counters of threads gives, for each name, the sum of the values where both
  threads have it and the only value otherwise; the result is again an ordered map over the union
  of the names, and (flags aside, which come from the left) the value does not depend on which
  thread is added to which.\<close>

theorem Increment_sums:
  assumes "map_invar l" "map_invar r"
  shows "map_invar (Increment l r) \<and>
    fst ` set (Increment l r) = fst ` set l \<union> fst ` set r \<and>
    map_option c_value (map_of (Increment l r) k) =
      (case (map_of l k, map_of r k) of
         (Some c, Some c') \<Rightarrow> Some (c_value c + c_value c')
       | (Some c, None) \<Rightarrow> Some (c_value c)
       | (None, Some c') \<Rightarrow> Some (c_value c')
       | (None, None) \<Rightarrow> None) \<and>
    map_option c_value (map_of (Increment l r) k) = map_option c_value (map_of (Increment r l) k)"
proof -
  have "dom (map_of (Increment l r)) = dom (map_of l) \<union> dom (map_of r)"
    using Increment_invar_lookup[OF assms(1), of r] by (auto simp: dom_def split: option.splits)
  then show ?thesis
    using Increment_invar_lookup[OF assms(1), of r k] Increment_invar_lookup[OF assms(2), of l k]
    by (auto simp: dom_map_of_conv_image_fst double_add_commute split: option.splits)
qed

theorem Increment_sums_witness:
  "map_option c_value (map_of (Increment [(''a'', counter_of (Fin 1)), (''b'', counter_of (Fin 2))]
     [(''b'', counter_of (Fin 3))]) ''b'') = Some (Fin 2 + Fin 3)"
proof -
  have l: "map_invar [(''a'', counter_of (Fin 1)), (''b'', counter_of (Fin 2))]"
    and r: "map_invar [(''b'', counter_of (Fin 3))]"
    by (simp_all add: map_invar_def less_char_def)
  show ?thesis
    using Increment_sums[OF l r, of "''b''", THEN conjunct2, THEN conjunct2, THEN conjunct1]
    by (simp add: counter_of_def)
qed

end
