(* ===== verification/Stats.thy ===== *)
theory Stats
  imports Names Counters "HOL-Library.Multiset"
begin

text \<open>
  src/src/statistics.cc: the built-in statistics and the aggregation of repeated runs.

  The arithmetic of the statistics is written once, over any type with the operations it uses: at
  \<open>double\<close> it is the code (IEEE arithmetic, the rounding included), at \<open>real\<close> it is what
  the code approximates, and there the formulas can be proved to be the mean, the median and the
  sample standard deviation.  The conversion of a size and the square root are arguments.

  \<open>std::nth_element\<close> may leave any permutation that puts the order statistic in its place; the
  locale \<open>nth_element_contract\<close> states that contract, the median is proved independent of the choice
  there, and the model uses a sort, which meets the contract.
\<close>

section \<open>Sums, mean\<close>

definition sum_of :: "'a::{zero, plus} list \<Rightarrow> 'a" where
  "sum_of v = foldl (+) 0 v"

definition mean_of :: "(nat \<Rightarrow> 'a) \<Rightarrow> 'a::{zero, one, plus, times, inverse} list \<Rightarrow> 'a" where
  "mean_of of_size v = (if v = [] then 0 else sum_of v * (1 / of_size (length v)))"

section \<open>Median\<close>

fun insert_by_less :: "'a::ord \<Rightarrow> 'a list \<Rightarrow> 'a list" where
  "insert_by_less x [] = [x]"
| "insert_by_less x (y # ys) = (if y < x then y # insert_by_less x ys else x # y # ys)"

definition nth_element :: "nat \<Rightarrow> 'a::ord list \<Rightarrow> 'a list" where
  "nth_element n v = foldr insert_by_less v []"

text \<open>\<open>std::max_element\<close> of a non-empty range: the first of the largest.\<close>

fun max_element :: "'a::ord list \<Rightarrow> 'a" where
  "max_element [] = undefined"
| "max_element (x # xs) = foldl (\<lambda>m y. if m < y then y else m) x xs"

text \<open>\<open>StatisticsMedian\<close>, for any implementation \<open>nth_el\<close> of \<open>std::nth_element\<close>.\<close>

definition median_with ::
  "(nat \<Rightarrow> 'a list \<Rightarrow> 'a list) \<Rightarrow> (nat \<Rightarrow> 'a) \<Rightarrow> 'a::{zero, one, plus, times, inverse, ord} list \<Rightarrow> 'a" where
  "median_with nth_el of_size v =
     (if length v < 3 then mean_of of_size v
      else
        (let center = length v div 2;
             copy = nth_el center v in
         if length v mod 2 = 1 then copy ! center
         else (let center2 = max_element (take center copy)
               in (copy ! center + center2) / (1 + 1))))"

definition median_of ::
  "(nat \<Rightarrow> 'a) \<Rightarrow> 'a::{zero, one, plus, times, inverse, ord} list \<Rightarrow> 'a" where
  "median_of of_size v = median_with nth_element of_size v"

section \<open>Standard deviation, coefficient of variation\<close>

definition sum_squares :: "'a::{zero, plus, times} list \<Rightarrow> 'a" where
  "sum_squares v = foldl (\<lambda>acc x. acc + x * x) 0 v"

definition clamped_sqrt :: "('a \<Rightarrow> 'a) \<Rightarrow> 'a::{zero, ord} \<Rightarrow> 'a" where
  "clamped_sqrt sqr dat = (if dat < 0 then 0 else sqr dat)"

definition stddev_of ::
  "(nat \<Rightarrow> 'a) \<Rightarrow> ('a \<Rightarrow> 'a) \<Rightarrow> 'a::{zero, one, plus, minus, times, inverse, ord} list \<Rightarrow> 'a" where
  "stddev_of of_size sqr v =
     (let mean = mean_of of_size v in
      if v = [] then mean
      else if length v = 1 then 0
      else
        (let avg_squares = sum_squares v * (1 / of_size (length v))
         in clamped_sqrt sqr
              (of_size (length v) / (of_size (length v) - 1) * (avg_squares - mean * mean))))"

text \<open>\<open>std::fpclassify(mean) == FP_ZERO\<close> holds of the zeros, and not of a NaN.\<close>

definition cv_of ::
  "(nat \<Rightarrow> 'a) \<Rightarrow> ('a \<Rightarrow> 'a) \<Rightarrow> 'a::{zero, one, plus, minus, times, inverse, ord} list \<Rightarrow> 'a" where
  "cv_of of_size sqr v =
     (if length v < 2 then 0
      else
        (let stddev = stddev_of of_size sqr v; mean = mean_of of_size v in
         if mean \<le> 0 \<and> 0 \<le> mean then 0 else stddev / mean))"

section \<open>The statistics of the library\<close>

definition double_of_size :: "nat \<Rightarrow> double" where
  "double_of_size n = double_of_int (int n)"

definition StatisticsMean :: "double list \<Rightarrow> double" where
  "StatisticsMean v = mean_of double_of_size v"

definition StatisticsMedian :: "double list \<Rightarrow> double" where
  "StatisticsMedian v = median_of double_of_size v"

definition StatisticsStdDev :: "double list \<Rightarrow> double" where
  "StatisticsStdDev v = stddev_of double_of_size dsqrt v"

definition StatisticsCV :: "double list \<Rightarrow> double" where
  "StatisticsCV v = cv_of double_of_size dsqrt v"

section \<open>Aggregation of repeated runs\<close>

text \<open>\<open>CounterStat\<close>: a counter of the first run that has it, and its values over the runs.\<close>

type_synonym counter_stats = "(string, Counter \<times> double list) stdmap"

definition skipped_run :: "Run \<Rightarrow> bool" where
  "skipped_run r \<longleftrightarrow> r_skipped r \<noteq> NotSkipped"

text \<open>First pass: one entry per counter name, with a check that the flags agree.\<close>

definition register_counter :: "counter_stats \<Rightarrow> string \<times> Counter \<Rightarrow> counter_stats res" where
  "register_counter cs cnt =
     (case map_of cs (fst cnt) of
        None \<Rightarrow> Inr (map_put (fst cnt) (snd cnt, []) cs)
      | Some (c, s) \<Rightarrow>
          rbind (BM_CHECK (c_flags c = c_flags (snd cnt)) ''it->second.c.flags == cnt.second.flags'')
            (\<lambda>_. Inr cs))"

definition register_counters :: "counter_stats \<Rightarrow> Run \<Rightarrow> counter_stats res" where
  "register_counters cs r = rfold register_counter cs (r_counters r)"

text \<open>Second pass: the times and counter values of the runs that were not skipped.\<close>

record accumulators =
  acc_real :: "double list"
  acc_cpu :: "double list"
  acc_counters :: counter_stats

definition accumulate_counter :: "counter_stats \<Rightarrow> string \<times> Counter \<Rightarrow> counter_stats res" where
  "accumulate_counter cs cnt =
     (case map_of cs (fst cnt) of
        None \<Rightarrow> Inl (CheckFailed ''it != counter_stats.end()'')
      | Some (c, s) \<Rightarrow> Inr (map_put (fst cnt) (c, s @ [c_value (snd cnt)]) cs))"

definition accumulate_run :: "Run \<Rightarrow> accumulators \<Rightarrow> Run \<Rightarrow> accumulators res" where
  "accumulate_run front acc run =
     rbind (BM_CHECK (benchmark_name front = benchmark_name run) ''benchmark_name()'') (\<lambda>_.
     rbind (BM_CHECK (r_iterations front = r_iterations run) ''run_iterations == run.iterations'') (\<lambda>_.
     if skipped_run run then Inr acc
     else rbind (rfold accumulate_counter (acc_counters acc) (r_counters run)) (\<lambda>cs.
       Inr \<lparr>acc_real = acc_real acc @ [r_real_accumulated_time run],
            acc_cpu = acc_cpu acc @ [r_cpu_accumulated_time run],
            acc_counters = cs\<rparr>)))"

text \<open>The label is kept when all runs agree on it.\<close>

definition common_label :: "Run list \<Rightarrow> string" where
  "common_label reports =
     (if \<exists>r \<in> set (tl reports). r_report_label r \<noteq> r_report_label (hd reports) then []
      else r_report_label (hd reports))"

definition aggregate :: "int \<Rightarrow> TimeUnit \<Rightarrow> Run list \<Rightarrow> accumulators \<Rightarrow> Statistics \<Rightarrow> Run" where
  "aggregate junk default_unit reports acc Stat =
     (let front = hd reports;
          factor = double_of_size (length reports) / double_of_int (r_iterations front);
          scale = (\<lambda>t. if st_unit Stat = kTime then t * factor else t)
      in (Run_init junk default_unit)\<lparr>
        r_run_name := r_run_name front,
        r_family_index := r_family_index front,
        r_per_family_instance_index := r_per_family_instance_index front,
        r_run_type := RT_Aggregate,
        r_threads := r_threads front,
        r_repetitions := r_repetitions front,
        r_repetition_index := no_repetition_index,
        r_aggregate_name := st_name Stat,
        r_aggregate_unit := st_unit Stat,
        r_report_label := common_label reports,
        r_iterations := int (length reports),
        r_real_accumulated_time := scale (st_compute Stat (acc_real acc)),
        r_cpu_accumulated_time := scale (st_compute Stat (acc_cpu acc)),
        r_time_unit := r_time_unit front,
        r_counters := map (\<lambda>(name, c, s). (name, \<lparr>c_value = st_compute Stat s,
           c_flags = c_flags c, c_oneK = c_oneK c\<rparr>)) (acc_counters acc)\<rparr>)"

definition ComputeStats :: "int \<Rightarrow> TimeUnit \<Rightarrow> Run list \<Rightarrow> Run list res" where
  "ComputeStats junk default_unit reports =
     (let error_count = length (filter skipped_run reports) in
      if length reports - error_count < 2 then Inr []
      else
        (let front = hd reports in
         rbind (rfold register_counters [] reports) (\<lambda>cs.
         rbind (rfold (accumulate_run front) \<lparr>acc_real = [], acc_cpu = [], acc_counters = cs\<rparr> reports)
           (\<lambda>acc.
         (case r_statistics front of
            None \<Rightarrow> Inl (Undefined ''null statistics pointer'')
          | Some stats \<Rightarrow> Inr (map (aggregate junk default_unit reports acc) stats))))))"

section \<open>Order statistics\<close>

lemma max_element_Max: "xs \<noteq> [] \<Longrightarrow> max_element xs = Max (set xs)" for xs :: "'a::linorder list"
proof (cases xs)
  case (Cons x ys)
  have "foldl (\<lambda>m y. if m < y then y else m) x ys = fold max ys x"
    unfolding foldl_conv_fold by (rule fold_cong) (auto simp: max_def fun_eq_iff)
  also have "\<dots> = Max (set (x # ys))" by (simp only: Max.set_eq_fold)
  finally show ?thesis using Cons by simp
qed simp

lemma last_sorted_Max:
  assumes "xs \<noteq> []" "sorted xs"
  shows "last xs = Max (set xs)"
proof -
  obtain ys y where xs: "xs = ys @ [y]" using assms(1) by (metis rev_exhaust)
  then show ?thesis using assms(2) by (intro Max_eqI[symmetric]) (auto simp: sorted_append)
qed

locale nth_element_contract =
  fixes nth_el :: "nat \<Rightarrow> 'a::linorder list \<Rightarrow> 'a list"
  assumes mset_nth_el: "mset (nth_el n v) = mset v"
    and before: "n < length v \<Longrightarrow> i < n \<Longrightarrow> nth_el n v ! i \<le> nth_el n v ! n"
    and behind: "n < length v \<Longrightarrow> n < i \<Longrightarrow> i < length v \<Longrightarrow> nth_el n v ! n \<le> nth_el n v ! i"
begin

lemma length_nth_el [simp]: "length (nth_el n v) = length v"
  by (metis mset_nth_el size_mset)

text \<open>Whatever the permutation, sorting the two sides of the pivot sorts the whole.\<close>

lemma sort_around:
  assumes "n < length v"
  shows "sort v = sort (take n (nth_el n v)) @ nth_el n v ! n # sort (drop (Suc n) (nth_el n v))"
    (is "_ = ?l @ ?c # ?r")
proof (rule properties_for_sort)
  let ?xs = "nth_el n v"
  have "mset (?l @ ?c # ?r) = mset (take n ?xs @ ?c # drop (Suc n) ?xs)" by simp
  also have "take n ?xs @ ?c # drop (Suc n) ?xs = ?xs"
    using assms by (simp add: id_take_nth_drop[symmetric])
  finally show "mset (?l @ ?c # ?r) = mset v" by (simp add: mset_nth_el)
  have "x \<le> ?c" if "x \<in> set (take n ?xs)" for x
    using that assms before by (auto simp: in_set_conv_nth)
  moreover have "?c \<le> x" if "x \<in> set (drop (Suc n) ?xs)" for x
    using that assms behind by (auto simp: in_set_conv_nth)
  ultimately show "sorted (?l @ ?c # ?r)"
    by (fastforce simp: sorted_append intro: order_trans)
qed

lemma nth_el_pivot: "n < length v \<Longrightarrow> nth_el n v ! n = sort v ! n"
  by (simp add: sort_around nth_append)

lemma max_before_pivot:
  assumes "0 < n" "n < length v"
  shows "max_element (take n (nth_el n v)) = sort v ! (n - 1)"
proof -
  let ?l = "take n (nth_el n v)"
  have "length ?l \<noteq> 0" using assms by simp
  then have ne: "?l \<noteq> []" by (simp only: length_0_conv not_False_eq_True)
  have "sort v ! (n - 1) = sort ?l ! (length (sort ?l) - 1)"
    unfolding sort_around[OF assms(2)] using assms by (simp add: nth_append)
  also have "\<dots> = last (sort ?l)"
    using last_conv_nth[of "sort ?l"] ne by (metis length_0_conv length_sort)
  also have "\<dots> = Max (set ?l)" using last_sorted_Max[of "sort ?l"] ne
    by (metis length_0_conv length_sort set_sort sorted_sort)
  finally show ?thesis using max_element_Max[OF ne] by simp
qed

end

text \<open>The model's choice meets the contract.\<close>

lemma insert_by_less_insort: "insert_by_less x xs = insort x xs" for x :: "'a::linorder"
  by (induction xs) auto

lemma nth_element_sort: "nth_element n v = sort v" for v :: "'a::linorder list"
  by (simp add: nth_element_def sort_key_def insert_by_less_insort[abs_def])

interpretation sorted_nth: nth_element_contract nth_element
  by unfold_locales (simp_all add: nth_element_sort sorted_nth_mono)

lemma median_with_order_statistics:
  assumes "nth_element_contract nth_el" "3 \<le> length v"
  shows "median_with nth_el of_size (v :: real list) =
    (if odd (length v) then sort v ! (length v div 2)
     else (sort v ! (length v div 2 - 1) + sort v ! (length v div 2)) / 2)"
proof -
  show ?thesis
    using nth_element_contract.nth_el_pivot[OF assms(1), of "length v div 2" v]
      nth_element_contract.max_before_pivot[OF assms(1), of "length v div 2" v] assms(2)
    by (auto simp: median_with_def Let_def odd_iff_mod_2_eq_one add.commute)
qed

section \<open>The statistics in exact arithmetic\<close>

lemma sum_of_sum_list: "sum_of v = sum_list v" for v :: "real list"
proof -
  have "foldl (+) a v = a + sum_list v" for a by (induction v arbitrary: a) auto
  then show ?thesis by (simp add: sum_of_def)
qed

lemma mean_of_real: "v \<noteq> [] \<Longrightarrow> mean_of real v = sum_list v / length v"
  by (simp add: mean_of_def sum_of_sum_list)

lemma sum_squares_sum_list: "sum_squares v = (\<Sum>x\<leftarrow>v. x * x)" for v :: "real list"
proof -
  have "foldl (\<lambda>acc x. acc + x * x) a v = a + (\<Sum>x\<leftarrow>v. x * x)" for a
    by (induction v arbitrary: a) auto
  then show ?thesis by (simp add: sum_squares_def)
qed

lemma sum_of_square_deviations:
  fixes v :: "real list" and m :: real
  shows "(\<Sum>x\<leftarrow>v. (x - m)\<^sup>2) = (\<Sum>x\<leftarrow>v. x * x) - 2 * m * sum_list v + length v * m\<^sup>2"
  by (induction v) (auto simp: power2_eq_square algebra_simps)

lemma stddev_of_real:
  assumes "2 \<le> length v"
  shows "stddev_of real sqrt v =
    sqrt ((\<Sum>x\<leftarrow>v. (x - sum_list v / length v)\<^sup>2) / (length v - 1))"
proof -
  define n m where "n = real (length v)" and "m = sum_list v / n"
  have n: "2 \<le> n" using assms by (simp add: n_def)
  have ne: "v \<noteq> []" using assms by auto
  have var: "n / (n - 1) * (sum_squares v * (1 / n) - m * m) = (\<Sum>x\<leftarrow>v. (x - m)\<^sup>2) / (n - 1)"
  proof -
    have "sum_list v = n * m" using n by (simp add: m_def)
    then have S: "(\<Sum>x\<leftarrow>v. (x - m)\<^sup>2) = sum_squares v - n * m\<^sup>2"
      unfolding sum_of_square_deviations sum_squares_sum_list
      by (simp add: n_def power2_eq_square)
    show ?thesis unfolding S using n by (simp add: field_simps power2_eq_square)
  qed
  have "0 \<le> (\<Sum>x\<leftarrow>v. (x - m)\<^sup>2) / (n - 1)"
    using n by (intro divide_nonneg_nonneg sum_list_nonneg) auto
  then have "\<not> n / (n - 1) * (sum_squares v * (1 / n) - m * m) < 0" by (simp only: var not_less)
  moreover have "length v \<noteq> 1" "mean_of real v = m" "real (length v - 1) = n - 1"
    using assms ne by (auto simp: mean_of_real m_def n_def of_nat_diff)
  ultimately show ?thesis
    using var ne by (simp only: stddev_of_def clamped_sqrt_def Let_def n_def[symmetric] m_def[symmetric]
        if_False)
qed

section \<open>The median of doubles\<close>

text \<open>On finite doubles the comparison of the code is the comparison of the values.\<close>

lemma map_dval_insert:
  "dfinite x \<Longrightarrow> \<forall>y \<in> set ys. dfinite y \<Longrightarrow>
   map dval (insert_by_less x ys) = insort (dval x) (map dval ys)"
  by (induction ys) (auto simp: less_finite)

lemma set_insert_by_less: "set (insert_by_less x ys) = insert x (set ys)"
  by (induction ys) auto

lemma set_nth_element [simp]: "set (nth_element n v) = set v"
  by (induction v) (auto simp: nth_element_def set_insert_by_less)

lemma length_nth_element [simp]: "length (nth_element n v) = length v"
proof -
  have "length (insert_by_less x ys) = Suc (length ys)" for x :: 'a and ys by (induction ys) auto
  then show ?thesis by (induction v) (auto simp: nth_element_def)
qed

lemma map_dval_nth_element:
  "\<forall>x \<in> set v. dfinite x \<Longrightarrow> map dval (nth_element n v) = sort (map dval v)"
proof (induction v)
  case (Cons x v)
  then show ?case
    using map_dval_insert[of x "nth_element n v"] set_nth_element[of n v]
    by (simp add: nth_element_def)
qed (simp add: nth_element_def)

text \<open>For an odd number of finite measurements, at least three, \<open>StatisticsMedian\<close> returns one of the
  measurements, and its value is the middle one of the sorted values; no rounding is involved.\<close>

theorem StatisticsMedian_middle:
  assumes "odd (length v)" "3 \<le> length v" "\<forall>x \<in> set v. dfinite x"
  shows "StatisticsMedian v \<in> set v \<and>
    dval (StatisticsMedian v) = sort (map dval v) ! (length v div 2)"
proof -
  have med: "StatisticsMedian v = nth_element (length v div 2) v ! (length v div 2)"
    using assms(1,2)
    by (simp add: StatisticsMedian_def median_of_def median_with_def Let_def odd_iff_mod_2_eq_one)
  have lt: "length v div 2 < length v" using assms(2) by auto
  have "StatisticsMedian v \<in> set v"
    unfolding med using nth_mem[of "length v div 2" "nth_element (length v div 2) v"] lt by simp
  moreover have "dval (StatisticsMedian v) = map dval (nth_element (length v div 2) v) ! (length v div 2)"
    using lt by (simp add: med)
  ultimately show ?thesis using map_dval_nth_element[OF assms(3)] by simp
qed

theorem StatisticsMedian_middle_witness:
  "dval (StatisticsMedian [Fin 7, Fin 1, Fin (5/2)]) = 5/2"
  using StatisticsMedian_middle[of "[Fin 7, Fin 1, Fin (5/2)]"] by simp

text \<open>C29: In exact arithmetic the formulas of the built-in statistics are the textbook ones: for at least
  two values the mean is the sum over the count, and the one-pass standard deviation is the square
  root of the sum of squared deviations over \<open>n - 1\<close> (so the guard against a negative radicand
  never acts); for at least three values the median is the middle order statistic, or the mean of
  the two middle ones, whatever permutation a correct \<open>std::nth_element\<close> leaves.\<close>

theorem statistics_textbook:
  assumes "2 \<le> length v" "nth_element_contract nth_el"
  shows "mean_of real v = sum_list v / length v \<and>
    stddev_of real sqrt v = sqrt ((\<Sum>x\<leftarrow>v. (x - mean_of real v)\<^sup>2) / (length v - 1)) \<and>
    (3 \<le> length v \<longrightarrow> median_with nth_el real v = median_of real v \<and> median_of real v =
      (if odd (length v) then sort v ! (length v div 2)
       else (sort v ! (length v div 2 - 1) + sort v ! (length v div 2)) / 2))"
proof -
  have "v \<noteq> []" using assms(1) by auto
  moreover have "median_of real v = median_with nth_element real v" by (simp add: median_of_def)
  ultimately show ?thesis
    using mean_of_real[of v] stddev_of_real[OF assms(1)]
      median_with_order_statistics[OF assms(2), of v]
      median_with_order_statistics[OF sorted_nth.nth_element_contract_axioms, of v] by simp
qed

theorem statistics_textbook_witness:
  "stddev_of real sqrt [2, 4, 4, 6] = sqrt (8 / 3) \<and> median_of real [2, 4, 4, 6] = 4"
  using statistics_textbook[of "[2, 4, 4, 6]", OF _ sorted_nth.nth_element_contract_axioms]
  by (simp add: power2_eq_square)

section \<open>Aggregation\<close>

lemma rfold_concat: "rfold (\<lambda>s xs. rfold f s xs) s xss = rfold f s (concat xss)"
proof (induction xss arbitrary: s)
  case (Cons xs xss)
  then show ?case by (simp add: rfold_append)
qed simp

lemma rfold_map: "rfold f s (map g xs) = rfold (\<lambda>s x. f s (g x)) s xs"
  by (induction xs arbitrary: s) (simp_all cong: rbind_cong)

definition flags_agree :: "(string \<times> Counter) list \<Rightarrow> bool" where
  "flags_agree l \<longleftrightarrow> (\<forall>(k, c) \<in> set l. \<forall>(k', c') \<in> set l. k = k' \<longrightarrow> c_flags c = c_flags c')"

text \<open>The first pass registers every name with its first counter.\<close>

lemma register_counter_all:
  assumes "map_invar cs" "flags_agree l"
    and "\<forall>(k, c) \<in> set l. \<forall>c0 s. map_of cs k = Some (c0, s) \<longrightarrow> c_flags c0 = c_flags c"
  shows "\<exists>cs'. rfold register_counter cs l = Inr cs' \<and> map_invar cs' \<and>
    map_of cs' = map_of (map (\<lambda>(k, c). (k, c, [])) l) ++ map_of cs"
  using assms
proof (induction l arbitrary: cs)
  case (Cons kc l)
  obtain k c where kc: "kc = (k, c)" by force
  let ?cs1 = "if map_of cs k = None then map_put k (c, []) cs else cs"
  have step: "register_counter cs kc = Inr ?cs1"
    using Cons.prems(3) by (auto simp: register_counter_def kc split: option.splits)
  have inv: "map_invar ?cs1" using Cons.prems(1) by (simp add: map_invar_put)
  have look: "map_of ?cs1 = [k \<mapsto> (c, [])] ++ map_of cs"
    by (auto simp: fun_eq_iff map_add_def map_of_map_put split: option.splits)
  have "c_flags c0 = c_flags c'" if "(k', c') \<in> set l" "map_of ?cs1 k' = Some (c0, s)" for k' c' c0 s
  proof (cases "map_of cs k = None \<and> k' = k")
    case True
    then have "c0 = c" using that(2) by (simp add: map_of_map_put)
    moreover have "(k, c) \<in> set (kc # l)" "(k, c') \<in> set (kc # l)" using that(1) True by (auto simp: kc)
    ultimately show ?thesis using Cons.prems(2) unfolding flags_agree_def by fastforce
  next
    case False
    then have "map_of cs k' = Some (c0, s)"
      using that(2) by (auto simp: map_of_map_put split: if_splits)
    moreover have "(k', c') \<in> set (kc # l)" using that(1) by simp
    ultimately show ?thesis using Cons.prems(3) by fastforce
  qed
  then have "\<forall>(k', c') \<in> set l. \<forall>c0 s. map_of ?cs1 k' = Some (c0, s) \<longrightarrow> c_flags c0 = c_flags c'"
    by blast
  moreover have "flags_agree l" using Cons.prems(2) by (auto simp: flags_agree_def)
  ultimately obtain cs' where cs': "rfold register_counter ?cs1 l = Inr cs'" "map_invar cs'"
    "map_of cs' = map_of (map (\<lambda>(k, c). (k, c, [])) l) ++ map_of ?cs1"
    using Cons.IH[OF inv] by blast
  have "map_of cs' = map_of (map (\<lambda>(k, c). (k, c, [])) (kc # l)) ++ map_of cs"
    unfolding cs'(3) look by (auto simp: kc fun_eq_iff map_add_def split: option.splits)
  then show ?case
    using step cs'(1,2) by (intro exI[of _ cs']) (simp only: rfold.simps rbind_Inr simp_thms)
qed simp

text \<open>The second pass appends the values of a name in the order of the runs.\<close>

lemma accumulate_counter_all:
  assumes "map_invar cs" "\<forall>(k, c) \<in> set l. map_of cs k \<noteq> None"
  shows "\<exists>cs'. rfold accumulate_counter cs l = Inr cs' \<and> map_invar cs' \<and>
    (\<forall>k. map_of cs' k = map_option (\<lambda>(c, s). (c, s @ map (c_value \<circ> snd) (filter (\<lambda>kc. fst kc = k) l)))
       (map_of cs k))"
  using assms
proof (induction l arbitrary: cs)
  case (Cons kc l)
  obtain k c where kc: "kc = (k, c)" by force
  obtain c0 s where at: "map_of cs k = Some (c0, s)" using Cons.prems(2) by (force simp: kc)
  let ?cs1 = "map_put k (c0, s @ [c_value c]) cs"
  have step: "accumulate_counter cs kc = Inr ?cs1" by (simp add: accumulate_counter_def kc at)
  have "\<forall>(k', c') \<in> set l. map_of ?cs1 k' \<noteq> None"
    using Cons.prems(2) by (auto simp: map_of_map_put)
  then obtain cs' where cs': "rfold accumulate_counter ?cs1 l = Inr cs'" "map_invar cs'"
    "\<And>k'. map_of cs' k' = map_option (\<lambda>(c, s). (c, s @ map (c_value \<circ> snd) (filter (\<lambda>kc. fst kc = k') l)))
       (map_of ?cs1 k')"
    using Cons.IH[of ?cs1] map_invar_put[OF Cons.prems(1)] by blast
  show ?case using step cs'(1,2) by (auto simp: cs'(3) map_of_map_put at kc comp_def)
qed (auto simp: option.map_ident case_prod_unfold)

definition counted :: "Run list \<Rightarrow> Run list" where
  "counted reports = filter (\<lambda>r. \<not> skipped_run r) reports"

abbreviation all_counters :: "Run list \<Rightarrow> (string \<times> Counter) list" where
  "all_counters reports \<equiv> concat (map r_counters reports)"

lemma accumulate_run_all:
  assumes "map_invar (acc_counters acc)"
    and "\<forall>r \<in> set runs. benchmark_name front = benchmark_name r \<and> r_iterations front = r_iterations r"
    and "\<forall>(k, c) \<in> set (all_counters runs). map_of (acc_counters acc) k \<noteq> None"
  shows "\<exists>cs'. rfold (accumulate_run front) acc runs = Inr
      \<lparr>acc_real = acc_real acc @ map r_real_accumulated_time (counted runs),
       acc_cpu = acc_cpu acc @ map r_cpu_accumulated_time (counted runs), acc_counters = cs'\<rparr> \<and>
    map_invar cs' \<and>
    (\<forall>k. map_of cs' k = map_option (\<lambda>(c, s). (c, s @ map (c_value \<circ> snd)
       (filter (\<lambda>kc. fst kc = k) (all_counters (counted runs))))) (map_of (acc_counters acc) k))"
  using assms
proof (induction runs arbitrary: acc)
  case Nil
  then show ?case by (cases acc) (auto simp: counted_def option.map_ident case_prod_unfold)
next
  case (Cons r runs)
  show ?case
  proof (cases "skipped_run r")
    case True
    then have "accumulate_run front acc r = Inr acc"
      using Cons.prems(2) by (simp add: accumulate_run_def)
    moreover have "counted (r # runs) = counted runs" using True by (simp add: counted_def)
    moreover have "\<forall>(k, c) \<in> set (all_counters runs). map_of (acc_counters acc) k \<noteq> None"
      using Cons.prems(3) by auto
    ultimately show ?thesis using Cons.IH[of acc] Cons.prems(1,2) by simp
  next
    case False
    have here: "\<forall>(k, c) \<in> set (r_counters r). map_of (acc_counters acc) k \<noteq> None"
      using Cons.prems(3) by auto
    obtain cs1 where cs1: "rfold accumulate_counter (acc_counters acc) (r_counters r) = Inr cs1"
      "map_invar cs1" "\<And>k. map_of cs1 k = map_option (\<lambda>(c, s). (c, s @ map (c_value \<circ> snd)
         (filter (\<lambda>kc. fst kc = k) (r_counters r)))) (map_of (acc_counters acc) k)"
      using accumulate_counter_all[OF Cons.prems(1) here] by blast
    let ?acc1 = "\<lparr>acc_real = acc_real acc @ [r_real_accumulated_time r],
      acc_cpu = acc_cpu acc @ [r_cpu_accumulated_time r], acc_counters = cs1\<rparr>"
    have step: "accumulate_run front acc r = Inr ?acc1"
      using Cons.prems(2) False cs1(1) by (simp add: accumulate_run_def)
    have rest: "\<forall>(k, c) \<in> set (all_counters runs). map_of (acc_counters ?acc1) k \<noteq> None"
      using Cons.prems(3) by (auto simp: cs1(3))
    show ?thesis
      using Cons.IH[of ?acc1] Cons.prems(2) rest cs1(2) step False
      by (auto simp: counted_def cs1(3) option.map_comp comp_def case_prod_unfold)
  qed
qed

definition comparable_runs :: "Run list \<Rightarrow> bool" where
  "comparable_runs reports \<longleftrightarrow>
     (\<forall>r \<in> set reports. benchmark_name (hd reports) = benchmark_name r \<and>
        r_iterations (hd reports) = r_iterations r) \<and>
     flags_agree (all_counters reports)"

definition counter_values :: "Run list \<Rightarrow> string \<Rightarrow> double list" where
  "counter_values reports k =
     map (c_value \<circ> snd) (filter (\<lambda>kc. fst kc = k) (all_counters (counted reports)))"

lemma counted_count: "length reports - length (filter skipped_run reports) = length (counted reports)"
  using sum_length_filter_compl[of skipped_run reports] by (simp add: counted_def)

text \<open>Both passes over runs that can be compared.\<close>

lemma ComputeStats_passes:
  assumes "2 \<le> length (counted reports)" "comparable_runs reports"
  shows "\<exists>cs. map_invar cs \<and>
    (\<forall>k. map_of cs k = map_option (\<lambda>c. (c, counter_values reports k)) (map_of (all_counters reports) k)) \<and>
    ComputeStats junk u reports =
      (case r_statistics (hd reports) of
         None \<Rightarrow> Inl (Undefined ''null statistics pointer'')
       | Some stats \<Rightarrow> Inr (map (aggregate junk u reports
           \<lparr>acc_real = map r_real_accumulated_time (counted reports),
            acc_cpu = map r_cpu_accumulated_time (counted reports), acc_counters = cs\<rparr>) stats))"
proof -
  let ?all = "all_counters reports"
  have agree: "flags_agree ?all" using assms(2) by (simp add: comparable_runs_def)
  obtain cs where cs: "rfold register_counter [] ?all = Inr cs" "map_invar cs"
    "map_of cs = map_of (map (\<lambda>(k, c). (k, c, [])) ?all)"
    using register_counter_all[OF map_invar_Nil agree] by auto
  have look: "map_of cs k = map_option (\<lambda>c. (c, [])) (map_of ?all k)" for k
    unfolding cs(3) by (rule map_of_map_snd)
  have "\<forall>(k, c) \<in> set ?all. map_of cs k \<noteq> None"
    by (auto simp: look map_of_eq_None_iff) force
  then obtain cs' where cs': "rfold (accumulate_run (hd reports)) \<lparr>acc_real = [], acc_cpu = [], acc_counters = cs\<rparr> reports
      = Inr \<lparr>acc_real = map r_real_accumulated_time (counted reports),
             acc_cpu = map r_cpu_accumulated_time (counted reports), acc_counters = cs'\<rparr>"
    "map_invar cs'" "\<And>k. map_of cs' k = map_option (\<lambda>(c, s). (c, s @ counter_values reports k)) (map_of cs k)"
    using accumulate_run_all[of "\<lparr>acc_real = [], acc_cpu = [], acc_counters = cs\<rparr>" reports "hd reports"]
      cs(2) assms(2) unfolding comparable_runs_def counter_values_def by auto
  have fold1: "rfold register_counters [] reports = Inr cs"
    unfolding register_counters_def[abs_def] using cs(1)
      rfold_concat[of register_counter "[]" "map r_counters reports"] by (simp add: rfold_map)
  have "ComputeStats junk u reports =
      (case r_statistics (hd reports) of
         None \<Rightarrow> Inl (Undefined ''null statistics pointer'')
       | Some stats \<Rightarrow> Inr (map (aggregate junk u reports
           \<lparr>acc_real = map r_real_accumulated_time (counted reports),
            acc_cpu = map r_cpu_accumulated_time (counted reports), acc_counters = cs'\<rparr>) stats))"
    using assms(1) by (simp add: ComputeStats_def counted_count Let_def fold1 cs'(1))
  moreover have "map_of cs' k = map_option (\<lambda>c. (c, counter_values reports k)) (map_of ?all k)" for k
    by (simp add: cs'(3) look option.map_comp comp_def)
  ultimately show ?thesis using cs'(2) by blast
qed

text \<open>C9: The aggregates of repeated runs.  With fewer than two runs that were not skipped there are none, whatever the
  runs are.  Otherwise, for runs of one benchmark with one iteration count whose counters agree on their
  flags, it depends on the first report: if it carries no statistics, as a skipped run does, its null pointer is
  dereferenced; if it does there is one aggregate per statistic, in the order of the statistics; its times
  are the statistic of the times of exactly the runs that were not skipped, in their order, rescaled by runs over
  iterations only when the statistic is a time; its iteration count is the number of reports; it keeps a label that all
  runs share; its counters are those that some run has, each with the statistic of the values of the
  counted runs.\<close>

theorem ComputeStats_aggregates:
  assumes "2 \<le> length (counted reports) \<Longrightarrow> comparable_runs reports"
  shows "if length (counted reports) < 2 then ComputeStats junk u reports = Inr []
    else case r_statistics (hd reports) of None \<Rightarrow> ComputeStats junk u reports = Inl (Undefined ''null statistics pointer'')
    | Some stats \<Rightarrow> \<exists>results. ComputeStats junk u reports = Inr results \<and> length results = length stats \<and>
      (\<forall>i < length stats. let r = results ! i; S = stats ! i;
           scale = (\<lambda>t. if st_unit S = kTime
             then t * (double_of_size (length reports) / double_of_int (r_iterations (hd reports))) else t) in
         r_run_type r = RT_Aggregate \<and> r_aggregate_name r = st_name S \<and>
         r_aggregate_unit r = st_unit S \<and> r_iterations r = int (length reports) \<and>
         r_run_name r = r_run_name (hd reports) \<and> r_time_unit r = r_time_unit (hd reports) \<and>
         r_threads r = r_threads (hd reports) \<and> r_repetitions r = r_repetitions (hd reports) \<and>
         (\<forall>label. (\<forall>x \<in> set reports. r_report_label x = label) \<longrightarrow> r_report_label r = label) \<and>
         r_real_accumulated_time r = scale (st_compute S (map r_real_accumulated_time (counted reports))) \<and>
         r_cpu_accumulated_time r = scale (st_compute S (map r_cpu_accumulated_time (counted reports))) \<and>
         map_invar (r_counters r) \<and>
         (\<forall>k. map_of (r_counters r) k = map_option (\<lambda>c. \<lparr>c_value = st_compute S (counter_values reports k),
            c_flags = c_flags c, c_oneK = c_oneK c\<rparr>) (map_of (all_counters reports) k)))"
proof (cases "length (counted reports) < 2")
  case True
  then show ?thesis by (simp add: ComputeStats_def counted_count)
next
  case False
  then have two: "2 \<le> length (counted reports)" by simp
  show ?thesis
  proof (cases "r_statistics (hd reports)")
    case None
    then show ?thesis using False ComputeStats_passes[OF two assms[OF two], of junk u] by auto
  next
    case (Some stats)
    obtain cs where cs: "map_invar cs"
      "\<And>k. map_of cs k = map_option (\<lambda>c. (c, counter_values reports k)) (map_of (all_counters reports) k)"
      "ComputeStats junk u reports = Inr (map (aggregate junk u reports
         \<lparr>acc_real = map r_real_accumulated_time (counted reports),
          acc_cpu = map r_cpu_accumulated_time (counted reports), acc_counters = cs\<rparr>) stats)"
      using ComputeStats_passes[OF two assms[OF two], of junk u] Some by force
    have inv: "map_invar (map (\<lambda>(name, c, s). (name, g c s)) cs)" for g :: "Counter \<Rightarrow> double list \<Rightarrow> Counter"
      using map_invar_map_snd[of "\<lambda>k (c, s). g c s" cs] cs(1) by (simp add: case_prod_unfold)
    have look: "map_of (map (\<lambda>(name, c, s). (name, g c s)) cs) k =
        map_option (\<lambda>c. g c (counter_values reports k)) (map_of (all_counters reports) k)" for g k
      using map_of_map_snd[of "\<lambda>k (c, s). g c s" cs k]
      by (simp add: cs(2) case_prod_unfold option.map_comp comp_def)
    have "reports \<noteq> []" using two by (auto simp: counted_def)
    then have label: "common_label reports = label" if "\<forall>x \<in> set reports. r_report_label x = label" for label
      using that by (auto simp: common_label_def dest: list.set_sel(2))
    show ?thesis using False unfolding Some cs(3)
      by (simp add: aggregate_def Let_def inv look label)
  qed
qed

text \<open>The second case on its own: when the first of the reports was skipped it carries no statistics, and with two counted runs
  beside it \<open>ComputeStats\<close> dereferences its null pointer.\<close>

theorem ComputeStats_null_statistics:
  assumes "comparable_runs reports" "2 \<le> length (counted reports)" "r_statistics (hd reports) = None"
  shows "ComputeStats junk u reports = Inl (Undefined ''null statistics pointer'')"
  using ComputeStats_passes[OF assms(2,1), of junk u] assms(3) by auto

abbreviation sample_run :: Run where
  "sample_run \<equiv> (Run_init 0 kNanosecond)\<lparr>r_statistics :=
     Some [\<lparr>st_name = ''mean'', st_compute = StatisticsMean, st_unit = kTime\<rparr>]\<rparr>"

theorem ComputeStats_aggregates_witness:
  "\<exists>r. ComputeStats 0 kNanosecond [sample_run, sample_run] = Inr [r] \<and> r_iterations r = 2 \<and>
     r_aggregate_name r = ''mean''"
proof -
  have "comparable_runs [sample_run, sample_run]"
    by (simp add: comparable_runs_def flags_agree_def Run_init_def)
  moreover have "length (counted [sample_run, sample_run]) = 2"
    by (simp add: counted_def skipped_run_def Run_init_def)
  ultimately show ?thesis
    using ComputeStats_aggregates[of "[sample_run, sample_run]" 0 kNanosecond]
    by (auto simp: length_Suc_conv Let_def)
qed

theorem ComputeStats_null_statistics_witness:
  "ComputeStats 0 kNanosecond
     [sample_run\<lparr>r_skipped := SkippedWithError, r_statistics := None\<rparr>, sample_run, sample_run] =
   Inl (Undefined ''null statistics pointer'')"
proof -
  let ?l = "[sample_run\<lparr>r_skipped := SkippedWithError, r_statistics := None\<rparr>, sample_run, sample_run]"
  have "comparable_runs ?l"
    by (simp add: comparable_runs_def flags_agree_def Run_init_def benchmark_name_def)
  moreover have "length (counted ?l) = 2"
    by (simp add: counted_def skipped_run_def Run_init_def)
  ultimately show ?thesis using ComputeStats_null_statistics[of ?l 0 kNanosecond] by simp
qed

end
