(* ===== verification/Fitting.thy ===== *)
theory Fitting
  imports Stats
begin

text \<open>
  src/src/complexity.cc: fitting the measured times to an asymptotic curve by least squares.

  As in \<open>Stats\<close> the arithmetic is written once over any type with the operations used; the functions
  of \<open><cmath>\<close> and the conversions from integers are a record of arguments, instantiated with the
  C library at \<open>double\<close> and with the mathematical functions at \<open>real\<close>.
\<close>

section \<open>Curves\<close>

record 'a libm =
  lm_of_int :: "int \<Rightarrow> 'a"
  lm_pow :: "'a \<Rightarrow> 'a \<Rightarrow> 'a"
  lm_log2 :: "'a \<Rightarrow> 'a"
  lm_sqrt :: "'a \<Rightarrow> 'a"

fun FittingCurve :: "'a::{one, times} libm \<Rightarrow> BigO \<Rightarrow> int \<Rightarrow> 'a" where
  "FittingCurve m oN n = lm_of_int m n"
| "FittingCurve m oNSquared n = lm_pow m (lm_of_int m n) (lm_of_int m 2)"
| "FittingCurve m oNCubed n = lm_pow m (lm_of_int m n) (lm_of_int m 3)"
| "FittingCurve m oLogN n = lm_log2 m (lm_of_int m n)"
| "FittingCurve m oNLogN n = lm_of_int m n * lm_log2 m (lm_of_int m n)"
| "FittingCurve m _ n = 1"

fun GetBigOString :: "BigO \<Rightarrow> string" where
  "GetBigOString oN = ''N''"
| "GetBigOString oNSquared = ''N^2''"
| "GetBigOString oNCubed = ''N^3''"
| "GetBigOString oLogN = ''lgN''"
| "GetBigOString oNLogN = ''NlgN''"
| "GetBigOString o1 = ''(1)''"
| "GetBigOString _ = ''f(N)''"

section \<open>Least squares\<close>

record 'a LeastSq =
  ls_coef :: 'a
  ls_rms :: 'a
  ls_complexity :: BigO

text \<open>The first loop: the sums of \<open>g(n)\<^sup>2\<close>, of the times and of \<open>time * g(n)\<close>.\<close>

definition fit_sums ::
  "(int \<Rightarrow> 'a) \<Rightarrow> (int \<times> 'a::{zero, plus, times}) list \<Rightarrow> 'a \<times> 'a \<times> 'a" where
  "fit_sums fitting_curve samples =
     foldl (\<lambda>(gn_squared, sum_time, time_gn) (n, time).
         let gn = fitting_curve n
         in (gn_squared + gn * gn, sum_time + time, time_gn + time * gn)) (0, 0, 0) samples"

definition MinimalLeastSq_curve ::
  "'a libm \<Rightarrow> int list \<Rightarrow> 'a::{zero, one, plus, minus, times, inverse, ord} list \<Rightarrow> (int \<Rightarrow> 'a) \<Rightarrow> 'a LeastSq" where
  "MinimalLeastSq_curve m n time fitting_curve =
     (let (sigma_gn_squared, sigma_time, sigma_time_gn) = fit_sums fitting_curve (zip n time);
          coef = sigma_time_gn / sigma_gn_squared;
          rms = foldl (\<lambda>rms (n, t). let fit = coef * fitting_curve n
                  in rms + lm_pow m (t - fit) (lm_of_int m 2)) 0 (zip n time);
          mean = sigma_time / lm_of_int m (int (length n))
      in \<lparr>ls_coef = coef, ls_rms = lm_sqrt m (rms / lm_of_int m (int (length n))) / mean,
          ls_complexity = oLambda\<rparr>)"

definition fit_curves :: "BigO list" where
  "fit_curves = [oLogN, oN, oNLogN, oNSquared, oNCubed]"

definition MinimalLeastSq ::
  "'a libm \<Rightarrow> int list \<Rightarrow> 'a::{zero, one, plus, minus, times, inverse, ord} list \<Rightarrow> BigO \<Rightarrow> 'a LeastSq res" where
  "MinimalLeastSq m n time complexity =
     rbind (BM_CHECK (length n = length time) ''n.size() == time.size()'') (\<lambda>_.
     rbind (BM_CHECK (length n \<ge> 2) ''n.size() >= 2'') (\<lambda>_.
     rbind (BM_CHECK (complexity \<noteq> oNone) ''complexity != oNone'') (\<lambda>_.
     Inr (if complexity = oAuto then
       foldl (\<lambda>best_fit fit.
           let current_fit = MinimalLeastSq_curve m n time (FittingCurve m fit) in
           if ls_rms current_fit < ls_rms best_fit then current_fit\<lparr>ls_complexity := fit\<rparr>
           else best_fit)
         ((MinimalLeastSq_curve m n time (FittingCurve m o1))\<lparr>ls_complexity := o1\<rparr>) fit_curves
      else (MinimalLeastSq_curve m n time (FittingCurve m complexity))\<lparr>ls_complexity := complexity\<rparr>))))"

section \<open>The report of a family\<close>

text \<open>The accumulators: sizes and times per iteration; a size must have been set.\<close>

definition accumulate_sizes :: "Run list \<Rightarrow> (int list \<times> double list \<times> double list) res" where
  "accumulate_sizes reports =
     rfold (\<lambda>(n, real_time, cpu_time) run.
       rbind (BM_CHECK (r_complexity_n run > 0) ''run.complexity_n > 0'') (\<lambda>_.
       Inr (n @ [r_complexity_n run],
            real_time @ [r_real_accumulated_time run / double_of_int (r_iterations run)],
            cpu_time @ [r_cpu_accumulated_time run / double_of_int (r_iterations run)])))
       ([], [], []) reports"

text \<open>The two fits; the second one is made to use the curve that the first one chose.\<close>

definition fit_times ::
  "double libm \<Rightarrow> Run \<Rightarrow> int list \<Rightarrow> double list \<Rightarrow> double list \<Rightarrow> (double LeastSq \<times> double LeastSq) res" where
  "fit_times m front n real_time cpu_time =
     (if r_complexity front = oLambda then
        (case r_complexity_lambda front of
           None \<Rightarrow> Inl (Undefined ''call of a null function pointer'')
         | Some f \<Rightarrow> Inr (MinimalLeastSq_curve m n cpu_time f, MinimalLeastSq_curve m n real_time f))
      else if r_use_real_time_for_initial_big_o front then
        rbind (MinimalLeastSq m n real_time (r_complexity front)) (\<lambda>result_real.
        rbind (MinimalLeastSq m n cpu_time (ls_complexity result_real)) (\<lambda>result_cpu.
        Inr (result_cpu, result_real)))
      else
        rbind (MinimalLeastSq m n cpu_time (r_complexity front)) (\<lambda>result_cpu.
        rbind (MinimalLeastSq m n real_time (ls_complexity result_cpu)) (\<lambda>result_real.
        Inr (result_cpu, result_real))))"

definition ComputeBigO :: "double libm \<Rightarrow> int \<Rightarrow> TimeUnit \<Rightarrow> Run list \<Rightarrow> Run list res" where
  "ComputeBigO m junk default_unit reports =
     (if length reports < 2 then Inr []
      else
        rbind (accumulate_sizes reports) (\<lambda>(n, real_time, cpu_time).
        (let front = hd reports in
         rbind (fit_times m front n real_time cpu_time) (\<lambda>(result_cpu, result_real).
         (let run_name = (r_run_name front)\<lparr>n_args := []\<rparr>;
              multiplier = GetTimeUnitMultiplier (r_time_unit front);
              big_o = (Run_init junk default_unit)\<lparr>
                r_run_name := run_name,
                r_family_index := r_family_index front,
                r_per_family_instance_index := r_per_family_instance_index front,
                r_run_type := RT_Aggregate,
                r_repetitions := r_repetitions front,
                r_repetition_index := no_repetition_index,
                r_threads := r_threads front,
                r_aggregate_name := ''BigO'',
                r_aggregate_unit := kTime,
                r_report_label := r_report_label front,
                r_iterations := 0,
                r_real_accumulated_time := ls_coef result_real,
                r_cpu_accumulated_time := ls_coef result_cpu,
                r_report_big_o := True,
                r_complexity := ls_complexity result_cpu\<rparr>;
              rms = (Run_init junk default_unit)\<lparr>
                r_run_name := run_name,
                r_family_index := r_family_index front,
                r_per_family_instance_index := r_per_family_instance_index front,
                r_run_type := RT_Aggregate,
                r_aggregate_name := ''RMS'',
                r_aggregate_unit := kPercentage,
                r_report_label := r_report_label front,
                r_iterations := 0,
                r_repetition_index := no_repetition_index,
                r_repetitions := r_repetitions front,
                r_threads := r_threads front,
                r_real_accumulated_time := ls_rms result_real / multiplier,
                r_cpu_accumulated_time := ls_rms result_cpu / multiplier,
                r_report_rms := True,
                r_complexity := ls_complexity result_cpu,
                r_time_unit := r_time_unit front\<rparr>
          in Inr [big_o, rms])))))"

section \<open>Least squares in exact arithmetic\<close>

definition real_libm :: "real libm" where
  "real_libm = \<lparr>lm_of_int = real_of_int, lm_pow = (\<lambda>x y. x ^ nat \<lfloor>y\<rfloor>), lm_log2 = log 2, lm_sqrt = sqrt\<rparr>"

lemma fit_sums_real:
  "fit_sums g samples =
     ((\<Sum>(n, t)\<leftarrow>samples. (g n)\<^sup>2), (\<Sum>(n, t)\<leftarrow>samples. t), (\<Sum>(n, t)\<leftarrow>samples. t * g n))"
  for g :: "int \<Rightarrow> real"
proof -
  have "foldl (\<lambda>(gg, st, tg) (n, t). let gn = g n in (gg + gn * gn, st + t, tg + t * gn)) (a, b, c) samples =
      (a + (\<Sum>(n, t)\<leftarrow>samples. (g n)\<^sup>2), b + (\<Sum>(n, t)\<leftarrow>samples. t), c + (\<Sum>(n, t)\<leftarrow>samples. t * g n))"
    for a b c
    by (induction samples arbitrary: a b c) (auto simp: Let_def power2_eq_square)
  from this[of 0 0 0] show ?thesis by (simp add: fit_sums_def)
qed

definition residual :: "(int \<Rightarrow> real) \<Rightarrow> (int \<times> real) list \<Rightarrow> real \<Rightarrow> real" where
  "residual g samples c = (\<Sum>(n, t)\<leftarrow>samples. (t - c * g n)\<^sup>2)"

lemma residual_expand:
  "residual g samples c = (\<Sum>(n, t)\<leftarrow>samples. t\<^sup>2) - 2 * c * (\<Sum>(n, t)\<leftarrow>samples. t * g n) +
     c\<^sup>2 * (\<Sum>(n, t)\<leftarrow>samples. (g n)\<^sup>2)"
  by (induction samples) (auto simp: residual_def power2_eq_square algebra_simps)

lemma sum_squares_pos:
  "(\<exists>(n, t) \<in> set samples. g n \<noteq> 0) \<Longrightarrow> 0 < (\<Sum>(n, t)\<leftarrow>samples. (g n)\<^sup>2)" for g :: "int \<Rightarrow> real"
proof (induction samples)
  case (Cons s samples)
  have "0 \<le> (\<Sum>(n, t)\<leftarrow>samples. (g n)\<^sup>2)" by (rule sum_list_nonneg) auto
  then show ?case
    using Cons by (cases "g (fst s) = 0") (simp_all add: case_prod_unfold add_pos_nonneg)
qed simp

lemma MinimalLeastSq_curve_real:
  "ls_coef (MinimalLeastSq_curve real_libm n time g) =
     (\<Sum>(n, t)\<leftarrow>zip n time. t * g n) / (\<Sum>(n, t)\<leftarrow>zip n time. (g n)\<^sup>2)"
  "ls_rms (MinimalLeastSq_curve real_libm n time g) =
     sqrt (residual g (zip n time) (ls_coef (MinimalLeastSq_curve real_libm n time g)) / length n) /
     ((\<Sum>(n, t)\<leftarrow>zip n time. t) / length n)"
proof -
  have fold: "foldl (\<lambda>rms (n, t). rms + (t - c * g n)\<^sup>2) a samples = a + residual g samples c" for a c samples
    by (induction samples arbitrary: a) (auto simp: residual_def)
  show "ls_coef (MinimalLeastSq_curve real_libm n time g) =
      (\<Sum>(n, t)\<leftarrow>zip n time. t * g n) / (\<Sum>(n, t)\<leftarrow>zip n time. (g n)\<^sup>2)"
    by (simp add: MinimalLeastSq_curve_def fit_sums_real Let_def)
  show "ls_rms (MinimalLeastSq_curve real_libm n time g) =
      sqrt (residual g (zip n time) (ls_coef (MinimalLeastSq_curve real_libm n time g)) / length n) /
      ((\<Sum>(n, t)\<leftarrow>zip n time. t) / length n)"
    by (simp add: MinimalLeastSq_curve_def fit_sums_real Let_def real_libm_def fold)
qed

text \<open>C11: In exact arithmetic the coefficient is the least-squares one: no other coefficient gives a
  smaller sum of squared deviations between the times and the scaled curve; and the reported RMS is
  the root mean square of those deviations over the mean time.  The deviations are absolute ones, not the
  relative ones that the comments on \<open>MinimalLeastSq\<close> speak of (\<open>not_relative\<close>).  Some value of the curve
  must not be 0.\<close>

theorem least_squares_optimal:
  assumes "\<exists>(n, t) \<in> set (zip n time). g n \<noteq> 0"
  shows "residual g (zip n time) (ls_coef (MinimalLeastSq_curve real_libm n time g)) \<le>
      residual g (zip n time) c \<and>
    ls_rms (MinimalLeastSq_curve real_libm n time g) =
      sqrt (residual g (zip n time) (ls_coef (MinimalLeastSq_curve real_libm n time g)) / length n) /
      ((\<Sum>(n, t)\<leftarrow>zip n time. t) / length n)"
proof -
  define S G where "S = (\<Sum>(n, t)\<leftarrow>zip n time. t * g n)" and "G = (\<Sum>(n, t)\<leftarrow>zip n time. (g n)\<^sup>2)"
  have G: "0 < G" unfolding G_def using assms by (rule sum_squares_pos)
  have "residual g (zip n time) c - residual g (zip n time) (S / G) = G * (c - S / G)\<^sup>2"
    unfolding residual_expand S_def[symmetric] G_def[symmetric]
    using G by (simp add: power2_eq_square field_simps)
  then have "residual g (zip n time) (S / G) \<le> residual g (zip n time) c"
    using mult_nonneg_nonneg[OF less_imp_le[OF G] zero_le_power2[of "c - S / G"]] by linarith
  then show ?thesis
    using MinimalLeastSq_curve_real by (simp add: S_def G_def)
qed

theorem least_squares_optimal_witness:
  "residual real_of_int [(1, 2), (2, 3)] (ls_coef (MinimalLeastSq_curve real_libm [1, 2] [2, 3] real_of_int)) \<le>
   residual real_of_int [(1, 2), (2, 3)] 1"
  using least_squares_optimal[of "[1, 2]" "[2, 3]" real_of_int 1] by simp

text \<open>For the times 1 and 4 at the sizes 1 and 2 the coefficient 1 of a linear curve has smaller relative errors than
  the one reported.\<close>

lemma not_relative:
  "(\<Sum>(n, t)\<leftarrow>[(1, 1), (2, 4)]. ((t - 1 * real_of_int n) / t)\<^sup>2) <
   (\<Sum>(n, t)\<leftarrow>[(1, 1), (2, 4)]. ((t - ls_coef (MinimalLeastSq_curve real_libm [1, 2] [1, 4] real_of_int) * real_of_int n) / t)\<^sup>2)"
  unfolding MinimalLeastSq_curve_real by (simp add: power2_eq_square)

section \<open>The choice of the curve\<close>

abbreviation fitted :: "double libm \<Rightarrow> int list \<Rightarrow> double list \<Rightarrow> BigO \<Rightarrow> double LeastSq" where
  "fitted m n time c \<equiv> (MinimalLeastSq_curve m n time (FittingCurve m c))\<lparr>ls_complexity := c\<rparr>"

lemma best_fit_fold:
  assumes "best = fitted m n time c0" "\<forall>c \<in> set (c0 # cs). ls_rms (fitted m n time c) \<noteq> NaN"
  defines "step \<equiv> (\<lambda>best_fit fit. let current_fit = MinimalLeastSq_curve m n time (FittingCurve m fit) in
           if ls_rms current_fit < ls_rms best_fit then current_fit\<lparr>ls_complexity := fit\<rparr>
           else best_fit)"
  shows "\<exists>c \<in> set (c0 # cs). foldl step best cs = fitted m n time c \<and>
    (\<forall>c' \<in> set (c0 # cs). ls_rms (fitted m n time c) \<le> ls_rms (fitted m n time c'))"
  using assms(1,2)
proof (induction cs arbitrary: best c0)
  case Nil
  then show ?case by (simp add: double_le_refl)
next
  case (Cons c1 cs)
  define c where "c = (if ls_rms (fitted m n time c1) < ls_rms (fitted m n time c0) then c1 else c0)"
  have step: "step best c1 = fitted m n time c" by (simp add: Cons.prems(1) step_def c_def Let_def)
  obtain c' where c': "c' \<in> set (c # cs)" "foldl step (step best c1) cs = fitted m n time c'"
    "\<forall>x \<in> set (c # cs). ls_rms (fitted m n time c') \<le> ls_rms (fitted m n time x)"
  proof -
    have "\<forall>x \<in> set (c # cs). ls_rms (fitted m n time x) \<noteq> NaN"
      using Cons.prems(2) unfolding c_def by (simp only: list.set ball_simps split: if_split) blast
    then show thesis using Cons.IH[OF step] that by blast
  qed
  have "ls_rms (fitted m n time c) \<le> ls_rms (fitted m n time x)" if "x \<in> {c0, c1}" for x
    using that Cons.prems(2) double_not_less[of "ls_rms (fitted m n time c1)" "ls_rms (fitted m n time c0)"]
    by (auto simp: c_def double_less_imp_le double_le_refl)
  then have "\<forall>x \<in> set (c0 # c1 # cs). ls_rms (fitted m n time c') \<le> ls_rms (fitted m n time x)"
    using c'(3) double_le_trans by (metis insert_iff list.set(2) singletonD)
  moreover have "c' \<in> set (c0 # c1 # cs)" using c'(1) by (auto simp: c_def split: if_splits)
  ultimately show ?case using c'(2) by (metis foldl_Cons)
qed

lemma best_fit_some:
  "\<exists>c \<in> set (c0 # cs). foldl (\<lambda>best_fit fit. let current_fit = MinimalLeastSq_curve m n time (FittingCurve m fit) in
           if ls_rms current_fit < ls_rms best_fit then current_fit\<lparr>ls_complexity := fit\<rparr> else best_fit)
     (fitted m n time c0) cs = fitted m n time c"
proof (induction cs arbitrary: c0)
  case (Cons c1 cs)
  then show ?case
    using Cons.IH[of c0] Cons.IH[of c1] by (auto simp: Let_def simp del: LeastSq.ext_inject)
qed simp

lemma MinimalLeastSq_some:
  assumes "length n = length time" "2 \<le> length n" "complexity \<noteq> oNone"
  obtains c where "MinimalLeastSq m n time complexity = Inr (fitted m n time c)" "c \<noteq> oAuto" "c \<noteq> oNone"
    "c = oLambda \<longrightarrow> complexity = oLambda" "complexity \<noteq> oAuto \<longrightarrow> c = complexity"
proof (cases "complexity = oAuto")
  case True
  obtain c where "c \<in> set (o1 # fit_curves)" "MinimalLeastSq m n time complexity = Inr (fitted m n time c)"
    using best_fit_some[of o1 fit_curves m n time] assms True by (auto simp: MinimalLeastSq_def)
  then show thesis using that True by (auto simp: fit_curves_def)
next
  case False
  then show thesis using that[of complexity] assms by (simp add: MinimalLeastSq_def)
qed

text \<open>C27: With \<open>oAuto\<close> the fit is that of one of the six candidate curves 1, log N, N, N log N, N^2 and N^3, recorded as
  its complexity, and its RMS is the smallest of the six (as doubles compare), provided none of them
  is NaN; with any other complexity than \<open>oNone\<close> the fit is the one of that curve, without a proviso.  The curves are
  computed by the functions of the C library.\<close>

theorem MinimalLeastSq_best:
  assumes "length n = length time" "2 \<le> length n" "complexity \<noteq> oNone"
    and "complexity = oAuto \<Longrightarrow> \<forall>c \<in> {o1, oLogN, oN, oNLogN, oNSquared, oNCubed}. ls_rms (fitted m n time c) \<noteq> NaN"
  shows "\<exists>c. MinimalLeastSq m n time complexity = Inr (fitted m n time c) \<and>
    (complexity \<noteq> oAuto \<longrightarrow> c = complexity) \<and>
    (complexity = oAuto \<longrightarrow> c \<in> {o1, oLogN, oN, oNLogN, oNSquared, oNCubed} \<and>
       (\<forall>c' \<in> {o1, oLogN, oN, oNLogN, oNSquared, oNCubed}. ls_rms (fitted m n time c) \<le> ls_rms (fitted m n time c'))) \<and>
    (\<forall>k. map (\<lambda>c. FittingCurve m c k) [o1, oLogN, oN, oNLogN, oNSquared, oNCubed] =
       (let x = lm_of_int m k in [Fin 1, lm_log2 m x, x, x * lm_log2 m x, lm_pow m x (lm_of_int m 2), lm_pow m x (lm_of_int m 3)]))"
proof (cases "complexity = oAuto")
  case True
  have six: "set (o1 # fit_curves) = {o1, oLogN, oN, oNLogN, oNSquared, oNCubed}" by (simp add: fit_curves_def)
  have "\<forall>c \<in> set (o1 # fit_curves). ls_rms (fitted m n time c) \<noteq> NaN" unfolding six by (rule assms(4)[OF True])
  from best_fit_fold[OF refl this] assms(1-3) True show ?thesis
    unfolding six by (auto simp: MinimalLeastSq_def Let_def one_double_def)
next
  case False
  then show ?thesis using assms(1-3) by (simp add: MinimalLeastSq_def Let_def one_double_def)
qed

definition exact_libm :: "double libm" where
  "exact_libm = \<lparr>lm_of_int = double_of_int, lm_pow = (\<lambda>x y. if y = Fin 2 then x * x else x * x * x),
     lm_log2 = (\<lambda>x. double_of_int (ilog2 (dval x))), lm_sqrt = dsqrt\<rparr>"

theorem MinimalLeastSq_best_witness:
  "\<exists>c. MinimalLeastSq exact_libm [2, 2] [Fin 1, Fin 1] oAuto = Inr (fitted exact_libm [2, 2] [Fin 1, Fin 1] c) \<and>
    ls_rms (fitted exact_libm [2, 2] [Fin 1, Fin 1] c) \<le> ls_rms (fitted exact_libm [2, 2] [Fin 1, Fin 1] oN)"
proof -
  have log: "ilog2 2 = 1" by (rule ilog2_eqI) (simp_all add: power_int_def)
  note eval = MinimalLeastSq_curve_def exact_libm_def fit_sums_def zero_double_def one_double_def
    minus_double_def log dbl_simps Let_def case_prod_beta
  have "ls_rms (fitted exact_libm [2, 2] [Fin 1, Fin 1] c) = Fin 0" if "c \<in> set (o1 # fit_curves)" for c
    using that by (auto simp: fit_curves_def eval)
  then show ?thesis
    using MinimalLeastSq_best[of "[2, 2]" "[Fin 1, Fin 1]" oAuto exact_libm] by (auto simp: fit_curves_def)
qed

section \<open>The two reports\<close>

lemma accumulate_sizes_total:
  assumes "\<forall>r \<in> set reports. 0 < r_complexity_n r"
  shows "accumulate_sizes reports = Inr (map r_complexity_n reports,
    map (\<lambda>r. r_real_accumulated_time r / double_of_int (r_iterations r)) reports,
    map (\<lambda>r. r_cpu_accumulated_time r / double_of_int (r_iterations r)) reports)"
proof -
  have "rfold (\<lambda>(n, real_time, cpu_time) run.
       rbind (BM_CHECK (r_complexity_n run > 0) ''run.complexity_n > 0'') (\<lambda>_.
       Inr (n @ [r_complexity_n run],
            real_time @ [r_real_accumulated_time run / double_of_int (r_iterations run)],
            cpu_time @ [r_cpu_accumulated_time run / double_of_int (r_iterations run)]))) (n, rt, ct) reports =
     Inr (n @ map r_complexity_n reports,
       rt @ map (\<lambda>r. r_real_accumulated_time r / double_of_int (r_iterations r)) reports,
       ct @ map (\<lambda>r. r_cpu_accumulated_time r / double_of_int (r_iterations r)) reports)" for n rt ct
    using assms by (induction reports arbitrary: n rt ct) simp_all
  from this[of "[]" "[]" "[]"] show ?thesis by (simp add: accumulate_sizes_def)
qed

text \<open>The second fit uses the curve of the first.\<close>

lemma fit_times_some:
  assumes "length n = length real_time" "length n = length cpu_time" "2 \<le> length n" "r_complexity front \<noteq> oNone"
    and "r_complexity front = oLambda \<longrightarrow> r_complexity_lambda front \<noteq> None"
  shows "\<exists>fit_cpu fit_real. fit_times m front n real_time cpu_time = Inr (fit_cpu, fit_real) \<and>
    (if r_complexity front = oLambda
     then \<exists>f. r_complexity_lambda front = Some f \<and> fit_cpu = MinimalLeastSq_curve m n cpu_time f \<and>
       fit_real = MinimalLeastSq_curve m n real_time f
     else \<exists>c. fit_cpu = fitted m n cpu_time c \<and> fit_real = fitted m n real_time c \<and>
       MinimalLeastSq m n (if r_use_real_time_for_initial_big_o front then real_time else cpu_time) (r_complexity front) =
         Inr (if r_use_real_time_for_initial_big_o front then fit_real else fit_cpu))"
proof (cases "r_complexity front = oLambda")
  case True
  then show ?thesis using assms(5) by (auto simp: fit_times_def)
next
  case False
  define first other where "first = (if r_use_real_time_for_initial_big_o front then real_time else cpu_time)"
    and "other = (if r_use_real_time_for_initial_big_o front then cpu_time else real_time)"
  have len: "length n = length first" "length n = length other" using assms(1,2) by (simp_all add: first_def other_def)
  obtain c where c: "MinimalLeastSq m n first (r_complexity front) = Inr (fitted m n first c)" "c \<noteq> oAuto" "c \<noteq> oNone"
    using MinimalLeastSq_some[OF len(1) assms(3,4)] by blast
  obtain c' where c': "MinimalLeastSq m n other c = Inr (fitted m n other c')" "c \<noteq> oAuto \<longrightarrow> c' = c"
    using MinimalLeastSq_some[OF len(2) assms(3) c(3)] by blast
  show ?thesis
    using c c' False by (cases "r_use_real_time_for_initial_big_o front") (auto simp: fit_times_def first_def other_def)
qed

text \<open>C28: The complexity report of a family: fewer than two runs give none.  Otherwise, with a size set in every run,
  and a curve to fit, there are exactly two aggregates, \<open>BigO\<close> and \<open>RMS\<close>, without the arguments in
  their name, with zero iterations and one and the same complexity, carrying the coefficients and the
  RMS of two fits, of the CPU times and of the real times per iteration: both of the lambda of the first run, or
  both of one and the same curve, which is the choice of \<open>MinimalLeastSq\<close> for the CPU times, or the real
  times if the first run asks for that.  Only the \<open>RMS\<close> report has the time unit of the runs: \<open>BigO\<close> keeps
  the process-wide default unit.\<close>

theorem ComputeBigO_reports:
  fixes m :: "double libm"
  defines "n \<equiv> map r_complexity_n" and "real_times \<equiv> map (\<lambda>r. r_real_accumulated_time r / double_of_int (r_iterations r))"
    and "cpu_times \<equiv> map (\<lambda>r. r_cpu_accumulated_time r / double_of_int (r_iterations r))"
  assumes "2 \<le> length reports \<Longrightarrow> (\<forall>r \<in> set reports. 0 < r_complexity_n r) \<and> r_complexity (hd reports) \<noteq> oNone \<and>
      (r_complexity (hd reports) = oLambda \<longrightarrow> r_complexity_lambda (hd reports) \<noteq> None)"
  shows "if length reports < 2 then ComputeBigO m junk u reports = Inr []
    else \<exists>big_o rms fit_cpu fit_real. ComputeBigO m junk u reports = Inr [big_o, rms] \<and>
    (if r_complexity (hd reports) = oLambda
     then \<exists>f. r_complexity_lambda (hd reports) = Some f \<and> fit_cpu = MinimalLeastSq_curve m (n reports) (cpu_times reports) f \<and>
       fit_real = MinimalLeastSq_curve m (n reports) (real_times reports) f
     else \<exists>c. fit_cpu = fitted m (n reports) (cpu_times reports) c \<and> fit_real = fitted m (n reports) (real_times reports) c \<and>
       MinimalLeastSq m (n reports) (if r_use_real_time_for_initial_big_o (hd reports) then real_times reports
         else cpu_times reports) (r_complexity (hd reports)) =
         Inr (if r_use_real_time_for_initial_big_o (hd reports) then fit_real else fit_cpu)) \<and>
    r_aggregate_name big_o = ''BigO'' \<and> r_aggregate_name rms = ''RMS'' \<and>
    r_run_name big_o = (r_run_name (hd reports))\<lparr>n_args := []\<rparr> \<and> r_run_name rms = r_run_name big_o \<and>
    r_iterations big_o = 0 \<and> r_iterations rms = 0 \<and>
    r_complexity big_o = ls_complexity fit_cpu \<and> r_complexity rms = ls_complexity fit_cpu \<and>
    GetAdjustedCPUTime big_o = ls_coef fit_cpu * GetTimeUnitMultiplier u \<and>
    GetAdjustedRealTime big_o = ls_coef fit_real * GetTimeUnitMultiplier u \<and>
    r_time_unit big_o = u \<and> r_time_unit rms = r_time_unit (hd reports) \<and>
    r_cpu_accumulated_time rms = ls_rms fit_cpu / GetTimeUnitMultiplier (r_time_unit (hd reports)) \<and>
    r_real_accumulated_time rms = ls_rms fit_real / GetTimeUnitMultiplier (r_time_unit (hd reports)) \<and>
    r_report_big_o big_o \<and> r_report_rms rms \<and> \<not> r_report_big_o rms \<and> \<not> r_report_rms big_o"
proof (cases "length reports < 2")
  case True
  then show ?thesis by (simp add: ComputeBigO_def)
next
  case False
  then have two: "2 \<le> length reports" by simp
  note a = assms(4)[OF two]
  obtain fit_cpu fit_real where fit:
    "fit_times m (hd reports) (n reports) (real_times reports) (cpu_times reports) = Inr (fit_cpu, fit_real)"
    "if r_complexity (hd reports) = oLambda
     then \<exists>f. r_complexity_lambda (hd reports) = Some f \<and> fit_cpu = MinimalLeastSq_curve m (n reports) (cpu_times reports) f \<and>
       fit_real = MinimalLeastSq_curve m (n reports) (real_times reports) f
     else \<exists>c. fit_cpu = fitted m (n reports) (cpu_times reports) c \<and> fit_real = fitted m (n reports) (real_times reports) c \<and>
       MinimalLeastSq m (n reports) (if r_use_real_time_for_initial_big_o (hd reports) then real_times reports
         else cpu_times reports) (r_complexity (hd reports)) =
         Inr (if r_use_real_time_for_initial_big_o (hd reports) then fit_real else fit_cpu)"
    using fit_times_some[of "n reports" "real_times reports" "cpu_times reports" "hd reports" m] two a
    by (auto simp: n_def real_times_def cpu_times_def)
  have acc: "accumulate_sizes reports = Inr (n reports, real_times reports, cpu_times reports)"
    using a by (simp add: accumulate_sizes_total n_def real_times_def cpu_times_def)
  have "\<exists>big_o rms. ComputeBigO m junk u reports = Inr [big_o, rms] \<and>
    r_aggregate_name big_o = ''BigO'' \<and> r_aggregate_name rms = ''RMS'' \<and>
    r_run_name big_o = (r_run_name (hd reports))\<lparr>n_args := []\<rparr> \<and> r_run_name rms = r_run_name big_o \<and>
    r_iterations big_o = 0 \<and> r_iterations rms = 0 \<and>
    r_complexity big_o = ls_complexity fit_cpu \<and> r_complexity rms = ls_complexity fit_cpu \<and>
    GetAdjustedCPUTime big_o = ls_coef fit_cpu * GetTimeUnitMultiplier u \<and>
    GetAdjustedRealTime big_o = ls_coef fit_real * GetTimeUnitMultiplier u \<and>
    r_time_unit big_o = u \<and> r_time_unit rms = r_time_unit (hd reports) \<and>
    r_cpu_accumulated_time rms = ls_rms fit_cpu / GetTimeUnitMultiplier (r_time_unit (hd reports)) \<and>
    r_real_accumulated_time rms = ls_rms fit_real / GetTimeUnitMultiplier (r_time_unit (hd reports)) \<and>
    r_report_big_o big_o \<and> r_report_rms rms \<and> \<not> r_report_big_o rms \<and> \<not> r_report_rms big_o"
    using fit(1) False
    by (simp add: ComputeBigO_def acc Let_def Run_init_def GetAdjustedCPUTime_def GetAdjustedRealTime_def)
  with fit(2) show ?thesis unfolding if_not_P[OF False] by blast
qed

theorem ComputeBigO_reports_witness:
  "\<exists>big_o rms. ComputeBigO exact_libm 0 kNanosecond
     (replicate 2 ((Run_init 0 kMillisecond)\<lparr>r_complexity_n := 3, r_complexity := oLambda,
        r_complexity_lambda := Some (\<lambda>_. Fin 1)\<rparr>)) = Inr [big_o, rms] \<and>
     r_time_unit big_o = kNanosecond \<and> r_time_unit rms = kMillisecond"
proof -
  let ?r = "(Run_init 0 kMillisecond)\<lparr>r_complexity_n := 3, r_complexity := oLambda,
        r_complexity_lambda := Some (\<lambda>_. Fin 1)\<rparr>"
  have two: "\<not> length (replicate 2 ?r) < 2" by simp
  show ?thesis
    using ComputeBigO_reports[of "replicate 2 ?r" exact_libm 0 kNanosecond] unfolding if_not_P[OF two]
    by (auto simp: numeral_2_eq_2 Run_init_def)
qed

end
