(* ===== verification/Runtime.thy ===== *)
theory Runtime
  imports Counters
begin

text \<open>
  One thread of a benchmark run: the timer (src/src/thread_timer.h), the results the threads share
  (src/src/thread_manager.h), and the \<open>State\<close> object that drives the measured loop
  (src/include/benchmark/benchmark.h, src/src/benchmark.cc).

  The objects a \<open>State\<close> points to are in the \<open>world\<close> of the thread: its timer and the shared results
  (\<open>None\<close> is a null pointer, which \<open>Setup\<close> and \<open>Teardown\<close> states have), the clocks, the performance
  counters and the profiler.  A clock is the sequence of its readings; each reading takes the
  next one.  Calls that other threads or user objects see (the start/stop barrier, the profiler
  callbacks) are recorded in order in \<open>w_trace\<close>, a passage of the barrier with whether the timer of the thread
  was running; what the barrier does is in \<open>Barrier\<close>.
\<close>

section \<open>Timer\<close>

record ThreadTimer =
  t_measure_process_cpu_time :: bool
  t_running :: bool
  t_start_real_time :: double
  t_start_cpu_time :: double
  t_real_time_used :: double
  t_cpu_time_used :: double
  t_manual_time_used :: double

definition ThreadTimer_new :: "bool \<Rightarrow> ThreadTimer" where
  "ThreadTimer_new measure_process_cpu_time = \<lparr>t_measure_process_cpu_time = measure_process_cpu_time,
     t_running = False, t_start_real_time = Fin 0, t_start_cpu_time = Fin 0,
     t_real_time_used = Fin 0, t_cpu_time_used = Fin 0, t_manual_time_used = Fin 0\<rparr>"

record ThreadResult =
  tr_iterations :: int
  tr_real_time_used :: double
  tr_cpu_time_used :: double
  tr_manual_time_used :: double
  tr_complexity_n :: int
  tr_report_label :: string
  tr_skip_message :: string
  tr_skipped :: Skipped
  tr_counters :: UserCounters

definition ThreadResult_init :: ThreadResult where
  "ThreadResult_init = \<lparr>tr_iterations = 0, tr_real_time_used = Fin 0, tr_cpu_time_used = Fin 0,
     tr_manual_time_used = Fin 0, tr_complexity_n = 0, tr_report_label = [], tr_skip_message = [],
     tr_skipped = NotSkipped, tr_counters = []\<rparr>"

text \<open>
  A performance-counter measurement (\<open>PerfCountersMeasurement\<close>, src/src/perf_counters.h): its counter
  names, and what the successive reads of the hardware counters by \<open>Stop\<close> give (\<open>None\<close> when the read
  fails).  With no counter \<open>Start\<close> and \<open>Stop\<close> do nothing.
\<close>

record perf_source =
  p_names :: "string list"
  p_stops :: "nat \<Rightarrow> (string \<times> double) list option"

definition perf_stop :: "perf_source \<Rightarrow> nat \<Rightarrow> (string \<times> double) list option" where
  "perf_stop p k = (if p_names p = [] then Some [] else p_stops p k)"

datatype event = EvStartStopBarrier bool | EvAfterSetupStart | EvBeforeTeardownStop | EvPerfStart

record world =
  w_timer :: "ThreadTimer option"
  w_results :: "ThreadResult option"
  w_perf :: "perf_source option"
  w_perf_stops :: nat
  w_profiler :: bool
  w_real_clock :: "nat \<Rightarrow> double"
  w_thread_cpu :: "nat \<Rightarrow> double"
  w_process_cpu :: "nat \<Rightarrow> double"
  w_ticks :: nat
  w_trace :: "event list"

definition emit :: "event \<Rightarrow> world \<Rightarrow> world" where
  "emit e w = w\<lparr>w_trace := w_trace w @ [e]\<rparr>"

definition ChronoClockNow :: "world \<Rightarrow> double \<times> world" where
  "ChronoClockNow w = (w_real_clock w (w_ticks w), w\<lparr>w_ticks := Suc (w_ticks w)\<rparr>)"

definition ReadCpuTimerOfChoice :: "ThreadTimer \<Rightarrow> world \<Rightarrow> double \<times> world" where
  "ReadCpuTimerOfChoice t w =
     ((if t_measure_process_cpu_time t then w_process_cpu w (w_ticks w) else w_thread_cpu w (w_ticks w)),
      w\<lparr>w_ticks := Suc (w_ticks w)\<rparr>)"

text \<open>Dereferencing the timer and the results.\<close>

definition the_timer :: "world \<Rightarrow> ThreadTimer res" where
  "the_timer w = (case w_timer w of None \<Rightarrow> Inl (Undefined ''null timer'') | Some t \<Rightarrow> Inr t)"

definition the_results :: "world \<Rightarrow> ThreadResult res" where
  "the_results w = (case w_results w of None \<Rightarrow> Inl (Undefined ''null thread manager'') | Some r \<Rightarrow> Inr r)"

definition StartTimer :: "world \<Rightarrow> world res" where
  "StartTimer w =
     rbind (the_timer w) (\<lambda>t.
     (let (now, w1) = ChronoClockNow w;
          (cpu, w2) = ReadCpuTimerOfChoice t w1
      in Inr (w2\<lparr>w_timer := Some (t\<lparr>t_running := True, t_start_real_time := now,
           t_start_cpu_time := cpu\<rparr>)\<rparr>)))"

definition StopTimer :: "world \<Rightarrow> world res" where
  "StopTimer w =
     rbind (the_timer w) (\<lambda>t.
     rbind (BM_CHECK (t_running t) ''running_'') (\<lambda>_.
     (let (now, w1) = ChronoClockNow w;
          (cpu, w2) = ReadCpuTimerOfChoice t w1
      in Inr (w2\<lparr>w_timer := Some (t\<lparr>t_running := False,
           t_real_time_used := t_real_time_used t + (now - t_start_real_time t),
           t_cpu_time_used := t_cpu_time_used t + std_max (cpu - t_start_cpu_time t) (Fin 0)\<rparr>)\<rparr>))))"

definition Timer_SetIterationTime :: "double \<Rightarrow> world \<Rightarrow> world res" where
  "Timer_SetIterationTime seconds w =
     rbind (the_timer w) (\<lambda>t.
     Inr (w\<lparr>w_timer := Some (t\<lparr>t_manual_time_used := t_manual_time_used t + seconds\<rparr>)\<rparr>))"

text \<open>The three totals may only be read while the timer is stopped.\<close>

definition real_time_used :: "ThreadTimer \<Rightarrow> double res" where
  "real_time_used t = rbind (BM_CHECK (\<not> t_running t) ''!running_'') (\<lambda>_. Inr (t_real_time_used t))"

definition cpu_time_used :: "ThreadTimer \<Rightarrow> double res" where
  "cpu_time_used t = rbind (BM_CHECK (\<not> t_running t) ''!running_'') (\<lambda>_. Inr (t_cpu_time_used t))"

definition manual_time_used :: "ThreadTimer \<Rightarrow> double res" where
  "manual_time_used t = rbind (BM_CHECK (\<not> t_running t) ''!running_'') (\<lambda>_. Inr (t_manual_time_used t))"

section \<open>State\<close>

record State =
  s_total_iterations :: int
  s_batch_leftover :: int
  s_max_iterations :: int
  s_started :: bool
  s_finished :: bool
  s_skipped :: Skipped
  s_range :: "int list"
  s_complexity_n :: int
  s_counters :: UserCounters
  s_name :: string
  s_thread_index :: int
  s_threads :: int

definition skipped :: "State \<Rightarrow> bool" where
  "skipped st \<longleftrightarrow> s_skipped st \<noteq> NotSkipped"

definition error_occurred :: "State \<Rightarrow> bool" where
  "error_occurred st \<longleftrightarrow> s_skipped st = SkippedWithError"

definition State_new ::
  "string \<Rightarrow> int \<Rightarrow> int list \<Rightarrow> int \<Rightarrow> int \<Rightarrow> perf_source option \<Rightarrow> State res" where
  "State_new name max_iters ranges thread_i num_threads perf =
     rbind (BM_CHECK (max_iters \<noteq> 0) ''max_iterations != 0'') (\<lambda>_.
     rbind (BM_CHECK (thread_i < num_threads) ''thread_index_ < threads_'') (\<lambda>_.
     Inr \<lparr>s_total_iterations = 0, s_batch_leftover = 0, s_max_iterations = max_iters,
          s_started = False, s_finished = False, s_skipped = NotSkipped, s_range = ranges,
          s_complexity_n = 0,
          s_counters = (case perf of None \<Rightarrow> [] | Some p \<Rightarrow>
            foldl (\<lambda>m n. map_put n \<lparr>c_value = Fin 0, c_flags = kAvgIterations, c_oneK = kIs1000\<rparr> m)
              [] (p_names p)),
          s_name = name, s_thread_index = thread_i, s_threads = num_threads\<rparr>))"

text \<open>The measurements of one \<open>Stop\<close> are added to the counters the constructor inserted.\<close>

definition add_measurement :: "UserCounters \<Rightarrow> string \<times> double \<Rightarrow> UserCounters res" where
  "add_measurement counters = (\<lambda>(name, measurement).
     case map_of counters name of
       None \<Rightarrow> Inl (AssertFailed ''counters.find(name) != counters.end()'')
     | Some c \<Rightarrow> Inr (map_put name (c\<lparr>c_value := c_value c + measurement\<rparr>) counters))"

definition PauseTiming :: "State \<Rightarrow> world \<Rightarrow> (State \<times> world) res" where
  "PauseTiming st w =
     rbind (BM_CHECK (s_started st \<and> \<not> s_finished st \<and> \<not> skipped st) ''started_ && !finished_ && !skipped()'') (\<lambda>_.
     rbind (StopTimer w) (\<lambda>w1.
     case w_perf w1 of
       None \<Rightarrow> Inr (st, w1)
     | Some p \<Rightarrow>
         (let w2 = w1\<lparr>w_perf_stops := Suc (w_perf_stops w1)\<rparr> in
          case perf_stop p (w_perf_stops w1) of
            None \<Rightarrow> Inl (CheckFailed ''Perf counters read the value failed.'')
          | Some measurements \<Rightarrow>
              rbind (rfold add_measurement (s_counters st) measurements) (\<lambda>counters.
              Inr (st\<lparr>s_counters := counters\<rparr>, w2)))))"

definition ResumeTiming :: "State \<Rightarrow> world \<Rightarrow> world res" where
  "ResumeTiming st w =
     rbind (BM_CHECK (s_started st \<and> \<not> s_finished st \<and> \<not> skipped st) ''started_ && !finished_ && !skipped()'') (\<lambda>_.
     rbind (StartTimer w) (\<lambda>w1.
     Inr (case w_perf w1 of None \<Rightarrow> w1 | Some p \<Rightarrow> if p_names p = [] then w1 else emit EvPerfStart w1)))"

text \<open>The first reason is kept in the results.\<close>

definition SkipWithMessage :: "string \<Rightarrow> State \<Rightarrow> world \<Rightarrow> (State \<times> world) res" where
  "SkipWithMessage msg st w =
     (let st1 = st\<lparr>s_skipped := SkippedWithMessage\<rparr> in
      rbind (the_results w) (\<lambda>r.
      (let w1 = (if tr_skipped r = NotSkipped
             then w\<lparr>w_results := Some (r\<lparr>tr_skip_message := msg, tr_skipped := s_skipped st1\<rparr>)\<rparr> else w);
           st2 = st1\<lparr>s_total_iterations := 0\<rparr>
       in rbind (the_timer w1) (\<lambda>t.
          if t_running t then rbind (StopTimer w1) (\<lambda>w2. Inr (st2, w2)) else Inr (st2, w1)))))"

definition SkipWithError :: "string \<Rightarrow> State \<Rightarrow> world \<Rightarrow> (State \<times> world) res" where
  "SkipWithError msg st w =
     (let st1 = st\<lparr>s_skipped := SkippedWithError\<rparr> in
      rbind (the_results w) (\<lambda>r.
      (let w1 = (if tr_skipped r = NotSkipped
             then w\<lparr>w_results := Some (r\<lparr>tr_skip_message := msg, tr_skipped := s_skipped st1\<rparr>)\<rparr> else w);
           st2 = st1\<lparr>s_total_iterations := 0\<rparr>
       in rbind (the_timer w1) (\<lambda>t.
          if t_running t then rbind (StopTimer w1) (\<lambda>w2. Inr (st2, w2)) else Inr (st2, w1)))))"

text \<open>The two differ in the reason only.\<close>

definition skip_with :: "Skipped \<Rightarrow> string \<Rightarrow> State \<Rightarrow> world \<Rightarrow> (State \<times> world) res" where
  "skip_with reason msg st w =
     rbind (the_results w) (\<lambda>r.
     (let r1 = (if tr_skipped r = NotSkipped then r\<lparr>tr_skip_message := msg, tr_skipped := reason\<rparr> else r);
          w1 = w\<lparr>w_results := Some r1\<rparr>;
          st1 = st\<lparr>s_skipped := reason, s_total_iterations := 0\<rparr>
      in rbind (the_timer w1) (\<lambda>t.
         if t_running t then rbind (StopTimer w1) (\<lambda>w2. Inr (st1, w2)) else Inr (st1, w1))))"

lemma skip_calls:
  "SkipWithMessage msg st w = skip_with SkippedWithMessage msg st w"
  "SkipWithError msg st w = skip_with SkippedWithError msg st w"
proof -
  have same: "w\<lparr>w_results := Some r\<rparr> = w" if "w_results w = Some r" for r using that by simp
  show "SkipWithMessage msg st w = skip_with SkippedWithMessage msg st w"
    "SkipWithError msg st w = skip_with SkippedWithError msg st w"
    by (cases "w_results w"; cases "w_timer w"; simp add: SkipWithMessage_def SkipWithError_def skip_with_def
        the_results_def the_timer_def Let_def same)+
qed

definition SetIterationTime :: "double \<Rightarrow> world \<Rightarrow> world res" where
  "SetIterationTime seconds w = Timer_SetIterationTime seconds w"

definition SetLabel :: "string \<Rightarrow> world \<Rightarrow> world res" where
  "SetLabel label w = rbind (the_results w) (\<lambda>r. Inr (w\<lparr>w_results := Some (r\<lparr>tr_report_label := label\<rparr>)\<rparr>))"

definition SetBytesProcessed :: "int \<Rightarrow> State \<Rightarrow> State" where
  "SetBytesProcessed bytes st = st\<lparr>s_counters := map_put ''bytes_per_second''
     \<lparr>c_value = double_of_int bytes, c_flags = kIsRate, c_oneK = kIs1024\<rparr> (s_counters st)\<rparr>"

definition bytes_processed :: "State \<Rightarrow> int res" where
  "bytes_processed st = (case map_of (s_counters st) ''bytes_per_second'' of
     Some c \<Rightarrow> int_of_double (c_value c) | None \<Rightarrow> Inr 0)"

definition SetItemsProcessed :: "int \<Rightarrow> State \<Rightarrow> State" where
  "SetItemsProcessed items st = st\<lparr>s_counters := map_put ''items_per_second''
     \<lparr>c_value = double_of_int items, c_flags = kIsRate, c_oneK = kIs1000\<rparr> (s_counters st)\<rparr>"

definition items_processed :: "State \<Rightarrow> int res" where
  "items_processed st = (case map_of (s_counters st) ''items_per_second'' of
     Some c \<Rightarrow> int_of_double (c_value c) | None \<Rightarrow> Inr 0)"

definition SetComplexityN :: "int \<Rightarrow> State \<Rightarrow> State" where
  "SetComplexityN complexity_n st = st\<lparr>s_complexity_n := complexity_n\<rparr>"

definition range_at :: "State \<Rightarrow> nat \<Rightarrow> int res" where
  "range_at st pos = rbind (ASSERT (length (s_range st) > pos) ''range_.size() > pos'') (\<lambda>_.
     Inr (s_range st ! pos))"

definition iterations :: "State \<Rightarrow> int" where
  "iterations st = (if \<not> s_started st then 0
     else s_max_iterations st - s_total_iterations st + s_batch_leftover st)"

section \<open>The measured loop\<close>

definition timer_running :: "world \<Rightarrow> bool" where
  "timer_running w = (case w_timer w of None \<Rightarrow> False | Some t \<Rightarrow> t_running t)"

definition StartStopBarrier :: "world \<Rightarrow> world res" where
  "StartStopBarrier w = rbind (the_results w) (\<lambda>_. Inr (emit (EvStartStopBarrier (timer_running w)) w))"

definition StartKeepRunning :: "State \<Rightarrow> world \<Rightarrow> (State \<times> world) res" where
  "StartKeepRunning st w =
     rbind (BM_CHECK (\<not> s_started st \<and> \<not> s_finished st) ''!started_ && !finished_'') (\<lambda>_.
     (let st1 = st\<lparr>s_started := True, s_total_iterations := (if skipped st then 0 else s_max_iterations st)\<rparr>;
          w1 = (if w_profiler w then emit EvAfterSetupStart w else w)
      in rbind (StartStopBarrier w1) (\<lambda>w2.
         if \<not> skipped st1 then rbind (ResumeTiming st1 w2) (\<lambda>w3. Inr (st1, w3)) else Inr (st1, w2))))"

definition FinishKeepRunning :: "State \<Rightarrow> world \<Rightarrow> (State \<times> world) res" where
  "FinishKeepRunning st w =
     rbind (BM_CHECK (s_started st \<and> (\<not> s_finished st \<or> skipped st)) ''started_ && (!finished_ || skipped())'') (\<lambda>_.
     rbind (if \<not> skipped st then PauseTiming st w else Inr (st, w)) (\<lambda>(st1, w1).
     (let st2 = st1\<lparr>s_total_iterations := 0, s_finished := True\<rparr> in
      rbind (StartStopBarrier w1) (\<lambda>w2.
      Inr (st2, if w_profiler w2 then emit EvBeforeTeardownStop w2 else w2)))))"

definition KeepRunningInternal :: "int \<Rightarrow> bool \<Rightarrow> State \<Rightarrow> world \<Rightarrow> (bool \<times> State \<times> world) res" where
  "KeepRunningInternal n is_batch st w =
     rbind (ASSERT (n > 0) ''n > 0'') (\<lambda>_.
     rbind (ASSERT (is_batch \<or> n = 1) ''is_batch || n == 1'') (\<lambda>_.
     if s_total_iterations st \<ge> n
     then Inr (True, st\<lparr>s_total_iterations := s_total_iterations st - n\<rparr>, w)
     else
       rbind (if \<not> s_started st then StartKeepRunning st w else Inr (st, w)) (\<lambda>(st1, w1).
       if \<not> s_started st \<and> \<not> skipped st1 \<and> s_total_iterations st1 \<ge> n
       then Inr (True, st1\<lparr>s_total_iterations := s_total_iterations st1 - n\<rparr>, w1)
       else if is_batch \<and> s_total_iterations st1 \<noteq> 0
       then Inr (True, st1\<lparr>s_batch_leftover := n - s_total_iterations st1, s_total_iterations := 0\<rparr>, w1)
       else rbind (FinishKeepRunning st1 w1) (\<lambda>(st2, w2). Inr (False, st2, w2)))))"

definition KeepRunning :: "State \<Rightarrow> world \<Rightarrow> (bool \<times> State \<times> world) res" where
  "KeepRunning st w = KeepRunningInternal 1 False st w"

definition KeepRunningBatch :: "int \<Rightarrow> State \<Rightarrow> world \<Rightarrow> (bool \<times> State \<times> world) res" where
  "KeepRunningBatch n st w = KeepRunningInternal n True st w"

text \<open>
  The range-based \<open>for\<close>: \<open>begin()\<close> takes the number of iterations from the state, then \<open>end()\<close> starts
  the timer; the loop itself only counts the iterator down.
\<close>

definition StateIterator_begin :: "State \<Rightarrow> int" where
  "StateIterator_begin st = (if skipped st then 0 else s_max_iterations st)"

definition StateIterator_incr :: "int \<Rightarrow> int res" where
  "StateIterator_incr cached = rbind (ASSERT (cached > 0) ''cached_ > 0'') (\<lambda>_. Inr (cached - 1))"

definition StateIterator_neq :: "int \<Rightarrow> State \<Rightarrow> world \<Rightarrow> (bool \<times> State \<times> world) res" where
  "StateIterator_neq cached st w =
     (if cached \<noteq> 0 then Inr (True, st, w)
      else rbind (FinishKeepRunning st w) (\<lambda>(st1, w1). Inr (False, st1, w1)))"

text \<open>
  The loops of user code: the body is any function on the state and the world, \<open>fuel\<close> bounds the
  number of turns (\<open>None\<close> when it runs out) and the result counts the executions of the body.
\<close>

type_synonym body = "State \<Rightarrow> world \<Rightarrow> (State \<times> world) res"

fun while_keep_running ::
  "nat \<Rightarrow> (State \<Rightarrow> world \<Rightarrow> (bool \<times> State \<times> world) res) \<Rightarrow> body \<Rightarrow> nat \<Rightarrow> State \<Rightarrow> world \<Rightarrow>
   (nat \<times> State \<times> world) res option" where
  "while_keep_running 0 test f k st w = None"
| "while_keep_running (Suc fuel) test f k st w =
     (case test st w of
        Inl e \<Rightarrow> Some (Inl e)
      | Inr (False, st1, w1) \<Rightarrow> Some (Inr (k, st1, w1))
      | Inr (True, st1, w1) \<Rightarrow>
          (case f st1 w1 of
             Inl e \<Rightarrow> Some (Inl e)
           | Inr (st2, w2) \<Rightarrow> while_keep_running fuel test f (Suc k) st2 w2))"

fun range_for_loop ::
  "nat \<Rightarrow> body \<Rightarrow> nat \<Rightarrow> int \<Rightarrow> State \<Rightarrow> world \<Rightarrow> (nat \<times> State \<times> world) res option" where
  "range_for_loop 0 f k cached st w = None"
| "range_for_loop (Suc fuel) f k cached st w =
     (case StateIterator_neq cached st w of
        Inl e \<Rightarrow> Some (Inl e)
      | Inr (False, st1, w1) \<Rightarrow> Some (Inr (k, st1, w1))
      | Inr (True, st1, w1) \<Rightarrow>
          (case f st1 w1 of
             Inl e \<Rightarrow> Some (Inl e)
           | Inr (st2, w2) \<Rightarrow>
               (case StateIterator_incr cached of
                  Inl e \<Rightarrow> Some (Inl e)
                | Inr cached' \<Rightarrow> range_for_loop fuel f (Suc k) cached' st2 w2)))"

definition range_for :: "nat \<Rightarrow> body \<Rightarrow> State \<Rightarrow> world \<Rightarrow> (nat \<times> State \<times> world) res option" where
  "range_for fuel f st w =
     (let cached = StateIterator_begin st in
      case StartKeepRunning st w of
        Inl e \<Rightarrow> Some (Inl e)
      | Inr (st1, w1) \<Rightarrow> range_for_loop fuel f 0 cached st1 w1)"

section \<open>The loop runs as often as asked\<close>

text \<open>What the loop functions read and write of a state.\<close>

definition control :: "State \<Rightarrow> int \<times> int \<times> int \<times> bool \<times> bool \<times> Skipped" where
  "control st = (s_total_iterations st, s_batch_leftover st, s_max_iterations st, s_started st,
     s_finished st, s_skipped st)"

definition perf_idle :: "perf_source option \<Rightarrow> bool" where
  "perf_idle p = (case p of None \<Rightarrow> True | Some s \<Rightarrow> p_names s = [])"

definition world_ready :: "bool \<Rightarrow> world \<Rightarrow> bool" where
  "world_ready running w \<longleftrightarrow> perf_idle (w_perf w) \<and> w_results w \<noteq> None \<and>
     (\<exists>t. w_timer w = Some t \<and> t_running t = running)"

definition fresh :: "State \<Rightarrow> bool" where
  "fresh st \<longleftrightarrow> control st = (0, 0, s_max_iterations st, False, False, NotSkipped) \<and> 1 \<le> s_max_iterations st"

text \<open>
  A body that returns, leaves the loop control alone and leaves the timer running: in particular any
  measured code, with or without a \<open>PauseTiming\<close>/\<open>ResumeTiming\<close> pair, that does not skip.
\<close>

definition neutral :: "body \<Rightarrow> bool" where
  "neutral f \<longleftrightarrow> (\<forall>st w. s_started st \<and> \<not> s_finished st \<and> \<not> skipped st \<and> world_ready True w \<longrightarrow>
     (\<exists>st' w'. f st w = Inr (st', w') \<and> control st' = control st \<and> world_ready True w' \<and>
        w_trace w' = w_trace w \<and> w_profiler w' = w_profiler w))"

abbreviation running_state :: "State \<Rightarrow> int \<Rightarrow> int \<Rightarrow> int \<Rightarrow> bool" where
  "running_state st tot leftover m \<equiv> control st = (tot, leftover, m, True, False, NotSkipped)"

lemma neutralD:
  assumes "neutral f" "running_state st T L M" "world_ready True w"
  obtains st' w' where "f st w = Inr (st', w')" "running_state st' T L M" "world_ready True w'"
    "w_trace w' = w_trace w" "w_profiler w' = w_profiler w"
  using assms unfolding neutral_def control_def skipped_def by fastforce

text \<open>Pausing and resuming only touch the timer when no performance counter is measured.\<close>

lemma PauseTiming_idle:
  assumes "s_started st" "\<not> s_finished st" "\<not> skipped st" "perf_idle (w_perf w)"
    and "w_timer w = Some t" "t_running t"
  obtains w' where "PauseTiming st w = Inr (st, w')" "w_results w' = w_results w" "w_perf w' = w_perf w"
    "w_profiler w' = w_profiler w" "w_trace w' = w_trace w" "\<exists>t'. w_timer w' = Some t' \<and> \<not> t_running t'"
  using assms that
  by (cases "w_perf w")
    (auto simp: PauseTiming_def StopTimer_def the_timer_def perf_idle_def perf_stop_def
      ChronoClockNow_def ReadCpuTimerOfChoice_def Let_def)

lemma ResumeTiming_idle:
  assumes "s_started st" "\<not> s_finished st" "\<not> skipped st" "perf_idle (w_perf w)" "w_timer w = Some t"
  obtains w' where "ResumeTiming st w = Inr w'" "w_results w' = w_results w" "w_perf w' = w_perf w"
    "w_profiler w' = w_profiler w" "w_trace w' = w_trace w" "\<exists>t'. w_timer w' = Some t' \<and> t_running t'"
  using assms that
  by (cases "w_perf w")
    (auto simp: ResumeTiming_def StartTimer_def the_timer_def perf_idle_def
      ChronoClockNow_def ReadCpuTimerOfChoice_def Let_def)

lemma StartKeepRunning_fresh:
  assumes "fresh st" "world_ready False w"
  obtains st' w' where "StartKeepRunning st w = Inr (st', w')"
    "running_state st' (s_max_iterations st) 0 (s_max_iterations st)" "world_ready True w'"
    "w_trace w' = w_trace w @ (if w_profiler w then [EvAfterSetupStart] else []) @ [EvStartStopBarrier False]"
    "w_profiler w' = w_profiler w" "w_results w' = w_results w" "s_complexity_n st' = s_complexity_n st"
proof -
  let ?st = "st\<lparr>s_started := True, s_total_iterations := s_max_iterations st\<rparr>"
  define w1 where "w1 = emit (EvStartStopBarrier False) (if w_profiler w then emit EvAfterSetupStart w else w)"
  from assms(2) obtain t r where w: "perf_idle (w_perf w)" "w_results w = Some r" "w_timer w = Some t"
    by (auto simp: world_ready_def)
  have w1: "perf_idle (w_perf w1)" "w_results w1 = Some r" "w_timer w1 = Some t" "w_profiler w1 = w_profiler w"
    "w_trace w1 = w_trace w @ (if w_profiler w then [EvAfterSetupStart] else []) @ [EvStartStopBarrier False]"
    using w by (auto simp: w1_def emit_def)
  have st: "s_started ?st" "\<not> s_finished ?st" "\<not> skipped ?st" "\<not> s_started st" "\<not> s_finished st" "\<not> skipped st"
    using assms(1) by (auto simp: fresh_def control_def skipped_def)
  obtain w' where w': "ResumeTiming ?st w1 = Inr w'" "w_results w' = w_results w1" "w_perf w' = w_perf w1"
    "w_profiler w' = w_profiler w1" "w_trace w' = w_trace w1" "\<exists>t'. w_timer w' = Some t' \<and> t_running t'"
    using ResumeTiming_idle[OF st(1-3) w1(1,3)] by blast
  have "StartStopBarrier (if w_profiler w then emit EvAfterSetupStart w else w) = Inr w1"
    using w assms(2) by (auto simp: StartStopBarrier_def the_results_def w1_def emit_def timer_running_def world_ready_def)
  then have "StartKeepRunning st w = Inr (?st, w')"
    using st w'(1) by (simp add: StartKeepRunning_def)
  moreover have "running_state ?st (s_max_iterations st) 0 (s_max_iterations st)"
    using assms(1) by (simp add: fresh_def control_def)
  ultimately show thesis using that w' w1 w by (simp add: world_ready_def)
qed

lemma FinishKeepRunning_running:
  assumes "running_state st T L M" "world_ready True w"
  obtains st' w' where "FinishKeepRunning st w = Inr (st', w')"
    "control st' = (0, L, M, True, True, NotSkipped)" "world_ready False w'"
    "w_trace w' = w_trace w @ [EvStartStopBarrier False] @ (if w_profiler w then [EvBeforeTeardownStop] else [])"
    "w_results w' = w_results w" "s_complexity_n st' = s_complexity_n st"
proof -
  from assms(2) obtain t r where w: "perf_idle (w_perf w)" "w_results w = Some r" "w_timer w = Some t" "t_running t"
    by (auto simp: world_ready_def)
  have st: "s_started st" "\<not> s_finished st" "\<not> skipped st" using assms(1) by (auto simp: control_def skipped_def)
  obtain w1 where w1: "PauseTiming st w = Inr (st, w1)" "w_results w1 = w_results w" "w_perf w1 = w_perf w"
    "w_profiler w1 = w_profiler w" "w_trace w1 = w_trace w" "\<exists>t'. w_timer w1 = Some t' \<and> \<not> t_running t'"
    using PauseTiming_idle[OF st w(1,3,4)] by blast
  define w2 where "w2 = emit (EvStartStopBarrier False) w1"
  define w' where "w' = (if w_profiler w2 then emit EvBeforeTeardownStop w2 else w2)"
  let ?st = "st\<lparr>s_total_iterations := 0, s_finished := True\<rparr>"
  have "StartStopBarrier w1 = Inr w2" using w1(2,6) w(2)
    by (auto simp: StartStopBarrier_def the_results_def w2_def timer_running_def)
  then have "FinishKeepRunning st w = Inr (?st, w')"
    using st w1(1) by (simp add: FinishKeepRunning_def w'_def)
  moreover have "control ?st = (0, L, M, True, True, NotSkipped)" using assms(1) by (simp add: control_def)
  moreover have "world_ready False w'" "w_results w' = w_results w"
    "w_trace w' = w_trace w @ [EvStartStopBarrier False] @ (if w_profiler w then [EvBeforeTeardownStop] else [])"
    using w1 w by (auto simp: world_ready_def w'_def w2_def emit_def)
  ultimately show thesis using that by simp
qed

text \<open>The test of the loop, in a state that is running.\<close>

lemma KeepRunningInternal_running:
  assumes "0 < n" "b \<or> n = 1" "running_state st T L M" "0 \<le> T"
  shows "n \<le> T \<Longrightarrow> KeepRunningInternal n b st w = Inr (True, st\<lparr>s_total_iterations := T - n\<rparr>, w)"
    and "b \<Longrightarrow> 0 < T \<Longrightarrow> T < n \<Longrightarrow> KeepRunningInternal n b st w =
      Inr (True, st\<lparr>s_batch_leftover := n - T, s_total_iterations := 0\<rparr>, w)"
    and "T = 0 \<Longrightarrow> KeepRunningInternal n b st w =
      rbind (FinishKeepRunning st w) (\<lambda>(st2, w2). Inr (False, st2, w2))"
  using assms by (auto simp: KeepRunningInternal_def control_def)

lemma KeepRunningInternal_first:
  assumes "0 < n" "b \<or> n = 1" "fresh st" "StartKeepRunning st w = Inr (st1, w1)"
    "running_state st1 M 0 M" "1 \<le> M"
  shows "KeepRunningInternal n b st w = KeepRunningInternal n b st1 w1"
  using assms by (auto simp: KeepRunningInternal_def fresh_def control_def skipped_def)

abbreviation rounds :: "int \<Rightarrow> int \<Rightarrow> nat" where
  "rounds tot n \<equiv> nat ((tot + n - 1) div n)"

lemma keep_running_from:
  assumes "neutral f" "0 < n" "b \<or> n = 1" "running_state st T L M" "0 \<le> T" "L = 0 \<or> T = 0"
    "world_ready True w" "nat T < fuel" and test: "test = KeepRunningInternal n b"
  shows "\<exists>st' w'. while_keep_running fuel test f k st w =
      Some (Inr (k + rounds T n, st', w')) \<and> s_started st' \<and> s_finished st' \<and> \<not> skipped st' \<and>
    iterations st' = M - T + L + n * int (rounds T n) \<and> world_ready False w' \<and>
    w_trace w' = w_trace w @ [EvStartStopBarrier False] @ (if w_profiler w then [EvBeforeTeardownStop] else [])"
  using assms(4-8)
proof (induction "nat T" arbitrary: T L st w fuel k rule: less_induct)
  case less
  obtain fuel' where fuel: "fuel = Suc fuel'" using less.prems(5) by (cases fuel) auto
  have body: "\<exists>st' w'. (case f st1 w of Inl e \<Rightarrow> Some (Inl e)
        | Inr (st2, w2) \<Rightarrow> while_keep_running fuel' test f (Suc k) st2 w2) =
        Some (Inr (Suc k + rounds T' n, st', w')) \<and> s_started st' \<and> s_finished st' \<and> \<not> skipped st' \<and>
      iterations st' = M - T' + L' + n * int (rounds T' n) \<and> world_ready False w' \<and>
      w_trace w' = w_trace w @ [EvStartStopBarrier False] @ (if w_profiler w then [EvBeforeTeardownStop] else [])"
    if st1: "running_state st1 T' L' M" "0 \<le> T'" "L' = 0 \<or> T' = 0" "T' < T" for st1 T' L'
  proof -
    obtain st2 w2 where f: "f st1 w = Inr (st2, w2)" "running_state st2 T' L' M" "world_ready True w2"
      "w_trace w2 = w_trace w" "w_profiler w2 = w_profiler w"
      using neutralD[OF assms(1) st1(1) less.prems(4)] by blast
    have "nat T' < nat T" "nat T' < fuel'" using that less.prems(5) fuel by auto
    then show ?thesis using less.hyps[OF _ f(2) st1(2,3) f(3), of fuel' "Suc k"] f by simp
  qed
  consider (zero) "T = 0" | (full) "n \<le> T" | (part) "b" "0 < T" "T < n"
    using less.prems(2) assms(2,3) by linarith
  then show ?case
  proof cases
    case zero
    obtain st' w' where "FinishKeepRunning st w = Inr (st', w')"
      "control st' = (0, L, M, True, True, NotSkipped)" "world_ready False w'"
      "w_trace w' = w_trace w @ [EvStartStopBarrier False] @ (if w_profiler w then [EvBeforeTeardownStop] else [])"
      using FinishKeepRunning_running[OF less.prems(1,4)] by blast
    then show ?thesis
      using KeepRunningInternal_running(3)[OF assms(2,3) less.prems(1,2) zero, of w, folded test] zero assms(2)
      by (auto simp: fuel control_def iterations_def skipped_def)
  next
    case full
    have "running_state (st\<lparr>s_total_iterations := T - n\<rparr>) (T - n) L M"
      using less.prems(1) by (simp add: control_def)
    moreover have "0 \<le> (T - 1) div n" using full assms(2) by (simp add: pos_imp_zdiv_nonneg_iff)
    then have "rounds T n = Suc (rounds (T - n) n)"
      using full assms(2) by (simp add: div_pos_geq nat_add_distrib)
    ultimately show ?thesis
      using body[of "st\<lparr>s_total_iterations := T - n\<rparr>" "T - n" L] full less.prems(3) assms(2)
        KeepRunningInternal_running(1)[OF assms(2,3) less.prems(1,2) full, of w, folded test]
      by (auto simp: fuel algebra_simps)
  next
    case part
    have "running_state (st\<lparr>s_batch_leftover := n - T, s_total_iterations := 0\<rparr>) 0 (n - T) M"
      using less.prems(1) by (simp add: control_def)
    moreover have "rounds T n = 1" "rounds 0 n = 0"
      using part by (auto simp: div_pos_geq div_pos_pos_trivial)
    moreover have "b = True" using part by simp
    ultimately show ?thesis
      using body[of "st\<lparr>s_batch_leftover := n - T, s_total_iterations := 0\<rparr>" 0 "n - T"] part less.prems(3)
        KeepRunningInternal_running(2)[OF assms(2,3) less.prems(1,2) part, of w, folded test]
      by (auto simp: fuel algebra_simps)
  qed
qed

text \<open>The events of one measured loop: exactly two passages of the barrier, both with the timer stopped.\<close>

definition loop_events :: "bool \<Rightarrow> event list" where
  "loop_events profiled = (if profiled then [EvAfterSetupStart] else []) @
     [EvStartStopBarrier False, EvStartStopBarrier False] @ (if profiled then [EvBeforeTeardownStop] else [])"

lemma keep_running_fresh:
  assumes "neutral f" "0 < n" "b \<or> n = 1" "fresh st" "world_ready False w" "nat (s_max_iterations st) < fuel"
  shows "\<exists>st' w'. while_keep_running fuel (KeepRunningInternal n b) f 0 st w =
      Some (Inr (rounds (s_max_iterations st) n, st', w')) \<and> s_finished st' \<and> \<not> skipped st' \<and>
    iterations st' = n * int (rounds (s_max_iterations st) n) \<and> world_ready False w' \<and>
    w_trace w' = w_trace w @ loop_events (w_profiler w)"
proof -
  let ?M = "s_max_iterations st"
  obtain st1 w1 where start: "StartKeepRunning st w = Inr (st1, w1)" "running_state st1 ?M 0 ?M"
    "world_ready True w1" "w_profiler w1 = w_profiler w"
    "w_trace w1 = w_trace w @ (if w_profiler w then [EvAfterSetupStart] else []) @ [EvStartStopBarrier False]"
    using StartKeepRunning_fresh[OF assms(4,5)] by blast
  have M: "1 \<le> ?M" using assms(4) by (simp add: fresh_def)
  have "KeepRunningInternal n b st w = KeepRunningInternal n b st1 w1"
    by (rule KeepRunningInternal_first[OF assms(2-4) start(1,2) M])
  then have "while_keep_running fuel (KeepRunningInternal n b) f 0 st w =
      while_keep_running fuel (KeepRunningInternal n b) f 0 st1 w1"
    using assms(6) by (cases fuel) auto
  then show ?thesis
    using keep_running_from[OF assms(1-3) start(2) _ _ start(3) assms(6) refl, of 0] M start(4,5)
    by (auto simp: loop_events_def)
qed

section \<open>Properties\<close>

text \<open>C2: \<open>while (state.KeepRunning())\<close> on a fresh state executes a body that does not skip exactly
  \<open>max_iterations\<close> times and then leaves the loop; the timer is stopped, \<open>iterations()\<close> is
  \<open>max_iterations\<close>, and the thread has gone through the start/stop barrier exactly twice, with its timer stopped.
  (A run without performance counters.)\<close>

theorem KeepRunning_exact:
  assumes "neutral f" "fresh st" "world_ready False w" "nat (s_max_iterations st) < fuel"
  shows "\<exists>st' w'. while_keep_running fuel KeepRunning f 0 st w =
      Some (Inr (nat (s_max_iterations st), st', w')) \<and> s_finished st' \<and>
    iterations st' = s_max_iterations st \<and> world_ready False w' \<and>
    w_trace w' = w_trace w @ loop_events (w_profiler w)"
proof -
  have "1 \<le> s_max_iterations st" using assms(2) by (simp add: fresh_def)
  then show ?thesis
    using keep_running_fresh[OF assms(1) _ _ assms(2-4), of 1 False] by (auto simp: KeepRunning_def[abs_def])
qed

text \<open>\<open>while (state.KeepRunningBatch(n))\<close> executes the body \<open>max_iterations / n\<close> times, rounded up, and
  \<open>iterations()\<close> counts every batch in full: it may exceed \<open>max_iterations\<close>, by less than \<open>n\<close>.\<close>

theorem KeepRunningBatch_exact:
  assumes "neutral f" "0 < n" "fresh st" "world_ready False w" "nat (s_max_iterations st) < fuel"
  shows "\<exists>st' w' k. while_keep_running fuel (KeepRunningBatch n) f 0 st w = Some (Inr (k, st', w')) \<and>
    int k = (s_max_iterations st + n - 1) div n \<and> iterations st' = n * int k \<and>
    s_max_iterations st \<le> iterations st' \<and> iterations st' < s_max_iterations st + n \<and>
    w_trace w' = w_trace w @ loop_events (w_profiler w)"
proof -
  let ?M = "s_max_iterations st" and ?q = "(s_max_iterations st + n - 1) div n"
  have M: "1 \<le> ?M" using assms(3) by (simp add: fresh_def)
  then have q: "int (rounds ?M n) = ?q" using assms(2) by (simp add: pos_imp_zdiv_nonneg_iff)
  have "n * ?q + (?M + n - 1) mod n = ?M + n - 1" by simp
  then have "?M \<le> n * ?q" "n * ?q < ?M + n"
    using pos_mod_bound[OF assms(2), of "?M + n - 1"] pos_mod_sign[OF assms(2), of "?M + n - 1"] by linarith+
  then show ?thesis
    using keep_running_fresh[OF assms(1,2) _ assms(3-5), of True] q
    by (auto simp: KeepRunningBatch_def[abs_def])
qed

lemma range_for_from:
  assumes "neutral f" "running_state st T 0 M" "world_ready True w" "0 \<le> cached" "nat cached < fuel"
  shows "\<exists>st' w'. range_for_loop fuel f k cached st w = Some (Inr (k + nat cached, st', w')) \<and>
    control st' = (0, 0, M, True, True, NotSkipped) \<and> world_ready False w' \<and>
    w_trace w' = w_trace w @ [EvStartStopBarrier False] @ (if w_profiler w then [EvBeforeTeardownStop] else [])"
  using assms(2-5)
proof (induction fuel arbitrary: cached st w k)
  case (Suc fuel)
  show ?case
  proof (cases "cached = 0")
    case True
    obtain st' w' where "FinishKeepRunning st w = Inr (st', w')"
      "control st' = (0, 0, M, True, True, NotSkipped)" "world_ready False w'"
      "w_trace w' = w_trace w @ [EvStartStopBarrier False] @ (if w_profiler w then [EvBeforeTeardownStop] else [])"
      using FinishKeepRunning_running[OF Suc.prems(1,2)] by blast
    then show ?thesis using True by (simp add: StateIterator_neq_def)
  next
    case False
    obtain st1 w1 where f: "f st w = Inr (st1, w1)" "running_state st1 T 0 M" "world_ready True w1"
      "w_trace w1 = w_trace w" "w_profiler w1 = w_profiler w"
      using neutralD[OF assms(1) Suc.prems(1,2)] by blast
    have "0 \<le> cached - 1" "nat (cached - 1) < fuel" "Suc (nat (cached - 1)) = nat cached"
      using Suc.prems(3,4) False by auto
    then show ?thesis
      using Suc.IH[OF f(2,3), of "cached - 1" "Suc k"] f False Suc.prems(3)
      by (simp add: StateIterator_neq_def StateIterator_incr_def add_Suc_right[symmetric] del: add_Suc_right)
  qed
qed simp

text \<open>C22: For a body that returns with the timer running and does not skip, and without performance counters, the
  range-based loop \<open>for (auto _ : state)\<close> is equivalent to the \<open>KeepRunning\<close> loop: same number of
  executions of the body, same \<open>iterations()\<close>, same passages of the barrier.  (After a skip they differ, as
  benchmark.h says: the range-based loop does not see it.)\<close>

theorem range_for_equiv_KeepRunning:
  assumes "neutral f" "fresh st" "world_ready False w" "nat (s_max_iterations st) < fuel"
  shows "\<exists>k st1 w1 st2 w2. range_for fuel f st w = Some (Inr (k, st1, w1)) \<and>
    while_keep_running fuel KeepRunning f 0 st w = Some (Inr (k, st2, w2)) \<and>
    k = nat (s_max_iterations st) \<and> iterations st1 = iterations st2 \<and>
    s_finished st1 \<and> s_finished st2 \<and> w_trace w1 = w_trace w2"
proof -
  let ?M = "s_max_iterations st"
  obtain st1 w1 where start: "StartKeepRunning st w = Inr (st1, w1)" "running_state st1 ?M 0 ?M"
    "world_ready True w1" "w_profiler w1 = w_profiler w"
    "w_trace w1 = w_trace w @ (if w_profiler w then [EvAfterSetupStart] else []) @ [EvStartStopBarrier False]"
    using StartKeepRunning_fresh[OF assms(2,3)] by blast
  have M: "1 \<le> ?M" "\<not> skipped st" using assms(2) by (simp_all add: fresh_def control_def skipped_def)
  obtain st2 w2 where rf: "range_for_loop fuel f 0 ?M st1 w1 = Some (Inr (nat ?M, st2, w2))"
    "control st2 = (0, 0, ?M, True, True, NotSkipped)"
    "w_trace w2 = w_trace w1 @ [EvStartStopBarrier False] @ (if w_profiler w1 then [EvBeforeTeardownStop] else [])"
    using range_for_from[OF assms(1) start(2,3) _ assms(4), of 0] M by auto
  have "range_for fuel f st w = Some (Inr (nat ?M, st2, w2))"
    using start(1) rf(1) M(2) by (simp add: range_for_def StateIterator_begin_def)
  moreover have "iterations st2 = ?M" "s_finished st2" using rf(2) by (auto simp: control_def iterations_def)
  moreover have "w_trace w2 = w_trace w @ loop_events (w_profiler w)"
    using rf(3) start(4,5) by (simp add: loop_events_def)
  ultimately show ?thesis
    using keep_running_fresh[OF assms(1) _ _ assms(2-4), of 1 False] M by (auto simp: KeepRunning_def[abs_def])
qed

text \<open>The two halves of the events of a loop.\<close>

definition loop_begin :: "bool \<Rightarrow> event list" where
  "loop_begin profiled = (if profiled then [EvAfterSetupStart] else []) @ [EvStartStopBarrier False]"

definition loop_end :: "bool \<Rightarrow> event list" where
  "loop_end profiled = [EvStartStopBarrier False] @ (if profiled then [EvBeforeTeardownStop] else [])"

lemma loop_halves: "loop_events p = loop_begin p @ loop_end p"
  by (simp add: loop_events_def loop_begin_def loop_end_def)

text \<open>C33: Skipping: whichever of \<open>SkipWithMessage\<close> and \<open>SkipWithError\<close> a thread calls, before its loop or inside, with
  its timer running or paused, the call returns; the shared results keep the reason and message of the
  first call of any thread; this thread's timer is stopped, and left as it was if it was not running; its
  next \<open>KeepRunning\<close>, or \<open>KeepRunningBatch\<close>, returns false, having passed the barrier as often as a loop that ends
  there; and \<open>iterations()\<close> then reports \<open>max_iterations\<close> (and the leftover of a batch), however few were
  run.\<close>

theorem skip_ends_loop:
  assumes "w_results w = Some r" "w_timer w = Some t" "s_finished st \<longrightarrow> s_started st"
    and "(call, reason) = (SkipWithMessage, SkippedWithMessage) \<or> (call, reason) = (SkipWithError, SkippedWithError)"
  shows "\<exists>st1 w1 t1 st2 w2. call msg st w = Inr (st1, w1) \<and> s_skipped st1 = reason \<and>
    w_results w1 = Some (if tr_skipped r = NotSkipped then r\<lparr>tr_skip_message := msg, tr_skipped := reason\<rparr> else r) \<and>
    w_timer w1 = Some t1 \<and> \<not> t_running t1 \<and> (\<not> t_running t \<longrightarrow> t1 = t) \<and>
    KeepRunning st1 w1 = Inr (False, st2, w2) \<and> (\<forall>n > 0. KeepRunningBatch n st1 w1 = Inr (False, st2, w2)) \<and>
    s_skipped st2 = reason \<and> s_finished st2 \<and> w_results w2 = w_results w1 \<and> w_timer w2 = Some t1 \<and>
    w_trace w2 = w_trace w @ (if s_started st then [] else loop_begin (w_profiler w)) @ loop_end (w_profiler w) \<and>
    iterations st2 = s_max_iterations st + s_batch_leftover st"
proof -
  define r1 where "r1 = (if tr_skipped r = NotSkipped then r\<lparr>tr_skip_message := msg, tr_skipped := reason\<rparr> else r)"
  define st1 where "st1 = st\<lparr>s_skipped := reason, s_total_iterations := 0\<rparr>"
  have reason: "reason \<noteq> NotSkipped" "call msg st w = skip_with reason msg st w"
    using assms(4) by (auto simp: skip_calls)
  obtain w1 t1 where w1: "call msg st w = Inr (st1, w1)" "w_results w1 = Some r1" "w_timer w1 = Some t1" "\<not> t_running t1"
    "\<not> t_running t \<longrightarrow> t1 = t" "w_trace w1 = w_trace w" "w_profiler w1 = w_profiler w"
    using assms(1,2) unfolding reason(2)
    by (cases "t_running t") (simp_all add: skip_with_def the_results_def the_timer_def StopTimer_def Let_def r1_def st1_def
        ChronoClockNow_def ReadCpuTimerOfChoice_def)
  define st2 where "st2 = st1\<lparr>s_started := True, s_finished := True\<rparr>"
  define w2 where "w2 = w1\<lparr>w_trace := w_trace w1 @ (if s_started st then [] else loop_begin (w_profiler w)) @
      loop_end (w_profiler w)\<rparr>"
  have loop: "KeepRunningInternal n b st1 w1 = Inr (False, st2, w2)" if "0 < n" "b \<or> n = 1" for n b
    using that assms(3) reason(1) w1
    by (cases "s_started st"; cases "w_profiler w")
      (auto simp: KeepRunningInternal_def StartKeepRunning_def FinishKeepRunning_def skipped_def StartStopBarrier_def
        the_results_def emit_def timer_running_def st1_def st2_def w2_def loop_begin_def loop_end_def Let_def)
  show ?thesis
    by (rule exI[of _ st1], rule exI[of _ w1], rule exI[of _ t1], rule exI[of _ st2], rule exI[of _ w2])
      (use w1 loop in \<open>auto simp: KeepRunning_def KeepRunningBatch_def st1_def st2_def w2_def r1_def iterations_def\<close>)
qed

section \<open>When the timer runs\<close>

text \<open>
  What a function can do to its thread through the public operations of \<open>State\<close>, in any order and as often as it
  likes; everything else it does leaves the loop control, the timer and the trace alone.
\<close>

inductive api_step :: "State \<times> world \<Rightarrow> State \<times> world \<Rightarrow> bool" where
  api_KeepRunning: "KeepRunningInternal n is_batch st w = Inr (again, st', w') \<Longrightarrow> api_step (st, w) (st', w')"
| api_begin: "StartKeepRunning st w = Inr (st', w') \<Longrightarrow> api_step (st, w) (st', w')"
| api_neq: "StateIterator_neq cached st w = Inr (again, st', w') \<Longrightarrow> api_step (st, w) (st', w')"
| api_pause: "PauseTiming st w = Inr (st', w') \<Longrightarrow> api_step (st, w) (st', w')"
| api_resume: "ResumeTiming st w = Inr w' \<Longrightarrow> api_step (st, w) (st, w')"
| api_message: "SkipWithMessage msg st w = Inr (st', w') \<Longrightarrow> api_step (st, w) (st', w')"
| api_error: "SkipWithError msg st w = Inr (st', w') \<Longrightarrow> api_step (st, w) (st', w')"
| api_time: "SetIterationTime seconds w = Inr w' \<Longrightarrow> api_step (st, w) (st, w')"
| api_other: "control st' = control st \<Longrightarrow> w_timer w' = w_timer w \<Longrightarrow> w_trace w' = w_trace w \<Longrightarrow>
    api_step (st, w) (st', w')"

text \<open>How often a thread has passed the barrier, and whether its timer was running when it did.\<close>

definition barrier_passes :: "world \<Rightarrow> bool list" where
  "barrier_passes w = concat (map (\<lambda>e. case e of EvStartStopBarrier running \<Rightarrow> [running] | _ \<Rightarrow> []) (w_trace w))"

definition timed_state :: "State \<times> world \<Rightarrow> bool" where
  "timed_state = (\<lambda>(st, w).
     (timer_running w \<longrightarrow> s_started st \<and> \<not> s_finished st \<and> \<not> skipped st) \<and> True \<notin> set (barrier_passes w) \<and>
     (\<not> s_finished st \<longrightarrow> length (barrier_passes w) = (if s_started st then 1 else 0)))"

lemma barrier_passes_emit [simp]:
  "barrier_passes (emit (EvStartStopBarrier b) w) = barrier_passes w @ [b]"
  "barrier_passes (emit EvAfterSetupStart w) = barrier_passes w"
  "barrier_passes (emit EvBeforeTeardownStop w) = barrier_passes w"
  "barrier_passes (emit EvPerfStart w) = barrier_passes w"
  by (simp_all add: barrier_passes_def emit_def)

lemma barrier_passes_trace: "w_trace w' = w_trace w \<Longrightarrow> barrier_passes w' = barrier_passes w"
  by (simp add: barrier_passes_def)

lemma timer_running_emit [simp]: "timer_running (emit e w) = timer_running w"
  by (simp add: timer_running_def emit_def)

lemma StopTimer_effect: "StopTimer w = Inr w' \<Longrightarrow> \<not> timer_running w' \<and> barrier_passes w' = barrier_passes w"
  by (auto simp: StopTimer_def the_timer_def BM_CHECK_def ChronoClockNow_def ReadCpuTimerOfChoice_def timer_running_def
      barrier_passes_def Let_def split: option.splits if_splits)

lemma StartTimer_effect: "StartTimer w = Inr w' \<Longrightarrow> barrier_passes w' = barrier_passes w"
  by (auto simp: StartTimer_def the_timer_def ChronoClockNow_def ReadCpuTimerOfChoice_def barrier_passes_def Let_def
      split: option.splits)

lemma control_skipped: "control st' = control st \<Longrightarrow> skipped st' = skipped st"
  by (simp add: control_def skipped_def)

lemma PauseTiming_effect:
  assumes "PauseTiming st w = Inr (st', w')"
  shows "\<not> timer_running w'" "barrier_passes w' = barrier_passes w" "control st' = control st"
    "s_started st \<and> \<not> s_finished st \<and> \<not> skipped st"
proof -
  show check: "s_started st \<and> \<not> s_finished st \<and> \<not> skipped st"
    using assms by (simp add: PauseTiming_def BM_CHECK_def split: if_splits)
  from assms check obtain w1 where w1: "StopTimer w = Inr w1"
    by (cases "StopTimer w") (simp_all add: PauseTiming_def)
  have "(st', w') = (st, w1) \<or> (\<exists>c k. (st', w') = (st\<lparr>s_counters := c\<rparr>, w1\<lparr>w_perf_stops := k\<rparr>))"
  proof (cases "w_perf w1")
    case None
    then show ?thesis using assms check w1 by (simp add: PauseTiming_def)
  next
    case (Some p)
    then obtain ms where "perf_stop p (w_perf_stops w1) = Some ms"
      using assms check w1 by (cases "perf_stop p (w_perf_stops w1)") (simp_all add: PauseTiming_def)
    then show ?thesis
      using Some assms check w1 by (cases "rfold add_measurement (s_counters st) ms") (auto simp: PauseTiming_def Let_def)
  qed
  then show "\<not> timer_running w'" "barrier_passes w' = barrier_passes w" "control st' = control st"
    using StopTimer_effect[OF w1] by (auto simp: timer_running_def barrier_passes_def control_def)
qed

lemma ResumeTiming_effect:
  "ResumeTiming st w = Inr w' \<Longrightarrow>
     barrier_passes w' = barrier_passes w \<and> s_started st \<and> \<not> s_finished st \<and> \<not> skipped st"
  by (auto simp: ResumeTiming_def BM_CHECK_def dest!: StartTimer_effect elim!: rbindE split: if_splits option.splits)

lemma timed_other:
  "timed_state (st, w) \<Longrightarrow> control st' = control st \<Longrightarrow> timer_running w' \<longrightarrow> timer_running w \<Longrightarrow>
     barrier_passes w' = barrier_passes w \<Longrightarrow> timed_state (st', w')"
  by (auto simp: timed_state_def control_def skipped_def)

lemma timed_ResumeTiming: "ResumeTiming st w = Inr w' \<Longrightarrow> timed_state (st, w) \<Longrightarrow> timed_state (st, w')"
  using ResumeTiming_effect[of st w w'] by (auto simp: timed_state_def)

lemma timed_StartKeepRunning:
  assumes "StartKeepRunning st w = Inr (st', w')" "timed_state (st, w)"
  shows "timed_state (st', w')"
proof -
  define st1 where "st1 = st\<lparr>s_started := True, s_total_iterations := (if skipped st then 0 else s_max_iterations st)\<rparr>"
  define w1 where "w1 = emit (EvStartStopBarrier (timer_running w)) (if w_profiler w then emit EvAfterSetupStart w else w)"
  from assms(1) have st: "\<not> s_started st" "\<not> s_finished st" and st': "st' = st1"
    and w': "if skipped st1 then w' = w1 else ResumeTiming st1 w1 = Inr w'"
    by (auto simp: StartKeepRunning_def BM_CHECK_def StartStopBarrier_def st1_def w1_def Let_def
        elim!: rbindE split: if_splits)
  have off: "\<not> timer_running w" using assms(2) st by (auto simp: timed_state_def)
  moreover have "barrier_passes w1 = barrier_passes w @ [timer_running w]" by (simp add: w1_def)
  ultimately have "timed_state (st1, w1)" using assms(2) st by (auto simp: timed_state_def st1_def w1_def)
  then show ?thesis using w' st' timed_ResumeTiming by (auto split: if_splits)
qed

lemma timed_FinishKeepRunning:
  assumes "FinishKeepRunning st w = Inr (st', w')" "timed_state (st, w)"
  shows "timed_state (st', w')"
proof -
  obtain st1 w1 where mid: "(if \<not> skipped st then PauseTiming st w else Inr (st, w)) = Inr (st1, w1)"
    using assms(1) by (fastforce simp: FinishKeepRunning_def elim: rbindE)
  moreover from this have "s_started st" "\<not> s_finished st \<or> skipped st"
    using assms(1) by (auto simp: FinishKeepRunning_def BM_CHECK_def split: if_splits)
  ultimately have st': "st' = st1\<lparr>s_total_iterations := 0, s_finished := True\<rparr>"
    and w': "w' = (let w2 = emit (EvStartStopBarrier (timer_running w1)) w1
      in if w_profiler w1 then emit EvBeforeTeardownStop w2 else w2)"
    using assms(1) by (cases "the_results w1"; simp add: FinishKeepRunning_def StartStopBarrier_def emit_def Let_def)+
  have "\<not> timer_running w1" "barrier_passes w1 = barrier_passes w"
    using mid assms(2) PauseTiming_effect[of st w st1 w1] by (auto simp: timed_state_def split: if_splits)
  then show ?thesis using assms(2) by (simp add: timed_state_def st' w' Let_def)
qed

lemma timed_KeepRunning:
  assumes "KeepRunningInternal n is_batch st w = Inr (again, st', w')" "timed_state (st, w)"
  shows "timed_state (st', w')"
proof (cases "s_total_iterations st \<ge> n")
  case True
  then show ?thesis using assms by (auto simp: KeepRunningInternal_def timed_state_def skipped_def ASSERT_def split: if_splits)
next
  case False
  then obtain st1 w1 where start: "if s_started st then (st1, w1) = (st, w) else StartKeepRunning st w = Inr (st1, w1)"
    and rest: "(st' = st1\<lparr>s_total_iterations := s_total_iterations st1 - n\<rparr> \<and> w' = w1) \<or>
      (st' = st1\<lparr>s_batch_leftover := n - s_total_iterations st1, s_total_iterations := 0\<rparr> \<and> w' = w1) \<or>
      FinishKeepRunning st1 w1 = Inr (st', w')"
    using assms(1) by (auto simp: KeepRunningInternal_def ASSERT_def elim!: rbindE split: if_splits)
  have "timed_state (st1, w1)" using start assms(2) timed_StartKeepRunning by (auto split: if_splits)
  with rest show ?thesis using timed_FinishKeepRunning[of st1 w1 st' w'] by (auto simp: timed_state_def skipped_def)
qed

lemma timed_skip_with:
  assumes "skip_with reason msg st w = Inr (st', w')" "reason \<noteq> NotSkipped" "timed_state (st, w)"
  shows "timed_state (st', w')"
proof -
  obtain r1 where w1: "if timer_running w then StopTimer (w\<lparr>w_results := r1\<rparr>) = Inr w' else w' = w\<lparr>w_results := r1\<rparr>"
    and st': "st' = st\<lparr>s_skipped := reason, s_total_iterations := 0\<rparr>"
    using assms(1) by (auto simp: skip_with_def the_timer_def timer_running_def Let_def elim!: rbindE
        split: if_splits option.splits)
  have "barrier_passes (w\<lparr>w_results := r1\<rparr>) = barrier_passes w" by (simp add: barrier_passes_def)
  then have "\<not> timer_running w'" "barrier_passes w' = barrier_passes w"
    using w1 StopTimer_effect[of "w\<lparr>w_results := r1\<rparr>" w'] by (auto simp: timer_running_def split: if_splits)
  then show ?thesis using assms(3) by (simp add: timed_state_def st')
qed

text \<open>Whatever a function does, its timer only runs between its first and its second passage of the barrier.\<close>

lemma timed_neq:
  "StateIterator_neq cached st w = Inr (again, st', w') \<Longrightarrow> timed_state (st, w) \<Longrightarrow> timed_state (st', w')"
  by (cases "cached = 0"; cases "FinishKeepRunning st w") (auto simp: StateIterator_neq_def intro: timed_FinishKeepRunning)

lemma timed_SetIterationTime:
  assumes "SetIterationTime seconds w = Inr w'" "timed_state (st, w)"
  shows "timed_state (st, w')"
proof -
  have "timer_running w' = timer_running w \<and> barrier_passes w' = barrier_passes w"
    using assms(1) by (cases "w_timer w")
      (auto simp: SetIterationTime_def Timer_SetIterationTime_def the_timer_def timer_running_def barrier_passes_def)
  then show ?thesis using timed_other[OF assms(2) refl, of w'] by simp
qed

lemma timed_api_step:
  assumes "api_step x y" "timed_state x"
  shows "timed_state y"
  using assms(1)
proof cases
  case (api_KeepRunning n is_batch st w again st' w')
  then show ?thesis using timed_KeepRunning[of n is_batch st w again st' w'] assms(2) by simp
next
  case (api_begin st w st' w')
  then show ?thesis using timed_StartKeepRunning[of st w st' w'] assms(2) by simp
next
  case (api_neq cached st w again st' w')
  then show ?thesis using timed_neq[of cached st w again st' w'] assms(2) by simp
next
  case (api_pause st w st' w')
  then show ?thesis using PauseTiming_effect[OF api_pause(3)] timed_other[of st w st' w'] assms(2) by simp
next
  case (api_resume st w w')
  then show ?thesis using timed_ResumeTiming[of st w w'] assms(2) by simp
next
  case (api_message msg st w st' w')
  then show ?thesis using timed_skip_with[of SkippedWithMessage msg st w st' w'] assms(2) by (simp add: skip_calls)
next
  case (api_error msg st w st' w')
  then show ?thesis using timed_skip_with[of SkippedWithError msg st w st' w'] assms(2) by (simp add: skip_calls)
next
  case (api_time seconds w w' st)
  then show ?thesis using timed_SetIterationTime[of seconds w w' st] assms(2) by simp
next
  case (api_other st' st w' w)
  then show ?thesis
    using timed_other[of st w st' w'] barrier_passes_trace[of w' w] assms(2) by (simp add: timer_running_def)
qed

lemma timed_api_steps: "api_step\<^sup>*\<^sup>* x y \<Longrightarrow> timed_state x \<Longrightarrow> timed_state y"
  by (induction rule: rtranclp_induct) (auto intro: timed_api_step)

lemma timed_start: "control st = (0, 0, m, False, False, NotSkipped) \<Longrightarrow> \<not> timer_running w \<Longrightarrow> w_trace w = [] \<Longrightarrow> timed_state (st, w)"
  by (simp add: timed_state_def control_def barrier_passes_def)

text \<open>A loop over lawful code is lawful.\<close>

definition lawful :: "body \<Rightarrow> bool" where
  "lawful f \<longleftrightarrow> (\<forall>st w st' w'. f st w = Inr (st', w') \<longrightarrow> api_step\<^sup>*\<^sup>* (st, w) (st', w'))"

lemma lawful_while:
  "lawful f \<Longrightarrow> while_keep_running fuel KeepRunning f k st w = Some (Inr (k', st', w')) \<Longrightarrow> api_step\<^sup>*\<^sup>* (st, w) (st', w')"
proof (induction fuel arbitrary: k st w)
  case (Suc fuel)
  from Suc.prems(2) obtain again st1 w1 where t: "KeepRunning st w = Inr (again, st1, w1)"
    by (cases "KeepRunning st w") auto
  then have one: "api_step (st, w) (st1, w1)" unfolding KeepRunning_def by (rule api_KeepRunning)
  show ?case
  proof (cases again)
    case False
    then show ?thesis using Suc.prems(2) t one by auto
  next
    case True
    then obtain st2 w2 where f: "f st1 w1 = Inr (st2, w2)"
      "while_keep_running fuel KeepRunning f (Suc k) st2 w2 = Some (Inr (k', st', w'))"
      using Suc.prems(2) t by (cases "f st1 w1") auto
    have "api_step\<^sup>*\<^sup>* (st1, w1) (st2, w2)" using Suc.prems(1) f(1) by (simp add: lawful_def)
    then show ?thesis using one Suc.IH[OF Suc.prems(1) f(2)] by (meson converse_rtranclp_into_rtranclp rtranclp_trans)
  qed
qed simp

subsection \<open>A concrete thread\<close>

definition sample_state :: "int \<Rightarrow> State" where
  "sample_state n = \<lparr>s_total_iterations = 0, s_batch_leftover = 0, s_max_iterations = n,
     s_started = False, s_finished = False, s_skipped = NotSkipped, s_range = [], s_complexity_n = 0,
     s_counters = [], s_name = ''f'', s_thread_index = 0, s_threads = 1\<rparr>"

definition sample_world :: "bool \<Rightarrow> world" where
  "sample_world running = \<lparr>w_timer = Some ((ThreadTimer_new False)\<lparr>t_running := running\<rparr>),
     w_results = Some ThreadResult_init, w_perf = Some \<lparr>p_names = [], p_stops = (\<lambda>_. None)\<rparr>,
     w_perf_stops = 0, w_profiler = False, w_real_clock = (\<lambda>_. Fin 1), w_thread_cpu = (\<lambda>_. Fin 1), w_process_cpu = (\<lambda>_. Fin 1),
     w_ticks = 0, w_trace = []\<rparr>"

lemma sample_ready: "world_ready b (sample_world b)"
  by (simp add: sample_world_def world_ready_def perf_idle_def ThreadResult_init_def)

lemma sample_fresh: "1 \<le> n \<Longrightarrow> fresh (sample_state n)"
  by (simp add: sample_state_def fresh_def control_def)

text \<open>A body that excludes its set-up from the measurement.\<close>

definition pause_resume :: body where
  "pause_resume st w = rbind (PauseTiming st w) (\<lambda>(st1, w1).
     rbind (ResumeTiming st1 w1) (\<lambda>w2. Inr (st1, w2)))"

lemma pause_resume_neutral: "neutral pause_resume"
  unfolding neutral_def
proof (intro allI impI)
  fix st w
  assume a: "s_started st \<and> \<not> s_finished st \<and> \<not> skipped st \<and> world_ready True w"
  then obtain t where w: "perf_idle (w_perf w)" "w_timer w = Some t" "t_running t" "w_results w \<noteq> None"
    by (auto simp: world_ready_def)
  obtain w1 t1 where w1: "PauseTiming st w = Inr (st, w1)" "w_results w1 = w_results w" "w_perf w1 = w_perf w"
    "w_profiler w1 = w_profiler w" "w_trace w1 = w_trace w" "w_timer w1 = Some t1"
    using PauseTiming_idle[OF _ _ _ w(1-3)] a by metis
  obtain w2 where w2: "ResumeTiming st w1 = Inr w2" "w_results w2 = w_results w1" "w_perf w2 = w_perf w1"
    "w_profiler w2 = w_profiler w1" "w_trace w2 = w_trace w1" "\<exists>t'. w_timer w2 = Some t' \<and> t_running t'"
    using ResumeTiming_idle[of st w1 t1] a w w1 by metis
  show "\<exists>st' w'. pause_resume st w = Inr (st', w') \<and> control st' = control st \<and> world_ready True w' \<and>
      w_trace w' = w_trace w \<and> w_profiler w' = w_profiler w"
    using w w1 w2 by (auto simp: pause_resume_def world_ready_def)
qed

theorem KeepRunning_exact_witness:
  "\<exists>st' w'. while_keep_running 6 KeepRunning pause_resume 0 (sample_state 5) (sample_world False) =
     Some (Inr (5, st', w')) \<and> iterations st' = 5"
  using KeepRunning_exact[OF pause_resume_neutral sample_fresh sample_ready, of 5 6]
  by (auto simp: sample_state_def)

theorem KeepRunningBatch_exact_witness:
  "\<exists>st' w'. while_keep_running 6 (KeepRunningBatch 2) pause_resume 0 (sample_state 5) (sample_world False) =
     Some (Inr (3, st', w')) \<and> iterations st' = 6"
  using KeepRunningBatch_exact[OF pause_resume_neutral _ sample_fresh sample_ready, of 2 5 6]
  by (auto simp: sample_state_def)

theorem range_for_equiv_KeepRunning_witness:
  "\<exists>st1 w1. range_for 6 pause_resume (sample_state 5) (sample_world False) = Some (Inr (5, st1, w1))"
  using range_for_equiv_KeepRunning[OF pause_resume_neutral sample_fresh sample_ready, of 5 6]
  by (auto simp: sample_state_def)

theorem skip_ends_loop_witness:
  "\<exists>st1 w1 st2 w2. SkipWithError ''no'' ((sample_state 5)\<lparr>s_started := True, s_total_iterations := 3\<rparr>)
      (sample_world True) = Inr (st1, w1) \<and>
    KeepRunning st1 w1 = Inr (False, st2, w2) \<and> iterations st2 = 5 \<and>
    map_option tr_skip_message (w_results w2) = Some ''no'' \<and> w_trace w2 = [EvStartStopBarrier False]"
  using skip_ends_loop[of "sample_world True" ThreadResult_init "(ThreadTimer_new False)\<lparr>t_running := True\<rparr>"
      "(sample_state 5)\<lparr>s_started := True, s_total_iterations := 3\<rparr>" SkipWithError SkippedWithError "''no''"]
  by (auto simp: sample_state_def sample_world_def ThreadResult_init_def loop_begin_def loop_end_def)

end
