(* ===== verification/Barrier.thy ===== *)
theory Barrier
  imports Prelude
begin

text \<open>
  The start/stop barrier of src/src/mutex.h and the threads that use it (\<open>StartStopBarrier\<close> and
  \<open>NotifyThreadComplete\<close> of src/src/thread_manager.h), as a system of interleaved steps.

  What the code does while it holds the lock is one atomic operation of the barrier.  Between them a
  thread is outside, asleep in \<open>phase_condition_.wait\<close>, awake and about to test the predicate again,
  about to call \<open>notify_all\<close> after it left the lock, or removed.  A sleeping thread may wake
  spuriously at any time, as the C++ standard allows.
\<close>

section \<open>The barrier\<close>

record barrier =
  bar_running_threads :: int
  bar_phase_number :: int
  bar_entered :: int

definition Barrier_new :: "int \<Rightarrow> barrier" where
  "Barrier_new num_threads =
     \<lparr>bar_running_threads = num_threads, bar_phase_number = 0, bar_entered = 0\<rparr>"

text \<open>The end of a phase, for the last thread.\<close>

definition end_phase :: "barrier \<Rightarrow> barrier" where
  "end_phase b = b\<lparr>bar_phase_number := bar_phase_number b + 1, bar_entered := 0\<rparr>"

text \<open>
  \<open>createBarrier\<close> up to the wait: \<open>Inl phase\<close> when the thread has to wait (with its copy of the phase
  number), \<open>Inr ()\<close> when it is the last one.
\<close>

definition create_barrier_enter :: "barrier \<Rightarrow> (barrier \<times> (int + unit)) res" where
  "create_barrier_enter b =
     rbind (BM_CHECK (bar_entered b < bar_running_threads b) ''entered_ < running_threads_'') (\<lambda>_.
     (let b1 = b\<lparr>bar_entered := bar_entered b + 1\<rparr> in
      if bar_entered b1 < bar_running_threads b1 then Inr (b1, Inl (bar_phase_number b1))
      else Inr (end_phase b1, Inr ())))"

text \<open>The predicate of the wait, and \<open>createBarrier\<close> from the wait on: whether this is the last thread.\<close>

definition wait_predicate :: "barrier \<Rightarrow> int \<Rightarrow> bool" where
  "wait_predicate b phase_number_cp \<longleftrightarrow>
     bar_phase_number b > phase_number_cp \<or> bar_entered b = bar_running_threads b"

definition create_barrier_resume :: "barrier \<Rightarrow> int \<Rightarrow> barrier \<times> bool" where
  "create_barrier_resume b phase_number_cp =
     (if bar_phase_number b > phase_number_cp then (b, False) else (end_phase b, True))"

text \<open>\<open>removeThread\<close>: the barrier, and whether it notifies.\<close>

definition remove_thread :: "barrier \<Rightarrow> barrier \<times> bool" where
  "remove_thread b =
     (let b1 = b\<lparr>bar_running_threads := bar_running_threads b - 1\<rparr>
      in (b1, bar_entered b1 \<noteq> 0))"

section \<open>The threads\<close>

datatype pc = Outside | Sleeping int | Awake int | Notifying | Removed

fun wake :: "pc \<Rightarrow> pc" where
  "wake (Sleeping p) = Awake p"
| "wake x = x"

type_synonym sys = "barrier \<times> pc list"

text \<open>A step of thread \<open>i\<close> is labelled with what \<open>wait()\<close> returns when it returns there.\<close>

inductive step :: "nat \<Rightarrow> sys \<Rightarrow> bool option \<Rightarrow> sys \<Rightarrow> bool" where
  enter_wait: "i < length ts \<Longrightarrow> ts ! i = Outside \<Longrightarrow> create_barrier_enter b = Inr (b', Inl p) \<Longrightarrow>
     step i (b, ts) None (b', ts[i := Sleeping p])"
| enter_last: "i < length ts \<Longrightarrow> ts ! i = Outside \<Longrightarrow> create_barrier_enter b = Inr (b', Inr ()) \<Longrightarrow>
     step i (b, ts) None (b', ts[i := Notifying])"
| spurious: "i < length ts \<Longrightarrow> ts ! i = Sleeping p \<Longrightarrow> step i (b, ts) None (b, ts[i := Awake p])"
| sleep_again: "i < length ts \<Longrightarrow> ts ! i = Awake p \<Longrightarrow> \<not> wait_predicate b p \<Longrightarrow>
     step i (b, ts) None (b, ts[i := Sleeping p])"
| resume_not_last: "i < length ts \<Longrightarrow> ts ! i = Awake p \<Longrightarrow> wait_predicate b p \<Longrightarrow>
     create_barrier_resume b p = (b', False) \<Longrightarrow> step i (b, ts) (Some False) (b', ts[i := Outside])"
| resume_last: "i < length ts \<Longrightarrow> ts ! i = Awake p \<Longrightarrow> wait_predicate b p \<Longrightarrow>
     create_barrier_resume b p = (b', True) \<Longrightarrow> step i (b, ts) None (b', ts[i := Notifying])"
| notify: "i < length ts \<Longrightarrow> ts ! i = Notifying \<Longrightarrow>
     step i (b, ts) (Some True) (b, map wake (ts[i := Outside]))"
| remove: "i < length ts \<Longrightarrow> ts ! i = Outside \<Longrightarrow> remove_thread b = (b', notifies) \<Longrightarrow>
     step i (b, ts) None (b', (if notifies then map wake (ts[i := Removed]) else ts[i := Removed]))"

inductive_cases step_elim: "step i s l s'"

text \<open>Runs from the start, with the returned values in order.\<close>

inductive reach :: "nat \<Rightarrow> sys \<Rightarrow> bool list \<Rightarrow> bool" for n :: nat where
  init: "reach n (Barrier_new (int n), replicate n Outside) []"
| move: "reach n s rs \<Longrightarrow> step i s l s' \<Longrightarrow> reach n s' (rs @ (case l of None \<Rightarrow> [] | Some r \<Rightarrow> [r]))"

section \<open>Invariant\<close>

definition count :: "(pc \<Rightarrow> bool) \<Rightarrow> pc list \<Rightarrow> int" where
  "count P ts = int (length (filter P ts))"

fun waits_at :: "int \<Rightarrow> pc \<Rightarrow> bool" where
  "waits_at p (Sleeping q) = (q = p)"
| "waits_at p (Awake q) = (q = p)"
| "waits_at p _ = False"

lemma count_update:
  "i < length ts \<Longrightarrow>
   count P (ts[i := x]) = count P ts - (if P (ts ! i) then 1 else 0) + (if P x then 1 else 0)"
proof (induction ts arbitrary: i)
  case (Cons t ts)
  show ?case
    using Cons.IH[of "i - 1"] Cons.prems by (cases i) (auto simp: count_def split: if_splits)
qed simp

lemma count_wake:
  assumes "\<And>p. P (Awake p) = P (Sleeping p)"
  shows "count P (map wake ts) = count P ts"
proof -
  have "P (wake t) = P t" for t using assms by (cases t) auto
  then show ?thesis by (simp add: count_def filter_map comp_def)
qed

lemma count_mono: "(\<And>x. x \<in> set ts \<Longrightarrow> P x \<Longrightarrow> Q x) \<Longrightarrow> count P ts \<le> count Q ts"
  unfolding count_def by (induction ts) fastforce+

lemma count_nonneg [simp]: "0 \<le> count P ts"
  by (simp add: count_def)

lemma count_zero_iff: "count P ts = 0 \<longleftrightarrow> (\<forall>x \<in> set ts. \<not> P x)"
  by (simp add: count_def filter_empty_conv)

abbreviation live :: "pc \<Rightarrow> bool" where
  "live t \<equiv> t \<noteq> Removed"

definition inv :: "nat \<Rightarrow> sys \<Rightarrow> bool" where
  "inv n = (\<lambda>(b, ts). length ts = n \<and>
     bar_running_threads b = count live ts \<and>
     bar_entered b = count (waits_at (bar_phase_number b)) ts \<and>
     (\<forall>p. Sleeping p \<in> set ts \<or> Awake p \<in> set ts \<longrightarrow> p \<le> bar_phase_number b) \<and>
     (\<forall>p. Sleeping p \<in> set ts \<and> p < bar_phase_number b \<longrightarrow> Notifying \<in> set ts) \<and>
     (Sleeping (bar_phase_number b) \<in> set ts \<longrightarrow> bar_entered b < bar_running_threads b))"

text \<open>A thread that is outside is live and does not wait, so the check of \<open>createBarrier\<close> holds.\<close>

lemma entered_less:
  assumes "inv n (b, ts)" "i < length ts" "live (ts ! i)" "\<not> waits_at (bar_phase_number b) (ts ! i)"
  shows "bar_entered b < bar_running_threads b"
proof -
  have "count (waits_at (bar_phase_number b)) (ts[i := Removed]) \<le> count live (ts[i := Removed])"
    by (rule count_mono) auto
  then show ?thesis
    using assms by (simp add: inv_def count_update)
qed

lemma entered_le: "inv n (b, ts) \<Longrightarrow> bar_entered b \<le> bar_running_threads b"
  unfolding inv_def by (auto intro!: count_mono)

lemma inv_init: "inv n (Barrier_new (int n), replicate n Outside)"
  by (auto simp: inv_def Barrier_new_def count_def)

lemma set_update: "i < length ts \<Longrightarrow> x \<in> set (ts[i := y]) \<Longrightarrow> x = y \<or> x \<in> set ts"
  by (meson insertE set_update_subset_insert subsetD)

lemma in_set_update_other: "x \<in> set ts \<Longrightarrow> x \<noteq> ts ! i \<Longrightarrow> x \<in> set (ts[i := y])"
  by (metis in_set_conv_nth length_list_update nth_list_update_neq)

lemma wake_no_sleeping: "Sleeping p \<notin> set (map wake ts)"
proof -
  have "wake t \<noteq> Sleeping p" for t by (cases t) auto
  then show ?thesis by auto metis
qed

lemma wake_awake: "Awake p \<in> set (map wake ts) \<Longrightarrow> Awake p \<in> set ts \<or> Sleeping p \<in> set ts"
proof -
  have "wake t = Awake p \<Longrightarrow> t = Awake p \<or> t = Sleeping p" for t by (cases t) auto
  then show "Awake p \<in> set (map wake ts) \<Longrightarrow> ?thesis" by force
qed

text \<open>One lemma per kind of step.\<close>

lemma inv_enter_wait:
  assumes "inv n (b, ts)" "i < length ts" "ts ! i = Outside" "create_barrier_enter b = Inr (b', Inl p)"
  shows "inv n (b', ts[i := Sleeping p])"
proof -
  have b': "b' = b\<lparr>bar_entered := bar_entered b + 1\<rparr>" "p = bar_phase_number b"
    "bar_entered b + 1 < bar_running_threads b"
    using assms(4) by (auto simp: create_barrier_enter_def Let_def split: if_splits elim!: rbindE)
  have "Notifying \<in> set (ts[i := Sleeping p])" if "Notifying \<in> set ts"
    using that assms(3) by (intro in_set_update_other) auto
  then show ?thesis
    using assms(1-3) b' by (auto simp: inv_def count_update dest: set_update)
qed

lemma inv_end_phase:
  assumes "inv n (b, ts)" "i < length ts" "live (ts ! i)" "b' = end_phase (b\<lparr>bar_entered := e\<rparr>)"
  shows "inv n (b', ts[i := Notifying])"
proof -
  have le: "p \<le> bar_phase_number b" if "Sleeping p \<in> set (ts[i := Notifying]) \<or> Awake p \<in> set (ts[i := Notifying])" for p
    using that assms(1,2) by (auto simp: inv_def dest: set_update)
  have "count (waits_at (bar_phase_number b + 1)) (ts[i := Notifying]) = 0"
  proof -
    have "\<not> waits_at (bar_phase_number b + 1) t" if "t \<in> set (ts[i := Notifying])" for t
    proof (cases t)
      case (Sleeping q)
      then show ?thesis using le[of q] that by auto
    next
      case (Awake q)
      then show ?thesis using le[of q] that by auto
    qed auto
    then show ?thesis by (simp add: count_zero_iff)
  qed
  moreover have "Notifying \<in> set (ts[i := Notifying])" using assms(2) by (simp add: set_update_memI)
  moreover have "Sleeping (bar_phase_number b + 1) \<notin> set (ts[i := Notifying])"
    using le[of "bar_phase_number b + 1"] by auto
  ultimately show ?thesis
    using assms le by (force simp: inv_def end_phase_def count_update)
qed

lemma inv_wake_up:
  assumes "inv n (b, ts)" "i < length ts" "ts ! i = Sleeping p"
  shows "inv n (b, ts[i := Awake p])"
proof -
  have "Notifying \<in> set (ts[i := Awake p])" if "Notifying \<in> set ts"
    using that assms(3) by (intro in_set_update_other) auto
  moreover have "p \<le> bar_phase_number b" using assms nth_mem[OF assms(2)] by (auto simp: inv_def)
  ultimately show ?thesis
    using assms by (auto simp: inv_def count_update dest: set_update)
qed

lemma inv_sleep_again:
  assumes "inv n (b, ts)" "i < length ts" "ts ! i = Awake p" "\<not> wait_predicate b p"
  shows "inv n (b, ts[i := Sleeping p])"
proof -
  have "Notifying \<in> set (ts[i := Sleeping p])" if "Notifying \<in> set ts"
    using that assms(3) by (intro in_set_update_other) auto
  moreover have "p = bar_phase_number b"
    using assms nth_mem[OF assms(2)] by (fastforce simp: inv_def wait_predicate_def)
  moreover have "bar_entered b < bar_running_threads b"
    using assms(4) entered_le[OF assms(1)] by (simp add: wait_predicate_def)
  ultimately show ?thesis
    using assms(1-3) by (auto simp: inv_def count_update dest: set_update)
qed

lemma inv_leave:
  assumes "inv n (b, ts)" "i < length ts" "ts ! i = Awake p" "p < bar_phase_number b"
  shows "inv n (b, ts[i := Outside])"
proof -
  have "Notifying \<in> set (ts[i := Outside])" if "Notifying \<in> set ts"
    using that assms(3) by (intro in_set_update_other) auto
  then show ?thesis
    using assms by (auto simp: inv_def count_update dest: set_update)
qed

text \<open>Waking everybody keeps the counts, and leaves nobody asleep.\<close>

lemma inv_wake_all:
  assumes "length ts = n" "bar_running_threads b = count live ts"
    "bar_entered b = count (waits_at (bar_phase_number b)) ts"
    and "\<And>p. Sleeping p \<in> set ts \<or> Awake p \<in> set ts \<Longrightarrow> p \<le> bar_phase_number b"
  shows "inv n (b, map wake ts)"
  using assms wake_awake[of _ ts] wake_no_sleeping[of _ ts]
  by (auto simp: inv_def count_wake simp del: set_map)

lemma inv_notify:
  assumes "inv n (b, ts)" "i < length ts" "ts ! i = Notifying"
  shows "inv n (b, map wake (ts[i := Outside]))"
  using assms by (intro inv_wake_all) (auto simp: inv_def count_update dest: set_update)

lemma inv_remove:
  assumes "inv n (b, ts)" "i < length ts" "ts ! i = Outside" "remove_thread b = (b', notifies)"
  shows "inv n (b', if notifies then map wake (ts[i := Removed]) else ts[i := Removed])"
proof (cases notifies)
  case True
  have "inv n (b', map wake (ts[i := Removed]))"
    using assms by (intro inv_wake_all) (auto simp: inv_def remove_thread_def Let_def count_update dest: set_update)
  then show ?thesis using True by simp
next
  case False
  then have b': "b' = b\<lparr>bar_running_threads := bar_running_threads b - 1\<rparr>" "bar_entered b = 0"
    using assms(4) by (auto simp: remove_thread_def Let_def)
  then have "count (waits_at (bar_phase_number b)) ts = 0" using assms(1) by (simp add: inv_def)
  then have "Sleeping (bar_phase_number b) \<notin> set ts" by (auto simp: count_zero_iff)
  moreover have "Notifying \<in> set (ts[i := Removed])" if "Notifying \<in> set ts"
    using that assms(3) by (intro in_set_update_other) auto
  ultimately show ?thesis
    using assms(1-3) b' False by (auto simp: inv_def count_update dest: set_update)
qed

lemma inv_step:
  assumes "step i s l s'" "inv n s"
  shows "inv n s'"
  using assms
proof (induction rule: step.induct)
  case (enter_wait i ts b b' p)
  then show ?case by (intro inv_enter_wait)
next
  case (enter_last i ts b b')
  then have "b' = end_phase (b\<lparr>bar_entered := bar_entered b + 1\<rparr>)"
    by (auto simp: create_barrier_enter_def Let_def split: if_splits elim!: rbindE)
  then show ?case using enter_last inv_end_phase by simp
next
  case (resume_not_last i ts p b b')
  then show ?case
    by (auto simp: create_barrier_resume_def split: if_splits intro!: inv_leave)
next
  case (resume_last i ts p b b')
  then have "b' = end_phase (b\<lparr>bar_entered := bar_entered b\<rparr>)"
    by (auto simp: create_barrier_resume_def split: if_splits)
  then show ?case using resume_last inv_end_phase[of n b ts i b' "bar_entered b"] by simp
next
  case (remove i ts b b' notifies)
  then show ?case by (intro inv_remove)
qed (auto intro: inv_wake_up inv_sleep_again inv_notify)

lemma inv_reach: "reach n s rs \<Longrightarrow> inv n s"
  by (induction rule: reach.induct) (auto intro: inv_init inv_step)

section \<open>Properties\<close>

text \<open>When as many threads wait as are live, up to the one that moves, all others wait.\<close>

lemma all_others_wait:
  assumes "i < length ts" "j < length ts" "j \<noteq> i"
    and "count W (ts[i := Removed]) = count live (ts[i := Removed])" "\<And>t. W t \<Longrightarrow> live t"
  shows "ts ! j = Removed \<or> W (ts ! j)"
proof (rule ccontr)
  assume not: "\<not> ?thesis"
  have "count W (ts[i := Removed, j := Removed]) \<le> count live (ts[i := Removed, j := Removed])"
    by (rule count_mono) (use assms(5) in blast)
  moreover have "\<not> W Removed" using assms(5) by blast
  ultimately show False using not assms(1-4) by (simp add: count_update)
qed

lemma waits_live: "waits_at p t \<Longrightarrow> live t"
  by (cases t) auto

lemma phase_ends_together:
  assumes inv: "inv n (b, ts)" and i: "i < length ts"
    and "ts ! i = Outside \<and> bar_entered b + 1 = bar_running_threads b \<or>
      (\<exists>p. ts ! i = Awake p \<and> bar_entered b = bar_running_threads b)"
  shows "\<forall>j < length ts. j \<noteq> i \<longrightarrow> ts ! j = Removed \<or> waits_at (bar_phase_number b) (ts ! j)"
proof -
  let ?W = "waits_at (bar_phase_number b)"
  have "count ?W (ts[i := Removed]) \<le> count live (ts[i := Removed])"
    by (rule count_mono) (use waits_live in blast)
  then have "count ?W (ts[i := Removed]) = count live (ts[i := Removed])"
    using assms by (auto simp: inv_def count_update split: if_splits)
  then show ?thesis using all_others_wait[OF i] waits_live by blast
qed

lemma step_phase:
  assumes "inv n (b, ts)" "step k (b, ts) l (b', ts')" "bar_phase_number b' \<noteq> bar_phase_number b"
  shows "bar_phase_number b' = bar_phase_number b + 1 \<and> k < length ts \<and> (\<forall>j < length ts. j \<noteq> k \<longrightarrow>
      ts ! j = Removed \<or> waits_at (bar_phase_number b) (ts ! j))"
  using assms(2)
proof (cases rule: step.cases)
  case enter_last
  then have b': "b' = end_phase (b\<lparr>bar_entered := bar_entered b + 1\<rparr>)"
    "bar_entered b + 1 = bar_running_threads b"
    using entered_less[OF assms(1), of k]
    by (auto simp: create_barrier_enter_def Let_def split: if_splits elim!: rbindE)
  then show ?thesis
    using phase_ends_together[OF assms(1), of k] enter_last by (auto simp: end_phase_def)
next
  case (resume_last p)
  then have "b' = end_phase b" "bar_entered b = bar_running_threads b"
    by (auto simp: create_barrier_resume_def wait_predicate_def split: if_splits)
  then show ?thesis
    using phase_ends_together[OF assms(1), of k] resume_last by (auto simp: end_phase_def)
next
  case (enter_wait p)
  then show ?thesis using assms(3)
    by (auto simp: create_barrier_enter_def Let_def split: if_splits elim!: rbindE)
next
  case (resume_not_last p)
  then show ?thesis using assms(3) by (auto simp: create_barrier_resume_def split: if_splits)
next
  case (remove notifies)
  then show ?thesis using assms(3) by (auto simp: remove_thread_def Let_def)
qed (use assms(3) in simp_all)

text \<open>C3: Safety of the barrier. In every reachable state the check of \<open>createBarrier\<close> succeeds for a thread
  that calls it, so it never aborts; \<open>entered_\<close> and \<open>running_threads_\<close> count the threads waiting in
  the current phase and the threads not removed; and whenever a step ends a phase, every thread
  that has not been removed was waiting in that phase or is the one that takes the step: no
  thread is released early.\<close>

theorem Barrier_safe:
  assumes "reach n (b, ts) rs"
  shows "(Outside \<in> set ts \<longrightarrow> (\<exists>r. create_barrier_enter b = Inr r)) \<and>
    bar_running_threads b = count live ts \<and>
    bar_entered b = count (waits_at (bar_phase_number b)) ts \<and>
    (\<forall>i l b' ts'. step i (b, ts) l (b', ts') \<and> bar_phase_number b' \<noteq> bar_phase_number b \<longrightarrow>
       bar_phase_number b' = bar_phase_number b + 1 \<and> i < length ts \<and>
       (\<forall>j < length ts. j \<noteq> i \<longrightarrow>
          ts ! j = Removed \<or> waits_at (bar_phase_number b) (ts ! j)))"
proof -
  have inv: "inv n (b, ts)" using assms by (rule inv_reach)
  have enter: "\<exists>r. create_barrier_enter b = Inr r" if out: "Outside \<in> set ts"
  proof -
    obtain i where i: "i < length ts" "ts ! i = Outside" using out by (metis in_set_conv_nth)
    then show ?thesis
      using entered_less[OF inv i(1)] by (auto simp: create_barrier_enter_def Let_def)
  qed
  have counts: "bar_running_threads b = count live ts"
    "bar_entered b = count (waits_at (bar_phase_number b)) ts"
    using inv by (simp_all add: inv_def)
  have together: "\<forall>i l b' ts'. step i (b, ts) l (b', ts') \<and> bar_phase_number b' \<noteq> bar_phase_number b \<longrightarrow>
       bar_phase_number b' = bar_phase_number b + 1 \<and> i < length ts \<and>
       (\<forall>j < length ts. j \<noteq> i \<longrightarrow>
          ts ! j = Removed \<or> waits_at (bar_phase_number b) (ts ! j))"
    by (intro allI impI, elim conjE) (rule step_phase[OF inv])
  show ?thesis by (intro conjI impI counts together) (erule enter)
qed

theorem Barrier_safe_witness:
  "\<exists>rs. reach 2 (Barrier_new 2, [Outside, Outside]) rs \<and> (\<exists>r. create_barrier_enter (Barrier_new 2) = Inr r)"
proof -
  have "reach 2 (Barrier_new 2, [Outside, Outside]) []"
    using reach.init[of 2] by (simp add: numeral_2_eq_2)
  then show ?thesis using Barrier_safe[of 2 "Barrier_new 2" "[Outside, Outside]" "[]"] by auto
qed

text \<open>The threads never all sleep.\<close>

lemma no_deadlock:
  assumes "inv n (b, ts)" "i < length ts" "ts ! i = Sleeping p \<or> ts ! i = Awake p"
  shows "Outside \<in> set ts \<or> Notifying \<in> set ts \<or>
    (\<exists>j q. j < length ts \<and> ts ! j = Awake q \<and> wait_predicate b q)"
proof (rule ccontr)
  assume stuck: "\<not> ?thesis"
  note inv = assms(1)
  have current: "waits_at (bar_phase_number b) t" if "t \<in> set ts" "live t" for t
  proof (cases t)
    case (Sleeping q)
    then show ?thesis using stuck inv that by (force simp: inv_def)
  next
    case (Awake q)
    then have "\<not> wait_predicate b q" using stuck that(1) by (metis in_set_conv_nth)
    then show ?thesis using Awake inv that(1) by (force simp: inv_def wait_predicate_def)
  qed (use that stuck in auto)
  have "count live ts \<le> count (waits_at (bar_phase_number b)) ts"
    by (rule count_mono) (use current in blast)
  then have full: "bar_entered b = bar_running_threads b"
    using entered_le[OF inv] inv by (simp add: inv_def)
  have here: "ts ! i \<in> set ts" using assms(2) by simp
  from assms(3) show False
  proof
    assume "ts ! i = Sleeping p"
    then have "Sleeping (bar_phase_number b) \<in> set ts" using current[OF here] here by auto
    then show False using full inv by (simp add: inv_def)
  next
    assume "ts ! i = Awake p"
    then show False using stuck assms(2) full by (auto simp: wait_predicate_def)
  qed
qed

text \<open>C20: No lost wake-up and no deadlock. In every reachable state with a thread asleep or awake in the
  barrier, either some thread is still outside (in the benchmark's code), or some thread is about
  to notify, or an awake thread can leave: the threads never all sleep, even when threads are removed
  while others wait.\<close>

theorem Barrier_no_deadlock:
  assumes "reach n (b, ts) rs" "i < length ts" "ts ! i = Sleeping p \<or> ts ! i = Awake p"
  shows "Outside \<in> set ts \<or> Notifying \<in> set ts \<or>
    (\<exists>j q. j < length ts \<and> ts ! j = Awake q \<and> wait_predicate b q)"
  by (rule no_deadlock[OF inv_reach[OF assms(1)] assms(2,3)])

text \<open>The second of two threads is removed while the first waits: it is woken.\<close>

theorem Barrier_no_deadlock_witness:
  "\<exists>b ts rs. reach 2 (b, ts) rs \<and> ts = [Awake 0, Removed] \<and> wait_predicate b 0"
proof -
  let ?b1 = "(Barrier_new 2)\<lparr>bar_entered := 1\<rparr>" and ?b2 = "(Barrier_new 2)\<lparr>bar_running_threads := 1, bar_entered := 1\<rparr>"
  have r0: "reach 2 (Barrier_new 2, [Outside, Outside]) []"
    using reach.init[of 2] by (simp add: numeral_2_eq_2)
  have "step 0 (Barrier_new 2, [Outside, Outside]) None (?b1, [Outside, Outside][0 := Sleeping 0])"
    by (rule enter_wait) (simp_all add: create_barrier_enter_def Barrier_new_def Let_def)
  from reach.move[OF r0 this] have r1: "reach 2 (?b1, [Sleeping 0, Outside]) []" by simp
  have "step 1 (?b1, [Sleeping 0, Outside]) None
      (?b2, if True then map wake ([Sleeping 0, Outside][1 := Removed]) else [Sleeping 0, Outside][1 := Removed])"
    by (rule remove) (simp_all add: remove_thread_def Barrier_new_def Let_def)
  from reach.move[OF r1 this] have r2: "reach 2 (?b2, [Awake 0, Removed]) []" by simp
  have "wait_predicate ?b2 0"
    using Barrier_no_deadlock[OF r2, of 0 0] by (auto simp: less_Suc_eq nth_Cons')
  with r2 show ?thesis by blast
qed

lemma step_lasts:
  assumes "step i s l s'"
  shows "int (length (filter (\<lambda>r. r) (case l of None \<Rightarrow> [] | Some r \<Rightarrow> [r]))) +
      count (\<lambda>t. t = Notifying) (snd s') - bar_phase_number (fst s') =
      count (\<lambda>t. t = Notifying) (snd s) - bar_phase_number (fst s)"
proof -
  have wake: "count (\<lambda>t. t = Notifying) (map wake ts) = count (\<lambda>t. t = Notifying) ts" for ts
    by (rule count_wake) simp
  show ?thesis using assms
    by (induction rule: step.induct)
      (auto simp: count_update wake create_barrier_enter_def create_barrier_resume_def remove_thread_def
        end_phase_def Let_def split: if_splits elim!: rbindE)
qed

lemma reach_lasts:
  "reach n s rs \<Longrightarrow>
   int (length (filter (\<lambda>r. r) rs)) + count (\<lambda>t. t = Notifying) (snd s) = bar_phase_number (fst s)"
proof (induction rule: reach.induct)
  case (move s rs l s')
  then show ?case using step_lasts[OF move.hyps(2)] by simp
qed (simp add: Barrier_new_def count_def)

text \<open>One last thread per phase: the number of \<open>wait()\<close> calls that have returned true, together with the
  threads that are on their way to return true, is the number of phases that have ended.\<close>

theorem Barrier_one_last:
  assumes "reach n (b, ts) rs"
  shows "int (length (filter (\<lambda>r. r) rs)) + count (\<lambda>t. t = Notifying) ts = bar_phase_number b"
  using reach_lasts[OF assms] by simp

theorem Barrier_one_last_witness:
  "\<exists>b ts. reach 1 (b, ts) [True] \<and> bar_phase_number b = 1 \<and> ts = [Outside]"
proof -
  let ?b1 = "(Barrier_new 1)\<lparr>bar_phase_number := 1\<rparr>"
  have r0: "reach 1 (Barrier_new 1, [Outside]) []" using reach.init[of 1] by simp
  have "step 0 (Barrier_new 1, [Outside]) None (?b1, [Outside][0 := Notifying])"
    by (rule enter_last) (simp_all add: create_barrier_enter_def Barrier_new_def end_phase_def Let_def)
  from reach.move[OF r0 this] have r1: "reach 1 (?b1, [Notifying]) []" by simp
  have "step 0 (?b1, [Notifying]) (Some True) (?b1, map wake ([Notifying][0 := Outside]))"
    by (rule notify) simp_all
  from reach.move[OF r1 this] have r2: "reach 1 (?b1, [Outside]) [True]" by simp
  then show ?thesis using Barrier_one_last[OF r2] by (auto simp: count_def)
qed

end
