(* ===== verification/Strings.thy ===== *)
theory Strings
  imports Names
begin

text \<open>
  src/src/string_util.cc: splitting a string, and the human-readable rendering of a number with an SI
  or IEC prefix.  \<open>StrFormat\<close> and \<open>StrCat\<close> are the conversions of \<open>CText\<close> at the places they are used;
  the buffers of \<open>StrFormat\<close> never cut a text.
\<close>

section \<open>Formatting into a buffer\<close>

text \<open>
  \<open>vsnprintf\<close> into a buffer of \<open>n\<close> bytes, for a format that expands to \<open>expansion\<close>: what the buffer then
  holds as a string, and the returned length.
\<close>

definition vsnprintf :: "nat \<Rightarrow> string \<Rightarrow> string \<times> int" where
  "vsnprintf n expansion = (take (n - 1) expansion, int (length expansion))"

definition StrFormat :: "string \<Rightarrow> string" where
  "StrFormat expansion =
     (let (local_buff, ret) = vsnprintf 256 expansion in
      if ret = 0 then []
      else if nat ret < 256 then local_buff
      else fst (vsnprintf (nat ret + 1) expansion))"

lemma StrFormat_complete [simp]: "StrFormat expansion = expansion"
  by (simp add: StrFormat_def vsnprintf_def)

section \<open>Splitting\<close>

text \<open>
  The loop of \<open>StrSplit\<close>; \<open>rest\<close> is the string from position \<open>first\<close> on, so \<open>find(delim, first)\<close> is a
  search in \<open>rest\<close>.
\<close>

function split_loop :: "char \<Rightarrow> string list \<Rightarrow> string \<Rightarrow> string list" where
  "split_loop delim ret rest =
     (if delim \<in> set rest
      then split_loop delim (ret @ [takeWhile (\<lambda>c. c \<noteq> delim) rest])
             (tl (dropWhile (\<lambda>c. c \<noteq> delim) rest))
      else ret @ [rest])"
  by pat_completeness auto
termination
proof (relation "measure (\<lambda>(delim, ret, rest). length rest)")
  fix delim :: char and ret :: "string list" and rest :: string
  assume "delim \<in> set rest"
  moreover have "length (dropWhile (\<lambda>c. c \<noteq> delim) rest) \<le> length rest" by (rule length_dropWhile_le)
  ultimately show "((delim, ret @ [takeWhile (\<lambda>c. c \<noteq> delim) rest], tl (dropWhile (\<lambda>c. c \<noteq> delim) rest)),
      delim, ret, rest) \<in> measure (\<lambda>(delim, ret, rest). length rest)"
    by (cases rest) auto
qed simp

declare split_loop.simps [simp del]

definition StrSplit :: "string \<Rightarrow> char \<Rightarrow> string list" where
  "StrSplit str delim = (if str = [] then [] else split_loop delim [] str)"

lemma split_at_takeWhile:
  "d \<in> set s \<Longrightarrow> split_at d s = takeWhile (\<lambda>c. c \<noteq> d) s # split_at d (tl (dropWhile (\<lambda>c. c \<noteq> d) s))"
  by (induction s) auto

lemma split_loop_split_at: "split_loop d ret s = ret @ split_at d s"
proof (induction d ret s rule: split_loop.induct)
  case (1 d ret s)
  then show ?case
    by (subst split_loop.simps) (simp add: split_at_takeWhile[of d s] split_at_id)
qed

lemma StrSplit_split_at: "StrSplit s d = (if s = [] then [] else split_at d s)"
  by (simp add: StrSplit_def split_loop_split_at)

lemma StrSplit_append: "d \<notin> set x \<Longrightarrow> StrSplit (x @ d # s) d = x # split_at d s"
  by (simp add: StrSplit_split_at split_at_append)

text \<open>Interleaving the parts of a split with the delimiter gives the string back.\<close>

lemma intercalate_split_at: "intercalate d (split_at d s) = s"
proof (induction s)
  case (Cons c s)
  obtain x xs where x: "split_at d s = x # xs" by (cases "split_at d s") auto
  then show ?case using Cons by (cases xs) (auto simp: intercalate_Cons)
qed simp

section \<open>Human-readable numbers\<close>

definition kBigSIUnits :: "string list" where
  "kBigSIUnits = [''k'', ''M'', ''G'', ''T'', ''P'', ''E'', ''Z'', ''Y'']"

definition kBigIECUnits :: "string list" where
  "kBigIECUnits = [''Ki'', ''Mi'', ''Gi'', ''Ti'', ''Pi'', ''Ei'', ''Zi'', ''Yi'']"

definition kSmallSIUnits :: "string list" where
  "kSmallSIUnits = [''m'', ''u'', ''n'', ''p'', ''f'', ''a'', ''z'', ''y'']"

definition kUnitsSize :: nat where "kUnitsSize = length kBigSIUnits"

text \<open>
  The two scaling loops, with \<open>i\<close> units tried so far: divide (multiply) until the value is at or below
  (at or above) the threshold, at most once per unit.
\<close>

fun scale_down :: "nat \<Rightarrow> nat \<Rightarrow> double \<Rightarrow> double \<Rightarrow> double \<Rightarrow> (double \<times> int) option" where
  "scale_down 0 i one_k big_threshold scaled = None"
| "scale_down (Suc k) i one_k big_threshold scaled =
     (let scaled = scaled / one_k in
      if scaled \<le> big_threshold then Some (scaled, int i + 1)
      else scale_down k (Suc i) one_k big_threshold scaled)"

fun scale_up :: "nat \<Rightarrow> nat \<Rightarrow> double \<Rightarrow> double \<Rightarrow> double \<Rightarrow> (double \<times> int) option" where
  "scale_up 0 i one_k small_threshold scaled = None"
| "scale_up (Suc k) i one_k small_threshold scaled =
     (let scaled = scaled * one_k in
      if scaled \<ge> small_threshold then Some (scaled, - (int i + 1))
      else scale_up k (Suc i) one_k small_threshold scaled)"

text \<open>\<open>std::pow(10.0, precision)\<close> for a precision that is not negative.\<close>

definition ToExponentAndMantissa :: "double \<Rightarrow> nat \<Rightarrow> double \<Rightarrow> string \<times> int" where
  "ToExponentAndMantissa val0 precision one_k =
     (let sign = (if val0 < Fin 0 then ''-'' else []);
          val = (if val0 < Fin 0 then - val0 else val0);
          adjusted_threshold = std_max (Fin 1) (Fin 1 / rnd (10 ^ precision));
          big_threshold = adjusted_threshold * one_k - Fin 1;
          small_threshold = adjusted_threshold;
          simple_threshold = rnd (1 / 100)
      in if val > big_threshold then
           (case scale_down kUnitsSize 0 one_k big_threshold val of
              Some (scaled, e) \<Rightarrow> (sign @ ostream_double scaled, e)
            | None \<Rightarrow> (sign @ ostream_double val, 0))
         else if val < small_threshold then
           (case (if val < simple_threshold then scale_up kUnitsSize 0 one_k small_threshold val else None) of
              Some (scaled, e) \<Rightarrow> (sign @ ostream_double scaled, e)
            | None \<Rightarrow> (sign @ ostream_double val, 0))
         else (sign @ ostream_double val, 0))"

definition ExponentToPrefix :: "int \<Rightarrow> bool \<Rightarrow> string" where
  "ExponentToPrefix exponent iec =
     (if exponent = 0 then []
      else
        (let index = (if exponent > 0 then exponent - 1 else - exponent - 1) in
         if index \<ge> int kUnitsSize then []
         else (if exponent > 0 then (if iec then kBigIECUnits else kBigSIUnits) else kSmallSIUnits) ! nat index))"

definition ToBinaryStringFullySpecified :: "double \<Rightarrow> nat \<Rightarrow> OneK \<Rightarrow> string" where
  "ToBinaryStringFullySpecified value precision one_k =
     (let (mantissa, exponent) =
            ToExponentAndMantissa value precision (if one_k = kIs1024 then Fin 1024 else Fin 1000)
      in mantissa @ ExponentToPrefix exponent (one_k = kIs1024))"

definition HumanReadableNumber :: "double \<Rightarrow> OneK \<Rightarrow> string" where
  "HumanReadableNumber n one_k = ToBinaryStringFullySpecified n 1 one_k"

text \<open>The exponent is always one that has a prefix.\<close>

lemma scale_down_range: "scale_down k i one_k b v = Some (s, e) \<Longrightarrow> int i < e \<and> e \<le> int (i + k) \<and> s \<le> b"
  by (induction k i one_k b v rule: scale_down.induct) (fastforce simp: Let_def split: if_splits)+

lemma scale_up_range: "scale_up k i one_k b v = Some (s, e) \<Longrightarrow> - int (i + k) \<le> e \<and> e < - int i \<and> b \<le> s"
  by (induction k i one_k b v rule: scale_up.induct) (fastforce simp: Let_def split: if_splits)+

lemma exponent_range: "\<bar>snd (ToExponentAndMantissa v p k)\<bar> \<le> int kUnitsSize"
proof -
  have down: "scale_down kUnitsSize 0 k b v = Some (s, e) \<Longrightarrow> \<bar>e\<bar> \<le> int kUnitsSize" for b v s e
    using scale_down_range by fastforce
  have up: "scale_up kUnitsSize 0 k b v = Some (s, e) \<Longrightarrow> \<bar>e\<bar> \<le> int kUnitsSize" for b v s e
    using scale_up_range by fastforce
  show ?thesis
    by (auto simp: ToExponentAndMantissa_def Let_def dest: down up split: option.split if_split)
qed

end
