(* ===== verification/Flags.thy ===== *)
theory Flags
  imports Strings
begin

text \<open>
  src/src/commandlineflags.cc: the values of flags, from the command line and from the environment.

  A parser that writes through a pointer on success returns the value as an option; the second
  component is what it prints to \<open>std::cerr\<close>.  The environment (\<open>getenv\<close>) is an argument.
\<close>

section \<open>Values\<close>

type_synonym 'a parsed = "'a option \<times> string"

definition in_quotes :: "string \<Rightarrow> string" where
  "in_quotes s = ''\"'' @ s @ ''\"''"

definition ParseInt32 :: "string \<Rightarrow> string \<Rightarrow> int parsed" where
  "ParseInt32 src_text str =
     (let (long_value, end_ptr, _) = strtol str in
      if end_ptr \<noteq> [] then
        (None, src_text @ '' is expected to be a 32-bit integer, but actually has value '' @
           in_quotes str @ ''.'' @ ''\<newline>'')
      else
        (let result = (long_value + 2147483648) mod 2 ^ 32 - 2147483648 in
         if long_value = int64_max \<or> long_value = int64_min \<or> result \<noteq> long_value then
           (None, src_text @ '' is expected to be a 32-bit integer, but actually has value '' @
              in_quotes str @ '', which overflows.'' @ ''\<newline>'')
         else (Some result, [])))"

definition ParseDouble :: "string \<Rightarrow> string \<Rightarrow> double parsed" where
  "ParseDouble src_text str =
     (let (double_value, end_ptr, _) = strtod str in
      if end_ptr \<noteq> [] then
        (None, src_text @ '' is expected to be a double, but actually has value '' @
           in_quotes str @ ''.'' @ ''\<newline>'')
      else (Some double_value, []))"

type_synonym kv_map = "(string, string) stdmap"

fun kv_pairs_loop :: "string \<Rightarrow> string \<Rightarrow> kv_map \<Rightarrow> string list \<Rightarrow> kv_map parsed" where
  "kv_pairs_loop src_text str kvs [] = (Some kvs, [])"
| "kv_pairs_loop src_text str kvs (kvpair # rest) =
     (case StrSplit kvpair (CHR ''='') of
        [k, v] \<Rightarrow>
          (let (kvs', inserted) = map_emplace k v kvs in
           if \<not> inserted then
             (None, src_text @ '' is expected to contain unique keys but key '' @ in_quotes k @
                '' was repeated.'' @ ''\<newline>'')
           else kv_pairs_loop src_text str kvs' rest)
      | _ \<Rightarrow> (None, src_text @ '' is expected to be a comma-separated list of <key>=<value> strings, '' @
                ''but actually has value '' @ in_quotes str @ ''.'' @ ''\<newline>''))"

definition ParseKvPairs :: "string \<Rightarrow> string \<Rightarrow> kv_map parsed" where
  "ParseKvPairs src_text str = kv_pairs_loop src_text str [] (StrSplit str (CHR '',''))"

definition IsTruthyFlagValue :: "string \<Rightarrow> bool" where
  "IsTruthyFlagValue value =
     (case value of
        [v] \<Rightarrow> is_alnum v \<and> \<not> (v = CHR ''0'' \<or> v = CHR ''f'' \<or> v = CHR ''F'' \<or> v = CHR ''n'' \<or> v = CHR ''N'')
      | [] \<Rightarrow> True
      | _ \<Rightarrow> (let value_lower = map to_lower value in
              \<not> (value_lower = ''false'' \<or> value_lower = ''no'' \<or> value_lower = ''off'')))"

section \<open>The environment\<close>

type_synonym env = "string \<Rightarrow> string option"

definition FlagToEnvVar :: "string \<Rightarrow> string" where
  "FlagToEnvVar flag = map to_upper flag"

definition BoolFromEnv :: "env \<Rightarrow> string \<Rightarrow> bool \<Rightarrow> bool" where
  "BoolFromEnv getenv flag default_val =
     (case getenv (FlagToEnvVar flag) of None \<Rightarrow> default_val | Some v \<Rightarrow> IsTruthyFlagValue v)"

definition Int32FromEnv :: "env \<Rightarrow> string \<Rightarrow> int \<Rightarrow> int" where
  "Int32FromEnv getenv flag default_val =
     (case getenv (FlagToEnvVar flag) of
        None \<Rightarrow> default_val
      | Some v \<Rightarrow>
          (case fst (ParseInt32 (''Environment variable '' @ FlagToEnvVar flag) v) of
             None \<Rightarrow> default_val | Some x \<Rightarrow> x))"

definition DoubleFromEnv :: "env \<Rightarrow> string \<Rightarrow> double \<Rightarrow> double" where
  "DoubleFromEnv getenv flag default_val =
     (case getenv (FlagToEnvVar flag) of
        None \<Rightarrow> default_val
      | Some v \<Rightarrow>
          (case fst (ParseDouble (''Environment variable '' @ FlagToEnvVar flag) v) of
             None \<Rightarrow> default_val | Some x \<Rightarrow> x))"

definition StringFromEnv :: "env \<Rightarrow> string \<Rightarrow> string \<Rightarrow> string" where
  "StringFromEnv getenv flag default_val =
     (case getenv (FlagToEnvVar flag) of None \<Rightarrow> default_val | Some v \<Rightarrow> v)"

definition KvPairsFromEnv :: "env \<Rightarrow> string \<Rightarrow> kv_map \<Rightarrow> kv_map" where
  "KvPairsFromEnv getenv flag default_val =
     (case getenv (FlagToEnvVar flag) of
        None \<Rightarrow> default_val
      | Some v \<Rightarrow>
          (case fst (ParseKvPairs (''Environment variable '' @ FlagToEnvVar flag) v) of
             None \<Rightarrow> default_val | Some x \<Rightarrow> x))"

section \<open>The command line\<close>

text \<open>The text after the flag's name and its equals sign, \<open>None\<close> for the null pointer.\<close>

definition ParseFlagValue :: "string option \<Rightarrow> string option \<Rightarrow> bool \<Rightarrow> string option" where
  "ParseFlagValue str flag def_optional =
     (case (str, flag) of
        (Some str, Some flag) \<Rightarrow>
          (let flag_str = ''--'' @ flag in
           if \<not> starts_with str flag_str then None
           else
             (let flag_end = drop (length flag_str) str in
              if def_optional \<and> flag_end = [] then Some flag_end
              else case flag_end of
                     c # rest \<Rightarrow> if c = CHR ''='' then Some rest else None
                   | [] \<Rightarrow> None))
      | _ \<Rightarrow> None)"

definition ParseBoolFlag :: "string \<Rightarrow> string \<Rightarrow> bool option" where
  "ParseBoolFlag str flag = map_option IsTruthyFlagValue (ParseFlagValue (Some str) (Some flag) True)"

definition ParseInt32Flag :: "string \<Rightarrow> string \<Rightarrow> int parsed" where
  "ParseInt32Flag str flag =
     (case ParseFlagValue (Some str) (Some flag) False of
        None \<Rightarrow> (None, []) | Some v \<Rightarrow> ParseInt32 (''The value of flag --'' @ flag) v)"

definition ParseDoubleFlag :: "string \<Rightarrow> string \<Rightarrow> double parsed" where
  "ParseDoubleFlag str flag =
     (case ParseFlagValue (Some str) (Some flag) False of
        None \<Rightarrow> (None, []) | Some v \<Rightarrow> ParseDouble (''The value of flag --'' @ flag) v)"

definition ParseStringFlag :: "string \<Rightarrow> string \<Rightarrow> string option" where
  "ParseStringFlag str flag = ParseFlagValue (Some str) (Some flag) False"

text \<open>
  \<open>ParseKeyValueFlag\<close> writes into the map as it goes, so a malformed pair leaves the earlier ones in it,
  and an \<open>emplace\<close> of a key that is there already is ignored.
\<close>

fun key_value_loop :: "kv_map \<Rightarrow> string list \<Rightarrow> bool \<times> kv_map" where
  "key_value_loop value [] = (True, value)"
| "key_value_loop value (kvpair # rest) =
     (case StrSplit kvpair (CHR ''='') of
        [k, v] \<Rightarrow> key_value_loop (fst (map_emplace k v value)) rest
      | _ \<Rightarrow> (False, value))"

definition ParseKeyValueFlag :: "string \<Rightarrow> string \<Rightarrow> kv_map \<Rightarrow> bool \<times> kv_map" where
  "ParseKeyValueFlag str flag value =
     (case ParseFlagValue (Some str) (Some flag) False of
        None \<Rightarrow> (False, value) | Some v \<Rightarrow> key_value_loop value (StrSplit v (CHR '','')))"

definition IsFlag :: "string \<Rightarrow> string \<Rightarrow> bool" where
  "IsFlag str flag \<longleftrightarrow> ParseFlagValue (Some str) (Some flag) True \<noteq> None"

section \<open>Meaning\<close>

lemma ParseFlagValue_iff:
  "ParseFlagValue (Some str) (Some flag) opt = Some v \<longleftrightarrow>
     str = ''--'' @ flag @ ''='' @ v \<or> opt \<and> v = [] \<and> str = ''--'' @ flag"
proof -
  have "starts_with str (''--'' @ flag) \<longleftrightarrow> (\<exists>t. str = ''--'' @ flag @ t)"
    by (auto simp: starts_with_iff)
  then show ?thesis
    by (auto simp: ParseFlagValue_def Let_def split: list.splits if_splits)
qed

text \<open>The wrap of the cast to \<open>int32_t\<close> is the identity exactly on its range.\<close>

lemma cast_int32: "(n + 2147483648) mod 2 ^ 32 - 2147483648 = n \<longleftrightarrow> in_i32 n"
proof
  assume *: "(n + 2147483648) mod 2 ^ 32 - 2147483648 = n"
  have "0 \<le> (n + 2147483648) mod 4294967296" "(n + 2147483648) mod 4294967296 < 4294967296" by simp_all
  then show "in_i32 n" using * unfolding int_width_defs by simp linarith
qed (simp add: int_width_defs)

text \<open>Reading back a printed integer of any size: \<open>strtol\<close> saturates.\<close>

lemma strtol_show_int_any:
  "strtol (show_int n) =
     (if n < int64_min then (int64_min, [], True) else if int64_max < n then (int64_max, [], True)
      else (n, [], False))"
proof (cases "n < 0")
  case True
  obtain c s where s: "show_nat (nat (- n)) = c # s" "is_digit c" by (rule show_nat_Cons)
  have "read_digits 0 (c # s) = (nat (- n), [])"
    using read_digits_show_nat[of "[]" "nat (- n)"] s by simp
  with True s show ?thesis
    by (simp add: strtol_def show_int_def is_space_def split_sign_def int_width_defs
        zless_nat_eq_int_zless del: read_digits.simps)
next
  case False
  obtain c s where s: "show_nat (nat n) = c # s" "is_digit c" by (rule show_nat_Cons)
  have r: "read_digits 0 (c # s) = (nat n, [])"
    using read_digits_show_nat[of "[]" "nat n"] s by simp
  have "c \<noteq> CHR ''-''" "c \<noteq> CHR ''+''" using s(2) by (auto simp: is_digit_def)
  with False r s digit_not_space[OF s(2)] show ?thesis
    by (simp add: strtol_def show_int_def split_sign_def int_width_defs zless_nat_eq_int_zless
        del: read_digits.simps)
qed

lemma ParseInt32_show: "fst (ParseInt32 t (show_int n)) = (if in_i32 n then Some n else None)"
  using cast_int32[of n] by (auto simp: ParseInt32_def strtol_show_int_any Let_def int_width_defs)

lemma kv_pair_split:
  assumes "CHR ''='' \<notin> set k" "CHR ''='' \<notin> set v"
  shows "StrSplit (k @ CHR ''='' # v) (CHR ''='') = [k, v]"
  using assms by (simp add: StrSplit_append split_at_id)

definition show_kv :: "string \<times> string \<Rightarrow> string" where
  "show_kv kv = fst kv @ CHR ''='' # snd kv"

text \<open>The loop over the pairs of a printed map inserts them one after the other.\<close>

lemma map_put_greater:
  "\<forall>k' \<in> fst ` set m. k' < k \<Longrightarrow> map_put k v m = m @ [(k, v)]" for k :: "'a::linorder"
  by (induction m) auto

lemma kv_pairs_loop_show:
  assumes "map_invar (pre @ m)" "\<forall>(k, v) \<in> set m. CHR ''='' \<notin> set k \<and> CHR ''='' \<notin> set v"
  shows "kv_pairs_loop t s pre (map show_kv m) = (Some (pre @ m), [])"
  using assms
proof (induction m arbitrary: pre)
  case (Cons kv m)
  obtain k v where kv: "kv = (k, v)" by force
  have less: "\<forall>k' \<in> fst ` set pre. k' < k"
    using Cons.prems(1) by (force simp: map_invar_def sorted_wrt_append kv)
  then have "map_of pre k = None" by (auto simp: map_of_eq_None_iff)
  then have "map_emplace k v pre = (pre @ [(k, v)], True)"
    by (simp add: map_emplace_def map_put_greater[OF less])
  moreover have "StrSplit (show_kv kv) (CHR ''='') = [k, v]"
    using Cons.prems(2) by (simp add: show_kv_def kv kv_pair_split)
  ultimately show ?case using Cons.IH[of "pre @ [kv]"] Cons.prems by (simp add: kv)
qed simp

section \<open>Properties\<close>

text \<open>An integer flag accepts exactly the 32-bit integers in decimal: given \<open>--flag=<n>\<close> for any integer,
  however large, the value is \<open>n\<close> when it fits 32 bits and the flag is rejected otherwise; no value
  outside of the range is ever accepted.\<close>

theorem ParseInt32Flag_exact:
  "fst (ParseInt32Flag (''--'' @ flag @ ''='' @ show_int n) flag) = (if in_i32 n then Some n else None) \<and>
   (\<forall>str x. fst (ParseInt32Flag str flag) = Some x \<longrightarrow> in_i32 x)"
proof -
  have "ParseFlagValue (Some (''--'' @ flag @ ''='' @ show_int n)) (Some flag) False = Some (show_int n)"
    by (subst ParseFlagValue_iff) simp
  moreover have "in_i32 x" if "fst (ParseInt32 t str) = Some x" for t str x
    using that cast_int32 by (fastforce simp: ParseInt32_def Let_def split: prod.splits if_splits)
  ultimately show ?thesis
    by (auto simp: ParseInt32Flag_def ParseInt32_show split: option.splits)
qed

theorem ParseInt32Flag_exact_witness:
  "fst (ParseInt32Flag (''--'' @ ''reps'' @ ''='' @ show_int 42) ''reps'') = Some 42 \<and>
   fst (ParseInt32Flag (''--'' @ ''reps'' @ ''='' @ show_int (2 ^ 31)) ''reps'') = None"
  using ParseInt32Flag_exact[of "''reps''" 42] ParseInt32Flag_exact[of "''reps''" "2 ^ 31"]
  by (simp add: int_width_defs)

text \<open>C35: Printing a map as \<open>key=value\<close> pairs separated by commas and parsing it gives the map back, in
  order, when no key or value contains a comma or an equals sign.\<close>

theorem ParseKvPairs_roundtrip:
  assumes "map_invar m"
    and "\<forall>(k, v) \<in> set m. CHR ''='' \<notin> set k \<and> CHR ''='' \<notin> set v \<and> CHR '','' \<notin> set k \<and> CHR '','' \<notin> set v"
  shows "ParseKvPairs src (intercalate (CHR '','') (map show_kv m)) = (Some m, [])"
proof (cases "m = []")
  case True
  then show ?thesis by (simp add: ParseKvPairs_def StrSplit_def)
next
  case False
  let ?s = "intercalate (CHR '','') (map show_kv m)"
  have "?s \<noteq> []" using False by (cases m) (auto simp: intercalate_Cons show_kv_def)
  moreover have "split_at (CHR '','') ?s = map show_kv m"
    using False assms(2) by (intro split_at_intercalate) (auto simp: show_kv_def)
  ultimately have "StrSplit ?s (CHR '','') = map show_kv m" by (simp add: StrSplit_split_at)
  then show ?thesis
    using kv_pairs_loop_show[of "[]" m src ?s] assms by (auto simp: ParseKvPairs_def)
qed

theorem ParseKvPairs_roundtrip_witness:
  "ParseKvPairs [] (intercalate (CHR '','') (map show_kv [(''a'', ''1''), (''b'', [])])) =
     (Some [(''a'', ''1''), (''b'', [])], [])"
  by (rule ParseKvPairs_roundtrip) (simp_all add: map_invar_def less_char_def)

end
