(* ===== verification/Options.thy ===== *)
theory Options
  imports Flags Types
begin

text \<open>
  The flags of the library and what reads the command line into them (src/src/benchmark.cc).

  \<open>BenchFlags\<close> holds the \<open>FLAGS_*\<close> variables, with their defaults taken from the environment as
  the \<open>BM_DEFINE_*\<close> macros of src/src/commandlineflags.h do; \<open>Globals\<close> the other process-wide
  variables that the command line sets.  What goes to \<open>std::cerr\<close> is returned as text.
\<close>

section \<open>Flags\<close>

record BenchFlags =
  fl_list_tests :: bool
  fl_filter :: string
  fl_min_time :: string
  fl_min_warmup_time :: double
  fl_repetitions :: int
  fl_dry_run :: bool
  fl_enable_random_interleaving :: bool
  fl_report_aggregates_only :: bool
  fl_display_aggregates_only :: bool
  fl_format :: string
  fl_out_format :: string
  fl_out :: string
  fl_color :: string
  fl_counters_tabular :: bool
  fl_perf_counters :: string
  fl_context :: kv_map
  fl_time_unit :: string
  fl_v :: int

definition kDefaultMinTimeStr :: string where "kDefaultMinTimeStr = ''0.5s''"

definition default_flags :: "env \<Rightarrow> BenchFlags" where
  "default_flags getenv = \<lparr>
     fl_list_tests = BoolFromEnv getenv ''benchmark_list_tests'' False,
     fl_filter = StringFromEnv getenv ''benchmark_filter'' [],
     fl_min_time = StringFromEnv getenv ''benchmark_min_time'' kDefaultMinTimeStr,
     fl_min_warmup_time = DoubleFromEnv getenv ''benchmark_min_warmup_time'' (Fin 0),
     fl_repetitions = Int32FromEnv getenv ''benchmark_repetitions'' 1,
     fl_dry_run = BoolFromEnv getenv ''benchmark_dry_run'' False,
     fl_enable_random_interleaving = BoolFromEnv getenv ''benchmark_enable_random_interleaving'' False,
     fl_report_aggregates_only = BoolFromEnv getenv ''benchmark_report_aggregates_only'' False,
     fl_display_aggregates_only = BoolFromEnv getenv ''benchmark_display_aggregates_only'' False,
     fl_format = StringFromEnv getenv ''benchmark_format'' ''console'',
     fl_out_format = StringFromEnv getenv ''benchmark_out_format'' ''json'',
     fl_out = StringFromEnv getenv ''benchmark_out'' [],
     fl_color = StringFromEnv getenv ''benchmark_color'' ''auto'',
     fl_counters_tabular = BoolFromEnv getenv ''benchmark_counters_tabular'' False,
     fl_perf_counters = StringFromEnv getenv ''benchmark_perf_counters'' [],
     fl_context = KvPairsFromEnv getenv ''benchmark_context'' [],
     fl_time_unit = StringFromEnv getenv ''benchmark_time_unit'' [],
     fl_v = Int32FromEnv getenv ''v'' 0\<rparr>"

section \<open>One argument\<close>

text \<open>
  One parser of the \<open>||\<close> chain: whether it took the argument, what it printed, the flags after it.
  A parser that fails leaves its flag unchanged, except \<open>ParseKeyValueFlag\<close>, which keeps the pairs
  it has already inserted.
\<close>

type_synonym arg_parser = "string \<Rightarrow> BenchFlags \<Rightarrow> bool \<times> string \<times> BenchFlags"

definition bool_flag :: "string \<Rightarrow> (bool \<Rightarrow> BenchFlags \<Rightarrow> BenchFlags) \<Rightarrow> arg_parser" where
  "bool_flag name put arg fl =
     (case ParseBoolFlag arg name of None \<Rightarrow> (False, [], fl) | Some v \<Rightarrow> (True, [], put v fl))"

definition string_flag :: "string \<Rightarrow> (string \<Rightarrow> BenchFlags \<Rightarrow> BenchFlags) \<Rightarrow> arg_parser" where
  "string_flag name put arg fl =
     (case ParseStringFlag arg name of None \<Rightarrow> (False, [], fl) | Some v \<Rightarrow> (True, [], put v fl))"

definition int32_flag :: "string \<Rightarrow> (int \<Rightarrow> BenchFlags \<Rightarrow> BenchFlags) \<Rightarrow> arg_parser" where
  "int32_flag name put arg fl =
     (case ParseInt32Flag arg name of (None, e) \<Rightarrow> (False, e, fl) | (Some v, e) \<Rightarrow> (True, e, put v fl))"

definition double_flag :: "string \<Rightarrow> (double \<Rightarrow> BenchFlags \<Rightarrow> BenchFlags) \<Rightarrow> arg_parser" where
  "double_flag name put arg fl =
     (case ParseDoubleFlag arg name of (None, e) \<Rightarrow> (False, e, fl) | (Some v, e) \<Rightarrow> (True, e, put v fl))"

definition context_flag :: "string \<Rightarrow> arg_parser" where
  "context_flag name arg fl =
     (let (ok, m) = ParseKeyValueFlag arg name (fl_context fl) in (ok, [], fl\<lparr>fl_context := m\<rparr>))"

definition arg_parsers :: "arg_parser list" where
  "arg_parsers =
     [bool_flag ''benchmark_list_tests'' (\<lambda>v fl. fl\<lparr>fl_list_tests := v\<rparr>),
      string_flag ''benchmark_filter'' (\<lambda>v fl. fl\<lparr>fl_filter := v\<rparr>),
      string_flag ''benchmark_min_time'' (\<lambda>v fl. fl\<lparr>fl_min_time := v\<rparr>),
      double_flag ''benchmark_min_warmup_time'' (\<lambda>v fl. fl\<lparr>fl_min_warmup_time := v\<rparr>),
      int32_flag ''benchmark_repetitions'' (\<lambda>v fl. fl\<lparr>fl_repetitions := v\<rparr>),
      bool_flag ''benchmark_dry_run'' (\<lambda>v fl. fl\<lparr>fl_dry_run := v\<rparr>),
      bool_flag ''benchmark_enable_random_interleaving'' (\<lambda>v fl. fl\<lparr>fl_enable_random_interleaving := v\<rparr>),
      bool_flag ''benchmark_report_aggregates_only'' (\<lambda>v fl. fl\<lparr>fl_report_aggregates_only := v\<rparr>),
      bool_flag ''benchmark_display_aggregates_only'' (\<lambda>v fl. fl\<lparr>fl_display_aggregates_only := v\<rparr>),
      string_flag ''benchmark_format'' (\<lambda>v fl. fl\<lparr>fl_format := v\<rparr>),
      string_flag ''benchmark_out'' (\<lambda>v fl. fl\<lparr>fl_out := v\<rparr>),
      string_flag ''benchmark_out_format'' (\<lambda>v fl. fl\<lparr>fl_out_format := v\<rparr>),
      string_flag ''benchmark_color'' (\<lambda>v fl. fl\<lparr>fl_color := v\<rparr>),
      bool_flag ''benchmark_counters_tabular'' (\<lambda>v fl. fl\<lparr>fl_counters_tabular := v\<rparr>),
      string_flag ''benchmark_perf_counters'' (\<lambda>v fl. fl\<lparr>fl_perf_counters := v\<rparr>),
      context_flag ''benchmark_context'',
      string_flag ''benchmark_time_unit'' (\<lambda>v fl. fl\<lparr>fl_time_unit := v\<rparr>),
      int32_flag ''v'' (\<lambda>v fl. fl\<lparr>fl_v := v\<rparr>)]"

fun parse_chain :: "arg_parser list \<Rightarrow> arg_parser" where
  "parse_chain [] arg fl = (False, [], fl)"
| "parse_chain (p # ps) arg fl =
     (case p arg fl of
        (True, e, fl') \<Rightarrow> (True, e, fl')
      | (False, e, fl') \<Rightarrow> (case parse_chain ps arg fl' of (ok, e', fl'') \<Rightarrow> (ok, e @ e', fl'')))"

definition parse_arg :: arg_parser where
  "parse_arg arg fl = parse_chain arg_parsers arg fl"

section \<open>The command line\<close>

text \<open>
  The loop over \<open>argv\<close>: an argument that is a flag is removed from the vector, \<open>--help\<close> prints the
  usage and exits, everything else stays.  The result is the rest of \<open>argv\<close> (without \<open>argv[0]\<close>), the
  flags and the printed text.
\<close>

fun parse_args :: "string list \<Rightarrow> BenchFlags \<Rightarrow> (string list \<times> BenchFlags \<times> string) res" where
  "parse_args [] fl = Inr ([], fl, [])"
| "parse_args (arg # argv) fl =
     (case parse_arg arg fl of (ok, e, fl') \<Rightarrow>
        if ok then rbind (parse_args argv fl') (\<lambda>(kept, fl'', e'). Inr (kept, fl'', e @ e'))
        else if IsFlag arg ''help'' then Inl (ExitWith 0)
        else rbind (parse_args argv fl') (\<lambda>(kept, fl'', e'). Inr (arg # kept, fl'', e @ e')))"

record Globals =
  g_flags :: BenchFlags
  g_default_time_unit :: TimeUnit
  g_context :: "kv_map option"
  g_executable_name :: string
  g_log_level :: int

definition valid_format :: "string \<Rightarrow> bool" where
  "valid_format s \<longleftrightarrow> s = ''console'' \<or> s = ''json'' \<or> s = ''csv''"

definition SetDefaultTimeUnit :: "TimeUnit \<Rightarrow> Globals \<Rightarrow> Globals" where
  "SetDefaultTimeUnit unit g = g\<lparr>g_default_time_unit := unit\<rparr>"

definition SetDefaultTimeUnitFromFlag :: "string \<Rightarrow> Globals \<Rightarrow> Globals res" where
  "SetDefaultTimeUnitFromFlag time_unit_flag g =
     (if time_unit_flag = ''s'' then Inr (SetDefaultTimeUnit kSecond g)
      else if time_unit_flag = ''ms'' then Inr (SetDefaultTimeUnit kMillisecond g)
      else if time_unit_flag = ''us'' then Inr (SetDefaultTimeUnit kMicrosecond g)
      else if time_unit_flag = ''ns'' then Inr (SetDefaultTimeUnit kNanosecond g)
      else if time_unit_flag \<noteq> [] then Inl (ExitWith 0)
      else Inr g)"

text \<open>
  A key that is already present keeps its value.  The message the code then prints reads the two
  strings after they were moved from, so its text is not determined and is left out.
\<close>

definition AddCustomContext :: "string \<Rightarrow> string \<Rightarrow> Globals \<Rightarrow> Globals" where
  "AddCustomContext key val g =
     (let m = (case g_context g of None \<Rightarrow> [] | Some m \<Rightarrow> m)
      in g\<lparr>g_context := Some (fst (map_emplace key val m))\<rparr>)"

definition SetBenchmarkFilter :: "string \<Rightarrow> Globals \<Rightarrow> Globals" where
  "SetBenchmarkFilter val g = g\<lparr>g_flags := (g_flags g)\<lparr>fl_filter := val\<rparr>\<rparr>"

text \<open>\<open>argv\<close> is \<open>None\<close> where the code is called with a null \<open>argc\<close>.\<close>

definition ParseCommandLineFlags ::
  "string list option \<Rightarrow> Globals \<Rightarrow> (string list option \<times> string \<times> Globals) res" where
  "ParseCommandLineFlags argv g =
     (let g0 = g\<lparr>g_executable_name := (case argv of Some (a # _) \<Rightarrow> a | _ \<Rightarrow> ''unknown'')\<rparr> in
      rbind (case argv of
               Some (a # as) \<Rightarrow> rbind (parse_args as (g_flags g0)) (\<lambda>(kept, fl, e). Inr (Some (a # kept), fl, e))
             | _ \<Rightarrow> Inr (argv, g_flags g0, [])) (\<lambda>(argv', fl, e).
      if \<not> valid_format (fl_format fl) \<or> \<not> valid_format (fl_out_format fl) then Inl (ExitWith 0)
      else
        rbind (SetDefaultTimeUnitFromFlag (fl_time_unit fl) (g0\<lparr>g_flags := fl\<rparr>)) (\<lambda>g1.
        if fl_color fl = [] then Inl (ExitWith 0)
        else
          (let g2 = (if fl_dry_run fl then AddCustomContext ''dry_run'' ''true'' g1 else g1)
           in Inr (argv', e, foldl (\<lambda>g kv. AddCustomContext (fst kv) (snd kv) g) g2 (fl_context fl))))))"

definition Initialize ::
  "string list option \<Rightarrow> Globals \<Rightarrow> (string list option \<times> string \<times> Globals) res" where
  "Initialize argv g =
     rbind (ParseCommandLineFlags argv g) (\<lambda>(argv', e, g1).
     Inr (argv', e, g1\<lparr>g_log_level := fl_v (g_flags g1)\<rparr>))"

definition ReportUnrecognizedArguments :: "string list \<Rightarrow> bool \<times> string" where
  "ReportUnrecognizedArguments argv =
     (length argv > 1,
      concat (map (\<lambda>a. hd argv @ '': error: unrecognized command-line flag: '' @ a @ ''\<newline>'') (tl argv)))"

section \<open>Output options\<close>

text \<open>The bit set \<open>OutputOptions\<close> as its two bits.\<close>

record OutputOptions =
  oo_color :: bool
  oo_tabular :: bool

definition GetOutputOptions :: "bool \<Rightarrow> BenchFlags \<Rightarrow> bool \<Rightarrow> OutputOptions" where
  "GetOutputOptions is_color_terminal fl force_no_color =
     \<lparr>oo_color = (if force_no_color then False
                  else if fl_color fl = ''auto'' then is_color_terminal
                  else IsTruthyFlagValue (fl_color fl)),
      oo_tabular = fl_counters_tabular fl\<rparr>"

end
