(* ===== verification/Runner.thy ===== *)
theory Runner
  imports Instances Stats Runtime Options
begin

text \<open>
  One benchmark instance under measurement: src/src/benchmark_runner.cc and benchmark_runner.h.

  What lies outside of the sources is in a \<open>harness\<close>: the user's function (\<open>h_run\<close>, indexed by
  the number of the call), the clocks and performance counters each call sees, the answers of a
  registered memory manager, and the order in which the threads of a run finish.  The threads of
  a run are composed in that order; \<open>Threads\<close> shows that every interleaving of the threads gives the
  results of this composition.  A \<open>machine\<close> counts the calls and records, in order, the
  events a user can observe.
\<close>

section \<open>The minimum time flag\<close>

datatype BenchTimeType = UNSPECIFIED | ITERS int | TIME double

definition malformed_iters :: "string \<Rightarrow> string" where
  "malformed_iters val = ''Malformed iters value passed to --benchmark_min_time: `'' @ val @
     ''`. Expected --benchmark_min_time=<integer>x.''"

definition malformed_seconds :: "string \<Rightarrow> string" where
  "malformed_seconds val = ''Malformed seconds value passed to --benchmark_min_time: `'' @ val @
     ''`. Expected --benchmark_min_time=<float>x.''"

definition ParseBenchMinTime :: "string \<Rightarrow> BenchTimeType res" where
  "ParseBenchMinTime val =
     (if val = [] then Inr (TIME (Fin 0))
      else if last val = CHR ''x'' then
        (let (num_iters, p_end, range_error) = strtol val in
         rbind (BM_CHECK (\<not> range_error \<and> p_end \<noteq> [] \<and> hd p_end = CHR ''x'') (malformed_iters val)) (\<lambda>_.
         Inr (ITERS num_iters)))
      else
        (let has_suffix = (last val = CHR ''s''); (min_time, p_end, range_error) = strtod val in
         rbind (BM_CHECK (\<not> range_error \<and> (has_suffix \<and> p_end \<noteq> [] \<and> hd p_end = CHR ''s'' \<or> p_end = []))
            (malformed_seconds val)) (\<lambda>_.
         Inr (TIME min_time))))"

definition kDefaultMinTime :: double where
  "kDefaultMinTime = fst (strtod kDefaultMinTimeStr)"

definition ComputeMinTime :: "BenchmarkInstance \<Rightarrow> BenchTimeType \<Rightarrow> double" where
  "ComputeMinTime b iters_or_time =
     (if \<not> IsZero (i_min_time b) then i_min_time b
      else (case iters_or_time of ITERS _ \<Rightarrow> kDefaultMinTime | TIME t \<Rightarrow> t | UNSPECIFIED \<Rightarrow> Fin 0))"

definition ComputeIters :: "BenchmarkInstance \<Rightarrow> BenchTimeType \<Rightarrow> int res" where
  "ComputeIters b iters_or_time =
     (if i_iterations b \<noteq> 0 then Inr (i_iterations b)
      else (case iters_or_time of ITERS n \<Rightarrow> Inr n
            | _ \<Rightarrow> Inl (CheckFailed ''iters_or_time.tag == BenchTimeType::ITERS'')))"

section \<open>The runner\<close>

record RunResults =
  rr_non_aggregates :: "Run list"
  rr_aggregates_only :: "Run list"
  rr_display_report_aggregates_only :: bool
  rr_file_report_aggregates_only :: bool

text \<open>
  \<open>br_family\<close> is the pointer to the reports of the family, as the family's key in the map that owns
  them; \<open>br_perf\<close> the performance-counter measurement, as its counter names.
\<close>

record BenchmarkRunner =
  br_run_results :: RunResults
  br_b :: BenchmarkInstance
  br_family :: "int option"
  br_parsed_benchtime_flag :: BenchTimeType
  br_min_time :: double
  br_min_warmup_time :: double
  br_warmup_done :: bool
  br_repeats :: int
  br_has_explicit_iteration_count :: bool
  br_num_repetitions_done :: int
  br_iters :: int
  br_perf :: "string list option"

definition kMaxIterations :: int where "kMaxIterations = 1000000000000"

definition is_ITERS :: "BenchTimeType \<Rightarrow> bool" where
  "is_ITERS t = (case t of ITERS _ \<Rightarrow> True | _ \<Rightarrow> False)"

text \<open>\<open>BenchmarkRunner::BenchmarkRunner\<close>.\<close>

definition aggregates_flags :: "BenchFlags \<Rightarrow> BenchmarkInstance \<Rightarrow> bool \<times> bool" where
  "aggregates_flags fl b =
     (if i_aggregation_report_mode b \<noteq> ARM_Unspecified
      then (i_aggregation_report_mode b AND ARM_DisplayReportAggregatesOnly \<noteq> 0,
            i_aggregation_report_mode b AND ARM_FileReportAggregatesOnly \<noteq> 0)
      else (fl_report_aggregates_only fl \<or> fl_display_aggregates_only fl, fl_report_aggregates_only fl))"

definition check_perf_counters ::
  "BenchFlags \<Rightarrow> BenchmarkInstance \<Rightarrow> string list option \<Rightarrow> unit res" where
  "check_perf_counters fl b perf =
     (if i_aggregation_report_mode b \<noteq> ARM_Unspecified \<and> fl_perf_counters fl \<noteq> []
      then (case perf of None \<Rightarrow> Inl (Undefined ''null perf_counters_measurement_ptr'')
            | Some names \<Rightarrow> BM_CHECK (names = []) ''Perf counters were requested but could not be set up.'')
      else Inr ())"

text \<open>
  \<open>GetThreadRunner\<close>: the default thread runner has a vector of \<open>threads - 1\<close> threads, whose size, converted to
  \<open>size_t\<close>, is too large for fewer than one thread.
\<close>

definition GetThreadRunner :: "int \<Rightarrow> unit res" where
  "GetThreadRunner num_threads =
     (if num_threads < 1 then Inl (Threw ''std::length_error: cannot create std::vector larger than max_size()'') else Inr ())"

definition BenchmarkRunner_new ::
  "BenchFlags \<Rightarrow> BenchmarkInstance \<Rightarrow> string list option \<Rightarrow> int option \<Rightarrow> BenchmarkRunner res" where
  "BenchmarkRunner_new fl b perf family =
     rbind (ParseBenchMinTime (fl_min_time fl)) (\<lambda>flag.
     (let min_time = (if fl_dry_run fl then Fin 0 else ComputeMinTime b flag);
          min_warmup_time =
            (if fl_dry_run fl then Fin 0
             else if \<not> IsZero (i_min_time b) \<and> Fin 0 < i_min_warmup_time b then i_min_warmup_time b
             else fl_min_warmup_time fl);
          explicit = (i_iterations b \<noteq> 0 \<or> is_ITERS flag);
          (display_only, file_only) = aggregates_flags fl b
      in
      rbind (GetThreadRunner (i_threads b)) (\<lambda>_.
      rbind (if fl_dry_run fl then Inr 1 else if explicit then ComputeIters b flag else Inr 1) (\<lambda>iters.
      rbind (check_perf_counters fl b perf) (\<lambda>_.
      Inr \<lparr>br_run_results = \<lparr>rr_non_aggregates = [], rr_aggregates_only = [],
             rr_display_report_aggregates_only = display_only,
             rr_file_report_aggregates_only = file_only\<rparr>,
           br_b = b, br_family = family, br_parsed_benchtime_flag = flag,
           br_min_time = min_time, br_min_warmup_time = min_warmup_time,
           br_warmup_done = (if fl_dry_run fl then True else \<not> Fin 0 < min_warmup_time),
           br_repeats = (if fl_dry_run fl then 1
             else if i_repetitions b \<noteq> 0 then i_repetitions b else fl_repetitions fl),
           br_has_explicit_iteration_count = explicit,
           br_num_repetitions_done = 0, br_iters = iters, br_perf = perf\<rparr>)))))"

definition HasRepeatsRemaining :: "BenchmarkRunner \<Rightarrow> bool" where
  "HasRepeatsRemaining r \<longleftrightarrow> br_repeats r \<noteq> br_num_repetitions_done r"

definition GetMinTimeToApply :: "BenchmarkRunner \<Rightarrow> double" where
  "GetMinTimeToApply r = (if br_warmup_done r then br_min_time r else br_min_warmup_time r)"

section \<open>One run of the benchmark\<close>

record harness =
  h_run :: "nat \<Rightarrow> body"
  h_real_clock :: "nat \<Rightarrow> nat \<Rightarrow> double"
  h_thread_cpu :: "nat \<Rightarrow> nat \<Rightarrow> double"
  h_process_cpu :: "nat \<Rightarrow> nat \<Rightarrow> double"
  h_perf_stops :: "nat \<Rightarrow> nat \<Rightarrow> (string \<times> double) list option"
  h_order :: "nat \<Rightarrow> int \<Rightarrow> int list"
  h_memory_manager :: bool
  h_memory_stop :: "nat \<Rightarrow> MemoryResult \<Rightarrow> MemoryResult"
  h_profiler_manager :: bool
  h_junk :: int
  h_default_time_unit :: TimeUnit

datatype machine_event =
    MSetup callback
  | MTeardown callback
  | MThread int int "event list"
  | MMemoryStart
  | MMemoryStop

record machine =
  m_calls :: nat
  m_trace :: "machine_event list"

definition machine_init :: machine where
  "machine_init = \<lparr>m_calls = 0, m_trace = []\<rparr>"

definition m_emit :: "machine_event \<Rightarrow> machine \<Rightarrow> machine" where
  "m_emit e m = m\<lparr>m_trace := m_trace m @ [e]\<rparr>"

text \<open>\<open>Setup\<close> and \<open>Teardown\<close> build a \<open>State\<close> of one iteration without timer or manager.\<close>

definition Instance_Setup :: "BenchmarkInstance \<Rightarrow> machine \<Rightarrow> machine res" where
  "Instance_Setup b m =
     (case i_setup b of None \<Rightarrow> Inr m
      | Some cb \<Rightarrow> rbind (State_new (n_function_name (i_name b)) 1 (i_args b) 0 (i_threads b) None)
          (\<lambda>_. Inr (m_emit (MSetup cb) m)))"

definition Instance_Teardown :: "BenchmarkInstance \<Rightarrow> machine \<Rightarrow> machine res" where
  "Instance_Teardown b m =
     (case i_teardown b of None \<Rightarrow> Inr m
      | Some cb \<Rightarrow> rbind (State_new (n_function_name (i_name b)) 1 (i_args b) 0 (i_threads b) None)
          (\<lambda>_. Inr (m_emit (MTeardown cb) m)))"

text \<open>\<open>BenchmarkInstance::Run\<close>: a new state, and the user's function on it.\<close>

definition Instance_Run ::
  "body \<Rightarrow> BenchmarkInstance \<Rightarrow> int \<Rightarrow> int \<Rightarrow> world \<Rightarrow> (State \<times> world) res" where
  "Instance_Run f b iters thread_id w =
     rbind (State_new (n_function_name (i_name b)) iters (i_args b) thread_id (i_threads b) (w_perf w))
       (\<lambda>st. f st w)"

definition thread_world ::
  "harness \<Rightarrow> nat \<Rightarrow> BenchmarkInstance \<Rightarrow> string list option \<Rightarrow> bool \<Rightarrow> ThreadResult \<Rightarrow> world" where
  "thread_world h k b perf profiled results =
     \<lparr>w_timer = Some (ThreadTimer_new (i_measure_process_cpu_time b)), w_results = Some results,
      w_perf = map_option (\<lambda>names. \<lparr>p_names = names, p_stops = h_perf_stops h k\<rparr>) perf,
      w_perf_stops = 0, w_profiler = profiled, w_real_clock = h_real_clock h k,
      w_thread_cpu = h_thread_cpu h k, w_process_cpu = h_process_cpu h k, w_ticks = 0, w_trace = []\<rparr>"

definition did_not_run :: string where
  "did_not_run = ''The benchmark didn't run, nor was it explicitly skipped. Please call '' @
     '''SkipWithXXX` in your benchmark as appropriate.''"

text \<open>The measurements of one thread are added to the shared results, under the mutex.\<close>

definition merge_results :: "State \<Rightarrow> ThreadTimer \<Rightarrow> ThreadResult \<Rightarrow> ThreadResult res" where
  "merge_results st timer results =
     rbind (chk_int in_i64 (tr_iterations results + iterations st)) (\<lambda>iters.
     rbind (cpu_time_used timer) (\<lambda>cpu.
     rbind (real_time_used timer) (\<lambda>rt.
     rbind (manual_time_used timer) (\<lambda>manual.
     rbind (chk_int in_i64 (tr_complexity_n results + s_complexity_n st)) (\<lambda>cn.
     Inr (results\<lparr>tr_iterations := iters,
       tr_cpu_time_used := tr_cpu_time_used results + cpu,
       tr_real_time_used := tr_real_time_used results + rt,
       tr_manual_time_used := tr_manual_time_used results + manual,
       tr_complexity_n := cn,
       tr_counters := Increment (tr_counters results) (s_counters st)\<rparr>))))))"

definition RunInThread ::
  "harness \<Rightarrow> BenchmarkInstance \<Rightarrow> int \<Rightarrow> string list option \<Rightarrow> bool \<Rightarrow>
   ThreadResult \<times> machine \<Rightarrow> int \<Rightarrow> (ThreadResult \<times> machine) res" where
  "RunInThread h b iters perf profiled = (\<lambda>(results, m) thread_id.
     rbind (Instance_Run (h_run h (m_calls m)) b iters thread_id
              (thread_world h (m_calls m) b perf profiled results)) (\<lambda>(st, w).
     rbind (if \<not> (skipped st \<or> iterations st \<ge> s_max_iterations st)
            then SkipWithError did_not_run st w else Inr (st, w)) (\<lambda>(st1, w1).
     rbind (the_results w1) (\<lambda>r.
     rbind (the_timer w1) (\<lambda>timer.
     rbind (merge_results st1 timer r) (\<lambda>r1.
     Inr (r1, (m_emit (MThread thread_id iters (w_trace w1)) m)\<lparr>m_calls := Suc (m_calls m)\<rparr>)))))))"

record IterationResults =
  it_results :: ThreadResult
  it_iters :: int
  it_seconds :: double

definition decision_seconds :: "BenchmarkInstance \<Rightarrow> ThreadResult \<Rightarrow> double" where
  "decision_seconds b r =
     (if i_use_manual_time b then tr_manual_time_used r
      else if i_use_real_time b then tr_real_time_used r
      else tr_cpu_time_used r)"

text \<open>
  The default thread runner has \<open>threads - 1\<close> threads in its pool and runs the last one itself; a
  user-supplied runner is assumed to call the function once for each index too.
\<close>

definition DoNIterations :: "harness \<Rightarrow> BenchmarkRunner \<Rightarrow> machine \<Rightarrow> (IterationResults \<times> machine) res" where
  "DoNIterations h r m =
     (let b = br_b r in
      rbind (rfold (RunInThread h b (br_iters r) (br_perf r) False) (ThreadResult_init, m)
               (h_order h (m_calls m) (i_threads b))) (\<lambda>(results, m1).
      Inr (\<lparr>it_results = results, it_iters = cquot (tr_iterations results) (i_threads b),
            it_seconds = decision_seconds b results\<rparr>, m1)))"

section \<open>How many iterations\<close>

definition PredictNumItersNeeded :: "BenchmarkRunner \<Rightarrow> IterationResults \<Rightarrow> int res" where
  "PredictNumItersNeeded r i =
     (let multiplier = GetMinTimeToApply r * rnd (14 / 10) / std_max (it_seconds i) (rnd (1 / 1000000000));
          is_significant = rnd (1 / 10) < it_seconds i / GetMinTimeToApply r;
          multiplier = (if is_significant then multiplier else Fin 10)
      in rbind (llround (std_max (multiplier * double_of_int (it_iters i)) (double_of_int (it_iters i) + Fin 1)))
           (\<lambda>max_next_iters. Inr (min max_next_iters kMaxIterations)))"

definition ShouldReportIterationResults :: "BenchFlags \<Rightarrow> BenchmarkRunner \<Rightarrow> IterationResults \<Rightarrow> bool" where
  "ShouldReportIterationResults fl r i \<longleftrightarrow>
     tr_skipped (it_results i) \<noteq> NotSkipped \<or> fl_dry_run fl \<or> it_iters i \<ge> kMaxIterations \<or>
     GetMinTimeToApply r \<le> it_seconds i \<or>
     (Fin 5 * GetMinTimeToApply r \<le> tr_real_time_used (it_results i) \<and> \<not> i_use_manual_time (br_b r))"

definition FinishWarmUp :: "int \<Rightarrow> BenchmarkRunner \<Rightarrow> BenchmarkRunner" where
  "FinishWarmUp i r = r\<lparr>br_warmup_done := True, br_iters := i\<rparr>"

text \<open>One turn of the measuring loops: \<open>Setup\<close>, the iterations, \<open>Teardown\<close>.\<close>

definition iterate_once :: "harness \<Rightarrow> BenchmarkRunner \<Rightarrow> machine \<Rightarrow> (IterationResults \<times> machine) res" where
  "iterate_once h r m =
     rbind (Instance_Setup (br_b r) m) (\<lambda>m1.
     rbind (DoNIterations h r m1) (\<lambda>(i, m2).
     rbind (Instance_Teardown (br_b r) m2) (\<lambda>m3.
     Inr (i, m3))))"

text \<open>
  The \<open>for (;;)\<close> loops of \<open>RunWarmUp\<close> and \<open>DoOneRepetition\<close>, which differ in when they stop.  \<open>fuel\<close>
  bounds the turns; \<open>None\<close> means that it ran out.
\<close>

fun measuring_loop ::
  "nat \<Rightarrow> harness \<Rightarrow> (BenchmarkRunner \<Rightarrow> IterationResults \<Rightarrow> bool) \<Rightarrow> BenchmarkRunner \<Rightarrow> machine \<Rightarrow>
   (IterationResults \<times> BenchmarkRunner \<times> machine) res option" where
  "measuring_loop 0 h finish r m = None"
| "measuring_loop (Suc fuel) h finish r m =
     (case iterate_once h r m of
        Inl e \<Rightarrow> Some (Inl e)
      | Inr (i, m1) \<Rightarrow>
          if finish r i then Some (Inr (i, r, m1))
          else (case PredictNumItersNeeded r i of
                  Inl e \<Rightarrow> Some (Inl e)
                | Inr iters \<Rightarrow>
                    if iters > it_iters i then measuring_loop fuel h finish (r\<lparr>br_iters := iters\<rparr>) m1
                    else Some (Inl (AssertFailed ''iters > i.iters''))))"

definition RunWarmUp ::
  "nat \<Rightarrow> harness \<Rightarrow> BenchFlags \<Rightarrow> BenchmarkRunner \<Rightarrow> machine \<Rightarrow> (BenchmarkRunner \<times> machine) res option" where
  "RunWarmUp fuel h fl r m =
     (let i_backup = br_iters r in
      case measuring_loop fuel h (ShouldReportIterationResults fl) r m of
        None \<Rightarrow> None
      | Some (Inl e) \<Rightarrow> Some (Inl e)
      | Some (Inr (i, r1, m1)) \<Rightarrow> Some (Inr (FinishWarmUp i_backup r1, m1)))"

section \<open>Memory and profiler passes\<close>

definition single_run ::
  "harness \<Rightarrow> BenchmarkInstance \<Rightarrow> int \<Rightarrow> string list option \<Rightarrow> bool \<Rightarrow> machine \<Rightarrow> machine res" where
  "single_run h b iters perf profiled m =
     rbind (Instance_Setup b m) (\<lambda>m1.
     rbind (RunInThread h b iters perf profiled (ThreadResult_init, m1) 0) (\<lambda>(_, m2).
     Instance_Teardown b m2))"

definition RunMemoryManager :: "harness \<Rightarrow> BenchmarkRunner \<Rightarrow> int \<Rightarrow> machine \<Rightarrow> (MemoryResult \<times> machine) res" where
  "RunMemoryManager h r memory_iterations m =
     rbind (single_run h (br_b r) memory_iterations (br_perf r) False (m_emit MMemoryStart m)) (\<lambda>m1.
     Inr ((h_memory_stop h (m_calls m1) MemoryResult_init)\<lparr>m_memory_iterations := memory_iterations\<rparr>,
          m_emit MMemoryStop m1))"

definition RunProfilerManager :: "harness \<Rightarrow> BenchmarkRunner \<Rightarrow> int \<Rightarrow> machine \<Rightarrow> machine res" where
  "RunProfilerManager h r profile_iterations m = single_run h (br_b r) profile_iterations None True m"

section \<open>The report of a repetition\<close>

definition CreateRunReport ::
  "harness \<Rightarrow> BenchmarkInstance \<Rightarrow> ThreadResult \<Rightarrow> int \<Rightarrow> MemoryResult \<Rightarrow> double \<Rightarrow> int \<Rightarrow> int \<Rightarrow> Run" where
  "CreateRunReport h b results memory_iterations memory_result seconds repetition_index repeats =
     (let report = (Run_init (h_junk h) (h_default_time_unit h))
            \<lparr>r_run_name := i_name b,
             r_family_index := i_family_index b,
             r_per_family_instance_index := i_per_family_instance_index b,
             r_skipped := tr_skipped results,
             r_skip_message := tr_skip_message results,
             r_report_label := tr_report_label results,
             r_iterations := tr_iterations results,
             r_time_unit := i_time_unit b,
             r_threads := i_threads b,
             r_repetition_index := repetition_index,
             r_repetitions := repeats\<rparr>
      in if tr_skipped results \<noteq> NotSkipped then report
         else
           (let report1 = report
                  \<lparr>r_real_accumulated_time := (if i_use_manual_time b then tr_manual_time_used results
                     else tr_real_time_used results),
                   r_use_real_time_for_initial_big_o := i_use_manual_time b,
                   r_cpu_accumulated_time := tr_cpu_time_used results,
                   r_complexity_n := tr_complexity_n results,
                   r_complexity := i_complexity b,
                   r_complexity_lambda := i_complexity_lambda b,
                   r_statistics := Some (i_statistics b)\<rparr>;
                report2 = (if memory_iterations > 0
                  then report1\<lparr>r_memory_result := memory_result,
                    r_allocs_per_iter := double_of_int (m_num_allocs memory_result) / double_of_int memory_iterations\<rparr>
                  else report1)
            in report2\<lparr>r_counters := Finish (tr_counters results) (tr_iterations results) seconds
                 (double_of_int (i_threads b))\<rparr>))"

record PerFamilyRunReports =
  pf_num_runs_total :: int
  pf_num_runs_done :: int
  pf_Runs :: "Run list"

definition record_in_family :: "Run \<Rightarrow> PerFamilyRunReports \<Rightarrow> PerFamilyRunReports" where
  "record_in_family report pf =
     pf\<lparr>pf_num_runs_done := pf_num_runs_done pf + 1,
        pf_Runs := (if r_skipped report = NotSkipped then pf_Runs pf @ [report] else pf_Runs pf)\<rparr>"

definition add_report :: "Run \<Rightarrow> BenchmarkRunner \<Rightarrow> BenchmarkRunner" where
  "add_report report r =
     r\<lparr>br_run_results := (br_run_results r)\<lparr>rr_non_aggregates := rr_non_aggregates (br_run_results r) @ [report]\<rparr>,
       br_num_repetitions_done := br_num_repetitions_done r + 1\<rparr>"

definition results_are_significant :: "BenchFlags \<Rightarrow> bool \<Rightarrow> BenchmarkRunner \<Rightarrow> IterationResults \<Rightarrow> bool" where
  "results_are_significant fl is_the_first_repetition r i \<longleftrightarrow>
     \<not> is_the_first_repetition \<or> br_has_explicit_iteration_count r \<or> ShouldReportIterationResults fl r i"

text \<open>What \<open>DoOneRepetition\<close> does after the measuring loop.\<close>

definition finish_repetition ::
  "harness \<Rightarrow> IterationResults \<Rightarrow> BenchmarkRunner \<Rightarrow> PerFamilyRunReports option \<Rightarrow> machine \<Rightarrow>
   (BenchmarkRunner \<times> PerFamilyRunReports option \<times> machine) res" where
  "finish_repetition h i r pf m =
     (let memory_iterations = (if h_memory_manager h then min 16 (br_iters r) else 0) in
      rbind (if h_memory_manager h then RunMemoryManager h r memory_iterations m
             else Inr (MemoryResult_init, m)) (\<lambda>(memory_result, m1).
      rbind (if h_profiler_manager h then RunProfilerManager h r (br_iters r) m1 else Inr m1) (\<lambda>m2.
      (let report = CreateRunReport h (br_b r) (it_results i) memory_iterations memory_result (it_seconds i)
             (br_num_repetitions_done r) (br_repeats r)
       in Inr (add_report report r, map_option (record_in_family report) pf, m2)))))"

definition DoOneRepetition ::
  "nat \<Rightarrow> harness \<Rightarrow> BenchFlags \<Rightarrow> BenchmarkRunner \<Rightarrow> PerFamilyRunReports option \<Rightarrow> machine \<Rightarrow>
   (BenchmarkRunner \<times> PerFamilyRunReports option \<times> machine) res option" where
  "DoOneRepetition fuel h fl r pf m =
     (if \<not> HasRepeatsRemaining r then Some (Inl (AssertFailed ''HasRepeatsRemaining()''))
      else
        (let is_the_first_repetition = (br_num_repetitions_done r = 0) in
         case (if \<not> br_warmup_done r then RunWarmUp fuel h fl r m else Some (Inr (r, m))) of
           None \<Rightarrow> None
         | Some (Inl e) \<Rightarrow> Some (Inl e)
         | Some (Inr (r1, m1)) \<Rightarrow>
             (case measuring_loop fuel h (results_are_significant fl is_the_first_repetition) r1 m1 of
                None \<Rightarrow> None
              | Some (Inl e) \<Rightarrow> Some (Inl e)
              | Some (Inr (i, r2, m2)) \<Rightarrow> Some (finish_repetition h i r2 pf m2))))"

definition GetResults :: "harness \<Rightarrow> BenchmarkRunner \<Rightarrow> RunResults res" where
  "GetResults h r =
     rbind (ASSERT (\<not> HasRepeatsRemaining r) ''!HasRepeatsRemaining()'') (\<lambda>_.
     rbind (ComputeStats (h_junk h) (h_default_time_unit h) (rr_non_aggregates (br_run_results r))) (\<lambda>aggregates.
     Inr ((br_run_results r)\<lparr>rr_aggregates_only := aggregates\<rparr>)))"

end
