(* ===== verification/Session.thy ===== *)
theory Session
  imports Runner Fitting
begin

text \<open>
  The session that runs the selected benchmarks: \<open>RunBenchmarks\<close> and \<open>RunSpecifiedBenchmarks\<close>
  (src/src/benchmark.cc).

  A reporter is an object with virtual functions; the session is modelled by the sequence of calls
  it makes to the display reporter and to the file reporter, and the reporters of the library turn
  such a sequence into text (theories \<open>Console\<close>, \<open>Csv\<close>, \<open>Json\<close>).  Parameters: which performance
  counters can be opened, the shuffle of \<open>std::shuffle\<close>, the answers of \<open>ReportContext\<close>, which files
  can be opened.
\<close>

section \<open>Calls to a reporter\<close>

datatype report_call =
    CallContext nat
  | CallRunsConfig double bool int
  | CallRuns "Run list"
  | CallFinalize
  | CallFlush

text \<open>\<open>report_one\<close>: without aggregates the runs themselves are reported, whatever was asked for.\<close>

definition report_one :: "bool \<Rightarrow> RunResults \<Rightarrow> report_call list" where
  "report_one aggregates_only results =
     (let aggregates_only = (aggregates_only \<and> rr_aggregates_only results \<noteq> [])
      in (if \<not> aggregates_only then [CallRuns (rr_non_aggregates results)] else []) @
         (if rr_aggregates_only results \<noteq> [] then [CallRuns (rr_aggregates_only results)] else []))"

text \<open>The calls so far: the display reporter's, and the file reporter's when there is one.\<close>

record outputs =
  out_display :: "report_call list"
  out_file :: "report_call list option"

definition to_display :: "report_call list \<Rightarrow> outputs \<Rightarrow> outputs" where
  "to_display cs out = out\<lparr>out_display := out_display out @ cs\<rparr>"

definition to_file :: "report_call list \<Rightarrow> outputs \<Rightarrow> outputs" where
  "to_file cs out = out\<lparr>out_file := map_option (\<lambda>f. f @ cs) (out_file out)\<rparr>"

definition FlushStreams :: "outputs \<Rightarrow> outputs" where
  "FlushStreams out = to_file [CallFlush] (to_display [CallFlush] out)"

definition Report :: "RunResults \<Rightarrow> outputs \<Rightarrow> outputs" where
  "Report run_results out =
     FlushStreams
       (to_file (report_one (rr_file_report_aggregates_only run_results) run_results)
         (to_display (report_one (rr_display_report_aggregates_only run_results) run_results) out))"

section \<open>Before the first run\<close>

text \<open>The width of the name column.\<close>

definition might_have_aggregates :: "BenchFlags \<Rightarrow> BenchmarkInstance list \<Rightarrow> bool" where
  "might_have_aggregates fl benchmarks \<longleftrightarrow>
     fl_repetitions fl > 1 \<or> (\<exists>b \<in> set benchmarks. i_repetitions b > 1)"

definition name_field_width :: "BenchFlags \<Rightarrow> BenchmarkInstance list \<Rightarrow> nat" where
  "name_field_width fl benchmarks =
     (let name_width = foldl (\<lambda>w b. max w (length (BenchmarkName_str (i_name b)))) 10 benchmarks;
          stat_width = foldl (\<lambda>w b. foldl (\<lambda>w s. max w (length (st_name s))) w (i_statistics b)) 0 benchmarks
      in if might_have_aggregates fl benchmarks then name_width + (1 + stat_width) else name_width)"

text \<open>\<open>per_family_reports[family_index]\<close> inserts a default value; the runner keeps a pointer to it.\<close>

type_synonym family_reports = "(int, PerFamilyRunReports) stdmap"

definition PerFamilyRunReports_init :: PerFamilyRunReports where
  "PerFamilyRunReports_init = \<lparr>pf_num_runs_total = 0, pf_num_runs_done = 0, pf_Runs = []\<rparr>"

definition family_entry :: "int \<Rightarrow> family_reports \<Rightarrow> PerFamilyRunReports" where
  "family_entry key families =
     (case map_of families key of None \<Rightarrow> PerFamilyRunReports_init | Some pf \<Rightarrow> pf)"

record setup_state =
  su_runners :: "BenchmarkRunner list"
  su_families :: family_reports
  su_total :: nat
  su_with_threads :: int

text \<open>The body of the loop that creates the runners; \<open>num_repetitions_total\<close> is a \<open>size_t\<close>.\<close>

definition add_runner ::
  "BenchFlags \<Rightarrow> string list \<Rightarrow> setup_state \<Rightarrow> BenchmarkInstance \<Rightarrow> setup_state res" where
  "add_runner fl perf s benchmark =
     (let key = (if i_complexity benchmark \<noteq> oNone then Some (i_family_index benchmark) else None) in
      rbind (BenchmarkRunner_new fl benchmark (Some perf) key) (\<lambda>runner.
      (let families = (case key of None \<Rightarrow> su_families s
             | Some k \<Rightarrow> (let pf = family_entry k (su_families s) in
                 map_put k (pf\<lparr>pf_num_runs_total := pf_num_runs_total pf + br_repeats runner\<rparr>) (su_families s)))
       in Inr (s\<lparr>su_runners := su_runners s @ [runner],
                 su_families := families,
                 su_total := nat ((int (su_total s) + br_repeats runner) mod 2 ^ 64),
                 su_with_threads := su_with_threads s + (if i_threads benchmark > 1 then 1 else 0)\<rparr>))))"

text \<open>
  \<open>reserve\<close> throws for more elements than a vector can have, and the number of indices must agree
  with the total; \<open>std::fill_n\<close> with a negative count writes nothing.
\<close>

definition vector_max_size :: nat where "vector_max_size = (2 ^ 63 - 1) div 8"

definition repetition_indices_of :: "nat \<Rightarrow> BenchmarkRunner list \<Rightarrow> nat list res" where
  "repetition_indices_of num_repetitions_total runners =
     (if num_repetitions_total > vector_max_size then Inl (Threw ''std::length_error: vector::reserve'')
      else
        (let indices = concat (map (\<lambda>(i, r). replicate (nat (br_repeats r)) i) (enumerate 0 runners)) in
         rbind (ASSERT (length indices = num_repetitions_total) ''repetition_indices.size() == num_repetitions_total'')
           (\<lambda>_. Inr indices)))"

definition threads_warning :: "int \<Rightarrow> nat \<Rightarrow> string" where
  "threads_warning benchmarks_with_threads num_counters =
     (if benchmarks_with_threads > 0 \<and> num_counters > 0
      then ''***WARNING*** There are '' @ show_int benchmarks_with_threads @
           '' benchmarks with threads and '' @ show_int (int num_counters) @
           '' performance counters were requested. Beware counters will '' @
           ''reflect the combined usage across all threads.'' @ ''\<newline>''
      else [])"

section \<open>The repetitions\<close>

record loop_state =
  lp_runners :: "BenchmarkRunner list"
  lp_families :: family_reports
  lp_machine :: machine
  lp_out :: outputs

text \<open>A range-\<open>for\<close> loop whose body may fail or not return.\<close>

fun ofold :: "('s \<Rightarrow> 'a \<Rightarrow> 's res option) \<Rightarrow> 's \<Rightarrow> 'a list \<Rightarrow> 's res option" where
  "ofold f s [] = Some (Inr s)"
| "ofold f s (x # xs) =
     (case f s x of None \<Rightarrow> None | Some (Inl e) \<Rightarrow> Some (Inl e) | Some (Inr s') \<Rightarrow> ofold f s' xs)"

text \<open>The complexity report of a family, once all of its runs are done; its entry is erased then.\<close>

definition family_report ::
  "harness \<Rightarrow> double libm \<Rightarrow> BenchmarkRunner \<Rightarrow> family_reports \<Rightarrow> RunResults \<Rightarrow> (RunResults \<times> family_reports) res" where
  "family_report h m runner families results =
     (case br_family runner of
        None \<Rightarrow> Inr (results, families)
      | Some key \<Rightarrow>
          (case map_of families key of
             None \<Rightarrow> Inl (Undefined ''dangling reports_for_family'')
           | Some pf \<Rightarrow>
               if pf_num_runs_done pf = pf_num_runs_total pf then
                 rbind (ComputeBigO m (h_junk h) (h_default_time_unit h) (pf_Runs pf)) (\<lambda>additional_run_stats.
                 case pf_Runs pf of
                   [] \<Rightarrow> Inl (Undefined ''front() of an empty vector'')
                 | front # _ \<Rightarrow>
                     Inr (results\<lparr>rr_aggregates_only := rr_aggregates_only results @ additional_run_stats\<rparr>,
                          map_erase (r_family_index front) families))
               else Inr (results, families)))"

definition runs_config :: "BenchmarkRunner \<Rightarrow> report_call" where
  "runs_config r = CallRunsConfig (br_min_time r) (br_has_explicit_iteration_count r) (br_iters r)"

text \<open>What happens when a runner has done its last repetition.\<close>

definition report_runner ::
  "harness \<Rightarrow> double libm \<Rightarrow> BenchmarkRunner \<Rightarrow> family_reports \<Rightarrow> outputs \<Rightarrow> (family_reports \<times> outputs) res" where
  "report_runner h m runner families out =
     (let out1 = to_file [runs_config runner] (to_display [runs_config runner] out) in
      rbind (GetResults h runner) (\<lambda>run_results.
      rbind (family_report h m runner families run_results) (\<lambda>(results, families').
      Inr (families', Report results out1))))"

definition run_repetition ::
  "nat \<Rightarrow> harness \<Rightarrow> double libm \<Rightarrow> BenchFlags \<Rightarrow> loop_state \<Rightarrow> nat \<Rightarrow> loop_state res option" where
  "run_repetition fuel h m fl s repetition_index =
     (if repetition_index \<ge> length (lp_runners s) then Some (Inl (Undefined ''vector index out of range''))
      else
        (let runner = lp_runners s ! repetition_index;
             pf = (case br_family runner of None \<Rightarrow> None | Some key \<Rightarrow> map_of (lp_families s) key)
         in if br_family runner \<noteq> None \<and> pf = None then Some (Inl (Undefined ''dangling reports_for_family''))
            else
              (case DoOneRepetition fuel h fl runner pf (lp_machine s) of
                 None \<Rightarrow> None
               | Some (Inl e) \<Rightarrow> Some (Inl e)
               | Some (Inr (runner', pf', mach)) \<Rightarrow>
                   (let families = (case (br_family runner, pf') of
                          (Some key, Some p) \<Rightarrow> map_put key p (lp_families s) | _ \<Rightarrow> lp_families s);
                        s1 = s\<lparr>lp_runners := (lp_runners s)[repetition_index := runner'],
                               lp_families := families, lp_machine := mach\<rparr>
                    in if HasRepeatsRemaining runner' then Some (Inr s1)
                       else Some (rbind (report_runner h m runner' families (lp_out s)) (\<lambda>(families', out).
                         Inr (s1\<lparr>lp_families := families', lp_out := out\<rparr>)))))))"

section \<open>RunBenchmarks\<close>

text \<open>
  \<open>perf_open\<close> gives the names of the performance counters that could be set up, \<open>shuffle\<close> the
  permutation that random interleaving applies, \<open>ctx_display\<close> and \<open>ctx_file\<close> what \<open>ReportContext\<close> of the
  two reporters returns.  The file reporter's \<open>ReportContext\<close> is only called when the display
  reporter's returned true.
\<close>

record session_env =
  se_harness :: harness
  se_libm :: "double libm"
  se_perf_open :: "string list \<Rightarrow> string list"
  se_shuffle :: "nat list \<Rightarrow> nat list"
  se_ctx_display :: bool
  se_ctx_file :: bool
  se_can_open :: "string \<Rightarrow> bool"
  se_is_color_terminal :: bool
  se_compile :: "string \<Rightarrow> string + (string \<Rightarrow> bool)"

definition run_all ::
  "nat \<Rightarrow> session_env \<Rightarrow> BenchFlags \<Rightarrow> BenchmarkInstance list \<Rightarrow> outputs \<Rightarrow> machine \<Rightarrow>
   (outputs \<times> machine \<times> string) res option" where
  "run_all fuel env fl benchmarks out mach =
     (let perf = se_perf_open env (StrSplit (fl_perf_counters fl) CHR '','') in
      case rfold (add_runner fl perf)
             \<lparr>su_runners = [], su_families = [], su_total = 0, su_with_threads = 0\<rparr> benchmarks of
        Inl e \<Rightarrow> Some (Inl e)
      | Inr su \<Rightarrow>
          (case repetition_indices_of (su_total su) (su_runners su) of
             Inl e \<Rightarrow> Some (Inl e)
           | Inr indices \<Rightarrow>
               (case ofold (run_repetition fuel (se_harness env) (se_libm env) fl)
                       \<lparr>lp_runners = su_runners su, lp_families = su_families su, lp_machine = mach, lp_out = out\<rparr>
                       (if fl_enable_random_interleaving fl then se_shuffle env indices else indices) of
                  None \<Rightarrow> None
                | Some (Inl e) \<Rightarrow> Some (Inl e)
                | Some (Inr s) \<Rightarrow> Some (Inr (lp_out s, lp_machine s,
                    threads_warning (su_with_threads su) (length perf))))))"

definition finalize_all :: "outputs \<Rightarrow> outputs" where
  "finalize_all out = FlushStreams (to_file [CallFinalize] (to_display [CallFinalize] out))"

definition RunBenchmarks ::
  "nat \<Rightarrow> session_env \<Rightarrow> BenchFlags \<Rightarrow> BenchmarkInstance list \<Rightarrow> outputs \<Rightarrow> machine \<Rightarrow>
   (outputs \<times> machine \<times> string) res option" where
  "RunBenchmarks fuel env fl benchmarks out mach =
     (let context = CallContext (name_field_width fl benchmarks);
          out1 = to_display [context] out;
          out2 = (if se_ctx_display env then to_file [context] out1 else out1)
      in if se_ctx_display env \<and> (out_file out = None \<or> se_ctx_file env) then
           (case run_all fuel env fl benchmarks (FlushStreams out2) mach of
              None \<Rightarrow> None
            | Some (Inl e) \<Rightarrow> Some (Inl e)
            | Some (Inr (out3, mach', err)) \<Rightarrow> Some (Inr (finalize_all out3, mach', err)))
         else Some (Inr (finalize_all out2, mach, [])))"

section \<open>RunSpecifiedBenchmarks\<close>

datatype reporter = ConsoleReporter OutputOptions | JSONReporter | CSVReporter | CustomReporter

text \<open>An unknown format is reported on \<open>std::cerr\<close> and exits.\<close>

definition CreateReporter :: "string \<Rightarrow> OutputOptions \<Rightarrow> reporter res" where
  "CreateReporter name output_opts =
     (if name = ''console'' then Inr (ConsoleReporter output_opts)
      else if name = ''json'' then Inr JSONReporter
      else if name = ''csv'' then Inr CSVReporter
      else Inl (ExitWith 1))"

definition CreateDefaultDisplayReporter :: "bool \<Rightarrow> BenchFlags \<Rightarrow> reporter res" where
  "CreateDefaultDisplayReporter is_color_terminal fl =
     CreateReporter (fl_format fl) (GetOutputOptions is_color_terminal fl False)"

text \<open>
  The result of a session: the reporters used, their calls, what was written directly to the display
  reporter's output and error streams and to the log, and the returned count.
\<close>

record session_result =
  sr_display :: reporter
  sr_file :: "reporter option"
  sr_outputs :: outputs
  sr_out_text :: string
  sr_err_text :: string
  sr_log_text :: string
  sr_count :: nat
  sr_machine :: machine
  sr_families :: BenchmarkFamilies

definition setup_file_reporter ::
  "session_env \<Rightarrow> BenchFlags \<Rightarrow> reporter option \<Rightarrow> reporter option res" where
  "setup_file_reporter env fl file_reporter =
     (if fl_out fl = [] then
        (if file_reporter \<noteq> None then Inl (ExitWith 1) else Inr None)
      else if \<not> se_can_open env (fl_out fl) then Inl (ExitWith 1)
      else (case file_reporter of
          Some r \<Rightarrow> Inr (Some r)
        | None \<Rightarrow> rbind (CreateReporter (fl_out_format fl) \<lparr>oo_color = False, oo_tabular = fl_counters_tabular fl\<rparr>)
            (\<lambda>r. Inr (Some r))))"

definition effective_spec :: "string \<Rightarrow> string" where
  "effective_spec spec = (if spec = [] \<or> spec = ''all'' then ''.'' else spec)"

definition RunSpecifiedBenchmarks ::
  "nat \<Rightarrow> session_env \<Rightarrow> BenchFlags \<Rightarrow> BenchmarkFamilies \<Rightarrow> reporter option \<Rightarrow> reporter option \<Rightarrow> string \<Rightarrow>
   machine \<Rightarrow> session_result res option" where
  "RunSpecifiedBenchmarks fuel env fl families display_reporter file_reporter spec0 mach =
     (let spec = effective_spec spec0 in
      case rbind (case display_reporter of Some r \<Rightarrow> Inr r
                  | None \<Rightarrow> CreateDefaultDisplayReporter (se_is_color_terminal env) fl) (\<lambda>display.
           rbind (setup_file_reporter env fl file_reporter) (\<lambda>file.
           rbind (FindBenchmarks (h_default_time_unit (se_harness env)) (se_compile env) families spec [])
             (\<lambda>(found, families', fs). Inr (display, file, found, families', fs)))) of
        Inl e \<Rightarrow> Some (Inl e)
      | Inr (display, file, found, families', fs) \<Rightarrow>
          (let benchmarks = fs_benchmarks fs;
               none = \<lparr>out_display = [], out_file = map_option (\<lambda>_. []) file\<rparr>;
               result = (\<lambda>outputs out err warnings count m. \<lparr>sr_display = display, sr_file = file,
                 sr_outputs = outputs, sr_out_text = out, sr_err_text = fs_err fs @ err, sr_log_text = warnings,
                 sr_count = count, sr_machine = m, sr_families = families'\<rparr>)
           in if \<not> found then Some (Inr (result none [] [] [] 0 mach))
              else if benchmarks = [] then
                Some (Inr (result none []
                  (''Failed to match any benchmarks against regex: '' @ spec @ ''\<newline>'') [] 0 mach))
              else if fl_list_tests fl then
                Some (Inr (result none (concat (map (\<lambda>b. BenchmarkName_str (i_name b) @ ''\<newline>'') benchmarks)) [] []
                  (length benchmarks) mach))
              else (case RunBenchmarks fuel env fl benchmarks none mach of
                  None \<Rightarrow> None
                | Some (Inl e) \<Rightarrow> Some (Inl e)
                | Some (Inr (outputs, mach', warnings)) \<Rightarrow>
                    Some (Inr (result outputs [] [] warnings (length benchmarks) mach')))))"

end
