(* ===== verification/Measuring.thy ===== *)
theory Measuring
  imports Runner
begin

text \<open>
  Correctness of the measuring loops of the runner (src/src/benchmark_runner.cc): the prediction of
  the number of iterations in IEEE arithmetic, termination of the loops, what a repetition reports.
\<close>

section \<open>The prediction\<close>

lemma round53_relative_error:
  assumes "pow2 (-1022) \<le> r" shows "\<bar>round53 r - r\<bar> \<le> r * (1 / 9007199254740992)"
proof -
  have r: "0 < r" using assms by (meson less_le_trans pow2_pos)
  have "-1022 \<le> ilog2 r" using ilog2_mono[OF _ assms] ilog2_eqI[of "-1022" "pow2 (-1022)"]
    by (simp add: pow2_less_iff)
  then have g: "grid_exp r = ilog2 r - 52" using r by (simp add: grid_exp_def)
  have "pow2 (grid_exp r) / 2 = pow2 (ilog2 r) * pow2 (-53)"
    unfolding g using pow2_add[of "ilog2 r" "-53"] pow2_add[of "ilog2 r - 53" 1] by (simp add: algebra_simps)
  also have "\<dots> \<le> r * pow2 (-53)" using ilog2_bounds[OF r] by (intro mult_right_mono) simp_all
  also have "pow2 (-53) = 1 / 9007199254740992" by (simp add: power_int_minus)
  finally show ?thesis using round53_error[of r] by linarith
qed

lemma tenth_bounds:
  "dfinite (rnd (1 / 10)) \<and> 25 / 256 \<le> dval (rnd (1 / 10)) \<and> dval (rnd (1 / 10)) \<le> 1 / 8"
  by (rule rnd_sandwich)
    (simp_all add: representableI[of _ 25 "-8"] representableI[of _ 1 "-3"] power_int_minus)

lemma factor_bounds:
  "dfinite (rnd (14 / 10)) \<and> 2867 / 2048 \<le> dval (rnd (14 / 10)) \<and> dval (rnd (14 / 10)) \<le> 3 / 2"
  by (rule rnd_sandwich)
    (simp_all add: representableI[of _ 2867 "-11"] representableI[of _ 3 "-1"] power_int_minus)

lemma nano_bounds:
  "dfinite (rnd (1 / 1000000000)) \<and> 1 / 1073741824 \<le> dval (rnd (1 / 1000000000)) \<and>
   dval (rnd (1 / 1000000000)) \<le> 1 / 536870912"
  by (rule rnd_sandwich)
    (simp_all add: representableI[of _ 1 "-30"] representableI[of _ 1 "-29"] power_int_minus)

text \<open>The growth factor that is applied when the last run was significant.\<close>

lemma growth_factor_bounds:
  fixes mt sec :: rat
  assumes m: "1 / 1073741824 \<le> mt" "mt \<le> 2 ^ 1000" and s: "25 / 256 * mt \<le> sec" "sec \<le> mt"
  shows "\<exists>p q. Fin mt * rnd (14 / 10) = Fin p \<and> 0 < p \<and> Fin p / Fin sec = Fin q \<and>
    1433 / 1024 \<le> q \<and> q \<le> 22"
proof -
  let ?f = "dval (rnd (14 / 10))"
  obtain f where f: "rnd (14 / 10) = Fin f" "2867 / 2048 \<le> f" "f \<le> 3 / 2"
    using factor_bounds by (cases "rnd (14 / 10)") auto
  have m0: "0 < mt" using m(1) by linarith
  define r where "r = mt * f"
  have r: "2867 / 2048 * mt \<le> r" "r \<le> 3 / 2 * mt"
    using f m0 mult_left_mono[of "2867 / 2048" f mt] mult_left_mono[of f "3 / 2" mt] by (simp_all add: r_def mult.commute)
  have "pow2 (-1022) \<le> pow2 (-30)" by (rule pow2_mono) simp
  then have "pow2 (-1022) \<le> 1 / 1073741824" by (simp add: power_int_minus)
  then have "pow2 (-1022) \<le> r" using m(1) m0 r(1) by linarith
  from round53_relative_error[OF this] have err: "\<bar>round53 r - r\<bar> \<le> r * (1 / 9007199254740992)" .
  have p: "1433 / 1024 * mt \<le> round53 r" "round53 r \<le> 2 * mt" "0 < round53 r"
    using err r m0 unfolding abs_le_iff by linarith+
  have "round53 r \<le> 2 * 2 ^ 1000" using p(2) m(2) mult_left_mono[of mt "2 ^ 1000" 2] by (meson order_trans zero_le_numeral)
  also have "\<dots> < 2 ^ 1024" by simp
  finally have "round53 r < 2 ^ 1024" .
  then have rndr: "rnd r = Fin (round53 r)" using p(3) by (simp add: rnd_def)
  have prod: "Fin mt * rnd (14 / 10) = Fin (round53 r)"
    using f m0 p(3) rndr by (simp add: rnd_signed_def r_def)
  have s0: "0 < sec" using s(1) m0 by linarith
  have lo: "1433 / 1024 \<le> round53 r / sec"
  proof -
    have "1433 / 1024 * sec \<le> 1433 / 1024 * mt" using s(2) by simp
    then have "1433 / 1024 * sec \<le> round53 r" using p(1) by linarith
    then show ?thesis using s0 by (simp add: pos_le_divide_eq)
  qed
  have hi: "round53 r / sec \<le> 22"
  proof -
    have "round53 r \<le> 22 * sec" using p(2) s(1) m0 by linarith
    then show ?thesis using s0 by (simp add: pos_divide_le_eq)
  qed
  have "dfinite (rnd (round53 r / sec)) \<and> 1433 / 1024 \<le> dval (rnd (round53 r / sec)) \<and>
      dval (rnd (round53 r / sec)) \<le> 22"
    by (rule rnd_sandwich[OF _ _ _ _ lo hi])
      (simp_all add: representableI[of _ 1433 "-10"] representableI[of _ 22 0] power_int_minus)
  then obtain q where q: "rnd (round53 r / sec) = Fin q" "1433 / 1024 \<le> q" "q \<le> 22"
    by (cases "rnd (round53 r / sec)") auto
  have "round53 (round53 r / sec) \<noteq> 0"
    using q dval_rnd[of "round53 r / sec"] by auto
  then have "Fin (round53 r) / Fin sec = Fin q" using s0 p(3) q(1) by (simp add: rnd_signed_def)
  then show ?thesis using prod p(3) q by blast
qed

text \<open>The requested number of iterations for a growth factor between 1.399 and 22.\<close>

lemma requested_iterations:
  assumes n: "1 \<le> n" "n < kMaxIterations" and q: "1433 / 1024 \<le> q" "q \<le> 22"
  shows "\<exists>k. llround (std_max (Fin q * double_of_int n) (double_of_int n + Fin 1)) = Inr k \<and> n < k \<and> 4 * n \<le> 3 * k"
proof -
  have n': "1 \<le> n" "n < 1000000000000" using n by (auto simp: kMaxIterations_def)
  have dn: "double_of_int n = Fin (of_int n)" using n' by (intro double_of_int_exact) simp
  have "representable (of_int (n + 1))" using n' by (intro representable_int) simp
  then have dn1: "double_of_int n + Fin 1 = Fin (of_int n + 1)" using n' dn by (simp add: rnd_exact)
  define x where "x = q * of_int n"
  have nr: "(1::rat) \<le> of_int n" "(of_int n::rat) < 1000000000000" 
    using n' of_int_less_iff[of n 1000000000000, where 'a = rat] by simp_all
  have x: "1433 / 1024 * of_int n \<le> x" "x \<le> 22 * of_int n"
    using q nr by (auto simp: x_def intro: mult_right_mono)
  have "dfinite (rnd x) \<and> of_int (1433 * n) / 1024 \<le> dval (rnd x) \<and> dval (rnd x) \<le> of_int (22 * n)"
  proof (rule rnd_sandwich)
    show "representable (of_int (1433 * n) / 1024)"
      using n' by (intro representableI[of _ "1433 * n" "-10"]) (simp_all add: power_int_minus)
    show "representable (of_int (22 * n))" using n' by (intro representable_int) simp
  qed (use x nr in simp_all)
  then obtain v where v: "rnd x = Fin v" "of_int (1433 * n) / 1024 \<le> v" "v \<le> of_int (22 * n)"
    using nr by (cases "rnd x") auto
  have "round53 x \<noteq> 0" using v nr dval_rnd[of x] by auto
  then have prod: "Fin q * double_of_int n = Fin v" using v(1) dn by (simp add: rnd_signed_def x_def)
  define y where "y = max v (of_int n + 1)"
  have mx: "std_max (Fin q * double_of_int n) (double_of_int n + Fin 1) = Fin y"
    unfolding prod dn1 by (auto simp: std_max_def y_def)
  define k where "k = \<lfloor>y + 1 / 2\<rfloor>"
  have y: "of_int n + 1 \<le> y" "of_int (1433 * n) / 1024 \<le> y" "y \<le> 22 * of_int n + 1"
    using v nr unfolding y_def by (simp, meson le_max_iff_disj, simp)
  have "n + 1 \<le> k" using y(1) by (simp add: k_def le_floor_iff)
  moreover have "k \<le> 22 * n + 2" using y(3) unfolding k_def by (simp add: floor_le_iff)
  moreover have "\<lfloor>of_int (1433 * n + 512) / (1024 :: rat)\<rfloor> \<le> k"
    unfolding k_def using y(2) by (intro floor_mono) (simp add: field_simps)
  then have "(1433 * n + 512) div 1024 \<le> k" by (metis floor_divide_of_int_eq of_int_numeral)
  ultimately have k: "n < k" "k \<le> 22 * n + 2" "4 * n \<le> 3 * k" by auto
  have "llround (Fin y) = Inr k"
    using y nr k n' by (simp add: llround_def k_def int_width_defs)
  then show ?thesis using mx k by auto
qed

text \<open>A minimum time the loops can work with: zero, or between a nanosecond and \<open>2 ^ 1000\<close> seconds.\<close>

definition good_min_time :: "double \<Rightarrow> bool" where
  "good_min_time m \<longleftrightarrow> m = Fin 0 \<or> (rnd (1 / 1000000000) \<le> m \<and> m \<le> Fin (2 ^ 1000))"

lemma good_min_time_cases:
  assumes "good_min_time m"
  obtains "m = Fin 0" | mt where "m = Fin mt" "dval (rnd (1 / 1000000000)) \<le> mt" "1 / 1073741824 \<le> mt" "mt \<le> 2 ^ 1000"
proof -
  obtain e where "rnd (1 / 1000000000) = Fin e" "1 / 1073741824 \<le> e"
    using nano_bounds by (cases "rnd (1 / 1000000000)") auto
  with assms that show thesis by (cases m) (auto simp: good_min_time_def)
qed

text \<open>A run below 25/256 of the minimum time is never significant, whatever its clocks said.\<close>

lemma significant_seconds:
  assumes "m = Fin 0 \<or> (\<exists>mt > 0. m = Fin mt)" "\<not> m \<le> s" "rnd (1 / 10) < s / m"
  obtains x mt where "s = Fin x" "m = Fin mt" "25 / 256 * mt \<le> x" "x < mt"
proof -
  obtain u where u: "rnd (1 / 10) = Fin u" "25 / 256 \<le> u" using tenth_bounds by (cases "rnd (1 / 10)") auto
  have small: "\<not> Fin u < rnd_signed b t" if "t < 25 / 256" for b t
  proof -
    have "rnd t \<le> Fin (25 / 256)"
      using that by (intro rnd_le_Fin representableI[of _ 25 "-8"]) (simp_all add: power_int_minus)
    then have "\<not> Fin u < rnd t" using u(2) by (cases "rnd t") auto
    then show ?thesis using u(2) by (simp add: rnd_signed_def signed_zero_def)
  qed
  show thesis
  proof (cases s)
    case (Fin x)
    show ?thesis
    proof (cases "m = Fin 0")
      case True
      then show ?thesis using assms(2,3) u Fin by auto
    next
      case False
      then obtain mt where mt: "m = Fin mt" "0 < mt" using assms(1) by auto
      then have "\<not> x / mt < 25 / 256"
        using small[of "x / mt"] assms(3) u(1) Fin by auto
      then show ?thesis using that[of x mt] mt Fin assms(2) by (simp add: not_less pos_le_divide_eq)
    qed
  qed (use assms u small[of 0 True] in \<open>auto split: if_splits\<close>)
qed

lemma PredictNumItersNeeded_grows:
  assumes m: "good_min_time (GetMinTimeToApply r)" "\<not> GetMinTimeToApply r \<le> it_seconds i"
    and n: "1 \<le> it_iters i" "it_iters i < kMaxIterations"
  shows "\<exists>k. PredictNumItersNeeded r i = Inr k \<and> it_iters i < k \<and> k \<le> kMaxIterations \<and>
    (4 * it_iters i \<le> 3 * k \<or> k = kMaxIterations)"
proof -
  let ?m = "GetMinTimeToApply r" and ?s = "it_seconds i" and ?e = "rnd (1 / 1000000000)"
  define q where "q = (if rnd (1 / 10) < ?s / ?m then ?m * rnd (14 / 10) / std_max ?s ?e else Fin 10)"
  have "\<exists>qv. q = Fin qv \<and> 1433 / 1024 \<le> qv \<and> qv \<le> 22"
  proof (cases "rnd (1 / 10) < ?s / ?m")
    case True
    have "?m = Fin 0 \<or> (\<exists>mt > 0. ?m = Fin mt)" using m(1) by (auto elim!: good_min_time_cases)
    then obtain x mt where x: "?s = Fin x" "?m = Fin mt" "25 / 256 * mt \<le> x" "x < mt"
      using significant_seconds[OF _ m(2) True] by blast
    then have mt: "dval ?e \<le> mt" "1 / 1073741824 \<le> mt" "mt \<le> 2 ^ 1000"
      using m(1) by (auto elim!: good_min_time_cases)
    obtain e where e: "?e = Fin e" using nano_bounds by (cases ?e) auto
    have "std_max ?s ?e = Fin (max x e)" unfolding e x(1) by (auto simp: std_max_def)
    moreover have "25 / 256 * mt \<le> max x e" "max x e \<le> mt" using x mt(1) e by auto
    ultimately show ?thesis
      using growth_factor_bounds[OF mt(2,3), of "max x e"] True x(2) by (auto simp: q_def)
  qed (auto simp: q_def)
  then obtain qv where qv: "q = Fin qv" "1433 / 1024 \<le> qv" "qv \<le> 22" by blast
  from requested_iterations[OF n qv(2,3)] obtain k where
    k: "llround (std_max (q * double_of_int (it_iters i)) (double_of_int (it_iters i) + Fin 1)) = Inr k"
    "it_iters i < k" "4 * it_iters i \<le> 3 * k" unfolding qv(1) by blast
  have "PredictNumItersNeeded r i = Inr (min k kMaxIterations)"
    by (simp only: PredictNumItersNeeded_def Let_def q_def[symmetric] k(1) rbind_Inr)
  then show ?thesis using k n by (auto simp: min_def)
qed

section \<open>Well-behaved benchmarks\<close>

text \<open>
  What the library asks of a benchmark function: it returns, with its timer stopped; it does not write
  the private members of the state and of the shared results other than through the library (so a
  skipped state has left a skip in the results, the number asked for is unchanged), and its counts
  stay below \<open>cap\<close>, so that adding them over the threads does not overflow.
\<close>

definition well_behaved :: "body \<Rightarrow> int \<Rightarrow> int \<Rightarrow> bool" where
  "well_behaved f iters cap \<longleftrightarrow> (\<forall>st w r. fresh st \<and> s_max_iterations st = iters \<and> s_complexity_n st = 0 \<and>
     world_ready False w \<and> w_results w = Some r \<longrightarrow>
     (\<exists>st' w' r'. f st w = Inr (st', w') \<and> s_max_iterations st' = iters \<and> world_ready False w' \<and>
        w_results w' = Some r' \<and> tr_iterations r' = tr_iterations r \<and> tr_complexity_n r' = tr_complexity_n r \<and>
        (skipped st' \<or> tr_skipped r \<noteq> NotSkipped \<longrightarrow> tr_skipped r' \<noteq> NotSkipped) \<and>
        0 \<le> iterations st' \<and> iterations st' \<le> cap \<and> 0 \<le> s_batch_leftover st' \<and>
        iters + s_batch_leftover st' \<le> cap \<and> \<bar>s_complexity_n st'\<bar> \<le> cap))"

text \<open>The harness runs every thread index once, and every call of the function is well behaved.\<close>

definition good_harness :: "harness \<Rightarrow> BenchmarkInstance \<Rightarrow> string list option \<Rightarrow> bool" where
  "good_harness h b perf \<longleftrightarrow> 1 \<le> i_threads b \<and> (perf = None \<or> perf = Some []) \<and>
     (\<forall>k. length (h_order h k (i_threads b)) = nat (i_threads b) \<and>
          set (h_order h k (i_threads b)) \<subseteq> {0..<i_threads b}) \<and>
     (\<exists>cap. cap * i_threads b \<le> int64_max \<and>
        (\<forall>k iters. 1 \<le> iters \<and> iters \<le> kMaxIterations \<longrightarrow> well_behaved (h_run h k) iters cap))"

lemma State_new_fresh:
  assumes "1 \<le> iters" "tid < n" "perf_idle perf"
  obtains st where "State_new name iters args tid n perf = Inr st" "fresh st" "s_max_iterations st = iters"
    "s_complexity_n st = 0"
  using assms by (cases perf) (auto simp: State_new_def fresh_def control_def)

text \<open>A skip while the timer is stopped: the first reason stays in the shared results.\<close>

definition first_skip :: "Skipped \<Rightarrow> string \<Rightarrow> ThreadResult \<Rightarrow> ThreadResult" where
  "first_skip reason msg r = (if tr_skipped r = NotSkipped
     then r\<lparr>tr_skip_message := msg, tr_skipped := reason\<rparr> else r)"

lemma skip_with_stopped:
  assumes "w_results w = Some r" "w_timer w = Some t" "\<not> t_running t"
  shows "skip_with reason msg st w =
    Inr (st\<lparr>s_skipped := reason, s_total_iterations := 0\<rparr>, w\<lparr>w_results := Some (first_skip reason msg r)\<rparr>)"
  using assms by (simp add: skip_with_def first_skip_def the_results_def the_timer_def Let_def)

text \<open>The counts after \<open>k\<close> of the threads.\<close>

definition counts_ok :: "int \<Rightarrow> int \<Rightarrow> int \<Rightarrow> ThreadResult \<Rightarrow> bool" where
  "counts_ok iters cap k r \<longleftrightarrow> 0 \<le> tr_iterations r \<and> tr_iterations r \<le> k * cap \<and>
     \<bar>tr_complexity_n r\<bar> \<le> k * cap \<and> (tr_skipped r = NotSkipped \<longrightarrow> k * iters \<le> tr_iterations r)"

lemma merge_results_ok:
  assumes "\<not> t_running timer" "counts_ok iters cap k r0" "tr_iterations r = tr_iterations r0"
    "tr_complexity_n r = tr_complexity_n r0" "tr_skipped r = NotSkipped \<longrightarrow> tr_skipped r0 = NotSkipped \<and> iters \<le> iterations st"
    "0 \<le> iterations st" "iterations st \<le> cap" "\<bar>s_complexity_n st\<bar> \<le> cap" "(k + 1) * cap \<le> int64_max"
  shows "\<exists>r1. merge_results st timer r = Inr r1 \<and> counts_ok iters cap (k + 1) r1"
proof -
  have "tr_iterations r + iterations st \<le> (k + 1) * cap" "\<bar>tr_complexity_n r + s_complexity_n st\<bar> \<le> (k + 1) * cap"
    "0 \<le> tr_iterations r + iterations st"
    using assms by (auto simp: counts_ok_def distrib_right)
  moreover from this have "in_i64 (tr_iterations r + iterations st)" "in_i64 (tr_complexity_n r + s_complexity_n st)"
    using assms(9) by (auto simp: int_width_defs)
  ultimately show ?thesis
    using assms by (auto simp: merge_results_def cpu_time_used_def real_time_used_def manual_time_used_def
        counts_ok_def distrib_right)
qed

text \<open>One call of the user's function, with the skip of a benchmark that did not run.\<close>

lemma Instance_Run_ok:
  assumes wb: "well_behaved f iters cap" and iters: "1 \<le> iters"
    and perf: "perf = None \<or> perf = Some []" and tid: "tid < i_threads b"
  shows "\<exists>st w st1 w1 r1 t. Instance_Run f b iters tid (thread_world h k b perf profiled r) = Inr (st, w) \<and>
    (if \<not> (skipped st \<or> iterations st \<ge> s_max_iterations st) then SkipWithError did_not_run st w
     else Inr (st, w)) = Inr (st1, w1) \<and>
    w_results w1 = Some r1 \<and> w_timer w1 = Some t \<and> \<not> t_running t \<and> tr_iterations r1 = tr_iterations r \<and>
    tr_complexity_n r1 = tr_complexity_n r \<and>
    (tr_skipped r1 = NotSkipped \<longrightarrow> tr_skipped r = NotSkipped \<and> iters \<le> iterations st1) \<and>
    0 \<le> iterations st1 \<and> iterations st1 \<le> cap \<and> \<bar>s_complexity_n st1\<bar> \<le> cap"
proof -
  let ?w = "thread_world h k b perf profiled r"
  have w: "world_ready False ?w" "w_results ?w = Some r" "perf_idle (w_perf ?w)"
    using perf by (auto simp: thread_world_def world_ready_def perf_idle_def ThreadTimer_new_def)
  obtain st where st: "State_new (n_function_name (i_name b)) iters (i_args b) tid (i_threads b) (w_perf ?w) = Inr st"
    "fresh st" "s_max_iterations st = iters" "s_complexity_n st = 0"
    using State_new_fresh[OF iters tid w(3)] by metis
  obtain st' w' r' where run: "f st ?w = Inr (st', w')" "s_max_iterations st' = iters"
    "world_ready False w'" "w_results w' = Some r'" "tr_iterations r' = tr_iterations r"
    "tr_complexity_n r' = tr_complexity_n r"
    "skipped st' \<or> tr_skipped r \<noteq> NotSkipped \<longrightarrow> tr_skipped r' \<noteq> NotSkipped"
    "0 \<le> iterations st'" "iterations st' \<le> cap" "0 \<le> s_batch_leftover st'" "iters + s_batch_leftover st' \<le> cap"
    "\<bar>s_complexity_n st'\<bar> \<le> cap"
    using wb st w unfolding well_behaved_def by metis
  have called: "Instance_Run f b iters tid ?w = Inr (st', w')" using st(1) run(1) by (simp add: Instance_Run_def)
  obtain t where t: "w_timer w' = Some t" "\<not> t_running t" using run(3) by (auto simp: world_ready_def)
  let ?ran = "skipped st' \<or> iterations st' \<ge> s_max_iterations st'"
  show ?thesis
  proof (cases ?ran)
    case True
    then show ?thesis using called run t by (intro exI[of _ st'] exI[of _ w'] exI[of _ r'] exI[of _ t]) auto
  next
    case False
    let ?st = "st'\<lparr>s_skipped := SkippedWithError, s_total_iterations := 0\<rparr>"
    let ?r = "first_skip SkippedWithError did_not_run r'"
    have "SkipWithError did_not_run st' w' = Inr (?st, w'\<lparr>w_results := Some ?r\<rparr>)"
      using skip_with_stopped[OF run(4) t] by (simp add: skip_calls)
    then have *: "(if \<not> ?ran then SkipWithError did_not_run st' w' else Inr (st', w')) =
        Inr (?st, w'\<lparr>w_results := Some ?r\<rparr>)"
      using False by presburger
    have "0 \<le> iterations ?st" "iterations ?st \<le> cap"
      using run(2,10,11) iters by (auto simp: iterations_def)
    moreover have "tr_skipped ?r \<noteq> NotSkipped" by (simp add: first_skip_def)
    moreover have "tr_iterations ?r = tr_iterations r" "tr_complexity_n ?r = tr_complexity_n r"
      using run(5,6) by (simp_all add: first_skip_def)
    ultimately show ?thesis
      using called * run(12) t
      by (intro exI[of _ st'] exI[of _ w'] exI[of _ ?st] exI[of _ "w'\<lparr>w_results := Some ?r\<rparr>"] exI[of _ ?r] exI[of _ t]) simp
  qed
qed

lemma RunInThread_ok:
  assumes wb: "well_behaved (h_run h (m_calls m)) iters cap" and iters: "1 \<le> iters"
    and perf: "perf = None \<or> perf = Some []" and tid: "tid < i_threads b"
    and r: "counts_ok iters cap k r" and cap: "(k + 1) * cap \<le> int64_max"
  shows "\<exists>r1 m1. RunInThread h b iters perf profiled (r, m) tid = Inr (r1, m1) \<and>
    counts_ok iters cap (k + 1) r1 \<and> m_calls m1 = Suc (m_calls m)"
proof -
  obtain st w st1 w1 r1 t where run:
    "Instance_Run (h_run h (m_calls m)) b iters tid (thread_world h (m_calls m) b perf profiled r) = Inr (st, w)"
    "(if \<not> (skipped st \<or> iterations st \<ge> s_max_iterations st) then SkipWithError did_not_run st w
      else Inr (st, w)) = Inr (st1, w1)"
    "w_results w1 = Some r1" "w_timer w1 = Some t" "\<not> t_running t" "tr_iterations r1 = tr_iterations r"
    "tr_complexity_n r1 = tr_complexity_n r"
    "tr_skipped r1 = NotSkipped \<longrightarrow> tr_skipped r = NotSkipped \<and> iters \<le> iterations st1"
    "0 \<le> iterations st1" "iterations st1 \<le> cap" "\<bar>s_complexity_n st1\<bar> \<le> cap"
    using Instance_Run_ok[OF wb iters perf tid, of h "m_calls m" profiled r] by blast
  obtain r2 where "merge_results st1 t r1 = Inr r2" "counts_ok iters cap (k + 1) r2"
    using merge_results_ok[OF run(5) r run(6-11) cap] by blast
  then show ?thesis
    using run(1-4) by (auto simp: RunInThread_def the_results_def the_timer_def m_emit_def)
qed

section \<open>The measuring loops end\<close>

lemma RunInThread_all:
  assumes wb: "\<forall>k. well_behaved (h_run h k) iters cap" and iters: "1 \<le> iters"
    and perf: "perf = None \<or> perf = Some []" and tids: "\<forall>t \<in> set tids. t < i_threads b"
    and r: "counts_ok iters cap k r" and cap: "(k + int (length tids)) * cap \<le> int64_max" and pos: "0 \<le> cap"
  shows "\<exists>r1 m1. rfold (RunInThread h b iters perf profiled) (r, m) tids = Inr (r1, m1) \<and>
    counts_ok iters cap (k + int (length tids)) r1 \<and> m_calls m1 = m_calls m + length tids"
  using tids r cap
proof (induction tids arbitrary: k r m)
  case Nil
  then show ?case by simp
next
  case (Cons t tids)
  have "(k + 1) * cap \<le> (k + int (length (t # tids))) * cap"
    using pos by (intro mult_right_mono) auto
  then have cap1: "(k + 1) * cap \<le> int64_max" using Cons.prems(3) by linarith
  from Cons.prems(1) have "t < i_threads b" by simp
  from RunInThread_ok[OF wb[rule_format] iters perf this Cons.prems(2) cap1, of profiled]
  obtain r1 m1 where 1: "RunInThread h b iters perf profiled (r, m) t = Inr (r1, m1)"
    "counts_ok iters cap (k + 1) r1" "m_calls m1 = Suc (m_calls m)" by blast
  have eq: "k + 1 + int (length tids) = k + int (length (t # tids))" by simp
  have "(k + 1 + int (length tids)) * cap \<le> int64_max" unfolding eq by (rule Cons.prems(3))
  moreover have "\<forall>t \<in> set tids. t < i_threads b" using Cons.prems(1) by simp
  ultimately obtain r2 m2 where
    2: "rfold (RunInThread h b iters perf profiled) (r1, m1) tids = Inr (r2, m2)"
    "counts_ok iters cap (k + 1 + int (length tids)) r2" "m_calls m2 = m_calls m1 + length tids"
    using Cons.IH[OF _ 1(2), of m1] by blast
  then show ?case using 1 unfolding eq by simp
qed

lemma Setup_Teardown_ok:
  assumes "1 \<le> i_threads b"
  shows "\<exists>m'. Instance_Setup b m = Inr m' \<and> m_calls m' = m_calls m"
    and "\<exists>m'. Instance_Teardown b m = Inr m' \<and> m_calls m' = m_calls m"
  using assms by (auto simp: Instance_Setup_def Instance_Teardown_def State_new_def m_emit_def split: option.split)

lemma counts_ok_init: "counts_ok iters cap 0 ThreadResult_init"
  by (simp add: counts_ok_def ThreadResult_init_def)

text \<open>One turn of a loop returns, and has run at least the iterations asked for unless it was skipped.\<close>

lemma iterate_once_ok:
  assumes h: "good_harness h (br_b r) (br_perf r)" and iters: "1 \<le> br_iters r" "br_iters r \<le> kMaxIterations"
  shows "\<exists>i m1. iterate_once h r m = Inr (i, m1) \<and> m_calls m1 = m_calls m + nat (i_threads (br_b r)) \<and>
    (tr_skipped (it_results i) = NotSkipped \<longrightarrow> br_iters r \<le> it_iters i)"
proof -
  let ?b = "br_b r"
  obtain cap where cap: "cap * i_threads ?b \<le> int64_max"
    "\<forall>k iters. 1 \<le> iters \<and> iters \<le> kMaxIterations \<longrightarrow> well_behaved (h_run h k) iters cap"
    and th: "1 \<le> i_threads ?b" and perf: "br_perf r = None \<or> br_perf r = Some []"
    using h by (auto simp: good_harness_def)
  have order: "length (h_order h k (i_threads ?b)) = nat (i_threads ?b)"
    "\<forall>t \<in> set (h_order h k (i_threads ?b)). t < i_threads ?b" for k
  proof -
    have "length (h_order h k (i_threads ?b)) = nat (i_threads ?b)"
      "set (h_order h k (i_threads ?b)) \<subseteq> {0..<i_threads ?b}"
      using h by (auto simp: good_harness_def)
    then show "length (h_order h k (i_threads ?b)) = nat (i_threads ?b)"
      "\<forall>t \<in> set (h_order h k (i_threads ?b)). t < i_threads ?b" by auto
  qed
  have wb: "\<forall>k. well_behaved (h_run h k) (br_iters r) cap" using cap(2) iters by blast
  have "0 \<le> cap" 
  proof -
    have "fresh (sample_state (br_iters r)) \<and> s_max_iterations (sample_state (br_iters r)) = br_iters r \<and>
        s_complexity_n (sample_state (br_iters r)) = 0 \<and> world_ready False (sample_world False) \<and>
        w_results (sample_world False) = Some ThreadResult_init"
      using iters(1) sample_fresh sample_ready by (simp add: sample_state_def sample_world_def)
    then show ?thesis using wb unfolding well_behaved_def by (meson order_trans)
  qed
  obtain m1 where m1: "Instance_Setup ?b m = Inr m1" "m_calls m1 = m_calls m" using Setup_Teardown_ok(1)[OF th] by blast
  obtain res m2 where run: "rfold (RunInThread h ?b (br_iters r) (br_perf r) False) (ThreadResult_init, m1)
      (h_order h (m_calls m1) (i_threads ?b)) = Inr (res, m2)"
    "counts_ok (br_iters r) cap (i_threads ?b) res" "m_calls m2 = m_calls m + nat (i_threads ?b)"
    using RunInThread_all[OF wb iters(1) perf order(2) counts_ok_init _ \<open>0 \<le> cap\<close>] order(1) th cap(1) m1(2)
    by (fastforce simp: mult.commute)
  obtain m3 where m3: "Instance_Teardown ?b m2 = Inr m3" "m_calls m3 = m_calls m2" using Setup_Teardown_ok(2)[OF th] by blast
  have "br_iters r \<le> cquot (tr_iterations res) (i_threads ?b)" if "tr_skipped res = NotSkipped"
  proof -
    have "br_iters r * i_threads ?b \<le> tr_iterations res" "0 \<le> tr_iterations res"
      using run(2) that by (auto simp: counts_ok_def mult.commute)
    then show ?thesis using th zdiv_mono1[of "br_iters r * i_threads ?b" "tr_iterations res" "i_threads ?b"]
      by (simp add: cquot_nonneg)
  qed
  then show ?thesis using m1 run m3 th by (auto simp: iterate_once_def DoNIterations_def Let_def)
qed

lemma GetMinTimeToApply_iters [simp]: "GetMinTimeToApply (r\<lparr>br_iters := k\<rparr>) = GetMinTimeToApply r"
  by (simp add: GetMinTimeToApply_def)

lemma ShouldReport_iters [simp]:
  "ShouldReportIterationResults fl (r\<lparr>br_iters := k\<rparr>) i = ShouldReportIterationResults fl r i"
  by (simp add: ShouldReportIterationResults_def)

text \<open>The loop stops: with \<open>4 ^ f\<close> against \<open>3 ^ f\<close> as the potential, \<open>f + 1\<close> turns are enough.\<close>

lemma measuring_loop_ends:
  assumes h: "good_harness h (br_b r) (br_perf r)" and mt: "good_min_time (GetMinTimeToApply r)"
    and fin: "\<And>k i. ShouldReportIterationResults fl r i \<Longrightarrow> finish (r\<lparr>br_iters := k\<rparr>) i"
    and iters: "1 \<le> br_iters r" "br_iters r \<le> kMaxIterations"
    and fuel: "kMaxIterations * 3 ^ f \<le> br_iters r * 4 ^ f"
  shows "\<exists>i k m1. measuring_loop (Suc f) h finish r m = Some (Inr (i, r\<lparr>br_iters := k\<rparr>, m1)) \<and>
    finish (r\<lparr>br_iters := k\<rparr>) i \<and> br_iters r \<le> k \<and> k \<le> kMaxIterations \<and>
    (tr_skipped (it_results i) = NotSkipped \<longrightarrow> k \<le> it_iters i) \<and>
    m_calls m1 \<le> m_calls m + Suc f * nat (i_threads (br_b r))"
  using h mt fin iters fuel
proof (induction f arbitrary: r m)
  case (0 r m)
  from iterate_once_ok[OF 0(1,4,5)] obtain i m1 where
    i: "iterate_once h r m = Inr (i, m1)" "m_calls m1 = m_calls m + nat (i_threads (br_b r))"
    "tr_skipped (it_results i) = NotSkipped \<longrightarrow> br_iters r \<le> it_iters i" by blast
  have "ShouldReportIterationResults fl r i"
    using i(3) 0(6) by (cases "tr_skipped (it_results i) = NotSkipped") (auto simp: ShouldReportIterationResults_def)
  from 0(3)[OF this, of "br_iters r"] have "finish r i" by simp
  then have "measuring_loop (Suc 0) h finish r m = Some (Inr (i, r\<lparr>br_iters := br_iters r\<rparr>, m1))"
    using i(1) by simp
  then show ?case using 0(4,5) i \<open>finish r i\<close> by (intro exI[of _ i] exI[of _ "br_iters r"] exI[of _ m1]) simp
next
  case (Suc f r m)
  from iterate_once_ok[OF Suc.prems(1,4,5)] obtain i m1 where
    i: "iterate_once h r m = Inr (i, m1)" "m_calls m1 = m_calls m + nat (i_threads (br_b r))"
    "tr_skipped (it_results i) = NotSkipped \<longrightarrow> br_iters r \<le> it_iters i" by blast
  show ?case
  proof (cases "finish r i")
    case True
    then have "measuring_loop (Suc (Suc f)) h finish r m = Some (Inr (i, r\<lparr>br_iters := br_iters r\<rparr>, m1))"
      using i(1) by simp
    then show ?thesis using Suc.prems(4,5) i True
      by (intro exI[of _ i] exI[of _ "br_iters r"] exI[of _ m1]) simp
  next
    case False
    then have "\<not> ShouldReportIterationResults fl r i" using Suc.prems(3)[of i "br_iters r"] by auto
    then have n: "br_iters r \<le> it_iters i" "it_iters i < kMaxIterations" "\<not> GetMinTimeToApply r \<le> it_seconds i"
      using i(3) by (auto simp: ShouldReportIterationResults_def)
    obtain k where k: "PredictNumItersNeeded r i = Inr k" "it_iters i < k" "k \<le> kMaxIterations"
      "4 * it_iters i \<le> 3 * k \<or> k = kMaxIterations"
      using PredictNumItersNeeded_grows[OF Suc.prems(2) n(3) _ n(2)] n(1) Suc.prems(4) by auto
    have "kMaxIterations * 3 ^ f \<le> k * 4 ^ f"
    proof (cases "k = kMaxIterations")
      case True
      then show ?thesis by (simp add: kMaxIterations_def power_mono)
    next
      case False
      then have "4 * br_iters r \<le> 3 * k" using k(4) n(1) by linarith
      then have "4 * br_iters r * 4 ^ f \<le> 3 * k * 4 ^ f" by (intro mult_right_mono) simp_all
      moreover have "3 * (kMaxIterations * 3 ^ f) \<le> 4 * br_iters r * 4 ^ f"
        using Suc.prems(6) by (simp add: mult.assoc mult.left_commute)
      ultimately have "3 * (kMaxIterations * 3 ^ f) \<le> 3 * (k * 4 ^ f)" by (simp only: mult.assoc)
      then show ?thesis by simp
    qed
    moreover have "1 \<le> k" using k(2) n(1) Suc.prems(4) by linarith
    ultimately obtain i' k' m2 where
      "measuring_loop (Suc f) h finish (r\<lparr>br_iters := k\<rparr>) m1 = Some (Inr (i', r\<lparr>br_iters := k'\<rparr>, m2))"
      "finish (r\<lparr>br_iters := k'\<rparr>) i'" "k \<le> k'" "k' \<le> kMaxIterations"
      "tr_skipped (it_results i') = NotSkipped \<longrightarrow> k' \<le> it_iters i'"
      "m_calls m2 \<le> m_calls m1 + Suc f * nat (i_threads (br_b r))"
      using Suc.IH[of "r\<lparr>br_iters := k\<rparr>" m1] Suc.prems(1-3) k(3) by auto
    then show ?thesis
      using i(1,2) False k n(1)
      by (intro exI[of _ i'] exI[of _ k'] exI[of _ m2]) (auto simp del: measuring_loop.simps simp: measuring_loop.simps(2)[of "Suc f"])
  qed
qed

section \<open>A repetition\<close>

lemma add_report_simps [simp]:
  "br_iters (add_report rep r) = br_iters r" "br_b (add_report rep r) = br_b r"
  "GetMinTimeToApply (add_report rep r) = GetMinTimeToApply r"
  "ShouldReportIterationResults fl (add_report rep r) i = ShouldReportIterationResults fl r i"
  by (simp_all add: add_report_def GetMinTimeToApply_def ShouldReportIterationResults_def)

text \<open>98 turns: \<open>(4/3) ^ 97\<close> is above the largest number of iterations.\<close>

definition enough_turns :: nat where "enough_turns = 98"

lemma enough_turns_Suc: "enough_turns = Suc 97"
  by (simp add: enough_turns_def)

lemma potential_start:
  assumes "1 \<le> (n::int)" shows "kMaxIterations * 3 ^ 97 \<le> n * 4 ^ 97"
proof -
  have "kMaxIterations * 3 ^ 97 \<le> 1 * 4 ^ 97" by (simp add: kMaxIterations_def)
  also have "\<dots> \<le> n * 4 ^ 97" using assms by (intro mult_right_mono) simp_all
  finally show ?thesis .
qed

lemma RunWarmUp_ends:
  assumes "good_harness h (br_b r) (br_perf r)" "good_min_time (br_min_warmup_time r)" "\<not> br_warmup_done r"
    "1 \<le> br_iters r" "br_iters r \<le> kMaxIterations"
  shows "\<exists>m1. RunWarmUp enough_turns h fl r m = Some (Inr (r\<lparr>br_warmup_done := True\<rparr>, m1)) \<and>
    m_calls m1 \<le> m_calls m + enough_turns * nat (i_threads (br_b r))"
proof -
  have "good_min_time (GetMinTimeToApply r)" using assms(2,3) by (simp add: GetMinTimeToApply_def)
  from measuring_loop_ends[OF assms(1) this _ assms(4,5) potential_start[OF assms(4)],
      of fl "ShouldReportIterationResults fl" m]
  obtain i k m1 where "measuring_loop enough_turns h (ShouldReportIterationResults fl) r m =
      Some (Inr (i, r\<lparr>br_iters := k\<rparr>, m1))" "m_calls m1 \<le> m_calls m + enough_turns * nat (i_threads (br_b r))"
    unfolding enough_turns_Suc by auto
  then show ?thesis by (auto simp: RunWarmUp_def FinishWarmUp_def)
qed

text \<open>The loop of \<open>DoOneRepetition\<close>: later repetitions and explicit iteration counts take one turn.\<close>

lemma repetition_loop_ends:
  assumes h: "good_harness h (br_b r) (br_perf r)" and iters: "1 \<le> br_iters r" "br_iters r \<le> kMaxIterations"
    and mt: "first \<and> \<not> br_has_explicit_iteration_count r \<Longrightarrow> good_min_time (GetMinTimeToApply r)"
  shows "\<exists>i k m1. measuring_loop enough_turns h (results_are_significant fl first) r m =
      Some (Inr (i, r\<lparr>br_iters := k\<rparr>, m1)) \<and> br_iters r \<le> k \<and> k \<le> kMaxIterations \<and>
    (first \<and> \<not> br_has_explicit_iteration_count r \<longrightarrow> ShouldReportIterationResults fl r i) \<and>
    (\<not> first \<or> br_has_explicit_iteration_count r \<longrightarrow> k = br_iters r) \<and>
    (tr_skipped (it_results i) = NotSkipped \<longrightarrow> k \<le> it_iters i) \<and>
    m_calls m1 \<le> m_calls m + enough_turns * nat (i_threads (br_b r))"
proof (cases "first \<and> \<not> br_has_explicit_iteration_count r")
  case True
  have "\<And>k i. ShouldReportIterationResults fl r i \<Longrightarrow>
      results_are_significant fl first (r\<lparr>br_iters := k\<rparr>) i"
    by (simp add: results_are_significant_def)
  from measuring_loop_ends[where fl = fl and finish = "results_are_significant fl first" and m = m,
      OF h mt[OF True] this iters potential_start[OF iters(1)]]
  obtain i k m1 where k: "measuring_loop enough_turns h (results_are_significant fl first) r m =
      Some (Inr (i, r\<lparr>br_iters := k\<rparr>, m1))" "results_are_significant fl first (r\<lparr>br_iters := k\<rparr>) i"
    "br_iters r \<le> k" "k \<le> kMaxIterations" "tr_skipped (it_results i) = NotSkipped \<longrightarrow> k \<le> it_iters i"
    "m_calls m1 \<le> m_calls m + enough_turns * nat (i_threads (br_b r))"
    unfolding enough_turns_Suc by auto
  from k(2) True have "ShouldReportIterationResults fl r i" by (simp add: results_are_significant_def)
  then show ?thesis using k True by blast
next
  case False
  from iterate_once_ok[OF h iters] obtain i m1 where
    i: "iterate_once h r m = Inr (i, m1)" "m_calls m1 = m_calls m + nat (i_threads (br_b r))"
    "tr_skipped (it_results i) = NotSkipped \<longrightarrow> br_iters r \<le> it_iters i" by blast
  have "measuring_loop enough_turns h (results_are_significant fl first) r m =
      Some (Inr (i, r\<lparr>br_iters := br_iters r\<rparr>, m1))"
    unfolding enough_turns_Suc measuring_loop.simps(2) using i(1) False
    by (auto simp: results_are_significant_def)
  then show ?thesis using i False iters(2)
    by (intro exI[of _ i] exI[of _ "br_iters r"] exI[of _ m1]) (auto simp: enough_turns_def)
qed

lemma single_run_ok:
  assumes h: "good_harness h b perf" and iters: "1 \<le> iters" "iters \<le> kMaxIterations" and p: "perf' = None \<or> perf' = perf"
  shows "\<exists>m1. single_run h b iters perf' profiled m = Inr m1 \<and> m_calls m1 = Suc (m_calls m)"
proof -
  obtain cap where cap: "cap * i_threads b \<le> int64_max" "\<forall>k. well_behaved (h_run h k) iters cap"
    and th: "1 \<le> i_threads b" and perf: "perf' = None \<or> perf' = Some []"
    using h iters p by (auto simp: good_harness_def)
  have "(0 + 1) * cap \<le> int64_max"
  proof (cases "0 \<le> cap")
    case True
    then have "cap * 1 \<le> cap * i_threads b" using th by (intro mult_left_mono) auto
    then show ?thesis using cap(1) by simp
  qed (simp add: int64_max_def)
  then have run: "\<exists>r1 m2. RunInThread h b iters perf' profiled (ThreadResult_init, m1) 0 = Inr (r1, m2) \<and>
      m_calls m2 = Suc (m_calls m1)" for m1
    using RunInThread_ok[OF cap(2)[rule_format] iters(1) perf _ counts_ok_init, of 0 b profiled] th by fastforce
  obtain m1 where m1: "Instance_Setup b m = Inr m1" "m_calls m1 = m_calls m" using Setup_Teardown_ok(1)[OF th] by blast
  obtain r2 m2 where m2: "RunInThread h b iters perf' profiled (ThreadResult_init, m1) 0 = Inr (r2, m2)"
    "m_calls m2 = Suc (m_calls m1)" using run by blast
  obtain m3 where "Instance_Teardown b m2 = Inr m3" "m_calls m3 = m_calls m2" using Setup_Teardown_ok(2)[OF th] by blast
  then show ?thesis using m1 m2 by (simp add: single_run_def)
qed

text \<open>What follows the loop runs at most two more single-threaded passes and appends one report.\<close>

lemma finish_repetition_ok:
  assumes h: "good_harness h (br_b r) (br_perf r)" and iters: "1 \<le> br_iters r" "br_iters r \<le> kMaxIterations"
  shows "\<exists>rep mem m1. finish_repetition h i r pf m = Inr (add_report rep r, map_option (record_in_family rep) pf, m1) \<and>
    rep = CreateRunReport h (br_b r) (it_results i) (if h_memory_manager h then min 16 (br_iters r) else 0) mem
      (it_seconds i) (br_num_repetitions_done r) (br_repeats r) \<and> m_calls m1 \<le> m_calls m + 2"
proof -
  let ?mi = "if h_memory_manager h then min 16 (br_iters r) else 0"
  obtain mem m1 where m1: "(if h_memory_manager h then RunMemoryManager h r ?mi m else Inr (MemoryResult_init, m)) = Inr (mem, m1)"
    "m_calls m1 \<le> m_calls m + 1"
  proof (cases "h_memory_manager h")
    case True
    obtain m1 where "single_run h (br_b r) (min 16 (br_iters r)) (br_perf r) False (m_emit MMemoryStart m) = Inr m1"
      "m_calls m1 = Suc (m_calls m)"
      using single_run_ok[OF h, of "min 16 (br_iters r)" "br_perf r" False "m_emit MMemoryStart m"] iters
      by (auto simp: m_emit_def min_le_iff_disj)
    then show ?thesis using that True by (simp add: RunMemoryManager_def m_emit_def)
  qed (use that in simp)
  obtain m2 where m2: "(if h_profiler_manager h then RunProfilerManager h r (br_iters r) m1 else Inr m1) = Inr m2"
    "m_calls m2 \<le> m_calls m1 + 1"
    using single_run_ok[OF h iters, of None True m1] that
    by (cases "h_profiler_manager h") (auto simp: RunProfilerManager_def)
  have "finish_repetition h i r pf m = (let rep = CreateRunReport h (br_b r) (it_results i) ?mi mem (it_seconds i)
      (br_num_repetitions_done r) (br_repeats r) in Inr (add_report rep r, map_option (record_in_family rep) pf, m2))"
    unfolding finish_repetition_def Let_def by (simp only: m1(1) m2(1) rbind_Inr prod.case)
  then show ?thesis using m1(2) m2(2) unfolding Let_def by fastforce
qed

lemma repetition_reports:
  assumes h: "good_harness h (br_b r) (br_perf r)" and more: "HasRepeatsRemaining r"
    and iters: "1 \<le> br_iters r" "br_iters r \<le> kMaxIterations"
    and warm: "\<not> br_warmup_done r \<longrightarrow> good_min_time (br_min_warmup_time r)"
    and mt: "br_num_repetitions_done r = 0 \<and> \<not> br_has_explicit_iteration_count r \<longrightarrow> good_min_time (br_min_time r)"
  shows "\<exists>r' m' i mem rep.
    DoOneRepetition enough_turns h fl r pf m = Some (Inr (r', map_option (record_in_family rep) pf, m')) \<and>
    rep = CreateRunReport h (br_b r) (it_results i) (if h_memory_manager h then min 16 (br_iters r') else 0) mem
      (it_seconds i) (br_num_repetitions_done r) (br_repeats r) \<and>
    r' = add_report rep (r\<lparr>br_warmup_done := True, br_iters := br_iters r'\<rparr>) \<and>
    br_iters r \<le> br_iters r' \<and> br_iters r' \<le> kMaxIterations \<and>
    (if br_num_repetitions_done r = 0 \<and> \<not> br_has_explicit_iteration_count r
     then ShouldReportIterationResults fl r' i else br_iters r' = br_iters r) \<and>
    (tr_skipped (it_results i) = NotSkipped \<longrightarrow> br_iters r' \<le> it_iters i) \<and>
    m_calls m' \<le> m_calls m + 2 * enough_turns * nat (i_threads (br_b r)) + 2"
proof -
  let ?r = "r\<lparr>br_warmup_done := True\<rparr>" and ?n = "enough_turns * nat (i_threads (br_b r))"
  obtain m1 where warmup: "(if \<not> br_warmup_done r then RunWarmUp enough_turns h fl r m else Some (Inr (r, m))) =
      Some (Inr (?r, m1))" "m_calls m1 \<le> m_calls m + ?n"
    using RunWarmUp_ends[OF h warm[rule_format] _ iters, of fl m] by (cases "br_warmup_done r") auto
  have h': "good_harness h (br_b ?r) (br_perf ?r)" and it': "1 \<le> br_iters ?r" "br_iters ?r \<le> kMaxIterations"
    using h iters by simp_all
  obtain i k m2 where loop: "measuring_loop enough_turns h (results_are_significant fl (br_num_repetitions_done r = 0)) ?r m1 =
      Some (Inr (i, ?r\<lparr>br_iters := k\<rparr>, m2))" "br_iters r \<le> k" "k \<le> kMaxIterations"
    "br_num_repetitions_done r = 0 \<and> \<not> br_has_explicit_iteration_count r \<longrightarrow> ShouldReportIterationResults fl ?r i"
    "br_num_repetitions_done r \<noteq> 0 \<or> br_has_explicit_iteration_count r \<longrightarrow> k = br_iters r"
    "tr_skipped (it_results i) = NotSkipped \<longrightarrow> k \<le> it_iters i" "m_calls m2 \<le> m_calls m1 + ?n"
    using repetition_loop_ends[OF h' it', of "br_num_repetitions_done r = 0" fl m1] mt
    by (auto simp: GetMinTimeToApply_def)
  let ?r2 = "?r\<lparr>br_iters := k\<rparr>"
  have h2: "good_harness h (br_b ?r2) (br_perf ?r2)" and it2: "1 \<le> br_iters ?r2" "br_iters ?r2 \<le> kMaxIterations"
    using h loop(2,3) iters(1) by simp_all
  from finish_repetition_ok[OF h2 it2, of i pf m2] obtain rep mem m3 where
    fin: "finish_repetition h i ?r2 pf m2 = Inr (add_report rep ?r2, map_option (record_in_family rep) pf, m3)"
    "rep = CreateRunReport h (br_b ?r2) (it_results i) (if h_memory_manager h then min 16 (br_iters ?r2) else 0) mem
      (it_seconds i) (br_num_repetitions_done ?r2) (br_repeats ?r2)" "m_calls m3 \<le> m_calls m2 + 2"
    by blast
  have "DoOneRepetition enough_turns h fl r pf m = Some (Inr (add_report rep ?r2, map_option (record_in_family rep) pf, m3))"
    using more unfolding DoOneRepetition_def Let_def warmup(1) by (simp add: loop(1) fin(1))
  moreover have "m_calls m3 \<le> m_calls m + 2 * enough_turns * nat (i_threads (br_b r)) + 2"
    using loop(7) warmup(2) fin(3) by simp
  moreover have "rep = CreateRunReport h (br_b r) (it_results i)
      (if h_memory_manager h then min 16 (br_iters (add_report rep ?r2)) else 0) mem
      (it_seconds i) (br_num_repetitions_done r) (br_repeats r)"
    using fin(2) by simp
  ultimately show ?thesis
    using loop(2-6)
    by (intro exI[of _ "add_report rep ?r2"] exI[of _ m3] exI[of _ i] exI[of _ mem] exI[of _ rep] conjI; simp)
qed

section \<open>Properties\<close>

text \<open>C30: The iteration prediction in IEEE arithmetic, for a minimum time that is zero or between a nanosecond and
  \<open>2 ^ 1000\<close> seconds (with a smaller positive one the count may grow by only one, near the largest doubles the
  conversion to an integer is undefined).  After a run of at least one iteration that was not long enough, whatever its
  clocks returned (negative times, infinities and NaN included), the next iteration count is larger
  than the number just run, by a third at least unless the limit of \<open>10 ^ 12\<close> is reached, and never
  above that limit; the conversion to an integer is defined.\<close>

theorem Predict_grows:
  assumes "good_min_time (GetMinTimeToApply r)" "\<not> ShouldReportIterationResults fl r i" "1 \<le> it_iters i"
  shows "\<exists>k. PredictNumItersNeeded r i = Inr k \<and> it_iters i < k \<and> k \<le> kMaxIterations \<and>
    (4 * it_iters i \<le> 3 * k \<or> k = kMaxIterations)"
  by (rule PredictNumItersNeeded_grows)
    (use assms in \<open>auto simp: ShouldReportIterationResults_def\<close>)

text \<open>C6: A repetition always ends and reports, for a minimum time (and minimum warm-up time, where they are used) of zero
  or between a nanosecond and \<open>2 ^ 1000\<close> seconds; with a smaller positive one the count may grow by only one
  a turn.  The benchmark is well behaved: its function returns with the timer stopped, does not write what
  belongs to the library, is called once for each thread, and its counts, added over the threads, fit their type; no performance
  counters are asked for; the count of iterations to start with is between 1 and \<open>10 ^ 12\<close>.  Then, whatever the clocks say, the warm-up and the
  measuring loop take at most 98 turns each, no assertion of the runner fails, and
  exactly one report is appended.  On the first repetition without an explicit count the reported run
  is one \<open>ShouldReportIterationResults\<close> accepts; otherwise the iteration count is left as it was.\<close>

theorem DoOneRepetition_reports:
  assumes h: "good_harness h (br_b r) (br_perf r)" and more: "HasRepeatsRemaining r"
    and iters: "1 \<le> br_iters r" "br_iters r \<le> kMaxIterations"
    and warm: "\<not> br_warmup_done r \<longrightarrow> good_min_time (br_min_warmup_time r)"
    and mt: "br_num_repetitions_done r = 0 \<and> \<not> br_has_explicit_iteration_count r \<longrightarrow> good_min_time (br_min_time r)"
  shows "\<exists>r' m' i mem rep.
    DoOneRepetition enough_turns h fl r pf m = Some (Inr (r', map_option (record_in_family rep) pf, m')) \<and>
    rep = CreateRunReport h (br_b r) (it_results i) (if h_memory_manager h then min 16 (br_iters r') else 0) mem
      (it_seconds i) (br_num_repetitions_done r) (br_repeats r) \<and>
    r' = add_report rep (r\<lparr>br_warmup_done := True, br_iters := br_iters r'\<rparr>) \<and>
    br_iters r \<le> br_iters r' \<and> br_iters r' \<le> kMaxIterations \<and>
    (if br_num_repetitions_done r = 0 \<and> \<not> br_has_explicit_iteration_count r
     then ShouldReportIterationResults fl r' i else br_iters r' = br_iters r) \<and>
    (tr_skipped (it_results i) = NotSkipped \<longrightarrow> br_iters r' \<le> it_iters i) \<and>
    m_calls m' \<le> m_calls m + 2 * enough_turns * nat (i_threads (br_b r)) + 2"
  by (rule repetition_reports[OF assms])

subsection \<open>A concrete benchmark\<close>

text \<open>The function \<open>for (auto _ : state) {}\<close> in its \<open>KeepRunning\<close> form is well behaved.\<close>

definition quiet :: body where
  "quiet st w = Inr (st, w)"

definition empty_loop :: body where
  "empty_loop st w = (case while_keep_running (nat (s_max_iterations st) + 1) KeepRunning quiet 0 st w of
     None \<Rightarrow> Inl (Undefined ''out of fuel'') | Some (Inl e) \<Rightarrow> Inl e | Some (Inr (_, st', w')) \<Rightarrow> Inr (st', w'))"

lemma quiet_loop:
  assumes "running_state st (int n) 0 M" "world_ready True w" "n < fuel"
  shows "\<exists>st' w'. while_keep_running fuel KeepRunning quiet k st w = Some (Inr (k + n, st', w')) \<and>
    control st' = (0, 0, M, True, True, NotSkipped) \<and> world_ready False w' \<and> w_results w' = w_results w \<and>
    s_complexity_n st' = s_complexity_n st"
  using assms
proof (induction n arbitrary: st k fuel)
  case 0
  obtain fuel' where fuel: "fuel = Suc fuel'" using 0(3) by (cases fuel) auto
  have run: "running_state st 0 0 M" using 0(1) by simp
  obtain st' w' where "FinishKeepRunning st w = Inr (st', w')" "control st' = (0, 0, M, True, True, NotSkipped)"
    "world_ready False w'" "w_results w' = w_results w" "s_complexity_n st' = s_complexity_n st"
    using FinishKeepRunning_running[OF run 0(2)] by metis
  then show ?case
    using KeepRunningInternal_running(3)[OF _ _ run, of 1 False w] by (simp add: fuel KeepRunning_def)
next
  case (Suc n)
  obtain fuel' where fuel: "fuel = Suc fuel'" using Suc.prems(3) by (cases fuel) auto
  let ?st = "st\<lparr>s_total_iterations := int n\<rparr>"
  have "KeepRunning st w = Inr (True, ?st, w)"
    using KeepRunningInternal_running(1)[OF _ _ Suc.prems(1), of 1 False w] by (simp add: KeepRunning_def)
  moreover have "running_state ?st (int n) 0 M" using Suc.prems(1) by (simp add: control_def)
  ultimately show ?case
    using Suc.IH[of ?st fuel' "Suc k"] Suc.prems(2,3) by (simp add: fuel quiet_def)
qed

lemma empty_loop_runs:
  assumes "fresh st" "world_ready False w"
  shows "\<exists>st' w'. empty_loop st w = Inr (st', w') \<and>
    control st' = (0, 0, s_max_iterations st, True, True, NotSkipped) \<and> world_ready False w' \<and>
    w_results w' = w_results w \<and> s_complexity_n st' = s_complexity_n st"
proof -
  let ?M = "s_max_iterations st"
  obtain st1 w1 where start: "StartKeepRunning st w = Inr (st1, w1)" "running_state st1 ?M 0 ?M"
    "world_ready True w1" "w_results w1 = w_results w" "s_complexity_n st1 = s_complexity_n st"
    using StartKeepRunning_fresh[OF assms] by metis
  have M: "1 \<le> ?M" using assms(1) by (simp add: fresh_def)
  have "KeepRunning st w = KeepRunning st1 w1"
    using KeepRunningInternal_first[OF _ _ assms(1) start(1,2) M, of 1 False] by (simp add: KeepRunning_def)
  then have "while_keep_running (nat ?M + 1) KeepRunning quiet 0 st w = while_keep_running (nat ?M + 1) KeepRunning quiet 0 st1 w1"
    by simp
  then show ?thesis
    using quiet_loop[of st1 "nat ?M" ?M w1 "nat ?M + 1" 0] start M by (auto simp: empty_loop_def)
qed

lemma empty_loop_well_behaved:
  assumes "1 \<le> iters" "iters \<le> cap" shows "well_behaved empty_loop iters cap"
  unfolding well_behaved_def
proof (intro allI impI)
  fix st w r
  assume a: "fresh st \<and> s_max_iterations st = iters \<and> s_complexity_n st = 0 \<and> world_ready False w \<and> w_results w = Some r"
  then obtain st' w' where *: "empty_loop st w = Inr (st', w')"
    "control st' = (0, 0, iters, True, True, NotSkipped)" "world_ready False w'" "w_results w' = Some r" "s_complexity_n st' = 0"
    using empty_loop_runs[of st w] by auto
  show "\<exists>st' w' r'. empty_loop st w = Inr (st', w') \<and> s_max_iterations st' = iters \<and> world_ready False w' \<and>
        w_results w' = Some r' \<and> tr_iterations r' = tr_iterations r \<and> tr_complexity_n r' = tr_complexity_n r \<and>
        (skipped st' \<or> tr_skipped r \<noteq> NotSkipped \<longrightarrow> tr_skipped r' \<noteq> NotSkipped) \<and>
        0 \<le> iterations st' \<and> iterations st' \<le> cap \<and> 0 \<le> s_batch_leftover st' \<and>
        iters + s_batch_leftover st' \<le> cap \<and> \<bar>s_complexity_n st'\<bar> \<le> cap"
    using * assms by (intro exI[of _ st'] exI[of _ w'] exI[of _ r]) (auto simp: control_def skipped_def iterations_def)
qed

text \<open>A harness whose clocks always read one second: no time ever passes.\<close>

definition stuck_clock_harness :: harness where
  "stuck_clock_harness = \<lparr>h_run = (\<lambda>_. empty_loop), h_real_clock = (\<lambda>_ _. Fin 1), h_thread_cpu = (\<lambda>_ _. Fin 1),
     h_process_cpu = (\<lambda>_ _. Fin 1), h_perf_stops = (\<lambda>_ _. None), h_order = (\<lambda>_ n. [0..n - 1]),
     h_memory_manager = False, h_memory_stop = (\<lambda>_ r. r), h_profiler_manager = False, h_junk = 0,
     h_default_time_unit = kNanosecond\<rparr>"

definition sample_instance :: BenchmarkInstance where
  "sample_instance = BenchmarkInstance_new kNanosecond
     (Benchmark_new StatisticsMean StatisticsMedian StatisticsStdDev StatisticsCV kNanosecond ''BM_f'') 0 0 [] 1"

definition sample_runner :: BenchmarkRunner where
  "sample_runner = \<lparr>br_run_results = \<lparr>rr_non_aggregates = [], rr_aggregates_only = [],
       rr_display_report_aggregates_only = False, rr_file_report_aggregates_only = False\<rparr>,
     br_b = sample_instance, br_family = None, br_parsed_benchtime_flag = TIME (Fin (1 / 2)),
     br_min_time = Fin (1 / 2), br_min_warmup_time = Fin 0, br_warmup_done = True, br_repeats = 1,
     br_has_explicit_iteration_count = False, br_num_repetitions_done = 0, br_iters = 1, br_perf = Some []\<rparr>"

lemma sample_good:
  "good_harness stuck_clock_harness sample_instance (Some [])"
proof -
  have t: "i_threads sample_instance = 1" by (simp add: sample_instance_def BenchmarkInstance_new_def)
  show ?thesis
    unfolding good_harness_def t
    by (auto simp: stuck_clock_harness_def kMaxIterations_def int64_max_def
        intro!: exI[of _ kMaxIterations] empty_loop_well_behaved)
qed

lemma half_second_good: "good_min_time (Fin (1 / 2))"
proof -
  obtain e where "rnd (1 / 1000000000) = Fin e" "e \<le> 1 / 536870912"
    using nano_bounds by (cases "rnd (1 / 1000000000)") auto
  then show ?thesis by (simp add: good_min_time_def)
qed

theorem Predict_grows_witness:
  "\<exists>k. PredictNumItersNeeded sample_runner
      \<lparr>it_results = ThreadResult_init, it_iters = 7, it_seconds = Fin (1 / 4)\<rparr> = Inr k \<and> 7 < k"
proof -
  let ?i = "\<lparr>it_results = ThreadResult_init, it_iters = 7, it_seconds = Fin (1 / 4)\<rparr>"
  have "\<not> ShouldReportIterationResults fl sample_runner ?i" if "\<not> fl_dry_run fl" for fl
    using that by (simp add: ShouldReportIterationResults_def sample_runner_def GetMinTimeToApply_def
        ThreadResult_init_def kMaxIterations_def dbl_simps)
  then show ?thesis
    using Predict_grows[of sample_runner "(default_flags (\<lambda>_. None))\<lparr>fl_dry_run := False\<rparr>" ?i] half_second_good
    by (auto simp: sample_runner_def GetMinTimeToApply_def)
qed

theorem DoOneRepetition_reports_witness:
  "\<exists>r' m'. DoOneRepetition enough_turns stuck_clock_harness (default_flags (\<lambda>_. None)) sample_runner None machine_init =
     Some (Inr (r', None, m')) \<and> br_num_repetitions_done r' = 1"
proof -
  have s: "br_b sample_runner = sample_instance" "br_perf sample_runner = Some []" "br_iters sample_runner = 1"
    "HasRepeatsRemaining sample_runner" "br_warmup_done sample_runner" "br_min_time sample_runner = Fin (1 / 2)"
    by (simp_all add: sample_runner_def HasRepeatsRemaining_def)
  obtain r' m' rep where *: "DoOneRepetition enough_turns stuck_clock_harness (default_flags (\<lambda>_. None)) sample_runner
      None machine_init = Some (Inr (r', map_option (record_in_family rep) None, m'))"
    "r' = add_report rep (sample_runner\<lparr>br_warmup_done := True, br_iters := br_iters r'\<rparr>)"
    using DoOneRepetition_reports[of stuck_clock_harness sample_runner "default_flags (\<lambda>_. None)" None machine_init]
      sample_good half_second_good s by (auto simp: kMaxIterations_def)
  have "br_num_repetitions_done r' = 1" by (subst *(2)) (simp add: add_report_def sample_runner_def)
  then show ?thesis using *(1) by auto
qed

end
