(* ===== verification/Sessions.thy ===== *)
theory Sessions
  imports Session Measuring
begin

text \<open>
  A session reports every selected benchmark (src/src/benchmark.cc \<open>RunBenchmarks\<close> on top of
  src/src/benchmark_runner.cc): the constructor establishes what the measuring loops need, and the
  loop over the shuffled repetitions reports each instance once.
\<close>

section \<open>Runners as the constructor leaves them\<close>

definition usable_flag :: "BenchTimeType \<Rightarrow> bool" where
  "usable_flag flag = (case flag of ITERS n \<Rightarrow> 1 \<le> n \<and> n \<le> kMaxIterations | TIME t \<Rightarrow> good_min_time t | UNSPECIFIED \<Rightarrow> False)"

text \<open>A positive time is one the loops can work with.\<close>

definition usable_warmup :: "double \<Rightarrow> bool" where
  "usable_warmup t \<longleftrightarrow> (Fin 0 < t \<longrightarrow> good_min_time t)"

definition usable_instance :: "BenchmarkInstance \<Rightarrow> bool" where
  "usable_instance b \<longleftrightarrow> 1 \<le> i_threads b \<and> 0 \<le> i_iterations b \<and> i_iterations b \<le> kMaxIterations \<and>
     (IsZero (i_min_time b) \<or> good_min_time (i_min_time b)) \<and> usable_warmup (i_min_warmup_time b)"

definition runner_ok :: "BenchmarkInstance \<Rightarrow> BenchmarkRunner \<Rightarrow> bool" where
  "runner_ok b r \<longleftrightarrow> br_b r = b \<and> br_perf r = Some [] \<and> 1 \<le> br_iters r \<and> br_iters r \<le> kMaxIterations \<and>
     (\<not> br_warmup_done r \<longrightarrow> good_min_time (br_min_warmup_time r)) \<and>
     (\<not> br_has_explicit_iteration_count r \<longrightarrow> good_min_time (br_min_time r)) \<and>
     br_num_repetitions_done r = 0 \<and> rr_non_aggregates (br_run_results r) = []"

lemma good_min_time_zero: "good_min_time (Fin 0)"
  by (simp add: good_min_time_def)

text \<open>The constructor succeeds on usable flags and instances and establishes \<open>runner_ok\<close>.\<close>

lemma BenchmarkRunner_new_ok:
  assumes flag: "ParseBenchMinTime (fl_min_time fl) = Inr flag" "usable_flag flag"
    and warm: "usable_warmup (fl_min_warmup_time fl)" and b: "usable_instance b" and perf: "fl_perf_counters fl = []"
  shows "\<exists>r. BenchmarkRunner_new fl b (Some []) family = Inr r \<and> runner_ok b r \<and> br_family r = family \<and>
    br_repeats r = (if fl_dry_run fl then 1 else if i_repetitions b \<noteq> 0 then i_repetitions b else fl_repetitions fl)"
proof -
  define wt where "wt = (if fl_dry_run fl then Fin 0
     else if \<not> IsZero (i_min_time b) \<and> Fin 0 < i_min_warmup_time b then i_min_warmup_time b
     else fl_min_warmup_time fl)"
  define explicit where "explicit = (i_iterations b \<noteq> 0 \<or> is_ITERS flag)"
  define mt where "mt = (if fl_dry_run fl then Fin 0 else ComputeMinTime b flag)"
  have wt: "Fin 0 < wt \<Longrightarrow> good_min_time wt"
    using warm b by (auto simp: wt_def usable_warmup_def usable_instance_def split: if_splits)
  have mt: "\<not> explicit \<Longrightarrow> good_min_time mt"
    using flag(2) b good_min_time_zero
    by (auto simp: mt_def explicit_def ComputeMinTime_def usable_flag_def usable_instance_def is_ITERS_def
        split: BenchTimeType.splits)
  define n where "n = (if fl_dry_run fl \<or> \<not> explicit then 1 else if i_iterations b \<noteq> 0 then i_iterations b
     else (case flag of ITERS k \<Rightarrow> k | _ \<Rightarrow> 1))"
  have n: "(if fl_dry_run fl then Inr 1 else if explicit then ComputeIters b flag else Inr 1) = Inr n"
    "1 \<le> n" "n \<le> kMaxIterations"
    using flag(2) b
    by (cases flag; auto simp: n_def explicit_def ComputeIters_def usable_flag_def usable_instance_def is_ITERS_def
        kMaxIterations_def)+
  obtain d f where df: "aggregates_flags fl b = (d, f)" by force
  have th: "GetThreadRunner (i_threads b) = Inr ()" using b by (simp add: GetThreadRunner_def usable_instance_def)
  show ?thesis
    unfolding BenchmarkRunner_new_def Let_def flag(1) rbind_Inr wt_def[symmetric] explicit_def[symmetric]
      mt_def[symmetric] n(1) df prod.case th
    using n wt mt perf by (auto simp: check_perf_counters_def runner_ok_def)
qed

text \<open>All of the runners, for benchmarks of one repetition and without complexity report.\<close>

definition single_repetition :: "BenchFlags \<Rightarrow> BenchmarkInstance \<Rightarrow> bool" where
  "single_repetition fl b \<longleftrightarrow> i_complexity b = oNone \<and>
     (fl_dry_run fl \<or> i_repetitions b = 1 \<or> i_repetitions b = 0 \<and> fl_repetitions fl = 1)"

lemma add_runner_all:
  assumes flag: "ParseBenchMinTime (fl_min_time fl) = Inr flag" "usable_flag flag"
    and warm: "usable_warmup (fl_min_warmup_time fl)" and perf: "fl_perf_counters fl = []"
    and bs: "\<forall>b \<in> set bs. usable_instance b \<and> single_repetition fl b"
    and len: "su_total s + length bs < 2 ^ 64"
  shows "\<exists>rs wt. rfold (add_runner fl []) s bs = Inr (s\<lparr>su_runners := su_runners s @ rs,
      su_total := su_total s + length bs, su_with_threads := wt\<rparr>) \<and>
    list_all2 (\<lambda>b r. BenchmarkRunner_new fl b (Some []) None = Inr r \<and> runner_ok b r \<and> br_family r = None \<and> br_repeats r = 1) bs rs"
  using bs len
proof (induction bs arbitrary: s)
  case Nil
  then show ?case by (intro exI[of _ "[]"] exI[of _ "su_with_threads s"]) simp
next
  case (Cons b bs)
  have b: "usable_instance b" "i_complexity b = oNone" and rep:
    "(if fl_dry_run fl then 1 else if i_repetitions b \<noteq> 0 then i_repetitions b else fl_repetitions fl) = 1"
    using Cons.prems(1) by (auto simp: single_repetition_def)
  obtain r where r: "BenchmarkRunner_new fl b (Some []) None = Inr r" "runner_ok b r" "br_family r = None" "br_repeats r = 1"
    using BenchmarkRunner_new_ok[OF flag warm b(1) perf, of None] rep by auto
  let ?s = "s\<lparr>su_runners := su_runners s @ [r], su_total := su_total s + 1,
      su_with_threads := su_with_threads s + (if i_threads b > 1 then 1 else 0)\<rparr>"
  have "(int (su_total s) + 1) mod 18446744073709551616 = int (su_total s) + 1"
    using Cons.prems(2) by (intro mod_pos_pos_trivial) auto
  then have "nat ((int (su_total s) + 1) mod 18446744073709551616) = Suc (su_total s)" by simp
  then have step: "add_runner fl [] s b = Inr ?s" using r(1,4) b(2) by (simp add: add_runner_def)
  obtain rs wt where "rfold (add_runner fl []) ?s bs = Inr (?s\<lparr>su_runners := su_runners ?s @ rs,
      su_total := su_total ?s + length bs, su_with_threads := wt\<rparr>)"
    "list_all2 (\<lambda>b r. BenchmarkRunner_new fl b (Some []) None = Inr r \<and> runner_ok b r \<and> br_family r = None \<and> br_repeats r = 1) bs rs"
    using Cons.IH[of ?s] Cons.prems by auto
  then show ?case using r step by (intro exI[of _ "r # rs"] exI[of _ wt]) simp
qed

lemma repetition_indices_single:
  assumes "\<forall>r \<in> set rs. br_repeats r = 1" "length rs \<le> vector_max_size"
  shows "repetition_indices_of (length rs) rs = Inr [0..<length rs]"
proof -
  have "concat (map (\<lambda>(i, r). replicate (nat (br_repeats r)) i) (enumerate k rs)) = [k..<k + length rs]" for k
    using assms(1)
  proof (induction rs arbitrary: k)
    case (Cons r rs)
    then show ?case using Cons.IH[of "Suc k"] by (simp add: upt_conv_Cons del: upt_Suc)
  qed simp
  from this[of 0] show ?thesis using assms(2) by (simp add: repetition_indices_of_def)
qed

section \<open>The loop over the repetitions\<close>

text \<open>The calls for a runner whose only repetition gave the report \<open>rep\<close>.\<close>

definition calls_of :: "BenchmarkRunner \<Rightarrow> Run \<Rightarrow> report_call list" where
  "calls_of r rep = [runs_config r, CallRuns [rep], CallFlush]"

lemma report_runner_single:
  assumes "br_family r = None" "br_repeats r = br_num_repetitions_done r" "rr_non_aggregates (br_run_results r) = [rep]"
  shows "report_runner h m r fam out = Inr (fam, to_file (calls_of r rep) (to_display (calls_of r rep) out))"
proof -
  have "GetResults h r = Inr ((br_run_results r)\<lparr>rr_aggregates_only := []\<rparr>)"
    using assms by (simp add: GetResults_def HasRepeatsRemaining_def ComputeStats_def)
  then show ?thesis
    using assms by (simp add: report_runner_def family_report_def Report_def report_one_def to_file_def
        to_display_def FlushStreams_def calls_of_def option.map_comp comp_def)
qed

text \<open>
  What reporting a benchmark \<open>b\<close> of one repetition is, from machine \<open>m\<close> to \<open>m'\<close>: its runner is constructed and does its
  repetition, whose run has the benchmark's name, and the calls are the configuration (the minimum time, whether the
  count of iterations was asked for, and the count the runner ended with), the run, a flush.
\<close>

definition benchmark_calls ::
  "harness \<Rightarrow> BenchFlags \<Rightarrow> BenchTimeType \<Rightarrow> BenchmarkInstance \<Rightarrow> machine \<Rightarrow> report_call list \<Rightarrow> machine \<Rightarrow> bool" where
  "benchmark_calls h fl flag b m calls m' \<longleftrightarrow> (\<exists>r r' rep. BenchmarkRunner_new fl b (Some []) None = Inr r \<and>
     DoOneRepetition enough_turns h fl r None m = Some (Inr (r', None, m')) \<and>
     rr_non_aggregates (br_run_results r') = [rep] \<and> r_run_name rep = i_name b \<and>
     calls = [CallRunsConfig (if fl_dry_run fl then Fin 0 else ComputeMinTime b flag) (i_iterations b \<noteq> 0 \<or> is_ITERS flag)
         (br_iters r'), CallRuns [rep], CallFlush])"

lemma BenchmarkRunner_new_config:
  "BenchmarkRunner_new fl b perf family = Inr r \<Longrightarrow> ParseBenchMinTime (fl_min_time fl) = Inr flag \<Longrightarrow>
     br_min_time r = (if fl_dry_run fl then Fin 0 else ComputeMinTime b flag) \<and>
     br_has_explicit_iteration_count r = (i_iterations b \<noteq> 0 \<or> is_ITERS flag)"
  by (cases "aggregates_flags fl b") (auto simp: BenchmarkRunner_new_def Let_def rbind_eq_Inr)

text \<open>One repetition of a runner that has not run yet.\<close>

lemma run_repetition_single:
  assumes idx: "idx < length (lp_runners s)" and r: "runner_ok b (lp_runners s ! idx)"
    "br_family (lp_runners s ! idx) = None" "br_repeats (lp_runners s ! idx) = 1"
    and new: "BenchmarkRunner_new fl b (Some []) None = Inr (lp_runners s ! idx)" and flag: "ParseBenchMinTime (fl_min_time fl) = Inr flag"
    and h: "good_harness h b (Some [])"
  shows "\<exists>r' rep mach. run_repetition enough_turns h m fl s idx = Some (Inr (s\<lparr>lp_runners := (lp_runners s)[idx := r'],
      lp_machine := mach, lp_out := to_file (calls_of r' rep) (to_display (calls_of r' rep) (lp_out s))\<rparr>)) \<and>
    r_run_name rep = i_name b \<and> benchmark_calls h fl flag b (lp_machine s) (calls_of r' rep) mach"
proof -
  let ?r = "lp_runners s ! idx"
  have r': "br_b ?r = b" "br_perf ?r = Some []" "1 \<le> br_iters ?r" "br_iters ?r \<le> kMaxIterations"
    "\<not> br_warmup_done ?r \<Longrightarrow> good_min_time (br_min_warmup_time ?r)"
    "\<not> br_has_explicit_iteration_count ?r \<Longrightarrow> good_min_time (br_min_time ?r)"
    "br_num_repetitions_done ?r = 0" "rr_non_aggregates (br_run_results ?r) = []"
    using r(1) by (simp_all add: runner_ok_def)
  have h': "good_harness h (br_b ?r) (br_perf ?r)" using h r'(1,2) by simp
  have more: "HasRepeatsRemaining ?r" using r'(7) r(3) by (simp add: HasRepeatsRemaining_def)
  have warm: "\<not> br_warmup_done ?r \<longrightarrow> good_min_time (br_min_warmup_time ?r)"
    and mt: "br_num_repetitions_done ?r = 0 \<and> \<not> br_has_explicit_iteration_count ?r \<longrightarrow> good_min_time (br_min_time ?r)"
    using r'(5,6) by simp_all
  obtain r2 mach mem rep and i :: IterationResults where
    D: "DoOneRepetition enough_turns h fl ?r None (lp_machine s) = Some (Inr (r2, map_option (record_in_family rep) None, mach))"
    "rep = CreateRunReport h (br_b ?r) (it_results i) (if h_memory_manager h then min 16 (br_iters r2) else 0) mem
      (it_seconds i) (br_num_repetitions_done ?r) (br_repeats ?r)"
    "r2 = add_report rep (?r\<lparr>br_warmup_done := True, br_iters := br_iters r2\<rparr>)"
    using repetition_reports[OF h' more r'(3,4) warm mt, of fl None "lp_machine s"] by blast
  have name: "r_run_name rep = i_name b" unfolding D(2) by (simp add: CreateRunReport_def Let_def r'(1))
  have r2: "br_family r2 = None" "br_repeats r2 = 1" "br_num_repetitions_done r2 = 1"
    "rr_non_aggregates (br_run_results r2) = [rep]"
    using r(2,3) r'(7,8) by (subst D(3), simp add: add_report_def)+
  have "report_runner h m r2 (lp_families s) (lp_out s) =
      Inr (lp_families s, to_file (calls_of r2 rep) (to_display (calls_of r2 rep) (lp_out s)))"
    using report_runner_single[OF r2(1) _ r2(4)] r2(2,3) by simp
  then have "run_repetition enough_turns h m fl s idx = Some (Inr (s\<lparr>lp_runners := (lp_runners s)[idx := r2],
      lp_machine := mach, lp_out := to_file (calls_of r2 rep) (to_display (calls_of r2 rep) (lp_out s))\<rparr>))"
    using idx r(2) D(1) r2(2,3) by (simp add: run_repetition_def Let_def HasRepeatsRemaining_def)
  moreover have "benchmark_calls h fl flag b (lp_machine s) (calls_of r2 rep) mach"
  proof -
    have "br_min_time r2 = br_min_time ?r" "br_has_explicit_iteration_count r2 = br_has_explicit_iteration_count ?r"
      by (subst D(3), simp add: add_report_def)+
    then show ?thesis
      unfolding benchmark_calls_def using new D(1) r2(4) name BenchmarkRunner_new_config[OF new flag]
      by (intro exI[of _ ?r] exI[of _ r2] exI[of _ rep]) (simp add: calls_of_def runs_config_def)
  qed
  ultimately show ?thesis using name by blast
qed

text \<open>The names of the reported runs, in the order of the calls.\<close>

fun call_names :: "report_call \<Rightarrow> BenchmarkName list" where
  "call_names (CallRuns runs) = map r_run_name runs"
| "call_names _ = []"

definition reported_names :: "report_call list \<Rightarrow> BenchmarkName list" where
  "reported_names cs = concat (map call_names cs)"

lemma reported_names_append [simp]: "reported_names (cs @ ds) = reported_names cs @ reported_names ds"
  by (simp add: reported_names_def)

lemma reported_names_calls_of [simp]: "reported_names (calls_of r rep) = [r_run_name rep]"
  by (simp add: calls_of_def reported_names_def runs_config_def)

text \<open>The benchmarks in turn, each from the machine the one before has left.\<close>

fun session_blocks ::
  "harness \<Rightarrow> BenchFlags \<Rightarrow> BenchTimeType \<Rightarrow> BenchmarkInstance list \<Rightarrow> machine \<Rightarrow> report_call list list \<Rightarrow> machine \<Rightarrow> bool" where
  "session_blocks h fl flag [] m blocks m' = (blocks = [] \<and> m' = m)"
| "session_blocks h fl flag (b # bs) m blocks m' =
     (\<exists>calls rest m1. blocks = calls # rest \<and> benchmark_calls h fl flag b m calls m1 \<and> session_blocks h fl flag bs m1 rest m')"

text \<open>The loop over distinct indices: each runner in turn, one report each.\<close>

lemma run_repetitions_all:
  assumes "distinct idxs" "set idxs \<subseteq> {0..<length bs}" "length (lp_runners s) = length bs"
    and "\<forall>i \<in> set idxs. runner_ok (bs ! i) (lp_runners s ! i) \<and> br_family (lp_runners s ! i) = None \<and>
           br_repeats (lp_runners s ! i) = 1 \<and> BenchmarkRunner_new fl (bs ! i) (Some []) None = Inr (lp_runners s ! i)"
    and flag: "ParseBenchMinTime (fl_min_time fl) = Inr flag" and h: "\<forall>b \<in> set bs. good_harness h b (Some [])"
  shows "\<exists>s' cs blocks. ofold (run_repetition enough_turns h m fl) s idxs = Some (Inr s') \<and>
    lp_out s' = to_file cs (to_display cs (lp_out s)) \<and>
    reported_names cs = map (\<lambda>i. i_name (bs ! i)) idxs \<and> length cs = 3 * length idxs \<and> cs = concat blocks \<and>
    session_blocks h fl flag (map (\<lambda>i. bs ! i) idxs) (lp_machine s) blocks (lp_machine s')"
  using assms(1-4)
proof (induction idxs arbitrary: s)
  case Nil
  then show ?case
    by (intro exI[of _ s] exI[of _ "[]"]) (simp add: to_file_def to_display_def reported_names_def option.map_ident)
next
  case (Cons idx idxs)
  have idx: "idx < length (lp_runners s)" "idx < length bs" using Cons.prems(2,3) by auto
  have hb: "good_harness h (bs ! idx) (Some [])" using h idx(2) by simp
  obtain r' rep mach where step: "run_repetition enough_turns h m fl s idx = Some (Inr (s\<lparr>lp_runners := (lp_runners s)[idx := r'],
      lp_machine := mach, lp_out := to_file (calls_of r' rep) (to_display (calls_of r' rep) (lp_out s))\<rparr>))"
    "r_run_name rep = i_name (bs ! idx)" "benchmark_calls h fl flag (bs ! idx) (lp_machine s) (calls_of r' rep) mach"
    using run_repetition_single[OF idx(1) _ _ _ _ flag hb, of m] Cons.prems(4) by auto
  let ?s = "s\<lparr>lp_runners := (lp_runners s)[idx := r'], lp_machine := mach,
      lp_out := to_file (calls_of r' rep) (to_display (calls_of r' rep) (lp_out s))\<rparr>"
  have "(lp_runners s)[idx := r'] ! i = lp_runners s ! i" if "i \<in> set idxs" for i
    using Cons.prems(1) that by (metis distinct.simps(2) nth_list_update_neq)
  then have "\<forall>i \<in> set idxs. runner_ok (bs ! i) (lp_runners ?s ! i) \<and> br_family (lp_runners ?s ! i) = None \<and>
      br_repeats (lp_runners ?s ! i) = 1 \<and> BenchmarkRunner_new fl (bs ! i) (Some []) None = Inr (lp_runners ?s ! i)"
    using Cons.prems(1,4) by auto
  then obtain s' cs blocks where ih: "ofold (run_repetition enough_turns h m fl) ?s idxs = Some (Inr s')"
    "lp_out s' = to_file cs (to_display cs (lp_out ?s))"
    "reported_names cs = map (\<lambda>i. i_name (bs ! i)) idxs" "length cs = 3 * length idxs" "cs = concat blocks"
    "session_blocks h fl flag (map (\<lambda>i. bs ! i) idxs) mach blocks (lp_machine s')"
    using Cons.IH[of ?s] Cons.prems(1-3) by auto
  have "to_file cs (to_display cs (lp_out ?s)) =
      to_file (calls_of r' rep @ cs) (to_display (calls_of r' rep @ cs) (lp_out s))"
    by (simp add: to_file_def to_display_def option.map_comp comp_def)
  moreover have "length (calls_of r' rep) = 3" by (simp add: calls_of_def)
  ultimately show ?case
    using step ih by (intro exI[of _ s'] exI[of _ "calls_of r' rep @ cs"] exI[of _ "calls_of r' rep # blocks"]) auto
qed

lemma session_reports_all:
  assumes flag: "ParseBenchMinTime (fl_min_time fl) = Inr flag" "usable_flag flag"
    and warm: "usable_warmup (fl_min_warmup_time fl)" and perf: "fl_perf_counters fl = []" "se_perf_open env [] = []"
    and bs: "\<forall>b \<in> set bs. usable_instance b \<and> single_repetition fl b \<and> good_harness (se_harness env) b (Some [])"
    and len: "length bs \<le> vector_max_size"
    and shuffle: "\<And>xs. mset (se_shuffle env xs) = mset xs"
    and ctx: "se_ctx_display env" "se_ctx_file env"
  shows "\<exists>cs mach' log. RunBenchmarks enough_turns env fl bs \<lparr>out_display = [], out_file = file\<rparr> mach =
      Some (Inr (\<lparr>out_display = cs, out_file = map_option (\<lambda>f. f @ cs) file\<rparr>, mach', log)) \<and>
    reported_names cs = map (\<lambda>i. i_name (bs ! i))
      (if fl_enable_random_interleaving fl then se_shuffle env [0..<length bs] else [0..<length bs]) \<and>
    mset (reported_names cs) = image_mset i_name (mset bs) \<and>
    hd cs = CallContext (name_field_width fl bs) \<and> length cs = 3 * length bs + 4 \<and>
    drop (3 * length bs + 2) cs = [CallFinalize, CallFlush] \<and>
    (\<exists>blocks. cs = [CallContext (name_field_width fl bs), CallFlush] @ concat blocks @ [CallFinalize, CallFlush] \<and>
       session_blocks (se_harness env) fl flag (map (\<lambda>i. bs ! i)
         (if fl_enable_random_interleaving fl then se_shuffle env [0..<length bs] else [0..<length bs])) mach blocks mach')"
proof -
  let ?h = "se_harness env"
  define order where "order = (if fl_enable_random_interleaving fl then se_shuffle env [0..<length bs] else [0..<length bs])"
  have order: "mset order = mset [0..<length bs]" unfolding order_def using shuffle by simp
  have len64: "length bs < 2 ^ 64" using len by (simp add: vector_max_size_def)
  let ?su0 = "\<lparr>su_runners = [], su_families = [], su_total = 0, su_with_threads = 0\<rparr>"
  obtain rs wt where su: "rfold (add_runner fl []) ?su0 bs = Inr (?su0\<lparr>su_runners := [] @ rs,
      su_total := 0 + length bs, su_with_threads := wt\<rparr>)"
    and rs: "list_all2 (\<lambda>b r. BenchmarkRunner_new fl b (Some []) None = Inr r \<and> runner_ok b r \<and> br_family r = None \<and> br_repeats r = 1) bs rs"
    using add_runner_all[OF flag warm perf(1), of bs ?su0] bs len64 by auto
  have lrs: "length rs = length bs" using rs by (simp add: list_all2_lengthD)
  have "\<forall>r \<in> set rs. br_repeats r = 1" using rs by (auto simp: list_all2_conv_all_nth in_set_conv_nth)
  then have idx: "repetition_indices_of (length bs) rs = Inr [0..<length bs]"
    using repetition_indices_single[of rs] len lrs by simp
  define ctx0 where "ctx0 = [CallContext (name_field_width fl bs), CallFlush]"
  let ?out = "\<lparr>out_display = ctx0, out_file = map_option (\<lambda>f. f @ ctx0) file\<rparr>"
  let ?s = "\<lparr>lp_runners = rs, lp_families = [], lp_machine = mach, lp_out = ?out\<rparr>"
  have "distinct order" "set order = {0..<length bs}"
    using order by (metis distinct_upt mset_eq_imp_distinct_iff, metis atLeastLessThan_upt mset_eq_setD)
  then obtain s' cs blocks where s': "ofold (run_repetition enough_turns ?h (se_libm env) fl) ?s order = Some (Inr s')"
    "lp_out s' = to_file cs (to_display cs ?out)" "reported_names cs = map (\<lambda>i. i_name (bs ! i)) order"
    "length cs = 3 * length order" "cs = concat blocks"
    "session_blocks ?h fl flag (map (\<lambda>i. bs ! i) order) mach blocks (lp_machine s')"
    using run_repetitions_all[of order bs ?s fl flag ?h "se_libm env", OF _ _ _ _ flag(1)] rs lrs bs
    by (auto simp: list_all2_conv_all_nth)
  have lo: "length order = length bs" using order by (metis length_upt minus_nat.diff_0 mset_eq_length)
  let ?all = "ctx0 @ cs @ [CallFinalize, CallFlush]"
  have "run_all enough_turns env fl bs ?out mach = Some (Inr (lp_out s', lp_machine s', threads_warning wt 0))"
    unfolding run_all_def Let_def using perf su idx s'(1) by (simp add: order_def StrSplit_def)
  then have "RunBenchmarks enough_turns env fl bs \<lparr>out_display = [], out_file = file\<rparr> mach =
      Some (Inr (\<lparr>out_display = ?all, out_file = map_option (\<lambda>f. f @ ?all) file\<rparr>, lp_machine s', threads_warning wt 0))"
    using ctx s'(2) by (simp add: RunBenchmarks_def Let_def ctx0_def to_file_def to_display_def FlushStreams_def
        finalize_all_def option.map_comp comp_def)
  moreover have names: "reported_names ?all = map (\<lambda>i. i_name (bs ! i)) order"
    using s'(3) by (simp add: reported_names_def ctx0_def)
  moreover have "mset (reported_names ?all) = image_mset i_name (mset bs)"
  proof -
    have "mset (reported_names ?all) = image_mset (\<lambda>i. i_name (bs ! i)) (mset order)" unfolding names by simp
    also have "\<dots> = mset (map (\<lambda>i. i_name (bs ! i)) [0..<length bs])" unfolding order by simp
    also have "map (\<lambda>i. i_name (bs ! i)) [0..<length bs] = map i_name bs" by (rule nth_equalityI) simp_all
    finally show ?thesis by simp
  qed
  moreover have "hd ?all = CallContext (name_field_width fl bs)" "length ?all = 3 * length bs + 4"
    "drop (3 * length bs + 2) ?all = [CallFinalize, CallFlush]"
    using s'(4) lo by (simp_all add: ctx0_def)
  moreover have "?all = [CallContext (name_field_width fl bs), CallFlush] @ concat blocks @ [CallFinalize, CallFlush]"
    by (simp add: ctx0_def s'(5))
  ultimately show ?thesis using s'(6) unfolding order_def by blast
qed

text \<open>C7: A session reports every benchmark exactly once, in the order of the shuffled repetitions.  With usable flags (a
  minimum time of 0 or from a nanosecond to 2 ^ 1000 seconds, a count of 1 to 10 ^ 12 iterations, no performance
  counters), instances of one repetition each and without a complexity report, and well-behaved
  benchmarks, \<open>RunBenchmarks\<close> returns whatever the clocks say.  The calls to the display reporter are exactly these: the
  context and a flush, then for each instance in that order its configuration, the one run of its runner, which
  carries its name, and a flush, then \<open>Finalize\<close> and a flush; each runner is the one the constructor makes
  for that instance and starts where the one before has left the machine; a file reporter gets the same calls.\<close>

theorem RunBenchmarks_reports_all:
  assumes flag: "ParseBenchMinTime (fl_min_time fl) = Inr flag" "usable_flag flag"
    and warm: "usable_warmup (fl_min_warmup_time fl)" and perf: "fl_perf_counters fl = []" "se_perf_open env [] = []"
    and bs: "\<forall>b \<in> set bs. usable_instance b \<and> single_repetition fl b \<and> good_harness (se_harness env) b (Some [])"
    and len: "length bs \<le> vector_max_size"
    and shuffle: "\<And>xs. mset (se_shuffle env xs) = mset xs"
    and ctx: "se_ctx_display env" "se_ctx_file env"
  shows "\<exists>cs mach' log. RunBenchmarks enough_turns env fl bs \<lparr>out_display = [], out_file = file\<rparr> mach =
      Some (Inr (\<lparr>out_display = cs, out_file = map_option (\<lambda>f. f @ cs) file\<rparr>, mach', log)) \<and>
    reported_names cs = map (\<lambda>i. i_name (bs ! i))
      (if fl_enable_random_interleaving fl then se_shuffle env [0..<length bs] else [0..<length bs]) \<and>
    mset (reported_names cs) = image_mset i_name (mset bs) \<and>
    hd cs = CallContext (name_field_width fl bs) \<and> length cs = 3 * length bs + 4 \<and>
    drop (3 * length bs + 2) cs = [CallFinalize, CallFlush] \<and>
    (\<exists>blocks. cs = [CallContext (name_field_width fl bs), CallFlush] @ concat blocks @ [CallFinalize, CallFlush] \<and>
       session_blocks (se_harness env) fl flag (map (\<lambda>i. bs ! i)
         (if fl_enable_random_interleaving fl then se_shuffle env [0..<length bs] else [0..<length bs])) mach blocks mach')"
  by (rule session_reports_all[OF assms])

subsection \<open>A concrete session\<close>

definition sample_env :: session_env where
  "sample_env = \<lparr>se_harness = stuck_clock_harness,
     se_libm = \<lparr>lm_of_int = double_of_int, lm_pow = (\<lambda>_ _. Fin 0), lm_log2 = (\<lambda>_. Fin 0), lm_sqrt = dsqrt\<rparr>,
     se_perf_open = (\<lambda>_. []), se_shuffle = rev, se_ctx_display = True, se_ctx_file = True,
     se_can_open = (\<lambda>_. True), se_is_color_terminal = False, se_compile = (\<lambda>_. Inr (\<lambda>_. True))\<rparr>"

definition sample_flags :: BenchFlags where
  "sample_flags = (default_flags (\<lambda>_. None))\<lparr>fl_min_time := ''5x'', fl_enable_random_interleaving := True\<rparr>"

theorem RunBenchmarks_reports_all_witness:
  "\<exists>cs mach' log. RunBenchmarks enough_turns sample_env sample_flags [sample_instance, sample_instance]
     \<lparr>out_display = [], out_file = None\<rparr> machine_init =
     Some (Inr (\<lparr>out_display = cs, out_file = None\<rparr>, mach', log)) \<and> length cs = 10"
proof -
  have fl: "ParseBenchMinTime (fl_min_time sample_flags) = Inr (ITERS 5)"
    by (simp add: sample_flags_def ParseBenchMinTime_def strtol_def split_sign_def is_space_def is_digit_def
        digit_value_def int_width_defs)
  have "usable_warmup (fl_min_warmup_time sample_flags)" "fl_perf_counters sample_flags = []"
    "fl_repetitions sample_flags = 1" "\<not> fl_dry_run sample_flags"
    by (simp_all add: sample_flags_def default_flags_def usable_warmup_def DoubleFromEnv_def StringFromEnv_def
        Int32FromEnv_def BoolFromEnv_def)
  moreover have "usable_instance sample_instance" "i_complexity sample_instance = oNone" "i_repetitions sample_instance = 0"
    by (simp_all add: usable_instance_def sample_instance_def BenchmarkInstance_new_def Benchmark_new_def
        ComputeStatistics_def kMaxIterations_def IsZero_def usable_warmup_def)
  ultimately show ?thesis
    using RunBenchmarks_reports_all[of sample_flags "ITERS 5" sample_env "[sample_instance, sample_instance]" None machine_init]
      fl sample_good
    by (auto simp: sample_env_def usable_flag_def kMaxIterations_def single_repetition_def vector_max_size_def)
qed

end
