(* ===== verification/Reporting.thy ===== *)
theory Reporting
  imports Session
begin

text \<open>
  What all reporters share: the context of a session (\<open>CPUInfo\<close>, \<open>SystemInfo\<close>,
  \<open>BenchmarkReporter::Context\<close> of src/include/benchmark/benchmark.h) and \<open>PrintBasicContext\<close>
  (src/src/reporter.cc).

  A reporter is a state and functions that give the text they write to the reporter's output stream.
  Numbers of CPUs, sizes and counts are \<open>int\<close>s of the code; the model keeps their values.
\<close>

section \<open>The context\<close>

datatype Scaling = UNKNOWN | ENABLED | DISABLED

datatype ASLR = UNKNOWN | ENABLED | DISABLED

record CacheInfo =
  ca_type :: string
  ca_level :: int
  ca_size :: int
  ca_num_sharing :: int

record CPUInfo =
  cpu_num_cpus :: int
  cpu_scaling :: Scaling
  cpu_cycles_per_second :: double
  cpu_caches :: "CacheInfo list"
  cpu_load_avg :: "double list"

record SystemInfo =
  sys_name :: string
  sys_ASLRStatus :: ASLR

text \<open>
  \<open>Context\<close>, with the static \<open>executable_name\<close>, and the other values a reporter reads when it prints
  the context: the local date and time, the version of the library, the custom context.
\<close>

record Context =
  cx_cpu_info :: CPUInfo
  cx_sys_info :: SystemInfo
  cx_name_field_width :: nat
  cx_executable_name :: "string option"
  cx_local_date_time :: string
  cx_library_version :: string
  cx_global_context :: "kv_map option"

text \<open>A sample.\<close>

definition sample_context :: Context where
  "sample_context = \<lparr>cx_cpu_info = \<lparr>cpu_num_cpus = 2, cpu_scaling = Scaling.DISABLED,
       cpu_cycles_per_second = Fin 1000000, cpu_caches = [\<lparr>ca_type = ''Data'', ca_level = 1, ca_size = 32768, ca_num_sharing = 1\<rparr>],
       cpu_load_avg = [Fin (1 / 2)]\<rparr>,
     cx_sys_info = \<lparr>sys_name = ''host'', sys_ASLRStatus = ASLR.UNKNOWN\<rparr>, cx_name_field_width = 0,
     cx_executable_name = Some ''./bench'', cx_local_date_time = ''2024-01-01'', cx_library_version = ''v1'',
     cx_global_context = None\<rparr>"

section \<open>PrintBasicContext\<close>

text \<open>Interleaving with a separator, as the \<open>It++\<close> loops over a vector print it.\<close>

fun separated :: "string \<Rightarrow> string list \<Rightarrow> string" where
  "separated sep [] = []"
| "separated sep [x] = x"
| "separated sep (x # y # zs) = x @ sep @ separated sep (y # zs)"

lemma separated_Cons: "separated sep (x # xs) = x @ (if xs = [] then [] else sep @ separated sep xs)"
  by (cases xs) auto

lemma separated_append:
  "separated sep (xs @ ys) =
     separated sep xs @ (if xs = [] \<or> ys = [] then [] else sep) @ separated sep ys"
  by (induction xs) (auto simp: separated_Cons)

lemma separated_after:
  "ys \<noteq> [] \<Longrightarrow> separated sep (ys @ zs) = separated sep ys @ concat (map (\<lambda>z. sep @ z) zs)"
proof (induction zs arbitrary: ys)
  case (Cons z zs)
  have "separated sep (ys @ z # zs) = separated sep ((ys @ [z]) @ zs)" by simp
  also have "\<dots> = separated sep (ys @ [z]) @ concat (map (\<lambda>z. sep @ z) zs)" using Cons.IH[of "ys @ [z]"] by simp
  finally show ?case using Cons.prems by (simp add: separated_append)
qed simp

lemma separated_before:
  "ys \<noteq> [] \<Longrightarrow> separated sep (xs @ ys) = concat (map (\<lambda>x. x @ sep) xs) @ separated sep ys"
  by (induction xs) (simp_all add: separated_Cons)

definition show_cache :: "int \<Rightarrow> CacheInfo \<Rightarrow> string" where
  "show_cache num_cpus ci =
     ''  L'' @ show_int (ca_level ci) @ '' '' @ ca_type ci @ '' '' @ show_int (cquot (ca_size ci) 1024) @ '' KiB'' @
     (if ca_num_sharing ci \<noteq> 0 then '' (x'' @ show_int (cquot num_cpus (ca_num_sharing ci)) @ '')'' else []) @
     ''\<newline>''"

definition PrintBasicContext :: "Context \<Rightarrow> string" where
  "PrintBasicContext context =
     (let info = cx_cpu_info context in
      cx_local_date_time context @ ''\<newline>'' @
      (case cx_executable_name context of None \<Rightarrow> [] | Some name \<Rightarrow> ''Running '' @ name @ ''\<newline>'') @
      ''Run on ('' @ show_int (cpu_num_cpus info) @ '' X '' @
      ostream_double (cpu_cycles_per_second info / Fin 1000000) @ '' MHz CPU '' @
      (if cpu_num_cpus info > 1 then ''s'' else []) @ '')'' @ ''\<newline>'' @
      (if cpu_caches info \<noteq> []
       then ''CPU Caches:'' @ ''\<newline>'' @ concat (map (show_cache (cpu_num_cpus info)) (cpu_caches info)) else []) @
      (if cpu_load_avg info \<noteq> []
       then ''Load Average: '' @ separated '', '' (map (fmt_f 2) (cpu_load_avg info)) @ ''\<newline>'' else []) @
      (case cx_global_context context of None \<Rightarrow> []
       | Some m \<Rightarrow> concat (map (\<lambda>(key, val). key @ '': '' @ val @ ''\<newline>'') m)) @
      (if cpu_scaling info = Scaling.ENABLED
       then ''***WARNING*** CPU scaling is enabled, the benchmark real time measurements may be noisy '' @
            ''and will incur extra overhead.'' @ ''\<newline>'' else []) @
      (if sys_ASLRStatus (cx_sys_info context) = ASLR.ENABLED
       then ''***WARNING*** ASLR is enabled, the results may have unreproducible noise in them.'' @ ''\<newline>'' else []) @
      ''***WARNING*** Library was built as DEBUG. Timings may be affected.'' @ ''\<newline>'')"

section \<open>A reporter as the session sees it\<close>

text \<open>
  The virtual functions of a reporter with state \<open>'s\<close>.  \<open>ReportContext\<close> of the reporters of the library
  always returns true; none of them overrides \<open>ReportRunsConfig\<close>, and flushing writes nothing.
\<close>

record 's reporter_ops =
  ro_context :: "Context \<Rightarrow> 's \<Rightarrow> ('s \<times> string) res"
  ro_runs :: "Run list \<Rightarrow> 's \<Rightarrow> ('s \<times> string) res"
  ro_finalize :: string

fun reporter_call :: "'s reporter_ops \<Rightarrow> Context \<Rightarrow> 's \<times> string \<Rightarrow> report_call \<Rightarrow> ('s \<times> string) res" where
  "reporter_call ops context (s, out) (CallContext width) =
     rbind (ro_context ops (context\<lparr>cx_name_field_width := width\<rparr>) s) (\<lambda>(s', t). Inr (s', out @ t))"
| "reporter_call ops context (s, out) (CallRuns runs) =
     rbind (ro_runs ops runs s) (\<lambda>(s', t). Inr (s', out @ t))"
| "reporter_call ops context (s, out) CallFinalize = Inr (s, out @ ro_finalize ops)"
| "reporter_call ops context (s, out) (CallRunsConfig min_time explicit iters) = Inr (s, out)"
| "reporter_call ops context (s, out) CallFlush = Inr (s, out)"

definition replay :: "'s reporter_ops \<Rightarrow> Context \<Rightarrow> report_call list \<Rightarrow> 's \<Rightarrow> ('s \<times> string) res" where
  "replay ops context calls s = rfold (reporter_call ops context) (s, []) calls"

text \<open>The batches of runs in a sequence of calls, and the calls of the middle of a session.\<close>

fun batches :: "report_call list \<Rightarrow> Run list list" where
  "batches [] = []"
| "batches (CallRuns runs # calls) = runs # batches calls"
| "batches (_ # calls) = batches calls"

lemma batches_append [simp]: "batches (cs @ ds) = batches cs @ batches ds"
  by (induction cs rule: batches.induct) auto

definition middle_call :: "report_call \<Rightarrow> bool" where
  "middle_call c = (case c of CallContext _ \<Rightarrow> False | CallFinalize \<Rightarrow> False | _ \<Rightarrow> True)"

text \<open>The calls up to the first batch write nothing after the context.\<close>

lemma batches_first:
  assumes "batches calls = first # later"
  obtains before after where "calls = before @ CallRuns first # after" "batches before = []" "batches after = later"
  using assms
proof (induction calls arbitrary: thesis)
  case (Cons c calls)
  show ?case
  proof (cases "\<exists>runs. c = CallRuns runs")
    case True
    then show ?thesis using Cons.prems(1)[of "[]" calls] Cons.prems(2) by auto
  next
    case False
    then have "batches (c # cs) = batches cs" for cs by (cases c) auto
    then show ?thesis
      using Cons.IH[of thesis] Cons.prems by (metis append_Cons)
  qed
qed simp

lemma replay_no_batches:
  "batches calls = [] \<Longrightarrow> \<forall>c \<in> set calls. middle_call c \<Longrightarrow>
     rfold (reporter_call ops ctxt) (s, out) calls = Inr (s, out)"
proof (induction calls)
  case (Cons c calls)
  then show ?case by (cases c) (auto simp: middle_call_def)
qed simp

text \<open>
  The contract: a context makes the reporter ready, and a ready reporter accepts every batch of
  acceptable runs and stays ready.  \<open>text_of\<close> is the text of the batches.
\<close>

locale reporter_contract =
  fixes ops :: "'s reporter_ops"
    and ready :: "'s \<Rightarrow> bool"
    and accepted :: "Run list \<Rightarrow> bool"
  assumes runs_accepted: "ready s \<Longrightarrow> accepted runs \<Longrightarrow> \<exists>s' t. ro_runs ops runs s = Inr (s', t) \<and> ready s'"
begin

lemma replay_middle:
  assumes "ready s" "\<forall>c \<in> set calls. middle_call c" "\<forall>b \<in> set (batches calls). accepted b"
  shows "\<exists>s' t. rfold (reporter_call ops ctxt) (s, out) calls = Inr (s', out @ t) \<and> ready s' \<and>
    rfold (\<lambda>(s, out) b. rbind (ro_runs ops b s) (\<lambda>(s', t). Inr (s', out @ t))) (s, out) (batches calls) = Inr (s', out @ t)"
  using assms
proof (induction calls arbitrary: s out)
  case (Cons c calls)
  show ?case
  proof (cases c)
    case (CallRuns runs)
    then obtain s1 t1 where 1: "ro_runs ops runs s = Inr (s1, t1)" "ready s1"
      using runs_accepted[of s runs] Cons.prems by auto
    obtain s' t where 2: "rfold (reporter_call ops ctxt) (s1, out @ t1) calls = Inr (s', (out @ t1) @ t)" "ready s'"
      "rfold (\<lambda>(s, out) b. rbind (ro_runs ops b s) (\<lambda>(s', t). Inr (s', out @ t))) (s1, out @ t1) (batches calls)
        = Inr (s', (out @ t1) @ t)"
      using Cons.IH[of s1 "out @ t1"] 1(2) Cons.prems CallRuns by auto
    show ?thesis using 1(1) 2 CallRuns by (intro exI[of _ s'] exI[of _ "t1 @ t"]) simp
  qed (use Cons in \<open>auto simp: middle_call_def\<close>)
qed simp

end

end
