(* ===== verification/Json.thy ===== *)
theory Json
  imports Reporting Names Fitting
begin

text \<open>
  The JSON reporter: src/src/json_reporter.cc.

  The first part translates the code: every function gives the text it writes.  The second part is
  the abstract specification: a type of JSON values, the grammar of RFC 8259 as the relation between
  a text and the value it denotes, and the value that stands for a context and for a run.
\<close>

section \<open>Escaping and key/value pairs\<close>

definition escape_char :: "char \<Rightarrow> string" where
  "escape_char c =
     (if c = CHR 0x08 then [CHR 0x5C, CHR ''b'']
      else if c = CHR 0x0C then [CHR 0x5C, CHR ''f'']
      else if c = CHR 0x0A then [CHR 0x5C, CHR ''n'']
      else if c = CHR 0x0D then [CHR 0x5C, CHR ''r'']
      else if c = CHR 0x09 then [CHR 0x5C, CHR ''t'']
      else if c = CHR 0x5C then [CHR 0x5C, CHR 0x5C]
      else if c = CHR 0x22 then [CHR 0x5C, CHR 0x22]
      else [c])"

definition StrEscape :: "string \<Rightarrow> string" where
  "StrEscape s = foldl (\<lambda>tmp c. tmp @ escape_char c) [] s"

definition quoted :: "string \<Rightarrow> string" where
  "quoted s = [CHR 0x22] @ StrEscape s @ [CHR 0x22]"

text \<open>
  The overloads of \<open>FormatKV\<close>, by the type of the value.  Those for texts and truth values print with \<open>%s\<close>, which
  ends at a NUL (\<open>quoted_c\<close>); the others write the key to a stream.
\<close>

definition quoted_c :: "string \<Rightarrow> string" where
  "quoted_c s = [CHR 0x22] @ c_str (StrEscape s) @ [CHR 0x22]"

definition FormatKV_string :: "string \<Rightarrow> string \<Rightarrow> string" where
  "FormatKV_string key val = quoted_c key @ '': '' @ quoted_c val"

definition FormatKV_bool :: "string \<Rightarrow> bool \<Rightarrow> string" where
  "FormatKV_bool key val = quoted_c key @ '': '' @ (if val then ''true'' else ''false'')"

definition FormatKV_int :: "string \<Rightarrow> int \<Rightarrow> string" where
  "FormatKV_int key val = quoted key @ '': '' @ show_int val"

definition show_json_double :: "double \<Rightarrow> string" where
  "show_json_double val =
     (case val of
        NaN \<Rightarrow> ''NaN''
      | Infty neg \<Rightarrow> (if neg then ''-'' else []) @ ''Infinity''
      | _ \<Rightarrow> fmt_e 16 val)"

definition FormatKV_double :: "string \<Rightarrow> double \<Rightarrow> string" where
  "FormatKV_double key val = quoted key @ '': '' @ show_json_double val"

text \<open>\<open>std::lround\<close>, on a 64-bit \<open>long\<close>.\<close>

definition RoundDouble :: "double \<Rightarrow> int res" where
  "RoundDouble v = llround v"

section \<open>The context\<close>

definition spaces :: "nat \<Rightarrow> string" where
  "spaces n = replicate n CHR '' ''"

definition json_cache :: "CacheInfo \<Rightarrow> string" where
  "json_cache ci =
     spaces 6 @ ''{\<newline>'' @
     spaces 8 @ FormatKV_string ''type'' (ca_type ci) @ '',\<newline>'' @
     spaces 8 @ FormatKV_int ''level'' (ca_level ci) @ '',\<newline>'' @
     spaces 8 @ FormatKV_int ''size'' (ca_size ci) @ '',\<newline>'' @
     spaces 8 @ FormatKV_int ''num_sharing'' (ca_num_sharing ci) @ ''\<newline>'' @
     spaces 6 @ ''}''"

text \<open>A line of the context object that ends with a comma.\<close>

definition context_line :: "string \<Rightarrow> string" where
  "context_line kv = spaces 4 @ kv @ '',\<newline>''"

definition JSONReporter_ReportContext :: "Context \<Rightarrow> string res" where
  "JSONReporter_ReportContext context =
     (let info = cx_cpu_info context; sysinfo = cx_sys_info context in
      rbind (RoundDouble (cpu_cycles_per_second info / Fin 1000000)) (\<lambda>mhz.
      Inr (''{\<newline>'' @ spaces 2 @ quoted ''context'' @ '': {\<newline>'' @
        context_line (FormatKV_string ''date'' (cx_local_date_time context)) @
        context_line (FormatKV_string ''host_name'' (sys_name sysinfo)) @
        (case cx_executable_name context of None \<Rightarrow> []
         | Some name \<Rightarrow> context_line (FormatKV_string ''executable'' name)) @
        context_line (FormatKV_int ''num_cpus'' (cpu_num_cpus info)) @
        context_line (FormatKV_int ''mhz_per_cpu'' mhz) @
        (if cpu_scaling info \<noteq> Scaling.UNKNOWN
         then context_line (FormatKV_bool ''cpu_scaling_enabled'' (cpu_scaling info = Scaling.ENABLED)) else []) @
        (if sys_ASLRStatus sysinfo \<noteq> ASLR.UNKNOWN
         then context_line (FormatKV_bool ''aslr_enabled'' (sys_ASLRStatus sysinfo = ASLR.ENABLED)) else []) @
        spaces 4 @ quoted ''caches'' @ '': [\<newline>'' @
        concat (map (\<lambda>(i, ci). json_cache ci @ (if Suc i \<noteq> length (cpu_caches info) then '','' else []) @ ''\<newline>'')
          (enumerate 0 (cpu_caches info))) @
        spaces 4 @ ''],\<newline>'' @
        spaces 4 @ quoted ''load_avg'' @ '': ['' @
        separated '','' (map ostream_double (cpu_load_avg info)) @ ''],\<newline>'' @
        context_line (FormatKV_string ''library_version'' (cx_library_version context)) @
        context_line (FormatKV_string ''library_build_type'' ''debug'') @
        spaces 4 @ FormatKV_int ''json_schema_version'' 1 @
        (case cx_global_context context of None \<Rightarrow> []
         | Some m \<Rightarrow> concat (map (\<lambda>(key, val). '',\<newline>'' @ spaces 4 @ FormatKV_string key val) m)) @
        ''\<newline>'' @ spaces 2 @ ''},\<newline>'' @ spaces 2 @ quoted ''benchmarks'' @ '': [\<newline>'')))"

section \<open>Runs\<close>

fun run_type_string :: "RunType \<Rightarrow> string" where
  "run_type_string RT_Iteration = ''iteration''"
| "run_type_string RT_Aggregate = ''aggregate''"

fun aggregate_unit_string :: "StatisticUnit \<Rightarrow> string" where
  "aggregate_unit_string kTime = ''time''"
| "aggregate_unit_string kPercentage = ''percentage''"

text \<open>The indentation of a member of a run, and the separator before it.\<close>

definition run_line :: "string \<Rightarrow> string" where
  "run_line kv = spaces 6 @ kv @ '',\<newline>''"

definition member_after :: "string \<Rightarrow> string" where
  "member_after kv = '',\<newline>'' @ spaces 6 @ kv"

definition print_skipped :: "Run \<Rightarrow> string" where
  "print_skipped run =
     (if r_skipped run = SkippedWithError then
        run_line (FormatKV_bool ''error_occurred'' True) @
        run_line (FormatKV_string ''error_message'' (r_skip_message run))
      else if r_skipped run = SkippedWithMessage then
        run_line (FormatKV_bool ''skipped'' True) @
        run_line (FormatKV_string ''skip_message'' (r_skip_message run))
      else [])"

definition print_times :: "Run \<Rightarrow> string" where
  "print_times run =
     (if \<not> r_report_big_o run \<and> \<not> r_report_rms run then
        run_line (FormatKV_int ''iterations'' (r_iterations run)) @
        (if r_run_type run \<noteq> RT_Aggregate \<or> r_aggregate_unit run = kTime then
           run_line (FormatKV_double ''real_time'' (GetAdjustedRealTime run)) @
           spaces 6 @ FormatKV_double ''cpu_time'' (GetAdjustedCPUTime run)
         else
           run_line (FormatKV_double ''real_time'' (r_real_accumulated_time run)) @
           spaces 6 @ FormatKV_double ''cpu_time'' (r_cpu_accumulated_time run)) @
        member_after (FormatKV_string ''time_unit'' (GetTimeUnitString (r_time_unit run)))
      else if r_report_big_o run then
        run_line (FormatKV_double ''cpu_coefficient'' (GetAdjustedCPUTime run)) @
        run_line (FormatKV_double ''real_coefficient'' (GetAdjustedRealTime run)) @
        run_line (FormatKV_string ''big_o'' (GetBigOString (r_complexity run))) @
        spaces 6 @ FormatKV_string ''time_unit'' (GetTimeUnitString (r_time_unit run))
      else spaces 6 @ FormatKV_double ''rms'' (GetAdjustedCPUTime run))"

definition print_memory :: "Run \<Rightarrow> string" where
  "print_memory run =
     (let memory_result = r_memory_result run;
          report_if_present = (\<lambda>label val. if val \<noteq> TombstoneValue then member_after (FormatKV_int label val) else [])
      in if m_memory_iterations memory_result > 0 then
           member_after (FormatKV_double ''allocs_per_iter'' (r_allocs_per_iter run)) @
           member_after (FormatKV_int ''max_bytes_used'' (m_max_bytes_used memory_result)) @
           report_if_present ''total_allocated_bytes'' (m_total_allocated_bytes memory_result) @
           report_if_present ''net_heap_growth'' (m_net_heap_growth memory_result)
         else [])"

definition JSONReporter_PrintRunData :: "Run \<Rightarrow> string" where
  "JSONReporter_PrintRunData run =
     run_line (FormatKV_string ''name'' (benchmark_name run)) @
     run_line (FormatKV_int ''family_index'' (r_family_index run)) @
     run_line (FormatKV_int ''per_family_instance_index'' (r_per_family_instance_index run)) @
     run_line (FormatKV_string ''run_name'' (BenchmarkName_str (r_run_name run))) @
     run_line (FormatKV_string ''run_type'' (run_type_string (r_run_type run))) @
     run_line (FormatKV_int ''repetitions'' (r_repetitions run)) @
     (if r_run_type run \<noteq> RT_Aggregate
      then run_line (FormatKV_int ''repetition_index'' (r_repetition_index run)) else []) @
     run_line (FormatKV_int ''threads'' (r_threads run)) @
     (if r_run_type run = RT_Aggregate
      then run_line (FormatKV_string ''aggregate_name'' (r_aggregate_name run)) @
           run_line (FormatKV_string ''aggregate_unit'' (aggregate_unit_string (r_aggregate_unit run))) else []) @
     print_skipped run @
     print_times run @
     concat (map (\<lambda>(key, c). member_after (FormatKV_double key (c_value c))) (r_counters run)) @
     print_memory run @
     (if r_report_label run \<noteq> [] then member_after (FormatKV_string ''label'' (r_report_label run)) else []) @
     ''\<newline>''"

text \<open>The state is \<open>first_report_\<close>.\<close>

record JSONReporter =
  js_first_report :: bool

definition JSONReporter_new :: JSONReporter where
  "JSONReporter_new = \<lparr>js_first_report = True\<rparr>"

fun print_runs :: "Run list \<Rightarrow> string" where
  "print_runs [] = []"
| "print_runs (run # runs) =
     spaces 4 @ ''{\<newline>'' @ JSONReporter_PrintRunData run @ spaces 4 @ ''}'' @
     (if runs \<noteq> [] then '',\<newline>'' else []) @ print_runs runs"

definition JSONReporter_ReportRuns :: "Run list \<Rightarrow> JSONReporter \<Rightarrow> JSONReporter \<times> string" where
  "JSONReporter_ReportRuns reports js =
     (if reports = [] then (js, [])
      else (js\<lparr>js_first_report := False\<rparr>,
            (if \<not> js_first_report js then '',\<newline>'' else []) @ print_runs reports))"

definition JSONReporter_Finalize :: string where
  "JSONReporter_Finalize = ''\<newline>  ]\<newline>}\<newline>''"

section \<open>JSON values and their texts\<close>

text \<open>Numbers are kept as they are written.\<close>

datatype json = JBool bool | JNum string | JStr string | JArr "json list" | JObj "(string \<times> json) list"

definition json_ws :: "string \<Rightarrow> bool" where
  "json_ws s \<longleftrightarrow> (\<forall>c \<in> set s. c \<in> {CHR 0x20, CHR 0x09, CHR 0x0A, CHR 0x0D})"

text \<open>
  The meaning of the characters between two quotation marks; control characters and bare quotation
  marks have none.  The \<open>u\<close> escapes of the RFC are not needed for what the reporter writes, so a
  text with one denotes nothing here.
\<close>

definition escape_meaning :: "char \<Rightarrow> char option" where
  "escape_meaning e =
     (if e = CHR ''b'' then Some (CHR 0x08)
      else if e = CHR ''f'' then Some (CHR 0x0C)
      else if e = CHR ''n'' then Some (CHR 0x0A)
      else if e = CHR ''r'' then Some (CHR 0x0D)
      else if e = CHR ''t'' then Some (CHR 0x09)
      else if e \<in> {CHR 0x5C, CHR 0x22, CHR 0x2F} then Some e
      else None)"

fun unescape :: "string \<Rightarrow> string option" where
  "unescape [] = Some []"
| "unescape [c] = (if c = CHR 0x5C \<or> c = CHR 0x22 \<or> of_char c < (32 :: nat) then None else Some [c])"
| "unescape (c # e # s) =
     (if c = CHR 0x5C then
        (case escape_meaning e of None \<Rightarrow> None | Some d \<Rightarrow> map_option (Cons d) (unescape s))
      else if c = CHR 0x22 \<or> of_char c < (32 :: nat) then None
      else map_option (Cons c) (unescape (e # s)))"

definition all_digits :: "string \<Rightarrow> bool" where
  "all_digits s \<longleftrightarrow> s \<noteq> [] \<and> (\<forall>c \<in> set s. is_digit c)"

inductive json_number :: "string \<Rightarrow> bool" where
  int: "all_digits s \<Longrightarrow> s = ''0'' \<or> hd s \<noteq> CHR ''0'' \<Longrightarrow> json_number s"
| frac: "json_number s \<Longrightarrow> \<forall>c \<in> set s. is_digit c \<Longrightarrow> all_digits f \<Longrightarrow> json_number (s @ ''.'' @ f)"
| exp: "json_number s \<Longrightarrow> \<forall>c \<in> set s. is_digit c \<or> c = CHR ''.'' \<Longrightarrow> sign \<in> {[], ''+'', ''-''} \<Longrightarrow> all_digits x \<Longrightarrow>
    json_number (s @ ''e'' @ sign @ x)"
| minus: "json_number s \<Longrightarrow> is_digit (hd s) \<Longrightarrow> json_number (''-'' @ s)"

inductive json_text :: "string \<Rightarrow> json \<Rightarrow> bool"
  and json_members :: "string \<Rightarrow> (string \<times> json) list \<Rightarrow> bool"
  and json_elements :: "string \<Rightarrow> json list \<Rightarrow> bool" where
  json_true: "json_text ''true'' (JBool True)"
| json_false: "json_text ''false'' (JBool False)"
| json_num: "json_number s \<Longrightarrow> json_text s (JNum s)"
| json_str: "unescape s = Some t \<Longrightarrow> json_text ([CHR 0x22] @ s @ [CHR 0x22]) (JStr t)"
| json_obj: "json_members s ms \<Longrightarrow> json_text (''{'' @ s @ ''}'') (JObj ms)"
| json_arr: "json_elements s vs \<Longrightarrow> json_text (''['' @ s @ '']'') (JArr vs)"
| no_members: "json_ws w \<Longrightarrow> json_members w []"
| json_member: "json_ws w \<Longrightarrow> json_ws w' \<Longrightarrow> json_ws w'' \<Longrightarrow> json_ws w''' \<Longrightarrow> unescape k = Some key \<Longrightarrow> json_text s v \<Longrightarrow>
    json_members (w @ [CHR 0x22] @ k @ [CHR 0x22] @ w' @ '':'' @ w'' @ s @ w''') [(key, v)]"
| json_more_members: "json_members s ms \<Longrightarrow> json_members s' ms' \<Longrightarrow> ms \<noteq> [] \<Longrightarrow> ms' \<noteq> [] \<Longrightarrow>
    json_members (s @ '','' @ s') (ms @ ms')"
| no_elements: "json_ws w \<Longrightarrow> json_elements w []"
| json_element: "json_ws w \<Longrightarrow> json_ws w' \<Longrightarrow> json_text s v \<Longrightarrow> json_elements (w @ s @ w') [v]"
| json_more_elements: "json_elements s vs \<Longrightarrow> json_elements s' vs' \<Longrightarrow> vs \<noteq> [] \<Longrightarrow> vs' \<noteq> [] \<Longrightarrow>
    json_elements (s @ '','' @ s') (vs @ vs')"

section \<open>The escape is undone by reading\<close>

text \<open>The characters the reporter can pass on: no control characters but the five it escapes.\<close>

definition clean_char :: "char \<Rightarrow> bool" where
  "clean_char c \<longleftrightarrow> 32 \<le> (of_char c :: nat) \<or> c \<in> {CHR 0x08, CHR 0x0C, CHR 0x0A, CHR 0x0D, CHR 0x09}"

definition clean :: "string \<Rightarrow> bool" where
  "clean s \<longleftrightarrow> (\<forall>c \<in> set s. clean_char c)"

lemma StrEscape_concat: "StrEscape s = concat (map escape_char s)"
proof -
  have "foldl (\<lambda>tmp c. tmp @ escape_char c) t s = t @ concat (map escape_char s)" for t
    by (induction s arbitrary: t) simp_all
  then show ?thesis by (simp add: StrEscape_def)
qed

lemma unescape_plain:
  "c \<noteq> CHR 0x5C \<Longrightarrow> c \<noteq> CHR 0x22 \<Longrightarrow> 32 \<le> (of_char c :: nat) \<Longrightarrow> unescape (c # s) = map_option (Cons c) (unescape s)"
  by (cases s) auto

lemma unescape_escape_char:
  assumes "clean_char c"
  shows "unescape (escape_char c @ s) = map_option (Cons c) (unescape s)"
  using assms unescape_plain[of c s] by (auto simp: escape_char_def clean_char_def escape_meaning_def)

lemma unescape_StrEscape: "clean s \<Longrightarrow> unescape (StrEscape s) = Some s"
  by (induction s) (auto simp: StrEscape_concat unescape_escape_char clean_def)

section \<open>The numbers are JSON numbers\<close>

definition decimal_text :: "string \<Rightarrow> bool" where
  "decimal_text s \<longleftrightarrow> (\<exists>i f. all_digits i \<and> (i = ''0'' \<or> hd i \<noteq> CHR ''0'') \<and> (\<forall>c \<in> set f. is_digit c) \<and>
     s = i @ (if f = [] then [] else CHR ''.'' # f))"

lemma show_nat_hd: "0 < n \<Longrightarrow> hd (show_nat n) \<noteq> CHR ''0''"
proof (induction n rule: show_nat.induct)
  case (1 n)
  show ?case
  proof (cases "n < 10")
    case True
    have "digit_value (digit_char n) = n" using True by simp
    then have "digit_char n \<noteq> CHR ''0''" using 1 by (auto simp: digit_value_def)
    then show ?thesis using True by (subst show_nat.simps) simp
  next
    case False
    then have "hd (show_nat (n div 10)) \<noteq> CHR ''0''" using 1 by simp
    then show ?thesis using False by (subst show_nat.simps) simp
  qed
qed

lemma show_nat_0 [simp]: "show_nat 0 = ''0''"
  by (subst show_nat.simps) (simp add: digit_char_def char_of_def bit_iff_odd)

lemma all_digits_show_nat [simp]: "all_digits (show_nat n)"
  using show_nat_digits by (simp add: all_digits_def)

lemma show_nat_int: "show_nat n = ''0'' \<or> hd (show_nat n) \<noteq> CHR ''0''"
  using show_nat_hd[of n] by (cases n) auto

lemma is_digit_0 [simp]: "is_digit CHR ''0''" and not_digit_point [simp]: "\<not> is_digit CHR ''.''"
  by (simp_all add: is_digit_def)

lemma insert_point_decimal: "decimal_text (insert_point p (show_nat m))"
proof -
  define s where "s = show_nat m"
  define z where "z = replicate (Suc p - length s) CHR ''0'' @ s"
  define k where "k = length z - p"
  have s: "s \<noteq> []" "\<forall>c \<in> set s. is_digit c" using show_nat_digits by (simp_all add: s_def)
  have z: "\<forall>c \<in> set z. is_digit c" "Suc p \<le> length z" using s by (auto simp: z_def)
  show ?thesis
  proof (cases "p = 0")
    case True
    then have "insert_point p s = s" using s by (cases s) (simp_all add: insert_point_def)
    then show ?thesis unfolding decimal_text_def s_def[symmetric]
      using show_nat_int[of m] by (intro exI[of _ s] exI[of _ "[]"]) (simp add: s_def)
  next
    case False
    have k: "0 < k" "k \<le> length z" using z by (auto simp: k_def)
    have i: "all_digits (take k z)" using z(1) k by (auto simp: all_digits_def dest: in_set_takeD)
    have "take k z = ''0'' \<or> hd (take k z) \<noteq> CHR ''0''"
    proof (cases "length s \<le> p")
      case True
      then have "k = 1" "hd z = CHR ''0''" "z \<noteq> []" by (auto simp: k_def z_def Suc_diff_le)
      then show ?thesis by (cases z) auto
    next
      case False
      then have zs: "z = s" by (simp add: z_def)
      have "m \<noteq> 0"
      proof
        assume "m = 0"
        then show False using False \<open>p \<noteq> 0\<close> by (simp add: s_def)
      qed
      then show ?thesis using show_nat_hd[of m] k zs by (simp add: s_def)
    qed
    moreover have "drop k z \<noteq> []" using k \<open>p \<noteq> 0\<close> z by (auto simp: k_def)
    moreover have "\<forall>c \<in> set (drop k z). is_digit c" using z(1) by (auto dest: in_set_dropD)
    moreover have "insert_point p s = take k z @ CHR ''.'' # drop k z"
      using False by (simp add: insert_point_def z_def k_def)
    ultimately show ?thesis unfolding decimal_text_def s_def[symmetric]
      using i by (intro exI[of _ "take k z"] exI[of _ "drop k z"]) simp
  qed
qed

lemma strip_zeros_decimal:
  assumes "decimal_text s"
  shows "decimal_text (strip_zeros s)"
proof -
  obtain i f where s: "all_digits i" "i = ''0'' \<or> hd i \<noteq> CHR ''0''" "\<forall>c \<in> set f. is_digit c"
    "s = i @ (if f = [] then [] else CHR ''.'' # f)"
    using assms by (auto simp: decimal_text_def)
  have no_point: "CHR ''.'' \<notin> set i" using s(1) by (auto simp: all_digits_def)
  define g where "g = rev (dropWhile (\<lambda>c. c = CHR ''0'') (rev f))"
  have g: "\<forall>c \<in> set g. is_digit c" using s(3) by (auto simp: g_def dest: set_dropWhileD)
  have "strip_zeros s = i @ (if g = [] then [] else CHR ''.'' # g)"
  proof (cases "f = []")
    case True
    then show ?thesis using no_point s(4) by (simp add: strip_zeros_def g_def)
  next
    case f: False
    show ?thesis
    proof (cases "g = []")
      case True
      then have "\<forall>c \<in> set f. c = CHR ''0''" by (simp add: g_def dropWhile_eq_Nil_conv)
      then show ?thesis using f True s(4) by (simp add: strip_zeros_def dropWhile_append)
    next
      case False
      then have "\<exists>c \<in> set f. c \<noteq> CHR ''0''" by (simp add: g_def dropWhile_eq_Nil_conv)
      moreover have "last g \<noteq> CHR ''.''" using g False by (metis last_in_set not_digit_point)
      ultimately show ?thesis using f False s(4)
        by (auto simp: strip_zeros_def dropWhile_append g_def)
    qed
  qed
  then show ?thesis unfolding decimal_text_def using s(1,2) g
    by (intro exI[of _ i] exI[of _ g]) simp
qed

lemma decimal_number:
  assumes "decimal_text s"
  shows "json_number s" "\<forall>c \<in> set s. is_digit c \<or> c = CHR ''.''" "is_digit (hd s)" "s \<noteq> []"
proof -
  obtain i f where s: "all_digits i" "i = ''0'' \<or> hd i \<noteq> CHR ''0''" "\<forall>c \<in> set f. is_digit c"
    "s = i @ (if f = [] then [] else CHR ''.'' # f)"
    using assms by (auto simp: decimal_text_def)
  show "json_number s"
    using json_number.int[OF s(1,2)] json_number.frac[of i f] s by (auto simp: all_digits_def)
  show "\<forall>c \<in> set s. is_digit c \<or> c = CHR ''.''" "is_digit (hd s)" "s \<noteq> []"
    using s by (auto simp: all_digits_def)
qed

lemma exponent_number: "decimal_text s \<Longrightarrow> json_number (s @ show_exponent x)"
proof -
  assume s: "decimal_text s"
  let ?d = "(if \<bar>x\<bar> < 10 then ''0'' else []) @ show_nat (nat \<bar>x\<bar>)"
  have "all_digits ?d" using show_nat_digits by (auto simp: all_digits_def)
  then have "json_number (s @ ''e'' @ (if x < 0 then ''-'' else ''+'') @ ?d)"
    by (intro json_number.exp decimal_number[OF s]) auto
  then show ?thesis by (simp add: show_exponent_def split: if_splits)
qed

lemma json_number_minus: "json_number s \<Longrightarrow> is_digit (hd s) \<Longrightarrow> json_number (''-'' @ s)"
  by (rule json_number.minus)

lemma json_number_show_int: "json_number (show_int n)"
  using json_number.int[OF all_digits_show_nat show_nat_int] json_number_minus[of "show_nat (nat (- n))"]
    show_nat_digits[of "nat (- n)"] by (auto simp: show_int_def)

lemma json_number_show_double:
  assumes "dfinite d" and "\<And>r. json_number (f r) \<and> is_digit (hd (f r))"
  shows "json_number (show_double f d)"
  using assms(1) assms(2) json_number_minus[OF conjunct1[OF assms(2)] conjunct2[OF assms(2)]]
  by (cases d) (simp_all add: show_double_def)

lemma hd_is_digit_append: "decimal_text s \<Longrightarrow> is_digit (hd (s @ t))"
  using decimal_number(3,4) by simp

lemma sci_string_number: "json_number (sci_string p r) \<and> is_digit (hd (sci_string p r))"
proof -
  have z: "''e+00'' = show_exponent 0" by (simp add: show_exponent_def)
  show ?thesis
    unfolding sci_string_def z
    by (auto simp: case_prod_unfold Let_def intro!: exponent_number hd_is_digit_append insert_point_decimal
        simp del: show_nat_0)
qed

lemma decimal_zero: "decimal_text ''0''"
  unfolding decimal_text_def by (intro exI[of _ "''0''"] exI[of _ "[]"]) (simp add: all_digits_def)

lemma general_string_number: "json_number (general_string p r) \<and> is_digit (hd (general_string p r))"
  unfolding general_string_def fixed_digits_def
  using decimal_number[OF decimal_zero]
    decimal_number(1,3)[OF strip_zeros_decimal[OF insert_point_decimal]]
  by (auto simp: case_prod_unfold Let_def
      intro!: exponent_number hd_is_digit_append strip_zeros_decimal insert_point_decimal)

lemma json_number_fmt_e: "dfinite d \<Longrightarrow> json_number (fmt_e p d)"
  unfolding fmt_e_def by (rule json_number_show_double[OF _ sci_string_number])

lemma json_number_ostream: "dfinite d \<Longrightarrow> json_number (ostream_double d)"
  unfolding ostream_double_def by (rule json_number_show_double[OF _ general_string_number])

section \<open>What a reader of the document sees\<close>

text \<open>The members of the object that stands for a run, in order.\<close>

definition num :: "int \<Rightarrow> json" where "num n = JNum (show_int n)"

definition real_num :: "double \<Rightarrow> json" where "real_num d = JNum (show_json_double d)"

definition members_before :: "Run \<Rightarrow> (string \<times> json) list" where
  "members_before run =
     [(''name'', JStr (benchmark_name run)), (''family_index'', num (r_family_index run)),
      (''per_family_instance_index'', num (r_per_family_instance_index run)),
      (''run_name'', JStr (BenchmarkName_str (r_run_name run))),
      (''run_type'', JStr (run_type_string (r_run_type run))), (''repetitions'', num (r_repetitions run))] @
     (if r_run_type run \<noteq> RT_Aggregate then [(''repetition_index'', num (r_repetition_index run))] else []) @
     [(''threads'', num (r_threads run))] @
     (if r_run_type run = RT_Aggregate
      then [(''aggregate_name'', JStr (r_aggregate_name run)),
            (''aggregate_unit'', JStr (aggregate_unit_string (r_aggregate_unit run)))] else []) @
     (case r_skipped run of
        SkippedWithError \<Rightarrow> [(''error_occurred'', JBool True), (''error_message'', JStr (r_skip_message run))]
      | SkippedWithMessage \<Rightarrow> [(''skipped'', JBool True), (''skip_message'', JStr (r_skip_message run))]
      | NotSkipped \<Rightarrow> [])"

definition members_times :: "Run \<Rightarrow> (string \<times> json) list" where
  "members_times run =
     (if r_report_big_o run then
        [(''cpu_coefficient'', real_num (GetAdjustedCPUTime run)),
         (''real_coefficient'', real_num (GetAdjustedRealTime run)),
         (''big_o'', JStr (GetBigOString (r_complexity run))),
         (''time_unit'', JStr (GetTimeUnitString (r_time_unit run)))]
      else if r_report_rms run then [(''rms'', real_num (GetAdjustedCPUTime run))]
      else
        (let percentage = (r_run_type run = RT_Aggregate \<and> r_aggregate_unit run = kPercentage)
         in [(''iterations'', num (r_iterations run)),
             (''real_time'', real_num (if percentage then r_real_accumulated_time run else GetAdjustedRealTime run)),
             (''cpu_time'', real_num (if percentage then r_cpu_accumulated_time run else GetAdjustedCPUTime run)),
             (''time_unit'', JStr (GetTimeUnitString (r_time_unit run)))]))"

definition members_after :: "Run \<Rightarrow> (string \<times> json) list" where
  "members_after run =
     map (\<lambda>(key, c). (key, real_num (c_value c))) (r_counters run) @
     (let mem = r_memory_result run in
      if m_memory_iterations mem > 0 then
        [(''allocs_per_iter'', real_num (r_allocs_per_iter run)), (''max_bytes_used'', num (m_max_bytes_used mem))] @
        (if m_total_allocated_bytes mem \<noteq> TombstoneValue
         then [(''total_allocated_bytes'', num (m_total_allocated_bytes mem))] else []) @
        (if m_net_heap_growth mem \<noteq> TombstoneValue
         then [(''net_heap_growth'', num (m_net_heap_growth mem))] else [])
      else []) @
     (if r_report_label run \<noteq> [] then [(''label'', JStr (r_report_label run))] else [])"

definition run_value :: "Run \<Rightarrow> json" where
  "run_value run = JObj (members_before run @ members_times run @ members_after run)"

text \<open>The object that stands for the context.\<close>

definition cache_value :: "CacheInfo \<Rightarrow> json" where
  "cache_value ci = JObj [(''type'', JStr (ca_type ci)), (''level'', num (ca_level ci)),
     (''size'', num (ca_size ci)), (''num_sharing'', num (ca_num_sharing ci))]"

definition context_value :: "Context \<Rightarrow> int \<Rightarrow> json" where
  "context_value context mhz =
     (let info = cx_cpu_info context; sysinfo = cx_sys_info context in
      JObj ([(''date'', JStr (cx_local_date_time context)), (''host_name'', JStr (sys_name sysinfo))] @
        (case cx_executable_name context of None \<Rightarrow> [] | Some name \<Rightarrow> [(''executable'', JStr name)]) @
        [(''num_cpus'', num (cpu_num_cpus info)), (''mhz_per_cpu'', num mhz)] @
        (if cpu_scaling info \<noteq> Scaling.UNKNOWN
         then [(''cpu_scaling_enabled'', JBool (cpu_scaling info = Scaling.ENABLED))] else []) @
        (if sys_ASLRStatus sysinfo \<noteq> ASLR.UNKNOWN
         then [(''aslr_enabled'', JBool (sys_ASLRStatus sysinfo = ASLR.ENABLED))] else []) @
        [(''caches'', JArr (map cache_value (cpu_caches info))),
         (''load_avg'', JArr (map (\<lambda>d. JNum (ostream_double d)) (cpu_load_avg info))),
         (''library_version'', JStr (cx_library_version context)),
         (''library_build_type'', JStr ''debug''), (''json_schema_version'', num 1)] @
        (case cx_global_context context of None \<Rightarrow> [] | Some m \<Rightarrow> map (\<lambda>(key, val). (key, JStr val)) m)))"

definition document_value :: "Context \<Rightarrow> int \<Rightarrow> Run list \<Rightarrow> json" where
  "document_value context mhz runs =
     JObj [(''context'', context_value context mhz), (''benchmarks'', JArr (map run_value runs))]"

text \<open>
  The texts a JSON document can hold: clean strings and finite numbers.  The reporter writes the
  other control characters as they are, and the bare words \<open>NaN\<close> and \<open>Infinity\<close>.
\<close>

definition clean_members :: "(string \<times> json) list \<Rightarrow> bool" where
  "clean_members ms \<longleftrightarrow> (\<forall>(key, v) \<in> set ms. clean key \<and>
     (case v of JStr s \<Rightarrow> clean s | JNum s \<Rightarrow> s \<notin> {''NaN'', ''Infinity'', ''-Infinity''} | _ \<Rightarrow> True))"

definition clean_run :: "Run \<Rightarrow> bool" where
  "clean_run run \<longleftrightarrow> clean_members (members_before run @ members_times run @ members_after run)"

definition clean_context :: "Context \<Rightarrow> bool" where
  "clean_context context \<longleftrightarrow>
     clean (cx_local_date_time context) \<and> clean (sys_name (cx_sys_info context)) \<and>
     (\<forall>name. cx_executable_name context = Some name \<longrightarrow> clean name) \<and>
     (\<forall>ci \<in> set (cpu_caches (cx_cpu_info context)). clean (ca_type ci)) \<and>
     (\<forall>d \<in> set (cpu_load_avg (cx_cpu_info context)). dfinite d) \<and>
     clean (cx_library_version context) \<and>
     (\<forall>m. cx_global_context context = Some m \<longrightarrow> (\<forall>(key, val) \<in> set m. clean key \<and> clean val))"

section \<open>The text of an object\<close>

text \<open>The scalars as the reporter writes them.\<close>

fun scalar_text :: "json \<Rightarrow> string" where
  "scalar_text (JBool b) = (if b then ''true'' else ''false'')"
| "scalar_text (JNum s) = s"
| "scalar_text (JStr s) = quoted_c s"
| "scalar_text _ = []"

definition item :: "string \<times> string \<Rightarrow> string" where
  "item = (\<lambda>(key, text). quoted key @ '': '' @ text)"

definition scalar_item :: "string \<times> json \<Rightarrow> string" where
  "scalar_item = (\<lambda>(key, v). item (key, scalar_text v))"

lemma json_ws_simps [simp]:
  "json_ws []" "json_ws (c # s) \<longleftrightarrow> c \<in> {CHR 0x20, CHR 0x09, CHR 0x0A, CHR 0x0D} \<and> json_ws s"
  "json_ws (s @ t) \<longleftrightarrow> json_ws s \<and> json_ws t" "json_ws (spaces n)"
  by (auto simp: json_ws_def spaces_def)

lemma quoted_text: "clean s \<Longrightarrow> json_text (quoted s) (JStr s)"
  unfolding quoted_def by (rule json_str) (rule unescape_StrEscape)

lemma StrEscape_NUL: "CHR 0x00 \<in> set (StrEscape s) \<longleftrightarrow> CHR 0x00 \<in> set s"
  by (induction s) (auto simp: StrEscape_concat escape_char_def)

lemma quoted_c_plain [simp]: "CHR 0x00 \<notin> set s \<Longrightarrow> quoted_c s = quoted s"
  by (simp add: quoted_c_def quoted_def c_str_plain StrEscape_NUL)

lemma clean_plain: "clean s \<Longrightarrow> CHR 0x00 \<notin> set s"
  by (auto simp: clean_def clean_char_def)

lemma quoted_c_text: "clean s \<Longrightarrow> json_text (quoted_c s) (JStr s)"
  by (simp add: quoted_text clean_plain)

lemma item_members:
  assumes "clean key" "json_text text v" "json_ws w" "json_ws w'"
  shows "json_members (w @ item (key, text) @ w') [(key, v)]"
proof -
  have c: "json_ws '' ''" by simp
  show ?thesis
    using json_member[OF assms(3) json_ws_simps(1) c assms(4) unescape_StrEscape[OF assms(1)] assms(2)]
    by (simp add: item_def quoted_def)
qed

text \<open>White space may be put around the members and the elements.\<close>

lemma json_members_ws: "json_members s ms \<Longrightarrow> json_ws w \<Longrightarrow> json_ws w' \<Longrightarrow> json_members (w @ s @ w') ms"
proof -
  have "(json_text t v \<longrightarrow> True) \<and>
      (json_members s ms \<longrightarrow> (\<forall>w w'. json_ws w \<longrightarrow> json_ws w' \<longrightarrow> json_members (w @ s @ w') ms)) \<and>
      (json_elements t' vs \<longrightarrow> True)" for t v t' vs
  proof (rule json_text_json_members_json_elements.induct, goal_cases)
    case (8 w w' w'' w''' k key s v)
    then show ?case using json_member[of "x @ w" w' w'' "w''' @ y" k key s v for x y] by simp
  next
    case (9 s ms s' ms')
    have l: "json_members (w @ s) ms" if "json_ws w" for w using 9(2)[rule_format, of w "[]"] that by simp
    have r: "json_members (s' @ w) ms'" if "json_ws w" for w using 9(4)[rule_format, of "[]" w] that by simp
    show ?case using json_more_members[OF l r 9(5,6)] by simp
  qed (auto intro: json_text_json_members_json_elements.intros)
  then show "json_members s ms \<Longrightarrow> json_ws w \<Longrightarrow> json_ws w' \<Longrightarrow> json_members (w @ s @ w') ms" by blast
qed

lemma json_elements_ws: "json_elements s vs \<Longrightarrow> json_ws w \<Longrightarrow> json_ws w' \<Longrightarrow> json_elements (w @ s @ w') vs"
proof -
  have "(json_text t v \<longrightarrow> True) \<and> (json_members t' ms \<longrightarrow> True) \<and>
      (json_elements s vs \<longrightarrow> (\<forall>w w'. json_ws w \<longrightarrow> json_ws w' \<longrightarrow> json_elements (w @ s @ w') vs))" for t v t' ms
  proof (rule json_text_json_members_json_elements.induct, goal_cases)
    case (11 w w' s v)
    then show ?case using json_element[of "x @ w" "w' @ y" s v for x y] by simp
  next
    case (12 s vs s' vs')
    have l: "json_elements (w @ s) vs" if "json_ws w" for w using 12(2)[rule_format, of w "[]"] that by simp
    have r: "json_elements (s' @ w) vs'" if "json_ws w" for w using 12(4)[rule_format, of "[]" w] that by simp
    show ?case using json_more_elements[OF l r 12(5,6)] by simp
  qed (auto intro: json_text_json_members_json_elements.intros)
  then show "json_elements s vs \<Longrightarrow> json_ws w \<Longrightarrow> json_ws w' \<Longrightarrow> json_elements (w @ s @ w') vs" by blast
qed

text \<open>Members with a separator that begins with a comma and goes on with white space.\<close>

lemma separated_members:
  assumes "xs \<noteq> []" "json_ws w" "\<forall>(key, text, v) \<in> set xs. clean key \<and> json_text text v"
  shows "json_members (separated ('','' @ w) (map (\<lambda>(key, text, v). item (key, text)) xs))
    (map (\<lambda>(key, text, v). (key, v)) xs)"
  using assms(1,3)
proof (induction xs)
  case (Cons x xs)
  obtain key s v where x: "x = (key, s, v)" by (cases x) auto
  have 1: "json_members (item (key, s)) [(key, v)]"
    using item_members[of key s v "[]" "[]"] Cons.prems x by simp
  show ?case
  proof (cases "xs = []")
    case False
    let ?rest = "separated ('','' @ w) (map (\<lambda>(key, text, v). item (key, text)) xs)"
    have "json_members (w @ ?rest) (map (\<lambda>(key, text, v). (key, v)) xs)"
      using json_members_ws[of ?rest _ w "[]"] Cons False assms(2) by simp
    then show ?thesis using json_more_members[OF 1] False x by (simp add: separated_Cons)
  qed (use 1 x in simp)
qed simp

lemma separated_elements:
  assumes "xs \<noteq> []" "json_ws w" "\<forall>(text, v) \<in> set xs. json_text text v"
  shows "json_elements (separated ('','' @ w) (map fst xs)) (map snd xs)"
  using assms(1,3)
proof (induction xs)
  case (Cons x xs)
  have 1: "json_elements (fst x) [snd x]"
    using json_element[of "[]" "[]" "fst x" "snd x"] Cons.prems by (auto simp: case_prod_unfold)
  show ?case
  proof (cases "xs = []")
    case False
    let ?rest = "separated ('','' @ w) (map fst xs)"
    have "json_elements (w @ ?rest) (map snd xs)"
      using json_elements_ws[of ?rest _ w "[]"] Cons False assms(2) by simp
    then show ?thesis using json_more_elements[OF 1] False by (simp add: separated_Cons)
  qed (use 1 in simp)
qed simp

section \<open>The text of a run\<close>

definition scalar :: "json \<Rightarrow> bool" where
  "scalar v \<longleftrightarrow> (\<exists>n. v = num n) \<or> (\<exists>d. v = real_num d) \<or> (\<exists>s. v = JStr s) \<or> (\<exists>b. v = JBool b)"

lemma scalar_simps [simp]: "scalar (num n)" "scalar (real_num d)" "scalar (JStr s)" "scalar (JBool b)"
  by (auto simp: scalar_def)

lemma json_number_double: "show_json_double d \<notin> {''NaN'', ''Infinity'', ''-Infinity''} \<Longrightarrow> json_number (show_json_double d)"
  using json_number_fmt_e[of d 16] by (cases d) (auto simp: show_json_double_def split: if_splits)

lemma clean_scalar_text:
  assumes "clean_members ms" "(key, v) \<in> set ms" "scalar v"
  shows "clean key \<and> json_text (scalar_text v) v"
proof -
  have c: "clean key" "case v of JStr s \<Rightarrow> clean s | JNum s \<Rightarrow> s \<notin> {''NaN'', ''Infinity'', ''-Infinity''} | _ \<Rightarrow> True"
    using assms(1,2) by (auto simp: clean_members_def)
  have "json_text (scalar_text v) v"
    using assms(3) c(2) json_num[OF json_number_show_int] json_num[OF json_number_double] json_true json_false
    by (auto simp: scalar_def num_def real_num_def quoted_c_text)
  with c(1) show ?thesis by simp
qed

lemma run_members_scalar: "(key, v) \<in> set (members_before run @ members_times run @ members_after run) \<Longrightarrow> scalar v"
  by (auto simp: members_before_def members_times_def members_after_def Let_def split: if_splits Skipped.splits)

definition run_separator :: string where
  "run_separator = '','' @ ''\<newline>'' @ spaces 6"

lemma run_line_item: "run_line kv @ s = spaces 6 @ kv @ '',\<newline>'' @ s"
  by (simp add: run_line_def)

lemma member_after_item: "member_after kv = run_separator @ kv"
  by (simp add: member_after_def run_separator_def)

lemma run_line_separator: "run_line kv @ spaces 6 @ s = spaces 6 @ kv @ run_separator @ s"
  by (simp add: run_line_def run_separator_def)

lemma members_times_neq_Nil [simp]: "members_times run \<noteq> []"
  by (simp add: members_times_def Let_def)

lemma print_times_items:
  "spaces 6 @ separated run_separator (map scalar_item (members_times run)) = print_times run"
  by (cases "r_aggregate_unit run") (auto simp: print_times_def members_times_def scalar_item_def item_def run_line_def run_separator_def
      member_after_def FormatKV_string_def FormatKV_double_def FormatKV_int_def num_def real_num_def Let_def)

lemma members_before_items:
  "concat (map (\<lambda>m. run_line (scalar_item m)) (members_before run)) =
     run_line (FormatKV_string ''name'' (benchmark_name run)) @
     run_line (FormatKV_int ''family_index'' (r_family_index run)) @
     run_line (FormatKV_int ''per_family_instance_index'' (r_per_family_instance_index run)) @
     run_line (FormatKV_string ''run_name'' (BenchmarkName_str (r_run_name run))) @
     run_line (FormatKV_string ''run_type'' (run_type_string (r_run_type run))) @
     run_line (FormatKV_int ''repetitions'' (r_repetitions run)) @
     (if r_run_type run \<noteq> RT_Aggregate
      then run_line (FormatKV_int ''repetition_index'' (r_repetition_index run)) else []) @
     run_line (FormatKV_int ''threads'' (r_threads run)) @
     (if r_run_type run = RT_Aggregate
      then run_line (FormatKV_string ''aggregate_name'' (r_aggregate_name run)) @
           run_line (FormatKV_string ''aggregate_unit'' (aggregate_unit_string (r_aggregate_unit run))) else []) @
     print_skipped run"
  by (cases "r_skipped run")
    (auto simp: members_before_def print_skipped_def scalar_item_def item_def
      FormatKV_string_def FormatKV_int_def FormatKV_bool_def num_def)

lemma members_after_items:
  "concat (map (\<lambda>m. member_after (scalar_item m)) (members_after run)) =
     concat (map (\<lambda>(key, c). member_after (FormatKV_double key (c_value c))) (r_counters run)) @
     print_memory run @
     (if r_report_label run \<noteq> [] then member_after (FormatKV_string ''label'' (r_report_label run)) else [])"
  by (simp add: members_after_def print_memory_def Let_def scalar_item_def item_def comp_def case_prod_unfold
      FormatKV_string_def FormatKV_int_def FormatKV_double_def num_def real_num_def)

lemma run_lines:
  "concat (map (\<lambda>m. run_line (f m)) xs) @ spaces 6 @ s =
     spaces 6 @ concat (map (\<lambda>x. x @ run_separator) (map f xs)) @ s"
  by (induction xs) (simp_all add: run_line_separator)

text \<open>A run is its members, one on each line.\<close>

lemma PrintRunData_items:
  "JSONReporter_PrintRunData run = spaces 6 @
     separated run_separator (map scalar_item (members_before run @ members_times run @ members_after run)) @ ''\<newline>''"
proof -
  have "separated run_separator (map scalar_item (members_before run @ members_times run @ members_after run)) =
     concat (map (\<lambda>x. x @ run_separator) (map scalar_item (members_before run))) @
     separated run_separator (map scalar_item (members_times run)) @
     concat (map (\<lambda>m. member_after (scalar_item m)) (members_after run))"
    by (simp add: separated_before separated_after member_after_item comp_def)
  then have "spaces 6 @ separated run_separator (map scalar_item (members_before run @ members_times run @ members_after run)) =
     concat (map (\<lambda>m. run_line (scalar_item m)) (members_before run)) @ print_times run @
     concat (map (\<lambda>m. member_after (scalar_item m)) (members_after run))"
    using run_lines[of scalar_item "members_before run"
        "separated run_separator (map scalar_item (members_times run)) @
         concat (map (\<lambda>m. member_after (scalar_item m)) (members_after run))"]
    by (simp flip: print_times_items)
  then show ?thesis
    unfolding append_assoc[symmetric]
    unfolding members_before_items members_after_items JSONReporter_PrintRunData_def
    by simp
qed

lemma run_text:
  assumes "clean_run run"
  shows "json_text (''{\<newline>'' @ JSONReporter_PrintRunData run @ spaces 4 @ ''}'') (run_value run)"
proof -
  let ?ms = "members_before run @ members_times run @ members_after run"
  let ?xs = "map (\<lambda>(key, v). (key, scalar_text v, v)) ?ms"
  have "\<forall>(key, text, v) \<in> set ?xs. clean key \<and> json_text text v"
    using clean_scalar_text[OF assms[unfolded clean_run_def] _ run_members_scalar] by auto
  then have "json_members (separated ('','' @ (''\<newline>'' @ spaces 6)) (map (\<lambda>(key, text, v). item (key, text)) ?xs))
      (map (\<lambda>(key, text, v). (key, v)) ?xs)"
    by (intro separated_members) auto
  then have "json_members (separated run_separator (map scalar_item ?ms)) ?ms"
    by (simp add: run_separator_def scalar_item_def comp_def case_prod_unfold)
  then have "json_members ((''\<newline>'' @ spaces 6) @ separated run_separator (map scalar_item ?ms) @ (''\<newline>'' @ spaces 4)) ?ms"
    by (rule json_members_ws) auto
  from json_obj[OF this] show ?thesis
    unfolding PrintRunData_items run_value_def by simp
qed

section \<open>The text of the runs\<close>

lemma print_runs_elements:
  assumes "runs \<noteq> []" "\<forall>r \<in> set runs. clean_run r"
  shows "json_elements (print_runs runs) (map run_value runs)"
  using assms
proof (induction runs)
  case (Cons run runs)
  have 1: "json_elements (spaces 4 @ ''{\<newline>'' @ JSONReporter_PrintRunData run @ spaces 4 @ ''}'') [run_value run]"
    using json_element[of "spaces 4" "[]" _ "run_value run"] run_text[of run] Cons.prems by simp
  show ?case
  proof (cases "runs = []")
    case False
    have "json_elements (''\<newline>'' @ print_runs runs) (map run_value runs)"
      using json_elements_ws[of "print_runs runs" _ "''\<newline>''" "[]"] Cons False by simp
    then show ?thesis using json_more_elements[OF 1] False by simp
  qed (use 1 in simp)
qed simp

text \<open>All batches, one after the other.\<close>

fun report_batches :: "Run list list \<Rightarrow> JSONReporter \<Rightarrow> string" where
  "report_batches [] js = []"
| "report_batches (b # bs) js =
     (case JSONReporter_ReportRuns b js of (js', t) \<Rightarrow> t @ report_batches bs js')"

lemma report_batches_elements:
  assumes "\<forall>b \<in> set bs. \<forall>r \<in> set b. clean_run r"
  shows "(js_first_report js \<longrightarrow> json_elements (report_batches bs js) (map run_value (concat bs))) \<and>
    (\<not> js_first_report js \<longrightarrow> s \<noteq> [] \<longrightarrow> json_elements t s \<longrightarrow>
      json_elements (t @ report_batches bs js) (s @ map run_value (concat bs)))"
  using assms
proof (induction bs arbitrary: js s t)
  case Nil
  then show ?case using no_elements[of "[]"] by simp
next
  case (Cons b bs)
  show ?case
  proof (cases "b = []")
    case True
    then show ?thesis using Cons by (simp add: JSONReporter_ReportRuns_def)
  next
    case False
    let ?js = "js\<lparr>js_first_report := False\<rparr>"
    have b: "json_elements (print_runs b) (map run_value b)" using print_runs_elements False Cons.prems by simp
    have b': "json_elements (''\<newline>'' @ print_runs b) (map run_value b)"
      using json_elements_ws[OF b, of "''\<newline>''" "[]"] by simp
    have IH: "json_elements (t @ report_batches bs ?js) (s @ map run_value (concat bs))"
      if "s \<noteq> []" "json_elements t s" for s t
      using Cons.IH[of ?js s t] Cons.prems that by simp
    have first: "json_elements (print_runs b @ report_batches bs ?js) (map run_value b @ map run_value (concat bs))"
      using IH[OF _ b] False by simp
    have later: "json_elements ((t @ '','' @ ''\<newline>'' @ print_runs b) @ report_batches bs ?js)
        ((s @ map run_value b) @ map run_value (concat bs))" if "s \<noteq> []" "json_elements t s"
      using IH[OF _ json_more_elements[OF that(2) b']] that False by simp
    show ?thesis using first later False by (auto simp: JSONReporter_ReportRuns_def)
  qed
qed

section \<open>The text of the context\<close>

definition array_text :: "string \<Rightarrow> string" where
  "array_text s = ''['' @ s @ '']''"

definition caches_text :: "CacheInfo list \<Rightarrow> string" where
  "caches_text cs = array_text (''\<newline>'' @ (if cs = [] then [] else separated ('','' @ ''\<newline>'') (map json_cache cs) @ ''\<newline>'') @ spaces 4)"

definition load_text :: "double list \<Rightarrow> string" where
  "load_text ds = array_text (separated '','' (map ostream_double ds))"

text \<open>The members of the context object with their texts.\<close>

definition context_before :: "Context \<Rightarrow> int \<Rightarrow> (string \<times> string \<times> json) list" where
  "context_before context mhz =
     (let info = cx_cpu_info context; sysinfo = cx_sys_info context; scalar = (\<lambda>key v. (key, scalar_text v, v)) in
      [scalar ''date'' (JStr (cx_local_date_time context)), scalar ''host_name'' (JStr (sys_name sysinfo))] @
      (case cx_executable_name context of None \<Rightarrow> [] | Some name \<Rightarrow> [scalar ''executable'' (JStr name)]) @
      [scalar ''num_cpus'' (num (cpu_num_cpus info)), scalar ''mhz_per_cpu'' (num mhz)] @
      (if cpu_scaling info \<noteq> Scaling.UNKNOWN
       then [scalar ''cpu_scaling_enabled'' (JBool (cpu_scaling info = Scaling.ENABLED))] else []) @
      (if sys_ASLRStatus sysinfo \<noteq> ASLR.UNKNOWN
       then [scalar ''aslr_enabled'' (JBool (sys_ASLRStatus sysinfo = ASLR.ENABLED))] else []) @
      [(''caches'', caches_text (cpu_caches info), JArr (map cache_value (cpu_caches info))),
       (''load_avg'', load_text (cpu_load_avg info), JArr (map (\<lambda>d. JNum (ostream_double d)) (cpu_load_avg info))),
       scalar ''library_version'' (JStr (cx_library_version context)),
       scalar ''library_build_type'' (JStr ''debug'')])"

definition context_items :: "Context \<Rightarrow> int \<Rightarrow> (string \<times> string \<times> json) list" where
  "context_items context mhz = context_before context mhz @ [(''json_schema_version'', scalar_text (num 1), num 1)] @
     (case cx_global_context context of None \<Rightarrow> []
      | Some m \<Rightarrow> map (\<lambda>(key, val). (key, scalar_text (JStr val), JStr val)) m)"

lemma context_items_value:
  "JObj (map (\<lambda>(key, text, v). (key, v)) (context_items context mhz)) = context_value context mhz"
  by (simp add: context_items_def context_before_def context_value_def Let_def comp_def case_prod_unfold split: option.splits)

lemma cache_text:
  assumes "clean (ca_type ci)"
  shows "json_elements (json_cache ci) [cache_value ci]"
proof -
  let ?xs = "[(''type'', quoted (ca_type ci), JStr (ca_type ci)), (''level'', show_int (ca_level ci), num (ca_level ci)),
     (''size'', show_int (ca_size ci), num (ca_size ci)), (''num_sharing'', show_int (ca_num_sharing ci), num (ca_num_sharing ci))]"
  have "\<forall>(key, text, v) \<in> set ?xs. clean key \<and> json_text text v"
    using quoted_text[OF assms] json_num[OF json_number_show_int] by (simp add: clean_def clean_char_def num_def)
  then have "json_members (separated ('','' @ (''\<newline>'' @ spaces 8)) (map (\<lambda>(key, text, v). item (key, text)) ?xs))
      (map (\<lambda>(key, text, v). (key, v)) ?xs)"
    by (intro separated_members) auto
  from json_obj[OF json_members_ws[OF this, of "''\<newline>'' @ spaces 8" "''\<newline>'' @ spaces 6"]]
  have "json_text (''{'' @ (''\<newline>'' @ spaces 8) @
      separated ('','' @ (''\<newline>'' @ spaces 8)) (map (\<lambda>(key, text, v). item (key, text)) ?xs) @ (''\<newline>'' @ spaces 6) @ ''}'') (cache_value ci)"
    by (simp add: cache_value_def)
  from json_element[OF _ _ this, of "spaces 6" "[]"] show ?thesis
    by (simp add: json_cache_def item_def FormatKV_string_def FormatKV_int_def clean_plain[OF assms])
qed

lemma caches_value:
  assumes "\<forall>ci \<in> set cs. clean (ca_type ci)"
  shows "json_text (caches_text cs) (JArr (map cache_value cs))"
proof -
  have "json_elements (separated ('','' @ ''\<newline>'') (map json_cache cs)) (map cache_value cs)" if "cs \<noteq> []"
    using that assms
  proof (induction cs)
    case (Cons c cs)
    show ?case
    proof (cases "cs = []")
      case False
      then have "json_elements (separated ('','' @ ''\<newline>'') (map json_cache cs)) (map cache_value cs)" using Cons by simp
      from json_more_elements[OF cache_text[of c] json_elements_ws[OF this, of "''\<newline>'' " "[]"]]
      show ?thesis using False Cons.prems by (simp add: separated_Cons)
    qed (use Cons.prems cache_text in simp)
  qed simp
  from json_elements_ws[OF this, of "''\<newline>''" "''\<newline>'' @ spaces 4"] no_elements[of "''\<newline>'' @ spaces 4"]
  have "json_elements (''\<newline>'' @ (if cs = [] then [] else separated ('','' @ ''\<newline>'') (map json_cache cs) @ ''\<newline>'') @ spaces 4)
      (map cache_value cs)"
    by (cases "cs = []") auto
  then show ?thesis unfolding caches_text_def array_text_def by (rule json_arr)
qed

lemma load_value:
  assumes "\<forall>d \<in> set ds. dfinite d"
  shows "json_text (load_text ds) (JArr (map (\<lambda>d. JNum (ostream_double d)) ds))"
proof (cases "ds = []")
  case True
  then show ?thesis using json_arr[OF no_elements[of "[]"]] by (simp add: load_text_def array_text_def)
next
  case False
  have "json_elements (separated ('','' @ []) (map fst (map (\<lambda>d. (ostream_double d, JNum (ostream_double d))) ds)))
      (map snd (map (\<lambda>d. (ostream_double d, JNum (ostream_double d))) ds))"
    using False assms json_num[OF json_number_ostream] by (intro separated_elements) auto
  then show ?thesis using json_arr by (simp add: load_text_def array_text_def comp_def)
qed

lemma context_items_clean:
  assumes "clean_context context" "(key, text, v) \<in> set (context_items context mhz)"
  shows "clean key \<and> json_text text v"
proof -
  have custom: "clean k \<and> clean s" if "Some m = cx_global_context context" "(k, s) \<in> set m" for k s m
    using assms(1) that(2) that(1)[symmetric] by (auto simp: clean_context_def)
  have names: "clean ''date''" "clean ''host_name''" "clean ''executable''" "clean ''num_cpus''" "clean ''mhz_per_cpu''"
    "clean ''cpu_scaling_enabled''" "clean ''aslr_enabled''" "clean ''caches''" "clean ''load_avg''"
    "clean ''library_version''" "clean ''library_build_type''" "clean ''json_schema_version''" "clean ''debug''"
    by (simp_all add: clean_def clean_char_def)
  show ?thesis
    using assms caches_value[of "cpu_caches (cx_cpu_info context)"] load_value[of "cpu_load_avg (cx_cpu_info context)"]
      json_num[OF json_number_show_int] json_true json_false
    by (auto simp: context_items_def context_before_def clean_context_def Let_def num_def names
        intro!: quoted_text quoted_c_text split: option.splits if_splits dest: custom)
qed

lemma context_line_item: "context_line kv @ s = spaces 4 @ kv @ '',\<newline>'' @ s"
  by (simp add: context_line_def)

lemma caches_concat:
  "concat (map (\<lambda>(i, ci). json_cache ci @ (if Suc i \<noteq> n + length cs then '','' else []) @ ''\<newline>'') (enumerate n cs)) =
     (if cs = [] then [] else separated ('','' @ ''\<newline>'') (map json_cache cs) @ ''\<newline>'')"
proof (induction cs arbitrary: n)
  case (Cons c cs)
  then show ?case using Cons.IH[of "Suc n"] by (cases "cs = []") (auto simp: separated_Cons)
qed simp

lemma context_lines:
  "concat (map (\<lambda>(key, text, v). context_line (item (key, text))) xs) @ spaces 4 @ s =
     spaces 4 @ concat (map (\<lambda>x. x @ '','' @ ''\<newline>'' @ spaces 4) (map (\<lambda>(key, text, v). item (key, text)) xs)) @ s"
  by (induction xs) (auto simp: context_line_def)

text \<open>The lines before the schema version.\<close>

definition context_head :: "Context \<Rightarrow> int \<Rightarrow> string" where
  "context_head context mhz =
     (let info = cx_cpu_info context; sysinfo = cx_sys_info context in
      context_line (FormatKV_string ''date'' (cx_local_date_time context)) @
      context_line (FormatKV_string ''host_name'' (sys_name sysinfo)) @
      (case cx_executable_name context of None \<Rightarrow> []
       | Some name \<Rightarrow> context_line (FormatKV_string ''executable'' name)) @
      context_line (FormatKV_int ''num_cpus'' (cpu_num_cpus info)) @
      context_line (FormatKV_int ''mhz_per_cpu'' mhz) @
      (if cpu_scaling info \<noteq> Scaling.UNKNOWN
       then context_line (FormatKV_bool ''cpu_scaling_enabled'' (cpu_scaling info = Scaling.ENABLED)) else []) @
      (if sys_ASLRStatus sysinfo \<noteq> ASLR.UNKNOWN
       then context_line (FormatKV_bool ''aslr_enabled'' (sys_ASLRStatus sysinfo = ASLR.ENABLED)) else []) @
      context_line (item (''caches'', caches_text (cpu_caches info))) @
      context_line (item (''load_avg'', load_text (cpu_load_avg info))) @
      context_line (FormatKV_string ''library_version'' (cx_library_version context)) @
      context_line (FormatKV_string ''library_build_type'' ''debug''))"

lemma context_head_items:
  "concat (map (\<lambda>(key, text, v). context_line (item (key, text))) (context_before context mhz)) = context_head context mhz"
  by (simp add: context_before_def context_head_def Let_def item_def FormatKV_string_def FormatKV_int_def
      FormatKV_bool_def num_def split: option.splits)

lemma ReportContext_head:
  assumes "RoundDouble (cpu_cycles_per_second (cx_cpu_info context) / Fin 1000000) = Inr mhz"
  shows "JSONReporter_ReportContext context = Inr (''{\<newline>'' @ spaces 2 @ quoted ''context'' @ '': {\<newline>'' @
     context_head context mhz @ spaces 4 @ FormatKV_int ''json_schema_version'' 1 @
     (case cx_global_context context of None \<Rightarrow> []
      | Some m \<Rightarrow> concat (map (\<lambda>(key, val). '',\<newline>'' @ spaces 4 @ FormatKV_string key val) m)) @
     ''\<newline>'' @ spaces 2 @ ''},\<newline>'' @ spaces 2 @ quoted ''benchmarks'' @ '': [\<newline>'')"
  using assms caches_concat[of 0 "cpu_caches (cx_cpu_info context)"]
  by (simp add: JSONReporter_ReportContext_def Let_def context_head_def context_line_def caches_text_def load_text_def
      array_text_def item_def)

lemma custom_lines:
  assumes "\<forall>(key, val) \<in> set m. clean key"
  shows "concat (map (\<lambda>(key, val). '',\<newline>'' @ spaces 4 @ FormatKV_string key val) m) =
     concat (map (\<lambda>z. ('','' @ ''\<newline>'' @ spaces 4) @ z)
       (map (\<lambda>(key, text, v). item (key, text)) (map (\<lambda>(key, val). (key, scalar_text (JStr val), JStr val)) m)))"
  using assms by (induction m) (auto simp: FormatKV_string_def item_def clean_plain)

text \<open>The context is its members, one on each line.\<close>

lemma ReportContext_items:
  assumes "RoundDouble (cpu_cycles_per_second (cx_cpu_info context) / Fin 1000000) = Inr mhz" and "clean_context context"
  shows "JSONReporter_ReportContext context = Inr (''{\<newline>'' @ spaces 2 @ quoted ''context'' @ '': {\<newline>'' @ spaces 4 @
     separated ('','' @ ''\<newline>'' @ spaces 4) (map (\<lambda>(key, text, v). item (key, text)) (context_items context mhz)) @
     ''\<newline>'' @ spaces 2 @ ''},\<newline>'' @ spaces 2 @ quoted ''benchmarks'' @ '': [\<newline>'')"
proof -
  define f :: "string \<times> string \<times> json \<Rightarrow> string" where "f = (\<lambda>(key, text, v). item (key, text))"
  define sep where "sep = '','' @ ''\<newline>'' @ spaces 4"
  define schema where "schema = (''json_schema_version'', scalar_text (num 1), num 1)"
  define custom where "custom = (case cx_global_context context of None \<Rightarrow> []
      | Some m \<Rightarrow> map (\<lambda>(key, val). (key, scalar_text (JStr val), JStr val)) m)"
  have c: "(case cx_global_context context of None \<Rightarrow> []
      | Some m \<Rightarrow> concat (map (\<lambda>(key, val). '',\<newline>'' @ spaces 4 @ FormatKV_string key val) m)) =
      concat (map (\<lambda>z. sep @ z) (map f custom))"
  proof (cases "cx_global_context context")
    case (Some m)
    then have "\<forall>(key, val) \<in> set m. clean key" using assms(2) by (auto simp: clean_context_def)
    then show ?thesis by (simp only: Some option.case custom_def custom_lines sep_def f_def)
  qed (simp add: custom_def)
  have s: "FormatKV_int ''json_schema_version'' 1 = f schema"
    by (simp add: FormatKV_int_def f_def schema_def item_def num_def)
  have "separated sep (map f (context_items context mhz)) =
      concat (map (\<lambda>x. x @ sep) (map f (context_before context mhz))) @ f schema @ concat (map (\<lambda>z. sep @ z) (map f custom))"
    by (simp add: context_items_def separated_before separated_after[where ys = "[_]", simplified]
        flip: schema_def custom_def del: map_map)
  then have "spaces 4 @ separated sep (map f (context_items context mhz)) =
      context_head context mhz @ spaces 4 @ f schema @ concat (map (\<lambda>z. sep @ z) (map f custom))"
    using context_lines[of "context_before context mhz" "f schema @ concat (map (\<lambda>z. sep @ z) (map f custom))"]
    by (simp add: context_head_items f_def sep_def del: map_map)
  then show ?thesis
    unfolding ReportContext_head[OF assms(1)] c s f_def[symmetric] sep_def[symmetric] by simp
qed

section \<open>The document\<close>

definition json_document :: "string \<Rightarrow> json \<Rightarrow> bool" where
  "json_document text v \<longleftrightarrow> (\<exists>w s w'. text = w @ s @ w' \<and> json_ws w \<and> json_ws w' \<and> json_text s v)"

lemma context_members:
  assumes "clean_context context"
    and "RoundDouble (cpu_cycles_per_second (cx_cpu_info context) / Fin 1000000) = Inr mhz"
  shows "\<exists>s. JSONReporter_ReportContext context = Inr (''{\<newline>'' @ s @ '','' @ ''\<newline>'' @ spaces 2 @ quoted ''benchmarks'' @ '': [\<newline>'')
    \<and> json_members s [(''context'', context_value context mhz)]"
proof -
  let ?body = "separated ('','' @ (''\<newline>'' @ spaces 4)) (map (\<lambda>(key, text, v). item (key, text)) (context_items context mhz))"
  let ?obj = "''{'' @ (''\<newline>'' @ spaces 4) @ ?body @ (''\<newline>'' @ spaces 2) @ ''}''"
  have "json_members ?body (map (\<lambda>(key, text, v). (key, v)) (context_items context mhz))"
  proof (rule separated_members)
    show "context_items context mhz \<noteq> []" by (simp add: context_items_def)
    show "\<forall>(key, text, v) \<in> set (context_items context mhz). clean key \<and> json_text text v"
      using context_items_clean[OF assms(1)] by blast
  qed simp
  from json_obj[OF json_members_ws[OF this, of "''\<newline>'' @ spaces 4" "''\<newline>'' @ spaces 2"]]
  have "json_text ?obj (context_value context mhz)"
    by (simp flip: context_items_value)
  from item_members[OF _ this, of "''context''" "spaces 2" "[]"]
  have "json_members (spaces 2 @ item (''context'', ?obj)) [(''context'', context_value context mhz)]"
    by (simp add: clean_def clean_char_def)
  then show ?thesis unfolding ReportContext_items[OF assms(2,1)]
    by (intro exI[of _ "spaces 2 @ item (''context'', ?obj)"]) (simp add: item_def)
qed

text \<open>Whatever batches of clean runs are reported, the whole output is one JSON document that says it.\<close>

lemma document_text:
  assumes "clean_context context"
    and "RoundDouble (cpu_cycles_per_second (cx_cpu_info context) / Fin 1000000) = Inr mhz"
    and "JSONReporter_ReportContext context = Inr head"
    and "\<forall>b \<in> set bs. \<forall>r \<in> set b. clean_run r"
  shows "json_document (head @ report_batches bs JSONReporter_new @ JSONReporter_Finalize)
    (document_value context mhz (concat bs))"
proof -
  obtain s where s: "head = ''{\<newline>'' @ s @ '','' @ ''\<newline>'' @ spaces 2 @ quoted ''benchmarks'' @ '': [\<newline>''"
      "json_members s [(''context'', context_value context mhz)]"
    using context_members[OF assms(1,2)] assms(3) by auto
  let ?runs = "report_batches bs JSONReporter_new"
  have "json_elements ?runs (map run_value (concat bs))"
    using report_batches_elements[OF assms(4), of JSONReporter_new] by (simp add: JSONReporter_new_def)
  from json_arr[OF json_elements_ws[OF this, of "''\<newline>''" "''\<newline>'' @ spaces 2"]]
  have "json_text (''['' @ ''\<newline>'' @ ?runs @ (''\<newline>'' @ spaces 2) @ '']'') (JArr (map run_value (concat bs)))"
    by simp
  from item_members[OF _ this, of "''benchmarks''" "''\<newline>'' @ spaces 2" "''\<newline>''"]
  have "json_members ((''\<newline>'' @ spaces 2) @ item (''benchmarks'', ''['' @ ''\<newline>'' @ ?runs @ (''\<newline>'' @ spaces 2) @ '']'') @ ''\<newline>'')
      [(''benchmarks'', JArr (map run_value (concat bs)))]"
    by (simp add: clean_def clean_char_def)
  from json_more_members[OF s(2) this]
  have "json_members (s @ '','' @ (''\<newline>'' @ spaces 2) @ item (''benchmarks'', ''['' @ ''\<newline>'' @ ?runs @ (''\<newline>'' @ spaces 2) @ '']'') @ ''\<newline>'')
      [(''context'', context_value context mhz), (''benchmarks'', JArr (map run_value (concat bs)))]"
    by simp
  from json_obj[OF json_members_ws[OF this, of "''\<newline>''" "[]"]]
  have "json_text (''{'' @ ''\<newline>'' @ (s @ '','' @ (''\<newline>'' @ spaces 2) @
      item (''benchmarks'', ''['' @ ''\<newline>'' @ ?runs @ (''\<newline>'' @ spaces 2) @ '']'') @ ''\<newline>'') @ ''}'')
      (document_value context mhz (concat bs))"
    by (simp add: document_value_def)
  then show ?thesis unfolding json_document_def
    by (intro exI[of _ "[]"] exI[of _ "''\<newline>''"] exI)
      (auto simp: s(1) JSONReporter_Finalize_def item_def spaces_def numeral_2_eq_2)
qed

section \<open>The reporter in a session\<close>

definition json_reporter :: "JSONReporter reporter_ops" where
  "json_reporter = \<lparr>ro_context = (\<lambda>context js. rbind (JSONReporter_ReportContext context) (\<lambda>t. Inr (js, t))),
     ro_runs = (\<lambda>reports js. Inr (JSONReporter_ReportRuns reports js)),
     ro_finalize = JSONReporter_Finalize\<rparr>"

interpretation json: reporter_contract json_reporter "\<lambda>_. True" "\<lambda>_. True"
  by unfold_locales (simp add: json_reporter_def split: prod.splits)

lemma report_batches_fold:
  "rfold (\<lambda>(js, out) b. rbind (ro_runs json_reporter b js) (\<lambda>(js', t). Inr (js', out @ t))) (js, out) bs = Inr (js', out') \<Longrightarrow>
     out' = out @ report_batches bs js"
proof (induction bs arbitrary: js out)
  case (Cons b bs)
  obtain js1 t1 where 1: "JSONReporter_ReportRuns b js = (js1, t1)" by (cases "JSONReporter_ReportRuns b js")
  then show ?case using Cons.IH[of js1 "out @ t1"] Cons.prems by (simp add: json_reporter_def)
qed simp

lemma context_width [simp]:
  "JSONReporter_ReportContext (context\<lparr>cx_name_field_width := w\<rparr>) = JSONReporter_ReportContext context"
  by (simp add: JSONReporter_ReportContext_def)

lemma json_session:
  assumes "clean_context context"
    and "RoundDouble (cpu_cycles_per_second (cx_cpu_info context) / Fin 1000000) = Inr mhz"
    and "\<forall>c \<in> set calls. middle_call c"
    and "\<forall>b \<in> set (batches calls). \<forall>r \<in> set b. clean_run r"
  shows "\<exists>js text. replay json_reporter context (CallContext w # calls @ [CallFinalize, CallFlush]) JSONReporter_new = Inr (js, text) \<and>
    json_document text (document_value context mhz (concat (batches calls)))"
proof -
  obtain head where head: "JSONReporter_ReportContext context = Inr head"
    using context_members[OF assms(1,2)] by auto
  obtain js t where middle: "rfold (reporter_call json_reporter context) (JSONReporter_new, head) calls = Inr (js, head @ t)"
    "rfold (\<lambda>(s, out) b. rbind (ro_runs json_reporter b s) (\<lambda>(s', t). Inr (s', out @ t))) (JSONReporter_new, head) (batches calls)
      = Inr (js, head @ t)"
    using json.replay_middle[where s = JSONReporter_new and calls = calls and ctxt = "context" and out = head] assms(3) by auto
  have "head @ t = head @ report_batches (batches calls) JSONReporter_new"
    by (rule report_batches_fold[OF middle(2)])
  then have "replay json_reporter context (CallContext w # calls @ [CallFinalize, CallFlush]) JSONReporter_new =
      Inr (js, head @ report_batches (batches calls) JSONReporter_new @ JSONReporter_Finalize)"
    using middle(1) head by (simp add: replay_def rfold_append) (simp add: json_reporter_def rfold_append)
  then show ?thesis using document_text[OF assms(1,2) head assms(4)] by blast
qed

text \<open>C26: A session with the JSON reporter (its context, any calls in between, its end) writes one text
  that the grammar of JSON gives the abstract document: the context as an object, and all reported
  runs, in order and whatever the batches were, as the elements of the array \<open>benchmarks\<close>, each with
  its members.  The strings must be free of the control characters the reporter does not escape, and
  the numbers finite.\<close>

theorem JSON_session_document:
  assumes "clean_context context"
    and "RoundDouble (cpu_cycles_per_second (cx_cpu_info context) / Fin 1000000) = Inr mhz"
    and "\<forall>c \<in> set calls. middle_call c"
    and "\<forall>b \<in> set (batches calls). \<forall>r \<in> set b. clean_run r"
  shows "\<exists>js text. replay json_reporter context (CallContext w # calls @ [CallFinalize, CallFlush]) JSONReporter_new = Inr (js, text) \<and>
    json_document text (document_value context mhz (concat (batches calls)))"
  using json_session[OF assms] .

text \<open>C36: Reading a string the reporter has escaped gives the string back, exactly when it has no
  control character other than the five that \<open>StrEscape\<close> knows; with any other, what is written is
  not a JSON string.\<close>

theorem StrEscape_roundtrip: "unescape (StrEscape s) = (if clean s then Some s else None)"
proof (induction s)
  case (Cons c s)
  show ?case
  proof (cases "clean_char c")
    case True
    then show ?thesis using Cons by (simp add: StrEscape_concat unescape_escape_char clean_def)
  next
    case False
    then have c: "of_char c < (32 :: nat)" by (simp add: clean_char_def not_le)
    then have special: "c \<noteq> CHR 0x5C" "c \<noteq> CHR 0x22" by auto
    with False have "escape_char c = [c]" by (simp add: clean_char_def escape_char_def)
    moreover have "unescape (c # s') = None" for s' using c special by (cases s') simp_all
    ultimately have "unescape (StrEscape (c # s)) = None" by (simp add: StrEscape_concat)
    then show ?thesis using False by (simp add: clean_def)
  qed
qed (simp add: StrEscape_def clean_def)

definition sample_run :: Run where
  "sample_run = (Run_init 0 kSecond)\<lparr>r_run_name := BenchmarkName_init\<lparr>n_function_name := ''BM_sample''\<rparr>,
     r_iterations := 4, r_real_accumulated_time := Fin 8, r_cpu_accumulated_time := Fin 4,
     r_counters := [(''a'', counter_of (Fin 3))], r_skip_message := [CHR 0x22]\<rparr>"

lemma finite_number_clean: "dfinite d \<Longrightarrow> show_json_double d \<notin> {''NaN'', ''Infinity'', ''-Infinity''}"
  using sci_string_number[of 16 "\<bar>dval d\<bar>"]
  by (cases d) (auto simp: show_json_double_def fmt_e_def show_double_def is_digit_def split: if_splits)

lemma finite_fmt_e_clean: "dfinite d \<Longrightarrow> clean_members [(key, real_num d)] \<longleftrightarrow> clean key"
  using finite_number_clean[of d] by (simp add: clean_members_def real_num_def)

lemma clean_members_simps:
  "clean_members []" "clean_members ((key, JStr s) # ms) \<longleftrightarrow> clean key \<and> clean s \<and> clean_members ms"
  "clean_members ((key, JBool b) # ms) \<longleftrightarrow> clean key \<and> clean_members ms"
  "clean_members ((key, num n) # ms) \<longleftrightarrow> clean key \<and> clean_members ms"
  "dfinite d \<Longrightarrow> clean_members ((key, real_num d) # ms) \<longleftrightarrow> clean key \<and> clean_members ms"
  using finite_number_clean[of d] show_nat_digits[of "nat n"] show_nat_digits[of "nat (- n)"]
  by (auto simp: clean_members_def real_num_def num_def show_int_def is_digit_def split: if_splits)

lemma clean_members_append: "clean_members (xs @ ys) \<longleftrightarrow> clean_members xs \<and> clean_members ys"
  by (auto simp: clean_members_def)

lemma sample_run_clean: "clean_run sample_run"
proof -
  have fin: "dfinite (GetAdjustedRealTime sample_run)" "dfinite (GetAdjustedCPUTime sample_run)"
    by (simp_all add: GetAdjustedRealTime_def GetAdjustedCPUTime_def sample_run_def Run_init_def dbl_simps)
  have names: "benchmark_name sample_run = ''BM_sample''" "BenchmarkName_str (r_run_name sample_run) = ''BM_sample''"
    by (simp_all add: benchmark_name_def BenchmarkName_str_def name_parts_def join_def sample_run_def Run_init_def
        BenchmarkName_init_def)
  have flags: "r_report_big_o sample_run = False" "r_report_rms sample_run = False" "r_run_type sample_run = RT_Iteration"
    "r_skipped sample_run = NotSkipped" "r_counters sample_run = [(''a'', counter_of (Fin 3))]" "r_report_label sample_run = []"
    "m_memory_iterations (r_memory_result sample_run) = 0" "r_time_unit sample_run = kSecond"
    by (simp_all add: sample_run_def Run_init_def MemoryResult_init_def)
  show ?thesis
    by (simp add: clean_run_def clean_members_append members_before_def members_times_def members_after_def flags names fin
        clean_members_simps clean_def clean_char_def counter_of_def)
qed

lemma sample_mhz: "RoundDouble (cpu_cycles_per_second (cx_cpu_info sample_context) / Fin 1000000) = Inr 1"
  by (simp add: RoundDouble_def llround_def sample_context_def dbl_simps int_width_defs floor_eq_iff)

theorem JSON_session_document_witness:
  "\<exists>js text. replay json_reporter sample_context (CallContext 10 # [CallFlush, CallRuns [sample_run], CallFlush] @ [CallFinalize, CallFlush])
      JSONReporter_new = Inr (js, text) \<and>
    json_document text (document_value sample_context 1 [sample_run])"
  using JSON_session_document[of sample_context 1 "[CallFlush, CallRuns [sample_run], CallFlush]" 10] sample_run_clean sample_mhz
  by (simp add: sample_context_def clean_context_def clean_def clean_char_def middle_call_def)

end
