(* ===== verification/Csv.thy ===== *)
theory Csv
  imports Reporting Names Fitting
begin

text \<open>
  The CSV reporter: src/src/csv_reporter.cc.

  After the translated code comes a reader of comma-separated values (RFC 4180), as the
  specification of what a row says, and the proof that the output reads back as a table.
\<close>

section \<open>The reporter\<close>

definition elements :: "string list" where
  "elements = [''name'', ''iterations'', ''real_time'', ''cpu_time'', ''time_unit'', ''bytes_per_second'',
     ''items_per_second'', ''label'', ''error_occurred'', ''error_message'']"

definition CsvEscape :: "string \<Rightarrow> string" where
  "CsvEscape s =
     (let tmp = foldl (\<lambda>tmp c. tmp @ (if c = CHR 0x22 then [CHR 0x22, CHR 0x22] else [c])) [] s
      in [CHR 0x22] @ tmp @ [CHR 0x22])"

record CSVReporter =
  cs_printed_header :: bool
  cs_user_counter_names :: "string list"

definition CSVReporter_new :: CSVReporter where
  "CSVReporter_new = \<lparr>cs_printed_header = False, cs_user_counter_names = []\<rparr>"

definition standard_counter :: "string \<Rightarrow> bool" where
  "standard_counter name \<longleftrightarrow> name = ''bytes_per_second'' \<or> name = ''items_per_second''"

text \<open>The loop that saves the names of all the user counters; the set is kept in order.\<close>

definition collect_names :: "Run list \<Rightarrow> string list \<Rightarrow> string list" where
  "collect_names reports names =
     foldl (\<lambda>names run. foldl (\<lambda>names (name, c). if standard_counter name then names else set_insert name names)
       names (r_counters run)) names reports"

definition print_header :: "string list \<Rightarrow> string" where
  "print_header names = separated '','' elements @
     concat (map (\<lambda>name. '','' @ [CHR 0x22] @ name @ [CHR 0x22]) names) @ ''\<newline>''"

text \<open>The loop that checks that the current counters are among the saved names.\<close>

definition check_names :: "Run list \<Rightarrow> string list \<Rightarrow> unit res" where
  "check_names reports names =
     rfold (\<lambda>_ run. rfold (\<lambda>_ (name, c).
         if standard_counter name then Inr ()
         else BM_CHECK (name \<in> set names)
           (''All counters must be present in each run. Counter named '' @ [CHR 0x22] @ name @ [CHR 0x22] @
            '' was not in a run after being added to the header''))
       () (r_counters run)) () reports"

definition print_counter :: "string \<Rightarrow> Run \<Rightarrow> string" where
  "print_counter name run = (case map_of (r_counters run) name of None \<Rightarrow> [] | Some c \<Rightarrow> ostream_double (c_value c))"

definition CSVReporter_PrintRunData :: "string list \<Rightarrow> Run \<Rightarrow> string" where
  "CSVReporter_PrintRunData names run =
     CsvEscape (benchmark_name run) @ '','' @
     (if r_skipped run \<noteq> NotSkipped then
        replicate (length elements - 3) CHR '','' @
        (if r_skipped run = SkippedWithError then ''true'' else ''false'') @ '','' @
        CsvEscape (r_skip_message run) @ ''\<newline>''
      else
        (if \<not> r_report_big_o run \<and> \<not> r_report_rms run then show_int (r_iterations run) else []) @ '','' @
        (if r_run_type run \<noteq> RT_Aggregate \<or> r_aggregate_unit run = kTime
         then ostream_double (GetAdjustedRealTime run) @ '','' @ ostream_double (GetAdjustedCPUTime run) @ '',''
         else ostream_double (r_real_accumulated_time run) @ '','' @ ostream_double (r_cpu_accumulated_time run) @ '','') @
        (if r_report_big_o run then GetBigOString (r_complexity run)
         else if \<not> r_report_rms run \<and> r_aggregate_unit run \<noteq> kPercentage then GetTimeUnitString (r_time_unit run)
         else []) @ '','' @
        print_counter ''bytes_per_second'' run @ '','' @
        print_counter ''items_per_second'' run @ '','' @
        (if r_report_label run \<noteq> [] then CsvEscape (r_report_label run) else []) @
        '',,'' @
        concat (map (\<lambda>ucn. '','' @ print_counter ucn run) names) @
        ''\<newline>'')"

definition CSVReporter_ReportRuns :: "Run list \<Rightarrow> CSVReporter \<Rightarrow> (CSVReporter \<times> string) res" where
  "CSVReporter_ReportRuns reports cs =
     (let rows = (\<lambda>names. concat (map (CSVReporter_PrintRunData names) reports)) in
      if \<not> cs_printed_header cs then
        (let names = collect_names reports (cs_user_counter_names cs)
         in Inr (\<lparr>cs_printed_header = True, cs_user_counter_names = names\<rparr>, print_header names @ rows names))
      else rbind (check_names reports (cs_user_counter_names cs)) (\<lambda>_.
        Inr (cs, rows (cs_user_counter_names cs))))"

text \<open>
  \<open>ReportContext\<close> writes to the error stream.  \<open>same_stream\<close> says whether that is the output stream too:
  it is for a file reporter, whose streams are both set to the file.
\<close>

definition csv_reporter :: "bool \<Rightarrow> CSVReporter reporter_ops" where
  "csv_reporter same_stream =
     \<lparr>ro_context = (\<lambda>context cs. Inr (cs, if same_stream then PrintBasicContext context else [])),
      ro_runs = CSVReporter_ReportRuns,
      ro_finalize = []\<rparr>"

section \<open>Reading comma-separated values\<close>

datatype csv_mode = Start | Plain | Quoted | After_Quote

text \<open>The mode, the field and the record read so far, and the rest of the text.\<close>

fun csv_read :: "csv_mode \<Rightarrow> string \<Rightarrow> string list \<Rightarrow> string \<Rightarrow> string list list" where
  "csv_read m f r [] = (if m = Start \<and> r = [] then [] else [r @ [f]])"
| "csv_read m f r (c # s) =
     (if m = Quoted then
        (if c = CHR 0x22 then csv_read After_Quote f r s else csv_read Quoted (f @ [c]) r s)
      else if c = CHR '','' then csv_read Start [] (r @ [f]) s
      else if c = CHR ''\<newline>'' then (r @ [f]) # csv_read Start [] [] s
      else if c = CHR 0x22 \<and> m = Start then csv_read Quoted [] r s
      else if c = CHR 0x22 \<and> m = After_Quote then csv_read Quoted (f @ [c]) r s
      else csv_read Plain (f @ [c]) r s)"

definition csv_table :: "string \<Rightarrow> string list list" where
  "csv_table s = csv_read Start [] [] s"

text \<open>Text that is a field as it is.\<close>

definition plain :: "string \<Rightarrow> bool" where
  "plain s \<longleftrightarrow> set s \<inter> {CHR 0x22, CHR '','', CHR ''\<newline>''} = {}"

lemma plain_simps [simp]:
  "plain []" "plain (c # s) \<longleftrightarrow> c \<noteq> CHR 0x22 \<and> c \<noteq> CHR '','' \<and> c \<noteq> CHR ''\<newline>'' \<and> plain s"
  "plain (s @ t) \<longleftrightarrow> plain s \<and> plain t"
  by (auto simp: plain_def)

lemma csv_read_plain_more: "plain t \<Longrightarrow> csv_read Plain f r (t @ s) = csv_read Plain (f @ t) r s"
  by (induction t arbitrary: f) simp_all

lemma csv_read_plain:
  "plain t \<Longrightarrow> csv_read Start [] r (t @ CHR '','' # s) = csv_read Start [] (r @ [t]) s"
  "plain t \<Longrightarrow> csv_read Start [] r (t @ CHR ''\<newline>'' # s) = (r @ [t]) # csv_read Start [] [] s"
  by (cases t; simp add: csv_read_plain_more)+

lemma CsvEscape_concat:
  "CsvEscape s = [CHR 0x22] @ concat (map (\<lambda>c. if c = CHR 0x22 then [CHR 0x22, CHR 0x22] else [c]) s) @ [CHR 0x22]"
proof -
  have "foldl (\<lambda>tmp c. tmp @ (if c = CHR 0x22 then [CHR 0x22, CHR 0x22] else [c])) t s =
      t @ concat (map (\<lambda>c. if c = CHR 0x22 then [CHR 0x22, CHR 0x22] else [c]) s)" for t
    by (induction s arbitrary: t) simp_all
  then show ?thesis by (simp add: CsvEscape_def)
qed

lemma csv_read_quoted:
  "csv_read Quoted f r (concat (map (\<lambda>c. if c = CHR 0x22 then [CHR 0x22, CHR 0x22] else [c]) t) @ CHR 0x22 # s) =
     csv_read After_Quote (f @ t) r s"
  by (induction t arbitrary: f) simp_all

text \<open>An escaped text is read back as the text, whatever it holds.\<close>

lemma csv_read_escape:
  "csv_read Start [] r (CsvEscape t @ CHR '','' # s) = csv_read Start [] (r @ [t]) s"
  "csv_read Start [] r (CsvEscape t @ CHR ''\<newline>'' # s) = (r @ [t]) # csv_read Start [] [] s"
  by (simp_all add: CsvEscape_concat csv_read_quoted)

section \<open>The fields are plain\<close>

lemma plain_digits: "\<forall>c \<in> set s. is_digit c \<Longrightarrow> plain s"
  by (auto simp: plain_def is_digit_def)

lemma plain_show_nat [simp]: "plain (show_nat n)"
  by (rule plain_digits) (rule show_nat_digits)

lemma plain_show_int [simp]: "plain (show_int n)"
  by (simp add: show_int_def)

lemma plain_replicate [simp]: "plain (replicate n c) \<longleftrightarrow> n = 0 \<or> plain [c]"
  by (induction n) auto

lemma plain_subset: "plain s \<Longrightarrow> set t \<subseteq> set s \<Longrightarrow> plain t"
  by (auto simp: plain_def)

lemma plain_insert_point [simp]:
  assumes "plain s"
  shows "plain (insert_point p s)"
proof -
  define z where "z = replicate (Suc p - length s) CHR ''0'' @ s"
  have "plain z" using assms by (simp add: z_def)
  then have "plain (take k z)" for k by (rule plain_subset) (rule set_take_subset)
  moreover have "plain (drop k z)" for k using \<open>plain z\<close> by (rule plain_subset) (rule set_drop_subset)
  ultimately show ?thesis using \<open>plain z\<close> by (simp add: insert_point_def Let_def flip: z_def)
qed

lemma plain_strip_zeros [simp]:
  assumes "plain s"
  shows "plain (strip_zeros s)"
proof -
  define t where "t = rev (dropWhile (\<lambda>c. c = CHR ''0'') (rev s))"
  have "plain t" using assms by (rule plain_subset) (auto simp: t_def dest: set_dropWhileD)
  moreover have "set (butlast t) \<subseteq> set t" by (auto dest: in_set_butlastD)
  ultimately have "plain (butlast t)" by (rule plain_subset)
  then show ?thesis using \<open>plain t\<close> assms by (simp add: strip_zeros_def Let_def flip: t_def)
qed

lemma plain_general_string [simp]: "plain (general_string p r)"
  by (simp add: general_string_def case_prod_unfold Let_def show_exponent_def fixed_digits_def)

lemma plain_ostream_double [simp]: "plain (ostream_double d)"
  by (simp add: ostream_double_def show_double_def split: double.splits)

lemma plain_print_counter [simp]: "plain (print_counter name run)"
  by (simp add: print_counter_def split: option.splits)

lemma plain_GetTimeUnitString [simp]: "plain (GetTimeUnitString u)"
  by (cases u) simp_all

lemma plain_GetBigOString [simp]: "plain (GetBigOString b)"
  by (cases b) simp_all

section \<open>A row reads back as its fields\<close>

definition csv_field :: "string \<Rightarrow> string \<Rightarrow> bool" where
  "csv_field t v \<longleftrightarrow> (\<forall>r s. csv_read Start [] r (t @ CHR '','' # s) = csv_read Start [] (r @ [v]) s \<and>
     csv_read Start [] r (t @ CHR ''\<newline>'' # s) = (r @ [v]) # csv_read Start [] [] s)"

lemma csv_field_plain [simp]: "plain t \<Longrightarrow> csv_field t t"
  by (simp add: csv_field_def csv_read_plain)

lemma csv_field_escape [simp]: "csv_field (CsvEscape t) t"
  by (simp add: csv_field_def csv_read_escape)

lemma csv_read_fields:
  assumes "fs \<noteq> []" "\<forall>(t, v) \<in> set fs. csv_field t v"
  shows "csv_read Start [] r (separated '','' (map fst fs) @ CHR ''\<newline>'' # s) = (r @ map snd fs) # csv_read Start [] [] s"
  using assms
proof (induction fs arbitrary: r)
  case (Cons f fs)
  obtain t v where f: "f = (t, v)" "csv_field t v" using Cons.prems by (cases f) auto
  show ?case
  proof (cases "fs = []")
    case False
    then show ?thesis using Cons f(2)[unfolded csv_field_def] f(1) by (simp add: separated_Cons)
  qed (use f in \<open>simp add: csv_field_def\<close>)
qed simp

text \<open>What a row says.  A skipped run has the ten standard columns only.\<close>

definition csv_fields :: "string list \<Rightarrow> Run \<Rightarrow> string list" where
  "csv_fields names run =
     (if r_skipped run \<noteq> NotSkipped then
        [benchmark_name run] @ replicate 7 [] @
        [if r_skipped run = SkippedWithError then ''true'' else ''false'', r_skip_message run]
      else
        (let complexity = (r_report_big_o run \<or> r_report_rms run);
             percentage = (r_run_type run = RT_Aggregate \<and> r_aggregate_unit run = kPercentage)
         in [benchmark_name run,
             if complexity then [] else show_int (r_iterations run),
             ostream_double (if percentage then r_real_accumulated_time run else GetAdjustedRealTime run),
             ostream_double (if percentage then r_cpu_accumulated_time run else GetAdjustedCPUTime run),
             if r_report_big_o run then GetBigOString (r_complexity run)
             else if r_report_rms run \<or> r_aggregate_unit run = kPercentage then []
             else GetTimeUnitString (r_time_unit run),
             print_counter ''bytes_per_second'' run, print_counter ''items_per_second'' run,
             r_report_label run, [], []] @
            map (\<lambda>name. print_counter name run) names))"

lemma not_kTime: "u \<noteq> kTime \<longleftrightarrow> u = kPercentage"
  by (cases u) simp_all

lemma csv_read_row:
  "csv_read Start [] [] (CSVReporter_PrintRunData names run @ s) = csv_fields names run # csv_read Start [] [] s"
proof (cases "r_skipped run = NotSkipped")
  case False
  have seven: "replicate 7 x = [x, x, x, x, x, x, x]" for x :: 'a
    by (simp add: numeral_eq_Suc)
  let ?fs = "[(CsvEscape (benchmark_name run), benchmark_name run)] @ replicate 7 ([], []) @
     [(if r_skipped run = SkippedWithError then (''true'', ''true'') else (''false'', ''false'')),
      (CsvEscape (r_skip_message run), r_skip_message run)]"
  have "csv_read Start [] [] (separated '','' (map fst ?fs) @ CHR ''\<newline>'' # s) = ([] @ map snd ?fs) # csv_read Start [] [] s"
    by (rule csv_read_fields) auto
  then show ?thesis using False
    by (simp add: CSVReporter_PrintRunData_def csv_fields_def elements_def seven split: if_splits)
next
  case True
  let ?percentage = "r_run_type run = RT_Aggregate \<and> r_aggregate_unit run = kPercentage"
  let ?plain = "\<lambda>t. (t, t)"
  let ?iterations = "if \<not> r_report_big_o run \<and> \<not> r_report_rms run then show_int (r_iterations run) else []"
  let ?unit = "if r_report_big_o run then GetBigOString (r_complexity run)
     else if \<not> r_report_rms run \<and> r_aggregate_unit run \<noteq> kPercentage then GetTimeUnitString (r_time_unit run) else []"
  let ?fs = "[(CsvEscape (benchmark_name run), benchmark_name run), ?plain ?iterations,
     ?plain (ostream_double (if ?percentage then r_real_accumulated_time run else GetAdjustedRealTime run)),
     ?plain (ostream_double (if ?percentage then r_cpu_accumulated_time run else GetAdjustedCPUTime run)),
     ?plain ?unit, ?plain (print_counter ''bytes_per_second'' run), ?plain (print_counter ''items_per_second'' run),
     (if r_report_label run \<noteq> [] then CsvEscape (r_report_label run) else [], r_report_label run), ?plain [], ?plain []] @
     map (\<lambda>name. ?plain (print_counter name run)) names"
  have fields: "csv_read Start [] [] (separated '','' (map fst ?fs) @ CHR ''\<newline>'' # s) = ([] @ map snd ?fs) # csv_read Start [] [] s"
    by (rule csv_read_fields) auto
  have shown: "separated '','' (map fst ?fs) @ CHR ''\<newline>'' # s = CSVReporter_PrintRunData names run @ s"
    unfolding map_append
    by (subst separated_after) (auto simp: True CSVReporter_PrintRunData_def comp_def not_kTime)
  have "[] @ map snd ?fs = csv_fields names run"
    by (simp add: True csv_fields_def Let_def comp_def)
  from fields[unfolded shown this] show ?thesis .
qed

lemma csv_read_rows:
  "csv_read Start [] [] (concat (map (CSVReporter_PrintRunData names) reports) @ s) =
     map (csv_fields names) reports @ csv_read Start [] [] s"
  by (induction reports) (simp_all add: csv_read_row)

text \<open>The header: the names of user counters are not escaped, so they must be free of quotation marks.\<close>

lemma csv_read_header:
  assumes "\<forall>name \<in> set names. CHR 0x22 \<notin> set name"
  shows "csv_read Start [] [] (print_header names @ s) = (elements @ names) # csv_read Start [] [] s"
proof -
  let ?fs = "map (\<lambda>t. (t, t)) elements @ map (\<lambda>name. (CsvEscape name, name)) names"
  have "csv_read Start [] [] (separated '','' (map fst ?fs) @ CHR ''\<newline>'' # s) = ([] @ map snd ?fs) # csv_read Start [] [] s"
    by (rule csv_read_fields) (auto simp: elements_def)
  moreover have escape: "CsvEscape name = [CHR 0x22] @ name @ [CHR 0x22]" if "CHR 0x22 \<notin> set name" for name
  proof -
    have "concat (map (\<lambda>c. if c = CHR 0x22 then [CHR 0x22, CHR 0x22] else [c]) name) = name"
      using that by (induction name) auto
    then show ?thesis by (simp add: CsvEscape_concat)
  qed
  moreover have "concat (map (\<lambda>z. '','' @ z) (map CsvEscape names)) =
      concat (map (\<lambda>name. '','' @ [CHR 0x22] @ name @ [CHR 0x22]) names)"
    using assms by (induction names) (auto simp: escape)
  moreover have "separated '','' (map fst ?fs) = separated '','' elements @ concat (map (\<lambda>z. '','' @ z) (map CsvEscape names))"
  proof -
    have "elements \<noteq> []" by (simp add: elements_def)
    from separated_after[OF this] show ?thesis by (simp add: comp_def)
  qed
  ultimately show ?thesis by (simp add: print_header_def comp_def)
qed

section \<open>The reporter in a session\<close>

definition user_counters :: "Run \<Rightarrow> string set" where
  "user_counters run = set (filter (\<lambda>name. \<not> standard_counter name) (map fst (r_counters run)))"

lemma collect_names_run:
  "set (foldl (\<lambda>names (name, c). if standard_counter name then names else set_insert name names) names cs) =
     set names \<union> set (filter (\<lambda>name. \<not> standard_counter name) (map fst cs))"
  "sorted_wrt (<) names \<Longrightarrow>
     sorted_wrt (<) (foldl (\<lambda>names (name, c). if standard_counter name then names else set_insert name names) names cs)"
  by (induction cs arbitrary: names) (simp_all add: sorted_set_insert case_prod_unfold)

lemma collect_names_spec:
  "set (collect_names reports names) = set names \<union> (\<Union>run \<in> set reports. user_counters run)"
  "sorted_wrt (<) names \<Longrightarrow> sorted_wrt (<) (collect_names reports names)"
proof (induction reports arbitrary: names)
  case (Cons run reports)
  let ?f = "\<lambda>names. foldl (\<lambda>names (name, c). if standard_counter name then names else set_insert name names) names (r_counters run)"
  have step: "collect_names (run # reports) names = collect_names reports (?f names)" for names
    by (simp add: collect_names_def)
  {
    case 1
    show ?case unfolding step Cons.IH(1) collect_names_run by (auto simp: user_counters_def)
  next
    case 2
    then show ?case unfolding step by (intro Cons.IH(2) collect_names_run(2))
  }
qed (simp_all add: collect_names_def)

lemma check_names_run:
  "(\<exists>u. rfold (\<lambda>_ (name, c). if standard_counter name then Inr () else BM_CHECK (name \<in> set names) (w name)) () cs = Inr u) \<longleftrightarrow>
     set (filter (\<lambda>name. \<not> standard_counter name) (map fst cs)) \<subseteq> set names"
  by (induction cs) (auto simp: rbind_eq_Inr)

lemma check_names_ok:
  "check_names reports names = Inr () \<longleftrightarrow> (\<forall>run \<in> set reports. user_counters run \<subseteq> set names)"
proof (induction reports)
  case (Cons run reports)
  have "check_names (run # reports) names = Inr () \<longleftrightarrow>
      user_counters run \<subseteq> set names \<and> check_names reports names = Inr ()"
    using check_names_run[where names = names and cs = "r_counters run"]
    by (simp add: check_names_def rbind_eq_Inr user_counters_def conj_commute)
  with Cons show ?case by simp
qed (simp add: check_names_def)

lemma check_names_failure: "check_names reports names = Inl e \<Longrightarrow> \<exists>w. e = CheckFailed w"
proof -
  have run: "rfold (\<lambda>_ (name, c). if standard_counter name then Inr () else BM_CHECK (name \<in> set names) (w name)) () cs = Inl e \<Longrightarrow>
      \<exists>w. e = CheckFailed w" for w cs
    by (induction cs) (auto simp: rbind_eq_Inl BM_CHECK_def split: if_splits)
  show "check_names reports names = Inl e \<Longrightarrow> \<exists>w. e = CheckFailed w"
    by (induction reports) (auto simp: check_names_def rbind_eq_Inl dest: run)
qed

text \<open>A reporter with a header is ready for the runs that have no other user counters.\<close>

lemma csv_contract:
  "reporter_contract (csv_reporter same) (\<lambda>cs. cs_printed_header cs \<and> cs_user_counter_names cs = names)
     (\<lambda>runs. \<forall>run \<in> set runs. user_counters run \<subseteq> set names)"
proof
  fix s :: CSVReporter and runs
  assume "cs_printed_header s \<and> cs_user_counter_names s = names" "\<forall>run \<in> set runs. user_counters run \<subseteq> set names"
  then show "\<exists>s' t. ro_runs (csv_reporter same) runs s = Inr (s', t) \<and> cs_printed_header s' \<and> cs_user_counter_names s' = names"
    using check_names_ok[of runs names] by (simp add: csv_reporter_def CSVReporter_ReportRuns_def)
qed

interpretation csv: reporter_contract "csv_reporter same" "\<lambda>cs. cs_printed_header cs \<and> cs_user_counter_names cs = names"
  "\<lambda>runs. \<forall>run \<in> set runs. user_counters run \<subseteq> set names" for same names
  by (rule csv_contract)

lemma csv_batches:
  "rfold (\<lambda>(s, out) b. rbind (ro_runs (csv_reporter same) b s) (\<lambda>(s', t). Inr (s', out @ t))) (cs, out) bs = Inr (cs', out') \<Longrightarrow>
     cs_printed_header cs \<Longrightarrow>
     out' = out @ concat (map (CSVReporter_PrintRunData (cs_user_counter_names cs)) (concat bs))"
proof (induction bs arbitrary: out)
  case (Cons b bs)
  let ?t = "concat (map (CSVReporter_PrintRunData (cs_user_counter_names cs)) b)"
  have "rfold (\<lambda>(s, out) b. rbind (ro_runs (csv_reporter same) b s) (\<lambda>(s', t). Inr (s', out @ t))) (cs, out @ ?t) bs = Inr (cs', out')"
    using Cons.prems by (cases "check_names b (cs_user_counter_names cs)") (auto simp: csv_reporter_def CSVReporter_ReportRuns_def)
  from Cons.IH[OF this] show ?case using Cons.prems(2) by simp
qed simp

text \<open>C14: A session with the CSV reporter as the display reporter reads back, by the reader of comma-separated
  values \<open>csv_table\<close> of this theory, as a
  table: the header (the ten standard columns, then the user counters of the first batch in order),
  and one row for each reported run, in order, with the fields of the run as they were before
  escaping.  The later runs must not have other user counters, and the names of user counters, which
  the header does not escape, must be free of quotation marks.  (As a file reporter it writes to the stream of
  its errors, and the text of the context precedes the header.)\<close>

theorem CSV_session_table:
  assumes "\<forall>c \<in> set calls. middle_call c"
    and "batches calls = first # later"
    and "\<forall>run \<in> set (concat later). user_counters run \<subseteq> (\<Union>run \<in> set first. user_counters run)"
    and "\<forall>run \<in> set first. \<forall>name \<in> user_counters run. CHR 0x22 \<notin> set name"
  shows "\<exists>cs text names. replay (csv_reporter False) context (CallContext w # calls @ [CallFinalize, CallFlush]) CSVReporter_new =
      Inr (cs, text) \<and>
    csv_table text = (elements @ names) # map (csv_fields names) (concat (batches calls)) \<and>
    sorted_wrt (<) names \<and> set names = (\<Union>run \<in> set first. user_counters run)"
proof -
  define names where "names = collect_names first []"
  have names: "set names = (\<Union>run \<in> set first. user_counters run)" "sorted_wrt (<) names"
    using collect_names_spec[where reports = first and names = "[]"] by (simp_all add: names_def)
  let ?cs = "\<lparr>cs_printed_header = True, cs_user_counter_names = names\<rparr>"
  let ?head = "print_header names @ concat (map (CSVReporter_PrintRunData names) first)"
  obtain before after where calls: "calls = before @ CallRuns first # after" "batches before = []" "batches after = later"
    using assms(2) by (rule batches_first)
  have before: "rfold (reporter_call (csv_reporter False) context) (CSVReporter_new, []) before = Inr (CSVReporter_new, [])"
    by (rule replay_no_batches) (use assms(1) calls in auto)
  obtain cs t where after:
    "rfold (reporter_call (csv_reporter False) context) (?cs, ?head) after = Inr (cs, ?head @ t)"
    "rfold (\<lambda>(s, out) b. rbind (ro_runs (csv_reporter False) b s) (\<lambda>(s', t). Inr (s', out @ t))) (?cs, ?head) later = Inr (cs, ?head @ t)"
    using csv.replay_middle[where s = ?cs and names = names and same = False and calls = after and ctxt = "context" and out = ?head]
      assms(1,3) calls by (auto simp: names)
  have t: "t = concat (map (CSVReporter_PrintRunData names) (concat later))"
    using csv_batches[OF after(2)] by simp
  have whole: "replay (csv_reporter False) context (CallContext w # calls @ [CallFinalize, CallFlush]) CSVReporter_new = Inr (cs, ?head @ t)"
  proof -
    have "CSVReporter_ReportRuns first CSVReporter_new = Inr (?cs, ?head)"
      by (simp add: CSVReporter_ReportRuns_def CSVReporter_new_def names_def Let_def)
    moreover have "ro_context (csv_reporter False) c s = Inr (s, [])" "ro_runs (csv_reporter False) = CSVReporter_ReportRuns"
      "ro_finalize (csv_reporter False) = []" for c s
      by (simp_all add: csv_reporter_def)
    ultimately show ?thesis using before after(1) by (simp add: replay_def calls rfold_append)
  qed
  have "csv_table (?head @ t) = (elements @ names) # map (csv_fields names) (concat (batches calls))"
    using csv_read_header[of names] csv_read_rows[of names] assms(4) csv_read_rows[of names "concat later" "[]"]
    by (simp add: csv_table_def t names(1) assms(2))
  then show ?thesis using whole names by blast
qed

text \<open>Once the header is printed, a batch with a user counter that is not in the header fails the
  check, so the process ends; any other batch appends its rows and leaves the state as it is.\<close>

theorem CSV_counters_checked:
  assumes "cs_printed_header cs"
  shows "case CSVReporter_ReportRuns reports cs of
      Inl e \<Rightarrow> (\<exists>what. e = CheckFailed what) \<and> (\<exists>run \<in> set reports. \<not> user_counters run \<subseteq> set (cs_user_counter_names cs))
    | Inr (cs', text) \<Rightarrow> cs' = cs \<and> (\<forall>run \<in> set reports. user_counters run \<subseteq> set (cs_user_counter_names cs)) \<and>
        csv_table text = map (csv_fields (cs_user_counter_names cs)) reports"
proof (cases "check_names reports (cs_user_counter_names cs)")
  case (Inl e)
  then show ?thesis
    using assms check_names_failure[OF Inl] check_names_ok[of reports "cs_user_counter_names cs"]
    by (simp add: CSVReporter_ReportRuns_def Ball_def Bex_def)
next
  case (Inr u)
  then show ?thesis
    using assms check_names_ok[of reports "cs_user_counter_names cs"]
      csv_read_rows[of "cs_user_counter_names cs" reports "[]"]
    by (simp add: CSVReporter_ReportRuns_def csv_table_def)
qed

definition csv_sample_run :: "string \<Rightarrow> Run" where
  "csv_sample_run counter = (Run_init 0 kSecond)\<lparr>r_run_name := BenchmarkName_init\<lparr>n_function_name := ''BM_sample''\<rparr>,
     r_counters := [(counter, counter_of (Fin 3))]\<rparr>"

lemma csv_sample_counters: "user_counters (csv_sample_run ''a'') = {''a''}" "user_counters (csv_sample_run ''b'') = {''b''}"
  by (simp_all add: user_counters_def csv_sample_run_def standard_counter_def)

theorem CSV_session_table_witness:
  "\<exists>cs text names. replay (csv_reporter False) sample_context
      (CallContext 10 # [CallFlush, CallRuns [csv_sample_run ''a''], CallFlush, CallRuns [csv_sample_run ''a'']] @ [CallFinalize, CallFlush])
      CSVReporter_new = Inr (cs, text) \<and>
    csv_table text = (elements @ names) # map (csv_fields names) [csv_sample_run ''a'', csv_sample_run ''a''] \<and>
    sorted_wrt (<) names \<and> set names = {''a''}"
  using CSV_session_table[of "[CallFlush, CallRuns [csv_sample_run ''a''], CallFlush, CallRuns [csv_sample_run ''a'']]"
      "[csv_sample_run ''a'']" "[[csv_sample_run ''a'']]" sample_context 10]
  by (simp add: middle_call_def csv_sample_counters)

theorem CSV_counters_checked_witness:
  "\<exists>what. CSVReporter_ReportRuns [csv_sample_run ''b''] \<lparr>cs_printed_header = True, cs_user_counter_names = [''a'']\<rparr> = Inl (CheckFailed what)"
  using CSV_counters_checked[of "\<lparr>cs_printed_header = True, cs_user_counter_names = [''a'']\<rparr>" "[csv_sample_run ''b'']"]
  by (auto simp: csv_sample_counters split: sum.splits)

end
