(* ===== verification/Console.thy ===== *)
theory Console
  imports Reporting Names Fitting Counters Strings
begin

text \<open>
  The console reporter: src/src/console_reporter.cc, and the coloured output of src/src/colorprint.cc
  (for a terminal that is not a Windows console).
\<close>

section \<open>Coloured output\<close>

datatype LogColor =
    COLOR_DEFAULT | COLOR_RED | COLOR_GREEN | COLOR_YELLOW | COLOR_BLUE | COLOR_MAGENTA | COLOR_CYAN | COLOR_WHITE

fun GetPlatformColorCode :: "LogColor \<Rightarrow> string option" where
  "GetPlatformColorCode COLOR_RED = Some ''1''"
| "GetPlatformColorCode COLOR_GREEN = Some ''2''"
| "GetPlatformColorCode COLOR_YELLOW = Some ''3''"
| "GetPlatformColorCode COLOR_BLUE = Some ''4''"
| "GetPlatformColorCode COLOR_MAGENTA = Some ''5''"
| "GetPlatformColorCode COLOR_CYAN = Some ''6''"
| "GetPlatformColorCode COLOR_WHITE = Some ''7''"
| "GetPlatformColorCode COLOR_DEFAULT = None"

text \<open>
  \<open>vsnprintf\<close> of a text that the format expands to: what fits in the buffer with its terminator, and
  the length of the whole text, or a negative value when that is no \<open>int\<close>.
\<close>

definition vsnprintf :: "nat \<Rightarrow> string \<Rightarrow> string \<times> int" where
  "vsnprintf n expansion =
     (take (n - 1) expansion, if int (length expansion) \<le> int32_max then int (length expansion) else -1)"

definition FormatString :: "string \<Rightarrow> string res" where
  "FormatString expansion =
     (let (local_buff, ret) = vsnprintf 256 expansion in
      rbind (BM_CHECK (ret \<ge> 0) ''ret >= 0'') (\<lambda>_.
      if ret = 0 then Inr []
      else if ret < 256 then Inr local_buff
      else
        (let (buff, ret') = vsnprintf (nat ret + 1) expansion in
         rbind (BM_CHECK (ret' > 0 \<and> ret' < ret + 1) ''ret > 0 && ret < size'') (\<lambda>_. Inr buff))))"

text \<open>The two attempts give the whole text, so below a printed text is its expansion.\<close>

lemma FormatString_exact: "int (length expansion) \<le> int32_max \<Longrightarrow> FormatString expansion = Inr expansion"
  by (auto simp: FormatString_def vsnprintf_def)

definition ColorPrintf :: "LogColor \<Rightarrow> string \<Rightarrow> string" where
  "ColorPrintf color expansion =
     (case GetPlatformColorCode color of None \<Rightarrow> [] | Some color_code \<Rightarrow> [CHR 0x1B] @ ''[0;3'' @ color_code @ ''m'') @
     expansion @ [CHR 0x1B] @ ''[m''"

definition IgnoreColorPrint :: "LogColor \<Rightarrow> string \<Rightarrow> string" where
  "IgnoreColorPrint color expansion = expansion"

definition SUPPORTED_TERM_VALUES :: "string list" where
  "SUPPORTED_TERM_VALUES = [''xterm'', ''xterm-color'', ''xterm-256color'', ''screen'', ''screen-256color'', ''tmux'',
     ''tmux-256color'', ''rxvt-unicode'', ''rxvt-unicode-256color'', ''linux'', ''cygwin'', ''xterm-kitty'',
     ''alacritty'', ''foot'', ''foot-extra'', ''wezterm'']"

definition IsColorTerminal :: "env \<Rightarrow> bool \<Rightarrow> bool" where
  "IsColorTerminal getenv stdout_isatty \<longleftrightarrow>
     stdout_isatty \<and> (case getenv ''TERM'' of None \<Rightarrow> False | Some term \<Rightarrow> term \<in> set SUPPORTED_TERM_VALUES)"

section \<open>The reporter\<close>

record ConsoleReporter =
  co_output_options :: OutputOptions
  co_name_field_width :: nat
  co_prev_counters :: UserCounters
  co_printed_header :: bool

definition ConsoleReporter_new :: "OutputOptions \<Rightarrow> ConsoleReporter" where
  "ConsoleReporter_new opts = \<lparr>co_output_options = opts, co_name_field_width = 0, co_prev_counters = [], co_printed_header = False\<rparr>"

definition ConsoleReporter_ReportContext :: "Context \<Rightarrow> ConsoleReporter \<Rightarrow> ConsoleReporter" where
  "ConsoleReporter_ReportContext context co =
     co\<lparr>co_name_field_width := cx_name_field_width context, co_printed_header := False, co_prev_counters := []\<rparr>"

definition header_text :: "ConsoleReporter \<Rightarrow> Run \<Rightarrow> string" where
  "header_text co run =
     pad_right (co_name_field_width co) ''Benchmark'' @ '' '' @ pad_left 13 ''Time'' @ '' '' @ pad_left 15 ''CPU'' @ '' '' @
     pad_left 12 ''Iterations'' @
     (if r_counters run \<noteq> [] then
        (if oo_tabular (co_output_options co)
         then concat (map (\<lambda>(name, c). '' '' @ pad_left 10 name) (r_counters run))
         else '' UserCounters...'')
      else [])"

definition PrintHeader :: "ConsoleReporter \<Rightarrow> Run \<Rightarrow> string" where
  "PrintHeader co run =
     (let str = header_text co run; line = replicate (length str) CHR ''-''
      in line @ ''\<newline>'' @ str @ ''\<newline>'' @ line @ ''\<newline>'')"

definition FormatTime :: "double \<Rightarrow> string" where
  "FormatTime time =
     (if time < Fin 1 then pad_left 10 (fmt_f 3 time)
      else if time < Fin 10 then pad_left 10 (fmt_f 2 time)
      else if time < Fin 100 then pad_left 10 (fmt_f 1 time)
      else if time > Fin 9999999999 then pad_left 1 (fmt_e 4 time)
      else pad_left 10 (fmt_f 0 time))"

definition printer :: "ConsoleReporter \<Rightarrow> LogColor \<Rightarrow> string \<Rightarrow> string" where
  "printer co = (if oo_color (co_output_options co) then ColorPrintf else IgnoreColorPrint)"

text \<open>The text of a user counter and its unit.\<close>

definition counter_text :: "Run \<Rightarrow> Counter \<Rightarrow> string \<times> string" where
  "counter_text result c =
     (if r_run_type result = RT_Aggregate \<and> r_aggregate_unit result = kPercentage
      then (fmt_f 2 (Fin 100 * c_value c), ''%'')
      else (HumanReadableNumber (c_value c) (c_oneK c),
            if c_flags c AND kIsRate \<noteq> 0 then (if c_flags c AND kInvert \<noteq> 0 then ''s'' else ''/s'') else []))"

definition print_console_counter :: "ConsoleReporter \<Rightarrow> Run \<Rightarrow> string \<times> Counter \<Rightarrow> string" where
  "print_console_counter co result = (\<lambda>(name, c).
     (let cNameLen = max 10 (length name); (s, unit) = counter_text result c in
      printer co COLOR_DEFAULT
        (if oo_tabular (co_output_options co) then '' '' @ pad_left (cNameLen - length unit) s @ unit
         else '' '' @ name @ ''='' @ s @ unit)))"

definition print_console_times :: "ConsoleReporter \<Rightarrow> Run \<Rightarrow> string" where
  "print_console_times co result =
     (let real_time = GetAdjustedRealTime result; cpu_time = GetAdjustedCPUTime result;
          columns = (\<lambda>real real_unit cpu cpu_unit.
            real @ '' '' @ pad_right 4 real_unit @ '' '' @ cpu @ '' '' @ pad_right 4 cpu_unit @ '' '')
      in printer co COLOR_YELLOW
        (if r_report_big_o result then
           (let big_o = GetBigOString (r_complexity result)
            in columns (pad_left 10 (fmt_f 2 real_time)) big_o (pad_left 10 (fmt_f 2 cpu_time)) big_o)
         else if r_report_rms result then
           columns (pad_left 10 (fmt_f 0 (real_time * Fin 100))) ''%'' (pad_left 10 (fmt_f 0 (cpu_time * Fin 100))) ''%''
         else if r_run_type result \<noteq> RT_Aggregate \<or> r_aggregate_unit result = kTime then
           (let timeLabel = GetTimeUnitString (r_time_unit result)
            in columns (FormatTime real_time) timeLabel (FormatTime cpu_time) timeLabel)
         else
           columns (pad_left 10 (fmt_f 2 (Fin 100 * r_real_accumulated_time result))) ''%''
             (pad_left 10 (fmt_f 2 (Fin 100 * r_cpu_accumulated_time result))) ''%''))"

definition ConsoleReporter_PrintRunData :: "ConsoleReporter \<Rightarrow> Run \<Rightarrow> string" where
  "ConsoleReporter_PrintRunData co result =
     printer co (if r_report_big_o result \<or> r_report_rms result then COLOR_BLUE else COLOR_GREEN)
       (pad_right (co_name_field_width co) (benchmark_name result) @ '' '') @
     (if r_skipped result = SkippedWithError then
        printer co COLOR_RED (''ERROR OCCURRED: '' @ [CHR 0x27] @ r_skip_message result @ [CHR 0x27]) @
        printer co COLOR_DEFAULT ''\<newline>''
      else if r_skipped result = SkippedWithMessage then
        printer co COLOR_WHITE (''SKIPPED: '' @ [CHR 0x27] @ r_skip_message result @ [CHR 0x27]) @
        printer co COLOR_DEFAULT ''\<newline>''
      else
        print_console_times co result @
        (if \<not> r_report_big_o result \<and> \<not> r_report_rms result
         then printer co COLOR_CYAN (pad_left 10 (show_int (r_iterations result))) else []) @
        concat (map (print_console_counter co result) (r_counters result)) @
        (if r_report_label result \<noteq> [] then printer co COLOR_DEFAULT ('' '' @ r_report_label result) else []) @
        printer co COLOR_DEFAULT ''\<newline>'')"

definition print_one_run :: "ConsoleReporter \<Rightarrow> Run \<Rightarrow> ConsoleReporter \<times> string" where
  "print_one_run co run =
     (let print_header = (\<not> co_printed_header co \<or>
            (oo_tabular (co_output_options co) \<and> \<not> SameNames (r_counters run) (co_prev_counters co)));
          co' = (if print_header then co\<lparr>co_printed_header := True, co_prev_counters := r_counters run\<rparr> else co)
      in (co', (if print_header then PrintHeader co' run else []) @ ConsoleReporter_PrintRunData co' run))"

fun ConsoleReporter_ReportRuns :: "Run list \<Rightarrow> ConsoleReporter \<Rightarrow> ConsoleReporter \<times> string" where
  "ConsoleReporter_ReportRuns [] co = (co, [])"
| "ConsoleReporter_ReportRuns (run # reports) co =
     (case print_one_run co run of (co1, t1) \<Rightarrow>
      case ConsoleReporter_ReportRuns reports co1 of (co2, t2) \<Rightarrow> (co2, t1 @ t2))"

definition console_reporter :: "bool \<Rightarrow> ConsoleReporter reporter_ops" where
  "console_reporter same_stream =
     \<lparr>ro_context = (\<lambda>context co. Inr (ConsoleReporter_ReportContext context co,
        if same_stream then PrintBasicContext context else [])),
      ro_runs = (\<lambda>reports co. Inr (ConsoleReporter_ReportRuns reports co)),
      ro_finalize = []\<rparr>"

section \<open>Widths\<close>

lemma length_insert_point:
  "length (insert_point p s) = (if p = 0 then max 1 (length s) else max (Suc p) (length s) + 1)"
  by (auto simp: insert_point_def Let_def)

lemma length_fixed_digits:
  assumes "nat (rne (r * 10 ^ p)) < 10 ^ k" "p < k"
  shows "length (fixed_digits p r) \<le> Suc k"
proof -
  have "length (show_nat (nat (rne (r * 10 ^ p)))) \<le> k" using assms by (subst length_show_nat_le) simp_all
  then show ?thesis using assms(2) by (auto simp: fixed_digits_def length_insert_point)
qed

lemma length_fixed_digits_0: "nat (rne r) < 10 ^ k \<Longrightarrow> 0 < k \<Longrightarrow> length (fixed_digits 0 r) \<le> k"
  using length_show_nat_le[of k "nat (rne r)"] by (simp add: fixed_digits_def length_insert_point)

text \<open>The decimal exponent is the one of the first digit.\<close>

lemma show_nat_bounds:
  assumes "0 < n"
  shows "10 ^ (length (show_nat n) - 1) \<le> n" "n < 10 ^ length (show_nat n)"
proof -
  show "n < 10 ^ length (show_nat n)" using length_show_nat_le[of "length (show_nat n)" n] by simp
  show "10 ^ (length (show_nat n) - 1) \<le> n"
  proof (cases "length (show_nat n) - 1 = 0")
    case False
    then show ?thesis using length_show_nat_le[of "length (show_nat n) - 1" n] by linarith
  qed (use assms in simp)
qed

lemma show_nat_bounds_rat:
  assumes "0 < n"
  shows "(10::rat) ^ (length (show_nat (nat n)) - 1) \<le> of_int n" "of_int n < (10::rat) ^ length (show_nat (nat n))"
proof -
  have n: "of_nat (nat n) = (of_int n :: rat)" using assms by simp
  have "(of_nat (10 ^ (length (show_nat (nat n)) - 1)) :: rat) \<le> of_nat (nat n)"
    using show_nat_bounds(1)[of "nat n"] assms by (subst of_nat_le_iff) simp
  then show "(10::rat) ^ (length (show_nat (nat n)) - 1) \<le> of_int n" unfolding n by simp
  have "(of_nat (nat n) :: rat) < of_nat (10 ^ length (show_nat (nat n)))"
    using show_nat_bounds(2)[of "nat n"] assms by (subst of_nat_less_iff) simp
  then show "of_int n < (10::rat) ^ length (show_nat (nat n))" unfolding n by simp
qed

lemma ilog10_bounds:
  assumes "0 < r"
  shows "10 powi ilog10 r \<le> r" "r < 10 powi (ilog10 r + 1)"
proof -
  obtain n d where q: "quotient_of r = (n, d)" by force
  have nd: "0 < n" "0 < d" "r = of_int n / of_int d"
    using assms q quotient_of_denom_pos[OF q] quotient_of_div[OF q] by (auto simp: zero_less_divide_iff)
  define a b where "a = length (show_nat (nat n))" and "b = length (show_nat (nat d))"
  have ab: "0 < a" "0 < b" by (simp_all add: a_def b_def)
  have n: "(10::rat) ^ (a - 1) \<le> of_int n" "of_int n < (10::rat) ^ a"
    and d: "(10::rat) ^ (b - 1) \<le> of_int d" "of_int d < (10::rat) ^ b"
    using show_nat_bounds_rat[OF nd(1)] show_nat_bounds_rat[OF nd(2)] by (simp_all add: a_def b_def)
  have up: "r < 10 powi (int a - int b + 1)"
  proof -
    have "r * 10 ^ (b - 1) \<le> r * of_int d" using d(1) assms by (intro mult_left_mono) auto
    then have "r * 10 ^ (b - 1) \<le> of_int n" using nd by simp
    then have "r * 10 ^ (b - 1) < 10 ^ a" using n(2) by linarith
    then show ?thesis using ab by (simp add: power_int_diff power_int_add field_simps power_diff)
  qed
  have low: "10 powi (int a - int b - 1) \<le> r"
  proof -
    have "r * of_int d \<le> r * 10 ^ b" using d(2) assms by (intro mult_left_mono) auto
    then have "of_int n \<le> r * 10 ^ b" using nd by simp
    then have "10 ^ (a - 1) \<le> r * 10 ^ b" using n(1) by linarith
    then show ?thesis using ab by (simp add: power_int_diff power_int_add field_simps power_diff)
  qed
  have e: "ilog10 r = (if 10 powi (int a - int b) \<le> r then int a - int b else int a - int b - 1)"
    by (simp add: ilog10_def q a_def b_def Let_def)
  show "10 powi ilog10 r \<le> r" using e low by simp
  show "r < 10 powi (ilog10 r + 1)" using e up by simp
qed

lemma sci_digits_bounds:
  assumes "0 < r" "sci_digits p r = (m, x)"
  shows "10 ^ p \<le> m" "m < 10 ^ Suc p" "x = ilog10 r \<or> x = ilog10 r + 1 \<and> rne (r / 10 powi (ilog10 r - int p)) = 10 ^ Suc p"
proof -
  define q where "q = r / 10 powi (ilog10 r - int p)"
  have ten: "(0::rat) < 10 powi i" for i by simp
  define u where "u = r / 10 powi ilog10 r"
  have qu: "q = u * 10 ^ p"
    by (simp add: q_def u_def power_int_diff field_simps)
  have u: "1 \<le> u" "u < 10"
    using ilog10_bounds[OF assms(1)] ten[of "ilog10 r"] by (simp_all add: u_def power_int_add field_simps)
  have q: "10 ^ p \<le> q" "q < 10 ^ Suc p"
    using u mult_right_mono[OF u(1), of "10 ^ p"] mult_strict_right_mono[OF u(2), of "10 ^ p"] by (simp_all add: qu)
  have "rat_of_int (10 ^ p) \<le> q" using q(1) by simp
  then have lo: "10 ^ p \<le> rne q" by (rule int_le_rne)
  have "q \<le> rat_of_int (10 ^ Suc p)" using q(2) by simp
  then have hi: "rne q \<le> 10 ^ Suc p" by (rule rne_le_iff_int)
  have mx: "(m, x) = (if rne q = 10 ^ Suc p then (10 ^ p, ilog10 r + 1) else (rne q, ilog10 r))"
    using assms(2) by (auto simp: sci_digits_def q_def Let_def split: if_splits)
  show "10 ^ p \<le> m" "m < 10 ^ Suc p" using mx lo hi by (auto split: if_splits)
  show "x = ilog10 r \<or> x = ilog10 r + 1 \<and> rne (r / 10 powi (ilog10 r - int p)) = 10 ^ Suc p"
    using mx by (auto simp: q_def split: if_splits)
qed

lemma ilog10_eqI:
  assumes "10 powi k \<le> r" "r < 10 powi (k + 1)"
  shows "ilog10 r = k"
proof -
  have "0 < r" using assms(1) less_le_trans[of 0 "10 powi k" r] by simp
  note b = ilog10_bounds[OF this]
  have mono: "(10::rat) powi i \<le> 10 powi j" if "i \<le> j" for i j
    using that by (intro power_int_increasing) auto
  have "\<not> k < ilog10 r" using mono[of "k + 1" "ilog10 r"] b(1) assms(2) by fastforce
  moreover have "\<not> ilog10 r < k" using mono[of "ilog10 r + 1" k] b(2) assms(1) by fastforce
  ultimately show ?thesis by simp
qed

lemma ilog10_mono: "0 < r \<Longrightarrow> r \<le> s \<Longrightarrow> ilog10 r \<le> ilog10 s"
proof (rule ccontr)
  assume *: "0 < r" "r \<le> s" "\<not> ilog10 r \<le> ilog10 s"
  have "10 powi (ilog10 s + 1) \<le> (10::rat) powi ilog10 r" using *(3) by (intro power_int_increasing) auto
  then show False using ilog10_bounds(1)[OF *(1)] ilog10_bounds(2)[of s] *(1,2) by linarith
qed

text \<open>Five digits, the point and an exponent of two digits.\<close>

lemma length_sci_string_4:
  assumes "10 ^ 9 \<le> r" "r \<le> 99999 * 10 ^ 95"
  shows "length (sci_string 4 r) = 10"
proof -
  have r: "0 < r" using less_le_trans[OF _ assms(1), of 0] by simp
  obtain m x where mx: "sci_digits 4 r = (m, x)" by force
  note b = sci_digits_bounds[OF r mx]
  have l9: "ilog10 (10 ^ 9) = 9" by (rule ilog10_eqI) simp_all
  have l99: "ilog10 (99999 * 10 ^ 95) = 99" by (rule ilog10_eqI) simp_all
  have x: "9 \<le> ilog10 r" "ilog10 r \<le> 99"
    using ilog10_mono[OF _ assms(1)] ilog10_mono[OF r assms(2)] l9 l99 by simp_all
  have "x \<le> 99"
  proof (cases "ilog10 r = 99")
    case True
    have "r / 10 powi (ilog10 r - int 4) \<le> rat_of_int 99999"
      using assms(2) True by (simp add: field_simps)
    then have "rne (r / 10 powi (ilog10 r - int 4)) \<le> 99999" by (rule rne_le_iff_int)
    then show ?thesis using b(3) True by auto
  qed (use b(3) x in auto)
  moreover have "9 \<le> x" using b(3) x(1) by auto
  moreover have "length (show_nat (nat m)) = 5"
    using length_show_nat_le[of 5 "nat m"] length_show_nat_le[of 4 "nat m"] b(1,2) by (simp add: nat_less_iff le_antisym not_less)
  moreover have "length (show_nat (nat x)) = (if x < 10 then 1 else 2)" if "9 \<le> x" "x \<le> 99"
    using length_show_nat_le[of 1 "nat x"] length_show_nat_le[of 2 "nat x"] that show_nat_neq_Nil[of "nat x"]
    by (auto simp: nat_less_iff le_Suc_eq numeral_2_eq_2)
  ultimately show ?thesis using r mx
    by (auto simp: sci_string_def length_insert_point show_exponent_def)
qed

section \<open>The columns of a row\<close>

lemma length_show_double_nonneg:
  assumes "dfinite d" "0 \<le> dval d" "length (f (dval d)) \<le> (if dneg d then k - 1 else k)" "0 < k"
  shows "length (show_double f d) \<le> k"
  using assms by (cases d) (auto simp: show_double_def)

text \<open>
  Times that are not negative and at most \<open>9.9999e+99\<close>, as the comment in \<open>FormatTime\<close> assumes.
\<close>

definition printable_time :: "double \<Rightarrow> bool" where
  "printable_time t \<longleftrightarrow> dfinite t \<and> 0 \<le> dval t \<and> dval t \<le> 99999 * 10 ^ 95"

lemma FormatTime_fixed:
  assumes "dfinite t" "0 \<le> dval t" "dval t * 10 ^ p \<le> 1000" "0 < p" "p < 4"
  shows "length (pad_left 10 (fmt_f p t)) = 10"
proof -
  have "dval t * 10 ^ p \<le> rat_of_int 1000" using assms(3) by simp
  then have "rne (dval t * 10 ^ p) \<le> 1000" by (rule rne_le_iff_int)
  then have "length (fixed_digits p (dval t)) \<le> Suc 4" using assms(5) by (intro length_fixed_digits) auto
  then have "length (fmt_f p t) \<le> 10"
    unfolding fmt_f_def using assms(1,2) by (intro length_show_double_nonneg) auto
  then show ?thesis by simp
qed

text \<open>A time that is not negative and at most 9.9999e+99 is printed in exactly ten characters: with
  three, two, one or no decimals below 1, 10, 100 and 1e10, and in scientific notation above, so that
  the time columns of the console stay aligned.\<close>

theorem FormatTime_width:
  assumes "printable_time t"
  shows "length (FormatTime t) = 10"
proof -
  have t: "dfinite t" "0 \<le> dval t" "dval t \<le> 99999 * 10 ^ 95" using assms by (auto simp: printable_time_def)
  have less: "t < Fin v \<longleftrightarrow> dval t < v" "Fin v < t \<longleftrightarrow> v < dval t" for v
    using less_finite[of t "Fin v"] less_finite[of "Fin v" t] t(1) by simp_all
  consider "dval t < 1" | "1 \<le> dval t" "dval t < 10" | "10 \<le> dval t" "dval t < 100"
    | "100 \<le> dval t" "dval t \<le> 9999999999" | "9999999999 < dval t" by linarith
  then show ?thesis
  proof cases
    case 1
    then show ?thesis using FormatTime_fixed[of t 3] t by (simp add: FormatTime_def less)
  next
    case 2
    then show ?thesis using FormatTime_fixed[of t 2] t by (simp add: FormatTime_def less)
  next
    case 3
    then show ?thesis using FormatTime_fixed[of t 1] t by (simp add: FormatTime_def less)
  next
    case 4
    have "dval t \<le> rat_of_int 9999999999" using 4 by simp
    then have "rne (dval t) \<le> 9999999999" by (rule rne_le_iff_int)
    then have "length (fixed_digits 0 (dval t)) \<le> 10" by (intro length_fixed_digits_0) auto
    moreover have "\<not> dneg t" using 4 t by (cases t) auto
    ultimately have "length (fmt_f 0 t) \<le> 10"
      unfolding fmt_f_def using t by (intro length_show_double_nonneg) auto
    then show ?thesis using 4 by (simp add: FormatTime_def less)
  next
    case 5
    have l: "10 ^ 9 \<le> dval t" using 5 by simp
    have "\<not> dneg t" using 5 t by (cases t) auto
    then have "length (fmt_e 4 t) = 10"
      using t length_sci_string_4[OF l t(3)] by (cases t) (simp_all add: fmt_e_def show_double_def)
    then show ?thesis using 5 by (simp add: FormatTime_def less)
  qed
qed

text \<open>A run whose counters fit their columns.\<close>

definition fitting_counters :: "ConsoleReporter \<Rightarrow> Run \<Rightarrow> bool" where
  "fitting_counters co run \<longleftrightarrow> r_counters run = [] \<or> oo_tabular (co_output_options co) \<and>
     (\<forall>(name, c) \<in> set (r_counters run).
        case counter_text run c of (s, unit) \<Rightarrow> length s + length unit \<le> max 10 (length name))"

text \<open>C37: Without colours, the row of a measured run is exactly as wide as the header above it: the name
  fits in the name column, the times are printable, the iteration count has at most ten digits, there
  is no label, and the user counters, printed in tabular form, fit their columns.\<close>

theorem console_row_aligned:
  assumes "\<not> oo_color (co_output_options co)"
    and "r_skipped run = NotSkipped" and "\<not> r_report_big_o run" and "\<not> r_report_rms run" and "r_run_type run = RT_Iteration"
    and "length (benchmark_name run) \<le> co_name_field_width co" and "9 \<le> co_name_field_width co"
    and "printable_time (GetAdjustedRealTime run)" and "printable_time (GetAdjustedCPUTime run)"
    and "0 \<le> r_iterations run" and "r_iterations run < 10 ^ 10"
    and "r_report_label run = []" and "fitting_counters co run"
  shows "length (ConsoleReporter_PrintRunData co run) = length (header_text co run) + 1"
proof -
  have p: "printer co color s = s" for color s using assms(1) by (simp add: printer_def IgnoreColorPrint_def)
  have it: "length (show_int (r_iterations run)) \<le> 10"
    using length_show_nat_le[of 10 "nat (r_iterations run)"] assms(10,11) by (simp add: show_int_def nat_less_iff)
  have unit: "length (GetTimeUnitString (r_time_unit run)) \<le> 4" by (cases "r_time_unit run") simp_all
  have counters: "length (concat (map (print_console_counter co run) (r_counters run))) =
      (if r_counters run = [] then 0
       else if oo_tabular (co_output_options co) then sum_list (map (\<lambda>(name, c). Suc (max 10 (length name))) (r_counters run))
       else length (concat (map (print_console_counter co run) (r_counters run))))"
  proof -
    have "length (print_console_counter co run (name, c)) = Suc (max 10 (length name))"
      if "(name, c) \<in> set (r_counters run)" "oo_tabular (co_output_options co)" for name c
      using that assms(13) by (cases "counter_text run c") (force simp: fitting_counters_def print_console_counter_def p)
    then show ?thesis by (auto simp: length_concat comp_def intro!: arg_cong[of _ _ sum_list])
  qed
  have head: "length (concat (map (\<lambda>(name, c). '' '' @ pad_left 10 name) (r_counters run))) =
      sum_list (map (\<lambda>(name, c). Suc (max 10 (length name))) (r_counters run))"
    by (simp add: length_concat comp_def case_prod_unfold)
  show ?thesis
    using assms(2-7,12,13) it unit FormatTime_width[OF assms(8)] FormatTime_width[OF assms(9)] counters head
    by (auto simp: ConsoleReporter_PrintRunData_def header_text_def print_console_times_def p Let_def max_def
        fitting_counters_def)
qed

section \<open>Headers\<close>

text \<open>The text of a row and of a header depends on the options and the width only.\<close>

definition same_layout :: "ConsoleReporter \<Rightarrow> ConsoleReporter \<Rightarrow> bool" where
  "same_layout co co' \<longleftrightarrow> co_output_options co = co_output_options co' \<and> co_name_field_width co = co_name_field_width co'"

lemma layout_text:
  assumes "same_layout co co'"
  shows "PrintHeader co run = PrintHeader co' run" "ConsoleReporter_PrintRunData co run = ConsoleReporter_PrintRunData co' run"
proof -
  have p: "printer co = printer co'" using assms by (simp add: printer_def same_layout_def)
  have c: "print_console_counter co run = print_console_counter co' run" for run
    unfolding print_console_counter_def p using assms by (simp add: same_layout_def)
  show "PrintHeader co run = PrintHeader co' run"
    using assms by (simp add: PrintHeader_def header_text_def same_layout_def)
  show "ConsoleReporter_PrintRunData co run = ConsoleReporter_PrintRunData co' run"
    unfolding ConsoleReporter_PrintRunData_def print_console_times_def p c using assms by (simp add: same_layout_def)
qed

definition block_text :: "ConsoleReporter \<Rightarrow> Run list \<Rightarrow> string" where
  "block_text co b = PrintHeader co (hd b) @ concat (map (ConsoleReporter_PrintRunData co) b)"

lemma block_text_Cons:
  "block_text co (run # b) =
     PrintHeader co run @ ConsoleReporter_PrintRunData co run @ concat (map (ConsoleReporter_PrintRunData co) b)"
  by (simp add: block_text_def)

lemma SameNames_refl [simp]: "SameNames l l"
proof -
  have "map_of l name \<noteq> None" if "(name, c) \<in> set l" for name c
    using that weak_map_of_SomeI[of name c l] by auto
  then show ?thesis by (auto simp: SameNames_def)
qed

definition names_change :: "Run list \<Rightarrow> Run list \<Rightarrow> bool" where
  "names_change b b' \<longleftrightarrow> \<not> SameNames (r_counters (hd b')) (r_counters (hd b))"

definition uniform_block :: "Run list \<Rightarrow> bool" where
  "uniform_block b \<longleftrightarrow> b \<noteq> [] \<and> (\<forall>run \<in> set b. SameNames (r_counters run) (r_counters (hd b)))"

lemma blocks_after_header:
  assumes "co_printed_header co" "oo_tabular (co_output_options co)" "same_layout co lay"
  shows "\<exists>first blocks. runs = first @ concat blocks \<and>
    snd (ConsoleReporter_ReportRuns runs co) = concat (map (ConsoleReporter_PrintRunData lay) first) @ concat (map (block_text lay) blocks) \<and>
    (\<forall>run \<in> set first. SameNames (r_counters run) (co_prev_counters co)) \<and>
    (\<forall>b \<in> set blocks. uniform_block b) \<and> successively names_change blocks \<and>
    (blocks \<noteq> [] \<longrightarrow> \<not> SameNames (r_counters (hd (hd blocks))) (co_prev_counters co))"
  using assms
proof (induction runs arbitrary: co)
  case (Cons run runs)
  define co1 where "co1 = co\<lparr>co_printed_header := True, co_prev_counters := r_counters run\<rparr>"
  have lay: "PrintHeader co run = PrintHeader lay run" "ConsoleReporter_PrintRunData co run = ConsoleReporter_PrintRunData lay run"
    "PrintHeader co1 run = PrintHeader lay run" "ConsoleReporter_PrintRunData co1 run = ConsoleReporter_PrintRunData lay run"
    by (rule layout_text; use Cons.prems(3) in \<open>simp add: same_layout_def co1_def\<close>)+
  show ?case
  proof (cases "SameNames (r_counters run) (co_prev_counters co)")
    case True
    then have one: "print_one_run co run = (co, ConsoleReporter_PrintRunData lay run)"
      using Cons.prems lay by (simp add: print_one_run_def)
    obtain first blocks where IH: "runs = first @ concat blocks"
      "snd (ConsoleReporter_ReportRuns runs co) = concat (map (ConsoleReporter_PrintRunData lay) first) @ concat (map (block_text lay) blocks)"
      "\<forall>run \<in> set first. SameNames (r_counters run) (co_prev_counters co)"
      "\<forall>b \<in> set blocks. uniform_block b" "successively names_change blocks"
      "blocks \<noteq> [] \<longrightarrow> \<not> SameNames (r_counters (hd (hd blocks))) (co_prev_counters co)"
      using Cons.IH[OF Cons.prems] by blast
    show ?thesis
      by (rule exI[of _ "run # first"], rule exI[of _ blocks]) (use one IH True in \<open>simp add: case_prod_unfold\<close>)
  next
    case False
    then have one: "print_one_run co run = (co1, PrintHeader lay run @ ConsoleReporter_PrintRunData lay run)"
      using Cons.prems lay by (simp add: print_one_run_def Let_def flip: co1_def)
    obtain first blocks where IH: "runs = first @ concat blocks"
      "snd (ConsoleReporter_ReportRuns runs co1) = concat (map (ConsoleReporter_PrintRunData lay) first) @ concat (map (block_text lay) blocks)"
      "\<forall>run \<in> set first. SameNames (r_counters run) (co_prev_counters co1)"
      "\<forall>b \<in> set blocks. uniform_block b" "successively names_change blocks"
      "blocks \<noteq> [] \<longrightarrow> \<not> SameNames (r_counters (hd (hd blocks))) (co_prev_counters co1)"
      using Cons.IH[of co1] Cons.prems by (auto simp: co1_def same_layout_def)
    have "uniform_block (run # first)" using IH(3) by (simp add: uniform_block_def co1_def)
    moreover have "successively names_change ((run # first) # blocks)"
      using IH(5,6) by (cases blocks) (auto simp: names_change_def co1_def)
    ultimately show ?thesis using one IH False
      by - (rule exI[of _ "[]"], rule exI[of _ "(run # first) # blocks"], simp add: case_prod_unfold block_text_Cons)
  qed
qed (auto intro!: exI[of _ "[]"])

text \<open>The tabular console output of a session is a sequence of blocks, each a header over rows: every
  row stands under a header with the names of exactly its own user counters, and a new header is
  printed only where the names change.\<close>

theorem console_blocks:
  assumes "\<not> co_printed_header co" and "oo_tabular (co_output_options co)"
  shows "\<exists>blocks. runs = concat blocks \<and>
    snd (ConsoleReporter_ReportRuns runs co) = concat (map (block_text co) blocks) \<and>
    (\<forall>b \<in> set blocks. uniform_block b) \<and> successively names_change blocks"
proof (cases runs)
  case Nil
  then show ?thesis by (intro exI[of _ "[]"]) simp
next
  case (Cons run rest)
  define co1 where "co1 = co\<lparr>co_printed_header := True, co_prev_counters := r_counters run\<rparr>"
  have one: "print_one_run co run = (co1, PrintHeader co run @ ConsoleReporter_PrintRunData co run)"
    using assms layout_text[of co1 co run] by (simp add: print_one_run_def Let_def same_layout_def co1_def)
  obtain first blocks where 1: "rest = first @ concat blocks"
    "snd (ConsoleReporter_ReportRuns rest co1) = concat (map (ConsoleReporter_PrintRunData co) first) @ concat (map (block_text co) blocks)"
    "\<forall>run \<in> set first. SameNames (r_counters run) (co_prev_counters co1)"
    "\<forall>b \<in> set blocks. uniform_block b" "successively names_change blocks"
    "blocks \<noteq> [] \<longrightarrow> \<not> SameNames (r_counters (hd (hd blocks))) (co_prev_counters co1)"
    using blocks_after_header[of co1 co rest] assms by (auto simp: co1_def same_layout_def)
  have "uniform_block (run # first)" using 1(3) by (simp add: uniform_block_def co1_def)
  moreover have "successively names_change ((run # first) # blocks)"
    using 1(5,6) by (cases blocks) (auto simp: names_change_def co1_def)
  ultimately show ?thesis
    by (intro exI[of _ "(run # first) # blocks"]) (use one 1 Cons in \<open>simp add: case_prod_unfold block_text_Cons\<close>)
qed

interpretation console: reporter_contract "console_reporter same" "\<lambda>_. True" "\<lambda>_. True" for same
  by unfold_locales (simp add: console_reporter_def split: prod.splits)

text \<open>How the reports are batched makes no difference on the console.\<close>

lemma ReportRuns_append:
  "ConsoleReporter_ReportRuns (xs @ ys) co =
     (case ConsoleReporter_ReportRuns xs co of (co1, t1) \<Rightarrow>
      case ConsoleReporter_ReportRuns ys co1 of (co2, t2) \<Rightarrow> (co2, t1 @ t2))"
  by (induction xs arbitrary: co) (auto simp: case_prod_unfold)

section \<open>Samples\<close>

definition console_sample_run :: "(string \<times> Counter) list \<Rightarrow> Run" where
  "console_sample_run cs = (Run_init 0 kSecond)\<lparr>r_run_name := BenchmarkName_init\<lparr>n_function_name := ''BM_sample''\<rparr>,
     r_iterations := 4, r_real_accumulated_time := Fin 8, r_cpu_accumulated_time := Fin 4, r_counters := cs\<rparr>"

definition tabular_console :: ConsoleReporter where
  "tabular_console = (ConsoleReporter_new \<lparr>oo_color = False, oo_tabular = True\<rparr>)\<lparr>co_name_field_width := 10\<rparr>"

theorem FormatTime_width_witness: "length (FormatTime (Fin (1234 / 100))) = 10"
  by (rule FormatTime_width) (simp add: printable_time_def)

theorem console_row_aligned_witness:
  "length (ConsoleReporter_PrintRunData tabular_console (console_sample_run [])) =
     length (header_text tabular_console (console_sample_run [])) + 1"
  by (rule console_row_aligned)
    (simp_all add: tabular_console_def ConsoleReporter_new_def console_sample_run_def Run_init_def fitting_counters_def
      GetAdjustedRealTime_def GetAdjustedCPUTime_def printable_time_def dbl_simps
      benchmark_name_def BenchmarkName_str_def name_parts_def join_def BenchmarkName_init_def)

theorem console_blocks_witness:
  "\<exists>blocks. [console_sample_run [], console_sample_run [(''a'', counter_of (Fin 3))]] = concat blocks \<and>
    snd (ConsoleReporter_ReportRuns [console_sample_run [], console_sample_run [(''a'', counter_of (Fin 3))]] tabular_console) =
      concat (map (block_text tabular_console) blocks) \<and>
    (\<forall>b \<in> set blocks. uniform_block b) \<and> successively names_change blocks"
  by (rule console_blocks) (simp_all add: tabular_console_def ConsoleReporter_new_def)

end
