(* ===== verification/Reports.thy ===== *)
theory Reports
  imports Sessions Json Csv Console
begin

text \<open>
  Sessions and reporters together: the calls a session makes to its reporters follow the protocol of
  \<open>BenchmarkReporter\<close> whatever happens in between, so the texts of the library's reporters are those
  of the theories \<open>Json\<close>, \<open>Csv\<close> and \<open>Console\<close>.
\<close>

section \<open>The protocol\<close>

text \<open>\<open>adds out out'\<close>: since \<open>out\<close>, the two reporters only got calls of the middle of a session.\<close>

definition adds :: "outputs \<Rightarrow> outputs \<Rightarrow> bool" where
  "adds out out' \<longleftrightarrow>
     (\<exists>cs. out_display out' = out_display out @ cs \<and> (\<forall>c \<in> set cs. middle_call c)) \<and>
     (case (out_file out, out_file out') of
        (None, None) \<Rightarrow> True
      | (Some f, Some f') \<Rightarrow> \<exists>cs. f' = f @ cs \<and> (\<forall>c \<in> set cs. middle_call c)
      | _ \<Rightarrow> False)"

lemma adds_refl [simp]: "adds out out"
  by (auto simp: adds_def split: option.splits)

lemma adds_trans: "adds a b \<Longrightarrow> adds b c \<Longrightarrow> adds a c"
  unfolding adds_def by (cases "out_file a"; cases "out_file b"; cases "out_file c") fastforce+

lemma adds_to_display: "\<forall>c \<in> set cs. middle_call c \<Longrightarrow> adds out (to_display cs out)"
  by (auto simp: adds_def to_display_def split: option.splits)

lemma adds_to_file: "\<forall>c \<in> set cs. middle_call c \<Longrightarrow> adds out (to_file cs out)"
  by (auto simp: adds_def to_file_def split: option.splits)

lemma middle_simps [simp]:
  "middle_call (CallRuns rs)" "middle_call (CallRunsConfig t e i)" "middle_call CallFlush"
  "\<not> middle_call (CallContext w)" "\<not> middle_call CallFinalize"
  by (simp_all add: middle_call_def)

lemma adds_FlushStreams: "adds out (FlushStreams out)"
  unfolding FlushStreams_def by (rule adds_trans[OF adds_to_display adds_to_file]) simp_all

lemma adds_Report: "adds out (Report rr out)"
  unfolding Report_def
  by (rule adds_trans[OF adds_to_display adds_trans[OF adds_to_file adds_FlushStreams]])
    (auto simp: report_one_def Let_def)

lemma adds_report_runner: "report_runner h m r families out = Inr (families', out') \<Longrightarrow> adds out out'"
  by (auto simp: report_runner_def Let_def runs_config_def rbind_eq_Inr
      intro!: adds_trans[OF adds_to_display adds_trans[OF adds_to_file adds_Report]])

lemma adds_run_repetition:
  assumes "run_repetition fuel h m fl s i = Some (Inr s')"
  shows "adds (lp_out s) (lp_out s')"
  using assms adds_report_runner
  by (auto simp: run_repetition_def Let_def rbind_eq_Inr split: if_splits option.splits sum.splits prod.splits)

lemma adds_ofold: "ofold (run_repetition fuel h m fl) s idxs = Some (Inr s') \<Longrightarrow> adds (lp_out s) (lp_out s')"
proof (induction idxs arbitrary: s)
  case (Cons i idxs)
  then show ?case
    by (auto split: option.splits sum.splits intro: adds_trans[OF adds_run_repetition])
qed simp

lemma adds_run_all: "run_all fuel env fl bs out mach = Some (Inr (out', mach', warnings)) \<Longrightarrow> adds out out'"
  using adds_ofold[where s = "\<lparr>lp_runners = _, lp_families = _, lp_machine = _, lp_out = out\<rparr>"]
  by (fastforce simp: run_all_def Let_def split: sum.splits option.splits)

definition session_calls :: "nat \<Rightarrow> report_call list \<Rightarrow> bool" where
  "session_calls w cs \<longleftrightarrow>
     (\<exists>middle. cs = CallContext w # middle @ [CallFinalize, CallFlush] \<and> (\<forall>c \<in> set middle. middle_call c))"

lemma protocol:
  assumes "RunBenchmarks fuel env fl bs \<lparr>out_display = [], out_file = map_option (\<lambda>_. []) file\<rparr> mach = Some (Inr (out', mach', warnings))"
  shows "session_calls (name_field_width fl bs) (out_display out') \<and>
    (se_ctx_display env \<longrightarrow> (\<forall>f. out_file out' = Some f \<longrightarrow> session_calls (name_field_width fl bs) f)) \<and>
    (out_file out' = None \<longleftrightarrow> file = None)"
proof -
  let ?ctx = "CallContext (name_field_width fl bs)" and ?none = "\<lparr>out_display = [], out_file = map_option (\<lambda>_. []) file\<rparr>"
  define out1 where "out1 = (if se_ctx_display env then to_file [?ctx] (to_display [?ctx] ?none) else to_display [?ctx] ?none)"
  have out1: "out_display out1 = [?ctx]" "se_ctx_display env \<longrightarrow> out_file out1 = map_option (\<lambda>_. [?ctx]) file"
    "out_file out1 = None \<longleftrightarrow> file = None"
    by (simp_all add: out1_def to_display_def to_file_def option.map_comp comp_def)
  have "\<exists>out3. adds out1 out3 \<and> out' = finalize_all out3"
  proof (cases "se_ctx_display env \<and> (out_file ?none = None \<or> se_ctx_file env)")
    case True
    then have "(case run_all fuel env fl bs (FlushStreams out1) mach of None \<Rightarrow> None | Some (Inl e) \<Rightarrow> Some (Inl e)
        | Some (Inr (out3, m, err)) \<Rightarrow> Some (Inr (finalize_all out3, m, err))) = Some (Inr (out', mach', warnings))"
      using assms by (simp add: RunBenchmarks_def Let_def out1_def)
    then obtain out3 where "run_all fuel env fl bs (FlushStreams out1) mach = Some (Inr (out3, mach', warnings))"
      "out' = finalize_all out3"
      by (auto split: option.splits sum.splits)
    then show ?thesis using adds_trans[OF adds_FlushStreams adds_run_all] by blast
  next
    case False
    then have "out' = finalize_all out1"
      using assms by (auto simp: RunBenchmarks_def Let_def out1_def split: if_splits)
    then show ?thesis by (intro exI[of _ out1]) simp
  qed
  then obtain out3 where out3: "adds out1 out3" "out' = finalize_all out3" by blast
  have display: "out_display out' = out_display out3 @ [CallFinalize, CallFlush]"
    and filed: "out_file out' = map_option (\<lambda>f. f @ [CallFinalize, CallFlush]) (out_file out3)"
    by (simp_all add: out3(2) finalize_all_def FlushStreams_def to_display_def to_file_def option.map_comp comp_def)
  obtain cs where cs: "out_display out3 = ?ctx # cs" "\<forall>c \<in> set cs. middle_call c"
    using out3(1) out1(1) by (auto simp: adds_def)
  have d: "session_calls (name_field_width fl bs) (out_display out')"
    unfolding session_calls_def display cs(1) using cs(2) by auto
  have f: "session_calls (name_field_width fl bs) f" if display_ok: "se_ctx_display env" and some: "out_file out' = Some f" for f
  proof -
    obtain f3 where f3: "out_file out3 = Some f3" "f = f3 @ [CallFinalize, CallFlush]" using filed some by (cases "out_file out3") auto
    then obtain cs where "f3 = ?ctx # cs" "\<forall>c \<in> set cs. middle_call c"
      using out3(1) out1(2) display_ok by (cases "file") (auto simp: adds_def split: option.splits)
    then show ?thesis unfolding session_calls_def f3(2) by auto
  qed
  have "out_file out' = None \<longleftrightarrow> file = None"
    using filed out3(1) out1(3) by (auto simp: adds_def split: option.splits)
  then show ?thesis using d f by blast
qed

text \<open>C12: Whenever \<open>RunBenchmarks\<close> returns, whatever the benchmarks did, the display reporter was first
  given the context, once, with the width of the name column, then only configurations, runs and
  flushes, and last \<open>Finalize\<close> and a flush, once; and so was the file reporter, unless the display
  reporter refused the context.\<close>

theorem RunBenchmarks_protocol:
  assumes "RunBenchmarks fuel env fl bs \<lparr>out_display = [], out_file = map_option (\<lambda>_. []) file\<rparr> mach = Some (Inr (out', mach', warnings))"
  shows "session_calls (name_field_width fl bs) (out_display out') \<and>
    (se_ctx_display env \<longrightarrow> (\<forall>f. out_file out' = Some f \<longrightarrow> session_calls (name_field_width fl bs) f)) \<and>
    (out_file out' = None \<longleftrightarrow> file = None)"
  using protocol[OF assms] .

section \<open>A session with the JSON reporter\<close>

text \<open>C13: The whole pipeline: when \<open>RunBenchmarks\<close> returns and its display reporter is the JSON reporter,
  the text on the output stream is one JSON document whose array \<open>benchmarks\<close> has exactly the
  reported runs, in the order in which they were reported, and whose \<open>context\<close> is the session's.  This holds for
  texts and numbers that JSON can hold: no text of the context or of a run has a control character other
  than the five \<open>StrEscape\<close> knows (\<open>clean_context\<close>, \<open>clean_run\<close>), no number of a run is infinite or NaN, the load averages
  are finite, and the frequency of the CPU in MHz can be rounded to an integer.\<close>

theorem RunBenchmarks_JSON_document:
  assumes "RunBenchmarks fuel env fl bs \<lparr>out_display = [], out_file = map_option (\<lambda>_. []) file\<rparr> mach = Some (Inr (out', mach', warnings))"
    and "clean_context context"
    and "RoundDouble (cpu_cycles_per_second (cx_cpu_info context) / Fin 1000000) = Inr mhz"
    and "\<forall>b \<in> set (batches (out_display out')). \<forall>r \<in> set b. clean_run r"
  shows "\<exists>js text. replay json_reporter context (out_display out') JSONReporter_new = Inr (js, text) \<and>
    json_document text (document_value context mhz (concat (batches (out_display out'))))"
proof -
  obtain middle where m: "out_display out' = CallContext (name_field_width fl bs) # middle @ [CallFinalize, CallFlush]"
    "\<forall>c \<in> set middle. middle_call c"
    using protocol[OF assms(1)] by (auto simp: session_calls_def)
  have b: "batches (out_display out') = batches middle" by (simp add: m(1))
  show ?thesis
    using json_session[OF assms(2,3) m(2)] assms(4) by (simp only: b) (simp add: m(1))
qed

text \<open>A session without benchmarks.\<close>

lemma empty_session:
  "RunBenchmarks 0 sample_env sample_flags [] \<lparr>out_display = [], out_file = map_option (\<lambda>_. []) None\<rparr> machine_init =
     Some (Inr (\<lparr>out_display = [CallContext (name_field_width sample_flags []), CallFlush, CallFinalize, CallFlush], out_file = None\<rparr>, machine_init, []))"
proof -
  have "fl_perf_counters sample_flags = []" "fl_enable_random_interleaving sample_flags"
    by (simp_all add: sample_flags_def default_flags_def StringFromEnv_def)
  then show ?thesis
    by (simp add: RunBenchmarks_def Let_def sample_env_def run_all_def repetition_indices_of_def enumerate_eq_zip
        to_display_def to_file_def FlushStreams_def finalize_all_def threads_warning_def StrSplit_def vector_max_size_def)
qed

theorem RunBenchmarks_protocol_witness:
  "session_calls (name_field_width sample_flags []) [CallContext (name_field_width sample_flags []), CallFlush, CallFinalize, CallFlush]"
  using RunBenchmarks_protocol[OF empty_session] by simp

subsection \<open>A session whose benchmark fails\<close>

text \<open>The function calls \<open>SkipWithError\<close> before its loop.\<close>

definition broken_harness :: harness where
  "broken_harness = stuck_clock_harness\<lparr>h_run := \<lambda>_. SkipWithError ''broken''\<rparr>"

lemma broken_well_behaved:
  assumes "1 \<le> iters" "iters \<le> cap" shows "well_behaved (SkipWithError ''broken'') iters cap"
  unfolding well_behaved_def
proof (intro allI impI)
  fix st w r
  assume a: "fresh st \<and> s_max_iterations st = iters \<and> s_complexity_n st = 0 \<and> world_ready False w \<and> w_results w = Some r"
  then obtain t where t: "w_timer w = Some t" "\<not> t_running t" by (auto simp: world_ready_def)
  let ?st = "st\<lparr>s_skipped := SkippedWithError, s_total_iterations := 0\<rparr>"
  let ?r = "if tr_skipped r = NotSkipped then r\<lparr>tr_skip_message := ''broken'', tr_skipped := SkippedWithError\<rparr> else r"
  have "SkipWithError ''broken'' st w = Inr (?st, w\<lparr>w_results := Some ?r\<rparr>)"
    using a t by (simp add: skip_calls skip_with_def the_results_def the_timer_def Let_def)
  then show "\<exists>st' w' r'. SkipWithError ''broken'' st w = Inr (st', w') \<and> s_max_iterations st' = iters \<and> world_ready False w' \<and>
        w_results w' = Some r' \<and> tr_iterations r' = tr_iterations r \<and> tr_complexity_n r' = tr_complexity_n r \<and>
        (skipped st' \<or> tr_skipped r \<noteq> NotSkipped \<longrightarrow> tr_skipped r' \<noteq> NotSkipped) \<and>
        0 \<le> iterations st' \<and> iterations st' \<le> cap \<and> 0 \<le> s_batch_leftover st' \<and>
        iters + s_batch_leftover st' \<le> cap \<and> \<bar>s_complexity_n st'\<bar> \<le> cap"
    using a t assms
    by (intro exI[of _ ?st] exI[of _ "w\<lparr>w_results := Some ?r\<rparr>"] exI[of _ ?r])
      (auto simp: world_ready_def fresh_def control_def iterations_def)
qed

lemma broken_good: "good_harness broken_harness sample_instance (Some [])"
proof -
  have t: "i_threads sample_instance = 1" by (simp add: sample_instance_def BenchmarkInstance_new_def)
  show ?thesis
    unfolding good_harness_def t
    by (auto simp: broken_harness_def stuck_clock_harness_def kMaxIterations_def int64_max_def
        intro!: exI[of _ kMaxIterations] broken_well_behaved)
qed

lemma sample_instance_simps:
  "i_threads sample_instance = 1" "i_setup sample_instance = None" "i_teardown sample_instance = None"
  "i_iterations sample_instance = 0" "i_repetitions sample_instance = 0" "i_complexity sample_instance = oNone" "i_min_time sample_instance = Fin 0" "i_min_warmup_time sample_instance = Fin 0"
  "BenchmarkName_str (i_name sample_instance) = ''BM_f''"
  by (simp_all add: sample_instance_def BenchmarkInstance_new_def Benchmark_new_def ComputeStatistics_def instance_name_def
      BenchmarkName_str_def join_spec name_parts_def IsZero_def time_type_name_def ArgsCnt_def)

lemma broken_iterate:
  assumes "br_b r = sample_instance" "br_perf r = Some []" "1 \<le> br_iters r"
  shows "\<exists>i m1. iterate_once broken_harness r m = Inr (i, m1) \<and> tr_skipped (it_results i) = SkippedWithError \<and>
    tr_skip_message (it_results i) = ''broken'' \<and> tr_report_label (it_results i) = [] \<and> tr_iterations (it_results i) = 0"
  using assms
  by (simp add: iterate_once_def Instance_Setup_def Instance_Teardown_def sample_instance_simps DoNIterations_def
      RunInThread_def Instance_Run_def State_new_def broken_harness_def stuck_clock_harness_def thread_world_def
      skip_calls skip_with_def the_results_def the_timer_def ThreadTimer_new_def ThreadResult_init_def skipped_def 
      merge_results_def cpu_time_used_def real_time_used_def manual_time_used_def iterations_def chk_int_def int_width_defs Let_def BM_CHECK_def)

lemma sample_session_flags:
  "ParseBenchMinTime (fl_min_time sample_flags) = Inr (ITERS 5)" "\<not> fl_dry_run sample_flags" "fl_repetitions sample_flags = 1"
  "fl_min_warmup_time sample_flags = Fin 0" "fl_perf_counters sample_flags = []" "fl_enable_random_interleaving sample_flags"
  by (simp_all add: sample_flags_def ParseBenchMinTime_def strtol_def split_sign_def is_space_def is_digit_def
      digit_value_def int_width_defs default_flags_def DoubleFromEnv_def StringFromEnv_def Int32FromEnv_def BoolFromEnv_def)

lemma broken_report_clean:
  assumes "benchmark_calls broken_harness sample_flags (ITERS 5) sample_instance m calls m'"
  shows "\<exists>rep. calls = [CallRunsConfig kDefaultMinTime True 5, CallRuns [rep], CallFlush] \<and> clean_run rep \<and>
    r_skip_message rep = ''broken'' \<and> r_run_name rep = i_name sample_instance"
proof -
  obtain r r' rep where c: "BenchmarkRunner_new sample_flags sample_instance (Some []) None = Inr r"
    "DoOneRepetition enough_turns broken_harness sample_flags r None m = Some (Inr (r', None, m'))"
    "rr_non_aggregates (br_run_results r') = [rep]" "r_run_name rep = i_name sample_instance"
    "calls = [CallRunsConfig (if fl_dry_run sample_flags then Fin 0 else ComputeMinTime sample_instance (ITERS 5))
      (i_iterations sample_instance \<noteq> 0 \<or> is_ITERS (ITERS 5)) (br_iters r'), CallRuns [rep], CallFlush]"
    using assms by (auto simp: benchmark_calls_def)
  have r: "br_b r = sample_instance" "br_perf r = Some []" "br_iters r = 5" "br_warmup_done r" "br_has_explicit_iteration_count r"
    "br_num_repetitions_done r = 0" "br_repeats r = 1" "rr_non_aggregates (br_run_results r) = []"
    using c(1) sample_session_flags
    by (auto simp: BenchmarkRunner_new_def rbind_eq_Inr Let_def sample_instance_simps check_perf_counters_def
        aggregates_flags_def is_ITERS_def ComputeIters_def IsZero_def split: if_splits)
  obtain i m1 where i: "iterate_once broken_harness r m = Inr (i, m1)" "tr_skipped (it_results i) = SkippedWithError"
    "tr_skip_message (it_results i) = ''broken''" "tr_report_label (it_results i) = []" "tr_iterations (it_results i) = 0"
    using broken_iterate[OF r(1,2), of m] r(3) by auto
  have h: "\<not> h_memory_manager broken_harness" "\<not> h_profiler_manager broken_harness"
    by (simp_all add: broken_harness_def stuck_clock_harness_def)
  have "measuring_loop enough_turns broken_harness (results_are_significant sample_flags True) r m = Some (Inr (i, r, m1))"
    unfolding enough_turns_Suc measuring_loop.simps(2) using i(1) r(5) by (simp add: results_are_significant_def)
  then have "DoOneRepetition enough_turns broken_harness sample_flags r None m = Some (Inr (add_report
      (CreateRunReport broken_harness sample_instance (it_results i) 0 MemoryResult_init (it_seconds i) 0 1) r, None, m1))"
    using r h by (simp add: DoOneRepetition_def HasRepeatsRemaining_def finish_repetition_def Let_def)
  then have r': "r' = add_report (CreateRunReport broken_harness sample_instance (it_results i) 0 MemoryResult_init
      (it_seconds i) 0 1) r" using c(2) by simp
  then have rep: "rep = CreateRunReport broken_harness sample_instance (it_results i) 0 MemoryResult_init (it_seconds i) 0 1"
    using c(3) r(8) by (simp add: add_report_def)
  have name: "BenchmarkName_str (r_run_name rep) = ''BM_f''" using c(4) sample_instance_simps(9) by simp
  have facts: "r_report_big_o rep = False" "r_report_rms rep = False" "r_run_type rep = RT_Iteration" "r_iterations rep = 0"
    "r_skipped rep = SkippedWithError" "r_skip_message rep = ''broken''" "r_counters rep = []" "r_report_label rep = []"
    "m_memory_iterations (r_memory_result rep) = 0" "r_time_unit rep = kNanosecond"
    "r_real_accumulated_time rep = Fin 0" "r_cpu_accumulated_time rep = Fin 0"
    unfolding rep using i by (simp_all add: CreateRunReport_def Let_def Run_init_def MemoryResult_init_def sample_instance_def
        BenchmarkInstance_new_def GetTimeUnit_def Benchmark_new_def ComputeStatistics_def)
  have "dfinite (GetAdjustedRealTime rep)" "dfinite (GetAdjustedCPUTime rep)"
    by (simp_all add: GetAdjustedRealTime_def GetAdjustedCPUTime_def facts dbl_simps)
  then have "clean_run rep"
    by (simp add: clean_run_def clean_members_append members_before_def members_times_def members_after_def facts name
        benchmark_name_def clean_members_simps clean_def clean_char_def)
  moreover have "br_iters r' = 5" using r' r(3) by (simp add: add_report_def)
  ultimately show ?thesis
    using c(4,5) facts(6) sample_session_flags by (simp add: ComputeMinTime_def sample_instance_simps is_ITERS_def IsZero_def)
qed

theorem RunBenchmarks_JSON_document_witness:
  "\<exists>out' mach' warnings rep js text. RunBenchmarks enough_turns (sample_env\<lparr>se_harness := broken_harness\<rparr>) sample_flags
      [sample_instance] \<lparr>out_display = [], out_file = None\<rparr> machine_init = Some (Inr (out', mach', warnings)) \<and>
    r_skip_message rep = ''broken'' \<and> replay json_reporter sample_context (out_display out') JSONReporter_new = Inr (js, text) \<and>
    json_document text (document_value sample_context 1 [rep])"
proof -
  let ?env = "sample_env\<lparr>se_harness := broken_harness\<rparr>"
  have u: "usable_flag (ITERS 5)" "usable_warmup (fl_min_warmup_time sample_flags)" "se_perf_open ?env [] = []"
    "length [sample_instance] \<le> vector_max_size" "\<And>xs. mset (se_shuffle ?env xs) = mset xs" "se_ctx_display ?env" "se_ctx_file ?env"
    by (simp_all add: usable_flag_def kMaxIterations_def usable_warmup_def sample_session_flags sample_env_def vector_max_size_def)
  have bs: "\<forall>b \<in> set [sample_instance]. usable_instance b \<and> single_repetition sample_flags b \<and>
      good_harness (se_harness ?env) b (Some [])"
    using broken_good by (simp add: usable_instance_def sample_instance_simps kMaxIterations_def IsZero_def usable_warmup_def
        single_repetition_def sample_session_flags)
  have order: "map (\<lambda>i. [sample_instance] ! i) (if fl_enable_random_interleaving sample_flags
      then se_shuffle ?env [0..<length [sample_instance]] else [0..<length [sample_instance]]) = [sample_instance]"
    by (simp add: sample_session_flags(6) sample_env_def)
  obtain cs mach' log where cs: "RunBenchmarks enough_turns ?env sample_flags [sample_instance]
      \<lparr>out_display = [], out_file = None\<rparr> machine_init =
      Some (Inr (\<lparr>out_display = cs, out_file = map_option (\<lambda>f. f @ cs) None\<rparr>, mach', log))"
    "\<exists>blocks. cs = [CallContext (name_field_width sample_flags [sample_instance]), CallFlush] @ concat blocks @ [CallFinalize, CallFlush] \<and>
       session_blocks (se_harness ?env) sample_flags (ITERS 5) [sample_instance] machine_init blocks mach'"
    using session_reports_all[OF sample_session_flags(1) u(1,2) sample_session_flags(5) u(3) bs u(4-7), of None machine_init,
        unfolded order] by (elim exE conjE) blast
  then obtain blocks where s: "RunBenchmarks enough_turns ?env sample_flags [sample_instance]
      \<lparr>out_display = [], out_file = None\<rparr> machine_init = Some (Inr (\<lparr>out_display = cs, out_file = None\<rparr>, mach', log))"
    "cs = [CallContext (name_field_width sample_flags [sample_instance]), CallFlush] @ concat blocks @ [CallFinalize, CallFlush]"
    "session_blocks broken_harness sample_flags (ITERS 5) [sample_instance] machine_init blocks mach'"
    by auto
  obtain rep where rep: "blocks = [[CallRunsConfig kDefaultMinTime True 5, CallRuns [rep], CallFlush]]" "clean_run rep"
    "r_skip_message rep = ''broken''"
  proof -
    obtain calls where "blocks = [calls]" "benchmark_calls broken_harness sample_flags (ITERS 5) sample_instance machine_init calls mach'"
      using s(3) by auto
    then show thesis using that broken_report_clean[of machine_init calls mach'] by blast
  qed
  have c: "clean_context sample_context"
    by (simp add: sample_context_def clean_context_def clean_def clean_char_def)
  have b: "batches cs = [[rep]]" unfolding s(2) rep(1) by simp
  have s1: "RunBenchmarks enough_turns ?env sample_flags [sample_instance] \<lparr>out_display = [], out_file = map_option (\<lambda>_. []) None\<rparr>
      machine_init = Some (Inr (\<lparr>out_display = cs, out_file = None\<rparr>, mach', log))" using s(1) by simp
  have "\<exists>js text. replay json_reporter sample_context cs JSONReporter_new = Inr (js, text) \<and>
      json_document text (document_value sample_context 1 [rep])"
    using RunBenchmarks_JSON_document[OF s1 c sample_mhz] b rep(2) by simp
  then show ?thesis using s(1) rep(3) by (metis outputs.select_convs(1))
qed

end
