(* ===== verification/CommandLine.thy ===== *)
theory CommandLine
  imports Sessions
begin

text \<open>
  What \<open>Initialize\<close> does to the command line and to the flags: properties of the theory \<open>Options\<close>.
\<close>

section \<open>Which arguments are taken\<close>

text \<open>An argument is taken or not whatever the flags are.\<close>

definition uniform :: "arg_parser \<Rightarrow> bool" where
  "uniform p \<longleftrightarrow> (\<forall>arg fl fl'. fst (p arg fl) = fst (p arg fl'))"

lemma key_value_loop_uniform: "fst (key_value_loop m xs) = fst (key_value_loop m' xs)"
  by (induction xs arbitrary: m m') (auto split: list.splits)

lemma uniform_flags [simp]:
  "uniform (bool_flag name put)" "uniform (string_flag name puts)" "uniform (int32_flag name put32)"
  "uniform (double_flag name putd)" "uniform (context_flag name)"
  by (auto simp: uniform_def bool_flag_def string_flag_def int32_flag_def double_flag_def context_flag_def
      ParseKeyValueFlag_def case_prod_unfold Let_def key_value_loop_uniform[of "fl_context _" _ "[]"] split: option.splits)

lemma parse_chain_uniform: "\<forall>p \<in> set ps. uniform p \<Longrightarrow> fst (parse_chain ps arg fl) = fst (parse_chain ps arg fl')"
proof (induction ps arbitrary: fl fl')
  case (Cons p ps)
  have "fst (p arg fl) = fst (p arg fl')" using Cons.prems by (simp add: uniform_def)
  moreover have "fst (parse_chain ps arg f) = fst (parse_chain ps arg f')" for f f' using Cons by simp
  moreover have "fst (parse_chain (p # ps) arg f) = (fst (p arg f) \<or> fst (parse_chain ps arg (snd (snd (p arg f)))))" for f
    by (cases "p arg f") (auto simp: case_prod_unfold split: bool.split)
  ultimately show ?case by metis
qed simp

text \<open>An argument as the documentation of the flags reads it: \<open>--name\<close> or \<open>--name=value\<close>.\<close>

definition split_arg :: "string \<Rightarrow> (string \<times> string option) option" where
  "split_arg arg =
     (if take 2 arg = ''--''
      then (let s = drop 2 arg; name = takeWhile (\<lambda>c. c \<noteq> CHR ''='') s
            in Some (name, if name = s then None else Some (drop (length name + 1) s)))
      else None)"

lemma split_arg_value:
  "CHR ''='' \<notin> set name \<Longrightarrow> split_arg (''--'' @ name @ ''='' @ v) = Some (name, Some v)"
  "CHR ''='' \<notin> set name \<Longrightarrow> split_arg (''--'' @ name) = Some (name, None)"
proof -
  assume n: "CHR ''='' \<notin> set name"
  then have "\<forall>c \<in> set name. c \<noteq> CHR ''=''" by auto
  then have "takeWhile (\<lambda>c. c \<noteq> CHR ''='') (name @ t) = name @ takeWhile (\<lambda>c. c \<noteq> CHR ''='') t" for t
    by (intro takeWhile_append2) blast
  from this[of "''='' @ v"] this[of "[]"] show "split_arg (''--'' @ name @ ''='' @ v) = Some (name, Some v)"
    "split_arg (''--'' @ name) = Some (name, None)"
    by (simp_all add: split_arg_def)
qed

lemma split_arg_Some:
  assumes "split_arg arg = Some (name, v)"
  shows "CHR ''='' \<notin> set name" "arg = ''--'' @ name @ (case v of None \<Rightarrow> [] | Some v \<Rightarrow> ''='' @ v)"
proof -
  define s where "s = drop 2 arg"
  define t where "t = dropWhile (\<lambda>c. c \<noteq> CHR ''='') s"
  have "take 2 arg = ''--''" using assms by (simp add: split_arg_def split: if_splits)
  then have arg: "arg = ''--'' @ s" using append_take_drop_id[of 2 arg] unfolding s_def by simp
  have name: "name = takeWhile (\<lambda>c. c \<noteq> CHR ''='') s" using assms by (simp add: split_arg_def arg Let_def)
  have v: "v = (if name = s then None else Some (drop (length name + 1) s))"
    using assms unfolding name by (simp add: split_arg_def arg Let_def)
  show "CHR ''='' \<notin> set name" unfolding name using set_takeWhileD[of "CHR ''=''" "\<lambda>c. c \<noteq> CHR ''=''" s] by blast
  have s: "s = name @ t" unfolding name t_def by simp
  show "arg = ''--'' @ name @ (case v of None \<Rightarrow> [] | Some v \<Rightarrow> ''='' @ v)"
  proof (cases t)
    case Nil
    then have "name = s" using s by simp
    then show ?thesis unfolding arg v by simp
  next
    case (Cons c u)
    have "c = CHR ''=''" using hd_dropWhile[of "\<lambda>c. c \<noteq> CHR ''=''" s] Cons unfolding t_def[symmetric] by simp
    then have su: "s = name @ CHR ''='' # u" using s Cons by simp
    then have "length name \<noteq> length s" by simp
    then have "name \<noteq> s" by blast
    then have "v = Some u" unfolding v by (simp add: su)
    then show ?thesis unfolding arg by (simp add: su)
  qed
qed

lemma ParseFlagValue_split:
  assumes "CHR ''='' \<notin> set flag"
  shows "ParseFlagValue (Some arg) (Some flag) optional =
    (case split_arg arg of None \<Rightarrow> None
     | Some (name, v) \<Rightarrow> if name \<noteq> flag then None else case v of Some v \<Rightarrow> Some v | None \<Rightarrow> if optional then Some [] else None)"
    (is "?parsed = ?spec")
proof -
  have "?parsed = Some w \<longleftrightarrow> ?spec = Some w" for w
  proof
    assume "?parsed = Some w"
    then show "?spec = Some w"
      unfolding ParseFlagValue_iff using split_arg_value(1)[OF assms, of w] split_arg_value(2)[OF assms] by auto
  next
    assume *: "?spec = Some w"
    then obtain v where "split_arg arg = Some (flag, v)" "w = (case v of None \<Rightarrow> [] | Some v \<Rightarrow> v)" "v = None \<longrightarrow> optional"
      by (auto split: option.splits if_splits)
    then show "?parsed = Some w"
      unfolding ParseFlagValue_iff using split_arg_Some[of arg flag v] by (cases v) auto
  qed
  then show ?thesis by (cases ?spec; cases ?parsed) auto
qed

text \<open>
  The flags of the library: what \<open>--name\<close> or \<open>--name=value\<close> sets, and whether it is taken.  A switch
  may do without a value; a number must be one; of \<open>--benchmark_context\<close> the pairs before the first malformed one
  are kept, and a key that is there already keeps its value.
\<close>

definition set_flag :: "string \<Rightarrow> string option \<Rightarrow> BenchFlags \<Rightarrow> bool \<times> BenchFlags" where
  "set_flag name value fl =
     (let switch = (\<lambda>put. (True, put (case value of None \<Rightarrow> True | Some v \<Rightarrow> IsTruthyFlagValue v)));
          string = (\<lambda>put. case value of None \<Rightarrow> (False, fl) | Some v \<Rightarrow> (True, put v));
          int32 = (\<lambda>put. case Option.bind value (\<lambda>v. fst (ParseInt32 [] v)) of None \<Rightarrow> (False, fl) | Some n \<Rightarrow> (True, put n));
          real = (\<lambda>put. case Option.bind value (\<lambda>v. fst (ParseDouble [] v)) of None \<Rightarrow> (False, fl) | Some x \<Rightarrow> (True, put x));
          pairs = map (\<lambda>p. StrSplit p (CHR ''='')) (case value of None \<Rightarrow> [] | Some v \<Rightarrow> StrSplit v (CHR '',''));
          good = (\<lambda>p. length p = 2)
      in if name = ''benchmark_list_tests'' then switch (\<lambda>v. fl\<lparr>fl_list_tests := v\<rparr>)
         else if name = ''benchmark_filter'' then string (\<lambda>v. fl\<lparr>fl_filter := v\<rparr>)
         else if name = ''benchmark_min_time'' then string (\<lambda>v. fl\<lparr>fl_min_time := v\<rparr>)
         else if name = ''benchmark_min_warmup_time'' then real (\<lambda>v. fl\<lparr>fl_min_warmup_time := v\<rparr>)
         else if name = ''benchmark_repetitions'' then int32 (\<lambda>v. fl\<lparr>fl_repetitions := v\<rparr>)
         else if name = ''benchmark_dry_run'' then switch (\<lambda>v. fl\<lparr>fl_dry_run := v\<rparr>)
         else if name = ''benchmark_enable_random_interleaving'' then switch (\<lambda>v. fl\<lparr>fl_enable_random_interleaving := v\<rparr>)
         else if name = ''benchmark_report_aggregates_only'' then switch (\<lambda>v. fl\<lparr>fl_report_aggregates_only := v\<rparr>)
         else if name = ''benchmark_display_aggregates_only'' then switch (\<lambda>v. fl\<lparr>fl_display_aggregates_only := v\<rparr>)
         else if name = ''benchmark_format'' then string (\<lambda>v. fl\<lparr>fl_format := v\<rparr>)
         else if name = ''benchmark_out'' then string (\<lambda>v. fl\<lparr>fl_out := v\<rparr>)
         else if name = ''benchmark_out_format'' then string (\<lambda>v. fl\<lparr>fl_out_format := v\<rparr>)
         else if name = ''benchmark_color'' then string (\<lambda>v. fl\<lparr>fl_color := v\<rparr>)
         else if name = ''benchmark_counters_tabular'' then switch (\<lambda>v. fl\<lparr>fl_counters_tabular := v\<rparr>)
         else if name = ''benchmark_perf_counters'' then string (\<lambda>v. fl\<lparr>fl_perf_counters := v\<rparr>)
         else if name = ''benchmark_context'' then
           (value \<noteq> None \<and> list_all good pairs, fl\<lparr>fl_context :=
              foldl (\<lambda>m p. fst (map_emplace (p ! 0) (p ! 1) m)) (fl_context fl) (takeWhile good pairs)\<rparr>)
         else if name = ''benchmark_time_unit'' then string (\<lambda>v. fl\<lparr>fl_time_unit := v\<rparr>)
         else if name = ''v'' then int32 (\<lambda>v. fl\<lparr>fl_v := v\<rparr>)
         else (False, fl))"

definition set_arg :: "string \<Rightarrow> BenchFlags \<Rightarrow> bool \<times> BenchFlags" where
  "set_arg arg fl = (case split_arg arg of None \<Rightarrow> (False, fl) | Some (name, v) \<Rightarrow> set_flag name v fl)"

text \<open>The text in front of an error does not matter for the value.\<close>

lemma parsed_source:
  "fst (ParseInt32 t v) = fst (ParseInt32 [] v)" "fst (ParseDouble t v) = fst (ParseDouble [] v)"
  by (simp_all add: ParseInt32_def ParseDouble_def case_prod_unfold Let_def)

lemma key_value_loop_pairs:
  "key_value_loop m ps = (list_all (\<lambda>p. length p = 2) (map (\<lambda>p. StrSplit p (CHR ''='')) ps),
     foldl (\<lambda>m p. fst (map_emplace (p ! 0) (p ! 1) m)) m
       (takeWhile (\<lambda>p. length p = 2) (map (\<lambda>p. StrSplit p (CHR ''='')) ps)))"
  by (induction ps arbitrary: m) (auto split: list.splits)

text \<open>One parser, for an argument of another name and for one of its own.\<close>

lemma other_name:
  assumes "map_option fst (split_arg arg) \<noteq> Some n" "CHR ''='' \<notin> set n"
  shows "bool_flag n put arg fl = (False, [], fl)" "string_flag n puts arg fl = (False, [], fl)"
    "int32_flag n put32 arg fl = (False, [], fl)" "double_flag n putd arg fl = (False, [], fl)"
    "context_flag n arg fl = (False, [], fl)"
proof -
  have "ParseFlagValue (Some arg) (Some n) optional = None" for optional
    using assms(1) by (auto simp: ParseFlagValue_split[OF assms(2)] split: option.split)
  then show "bool_flag n put arg fl = (False, [], fl)" "string_flag n puts arg fl = (False, [], fl)"
    "int32_flag n put32 arg fl = (False, [], fl)" "double_flag n putd arg fl = (False, [], fl)"
    "context_flag n arg fl = (False, [], fl)"
    by (simp_all add: bool_flag_def string_flag_def int32_flag_def double_flag_def context_flag_def
        ParseBoolFlag_def ParseStringFlag_def ParseInt32Flag_def ParseDoubleFlag_def ParseKeyValueFlag_def)
qed

definition outcome :: "bool \<times> string \<times> BenchFlags \<Rightarrow> bool \<times> BenchFlags" where
  "outcome r = (fst r, snd (snd r))"

lemma IsTruthy_empty: "IsTruthyFlagValue []"
  by (simp add: IsTruthyFlagValue_def)

lemma own_name:
  assumes "split_arg arg = Some (n, v)"
  shows "outcome (bool_flag n put arg fl) = (True, put (case v of None \<Rightarrow> True | Some v \<Rightarrow> IsTruthyFlagValue v) fl)"
    "outcome (string_flag n puts arg fl) = (case v of None \<Rightarrow> (False, fl) | Some v \<Rightarrow> (True, puts v fl))"
    "outcome (int32_flag n put32 arg fl) =
       (case Option.bind v (\<lambda>v. fst (ParseInt32 [] v)) of None \<Rightarrow> (False, fl) | Some n \<Rightarrow> (True, put32 n fl))"
    "outcome (double_flag n putd arg fl) =
       (case Option.bind v (\<lambda>v. fst (ParseDouble [] v)) of None \<Rightarrow> (False, fl) | Some n \<Rightarrow> (True, putd n fl))"
proof -
  note flag = ParseFlagValue_split[OF split_arg_Some(1)[OF assms]]
  show "outcome (bool_flag n put arg fl) = (True, put (case v of None \<Rightarrow> True | Some v \<Rightarrow> IsTruthyFlagValue v) fl)"
    "outcome (string_flag n puts arg fl) = (case v of None \<Rightarrow> (False, fl) | Some v \<Rightarrow> (True, puts v fl))"
    using assms by (auto simp: outcome_def bool_flag_def string_flag_def ParseBoolFlag_def ParseStringFlag_def flag
        IsTruthy_empty split: option.splits)
  have "fst (ParseInt32 (''The value of flag --'' @ n) w) = fst (ParseInt32 [] w)"
    "fst (ParseDouble (''The value of flag --'' @ n) w) = fst (ParseDouble [] w)" for w
    by (rule parsed_source)+
  then show "outcome (int32_flag n put32 arg fl) =
       (case Option.bind v (\<lambda>v. fst (ParseInt32 [] v)) of None \<Rightarrow> (False, fl) | Some n \<Rightarrow> (True, put32 n fl))"
    "outcome (double_flag n putd arg fl) =
       (case Option.bind v (\<lambda>v. fst (ParseDouble [] v)) of None \<Rightarrow> (False, fl) | Some n \<Rightarrow> (True, putd n fl))"
    using assms by (cases v; auto simp: outcome_def int32_flag_def double_flag_def ParseInt32Flag_def ParseDoubleFlag_def
        flag case_prod_unfold split: option.splits)+
qed

lemma own_context:
  assumes "split_arg arg = Some (''benchmark_context'', v)"
  shows "outcome (context_flag ''benchmark_context'' arg fl) = set_flag ''benchmark_context'' v fl"
  using assms by (cases v) (simp_all add: outcome_def context_flag_def ParseKeyValueFlag_def ParseFlagValue_split Let_def
      key_value_loop_pairs set_flag_def)

text \<open>The chain is the parser of the argument's name.\<close>

definition named_parsers :: "(string \<times> arg_parser) list" where
  "named_parsers = zip [''benchmark_list_tests'', ''benchmark_filter'', ''benchmark_min_time'', ''benchmark_min_warmup_time'',
     ''benchmark_repetitions'', ''benchmark_dry_run'', ''benchmark_enable_random_interleaving'',
     ''benchmark_report_aggregates_only'', ''benchmark_display_aggregates_only'', ''benchmark_format'', ''benchmark_out'',
     ''benchmark_out_format'', ''benchmark_color'', ''benchmark_counters_tabular'', ''benchmark_perf_counters'',
     ''benchmark_context'', ''benchmark_time_unit'', ''v''] arg_parsers"

lemma named_parsers_simps:
  "map snd named_parsers = arg_parsers" "distinct (map fst named_parsers)"
  "\<forall>n \<in> fst ` set named_parsers. CHR ''='' \<notin> set n"
  by (simp_all add: named_parsers_def arg_parsers_def)

definition ignores_others :: "string \<Rightarrow> arg_parser \<Rightarrow> bool" where
  "ignores_others n p \<longleftrightarrow> (\<forall>arg fl. map_option fst (split_arg arg) \<noteq> Some n \<longrightarrow> p arg fl = (False, [], fl))"

lemma named_parsers_ignore: "\<forall>(n, p) \<in> set named_parsers. ignores_others n p"
  by (simp add: named_parsers_def arg_parsers_def ignores_others_def other_name)

lemma chain_none:
  "\<forall>(n, p) \<in> set nps. ignores_others n p \<Longrightarrow> \<forall>n \<in> fst ` set nps. map_option fst (split_arg arg) \<noteq> Some n \<Longrightarrow>
     parse_chain (map snd nps) arg fl = (False, [], fl)"
  by (induction nps) (auto simp: ignores_others_def)

lemma chain_own:
  assumes "\<forall>(n, p) \<in> set nps. ignores_others n p" "distinct (map fst nps)" "(n, p) \<in> set nps"
    and "map_option fst (split_arg arg) = Some n"
  shows "outcome (parse_chain (map snd nps) arg fl) = outcome (p arg fl)"
  using assms(1-3)
proof (induction nps)
  case (Cons np nps)
  show ?case
  proof (cases "np = (n, p)")
    case True
    then have "\<forall>n' \<in> fst ` set nps. n' \<noteq> n" using Cons.prems(2) by auto
    then have "parse_chain (map snd nps) arg fl' = (False, [], fl')" for fl'
      using Cons.prems(1) assms(4) by (intro chain_none) auto
    then show ?thesis using True by (simp add: outcome_def case_prod_unfold split: bool.split)
  next
    case False
    then have in_rest: "(n, p) \<in> set nps" using Cons.prems(3) by simp
    then have "fst np \<noteq> n" using Cons.prems(2) by (auto simp: rev_image_eqI)
    then have "snd np arg fl = (False, [], fl)" using Cons.prems(1) assms(4) by (auto simp: ignores_others_def)
    then show ?thesis using Cons.IH Cons.prems in_rest by (simp add: outcome_def case_prod_unfold)
  qed
qed simp

lemma parse_arg_own:
  assumes "(n, p) \<in> set named_parsers" "split_arg arg = Some (n, v)"
  shows "outcome (parse_arg arg fl) = outcome (p arg fl)"
  using chain_own[OF named_parsers_ignore named_parsers_simps(2) assms(1)] assms(2)
  by (simp add: parse_arg_def named_parsers_simps(1))

text \<open>The parsers read an argument as documented.\<close>

lemma parse_arg_set: "outcome (parse_arg arg fl) = set_arg arg fl"
proof (cases "split_arg arg")
  case None
  then show ?thesis using chain_none[OF named_parsers_ignore, of arg fl] named_parsers_simps(1)
    by (simp add: parse_arg_def outcome_def set_arg_def)
next
  case (Some nv)
  obtain n v where nv: "nv = (n, v)" by force
  show ?thesis
  proof (cases "n \<in> fst ` set named_parsers")
    case False
    then have "\<forall>n' \<in> fst ` set named_parsers. map_option fst (split_arg arg) \<noteq> Some n'" using Some nv by auto
    then have "outcome (parse_arg arg fl) = (False, fl)"
      using chain_none[OF named_parsers_ignore] unfolding named_parsers_simps(1) by (simp add: parse_arg_def outcome_def)
    moreover have "set_flag n v fl = (False, fl)" using False by (simp add: named_parsers_def arg_parsers_def set_flag_def Let_def)
    ultimately show ?thesis using Some nv by (simp add: set_arg_def)
  next
    case True
    have h: "split_arg arg = Some (n, v)" using Some nv by simp
    from True obtain p where p: "(n, p) \<in> set named_parsers" by auto
    have "outcome (p arg fl) = set_flag n v fl"
      using p h unfolding named_parsers_def arg_parsers_def
      by (simp only: zip_Cons_Cons list.set insert_iff prod.inject zip_Nil empty_iff)
        (elim disjE conjE; simp add: own_name own_context set_flag_def Let_def)
    then show ?thesis using parse_arg_own[OF p h] Some nv by (simp add: set_arg_def)
  qed
qed

definition recognised :: "string \<Rightarrow> bool" where
  "recognised arg = fst (set_arg arg (default_flags (\<lambda>_. None)))"

lemma parse_arg_recognised: "fst (parse_arg arg fl) = recognised arg"
proof -
  have "fst (parse_arg arg fl) = fst (parse_arg arg (default_flags (\<lambda>_. None)))"
    unfolding parse_arg_def by (rule parse_chain_uniform) (simp add: arg_parsers_def)
  then show ?thesis
    unfolding recognised_def using parse_arg_set[of arg "default_flags (\<lambda>_. None)"]
    by (metis fst_conv outcome_def)
qed

lemma parse_arg_flags: "snd (snd (parse_arg arg fl)) = snd (set_arg arg fl)"
  using parse_arg_set[of arg fl] by (metis snd_conv outcome_def)

section \<open>What flags can hold\<close>

definition flags_ok :: "BenchFlags \<Rightarrow> bool" where
  "flags_ok fl \<longleftrightarrow> in_i32 (fl_repetitions fl) \<and> in_i32 (fl_v fl) \<and> map_invar (fl_context fl)"

lemma ParseInt32_range: "fst (ParseInt32 t str) = Some x \<Longrightarrow> in_i32 x"
  using cast_int32 by (fastforce simp: ParseInt32_def Let_def split: prod.splits if_splits)

lemma map_invar_emplace: "map_invar m \<Longrightarrow> map_invar (fst (map_emplace k v m))"
  by (simp add: map_emplace_def map_invar_put)

lemma key_value_loop_invar: "map_invar m \<Longrightarrow> map_invar (snd (key_value_loop m xs))"
proof (induction xs arbitrary: m)
  case (Cons kvpair rest)
  have "map_invar (snd (key_value_loop (fst (map_emplace k v m)) rest))" for k v
    using Cons.IH[OF map_invar_emplace[OF Cons.prems]] .
  then show ?case using Cons.prems by (auto split: list.splits)
qed simp

lemma kv_pairs_loop_invar: "map_invar m \<Longrightarrow> fst (kv_pairs_loop src str m xs) = Some m' \<Longrightarrow> map_invar m'"
proof (induction xs arbitrary: m)
  case (Cons kvpair rest)
  have "map_invar kvs'" if "map_emplace k v m = (kvs', i)" for k v kvs' i
    using map_invar_emplace[OF Cons.prems(1), of k v] that by simp
  then show ?case using Cons.IH Cons.prems by (simp add: Let_def split: list.splits prod.splits if_splits) blast
qed simp

lemma default_flags_ok: "flags_ok (default_flags getenv)"
proof -
  have "in_i32 (Int32FromEnv getenv f d)" if "in_i32 d" for f d
    using that ParseInt32_range by (auto simp: Int32FromEnv_def split: option.splits)
  moreover have "in_i32 0" "in_i32 1" by (simp_all add: int_width_defs)
  moreover have "map_invar (KvPairsFromEnv getenv f [])" for f
    using kv_pairs_loop_invar[of "[]"] by (auto simp: KvPairsFromEnv_def ParseKvPairs_def split: option.splits)
  ultimately show ?thesis by (simp add: flags_ok_def default_flags_def)
qed

definition keeps_ok :: "arg_parser \<Rightarrow> bool" where
  "keeps_ok p \<longleftrightarrow> (\<forall>arg fl. flags_ok fl \<longrightarrow> flags_ok (snd (snd (p arg fl))))"

lemma keeps_ok_flags:
  "(\<And>v fl. flags_ok fl \<Longrightarrow> flags_ok (put v fl)) \<Longrightarrow> keeps_ok (bool_flag name put)"
  "(\<And>v fl. flags_ok fl \<Longrightarrow> flags_ok (puts v fl)) \<Longrightarrow> keeps_ok (string_flag name puts)"
  "(\<And>v fl. flags_ok fl \<Longrightarrow> flags_ok (putd v fl)) \<Longrightarrow> keeps_ok (double_flag name putd)"
  "(\<And>v fl. flags_ok fl \<Longrightarrow> in_i32 v \<Longrightarrow> flags_ok (put32 v fl)) \<Longrightarrow> keeps_ok (int32_flag name put32)"
  "keeps_ok (context_flag name)"
proof -
  show "(\<And>v fl. flags_ok fl \<Longrightarrow> in_i32 v \<Longrightarrow> flags_ok (put32 v fl)) \<Longrightarrow> keeps_ok (int32_flag name put32)"
    using ParseInt32_range
    by (auto simp: keeps_ok_def int32_flag_def ParseInt32Flag_def split: option.splits prod.splits)
      (metis fst_conv)+
  show "keeps_ok (context_flag name)"
    using key_value_loop_invar
    by (auto simp: keeps_ok_def context_flag_def ParseKeyValueFlag_def flags_ok_def case_prod_unfold Let_def split: option.splits)
qed (auto simp: keeps_ok_def bool_flag_def string_flag_def double_flag_def split: option.splits prod.splits)

lemma parse_chain_ok: "\<forall>p \<in> set ps. keeps_ok p \<Longrightarrow> flags_ok fl \<Longrightarrow> flags_ok (snd (snd (parse_chain ps arg fl)))"
proof (induction ps arbitrary: fl)
  case (Cons p ps)
  then have "flags_ok (snd (snd (p arg fl)))" by (simp add: keeps_ok_def)
  then show ?case using Cons by (auto simp: case_prod_unfold split: prod.splits bool.splits) fastforce+
qed simp

lemma parse_arg_ok: "flags_ok fl \<Longrightarrow> flags_ok (snd (snd (parse_arg arg fl)))"
  unfolding parse_arg_def arg_parsers_def
  by (rule parse_chain_ok) (auto intro!: keeps_ok_flags simp: flags_ok_def)

text \<open>The loop over \<open>argv\<close> takes exactly the recognised arguments and keeps the others in order.\<close>

lemma parse_args_result:
  assumes "flags_ok fl"
  shows "case parse_args argv fl of
      Inl e \<Rightarrow> e = ExitWith 0 \<and> (\<exists>arg \<in> set argv. \<not> recognised arg \<and> IsFlag arg ''help'')
    | Inr (kept, fl', e) \<Rightarrow> kept = filter (\<lambda>arg. \<not> recognised arg) argv \<and> flags_ok fl' \<and>
        (\<forall>arg \<in> set kept. \<not> IsFlag arg ''help'')"
  using assms
proof (induction argv arbitrary: fl)
  case (Cons arg argv)
  obtain ok e fl' where p: "parse_arg arg fl = (ok, e, fl')" by (cases "parse_arg arg fl") auto
  have "ok = recognised arg" using parse_arg_recognised[of arg fl] p by simp
  moreover have "flags_ok fl'" using parse_arg_ok[OF Cons.prems, of arg] p by simp
  ultimately show ?case using p Cons.IH[of fl']
    by (cases "parse_args argv fl'") (auto simp: case_prod_unfold split: prod.splits)
qed simp

lemma parse_args_set:
  "if \<forall>arg \<in> set args. recognised arg \<or> \<not> IsFlag arg ''help''
   then \<exists>e. parse_args args fl = Inr (filter (\<lambda>arg. \<not> recognised arg) args, foldl (\<lambda>fl arg. snd (set_arg arg fl)) fl args, e)
   else parse_args args fl = Inl (ExitWith 0)"
proof (induction args arbitrary: fl)
  case (Cons arg args)
  obtain ok e fl' where p: "parse_arg arg fl = (ok, e, fl')" by (cases "parse_arg arg fl") auto
  have "ok = recognised arg" using parse_arg_recognised[of arg fl] p by simp
  moreover have "fl' = snd (set_arg arg fl)" using parse_arg_flags[of arg fl] p by simp
  ultimately show ?case using p Cons.IH[of fl'] by (auto split: if_splits)
qed simp

lemma IsFlag_split: "CHR ''='' \<notin> set name \<Longrightarrow> IsFlag arg name \<longleftrightarrow> map_option fst (split_arg arg) = Some name"
  by (auto simp: IsFlag_def ParseFlagValue_split split: option.splits if_splits)

section \<open>Initialize\<close>

text \<open>The time unit that the flag asks for.\<close>

definition unit_of_flag :: "string \<Rightarrow> TimeUnit \<Rightarrow> TimeUnit" where
  "unit_of_flag s before =
     (if s = [] then before else the (find (\<lambda>u. GetTimeUnitString u = s) [kNanosecond, kMicrosecond, kMillisecond, kSecond]))"

lemma SetDefaultTimeUnitFromFlag_effect:
  "case SetDefaultTimeUnitFromFlag s g of Inl e \<Rightarrow> e = ExitWith 0
   | Inr g' \<Rightarrow> g' = g\<lparr>g_default_time_unit := unit_of_flag s (g_default_time_unit g)\<rparr>"
  by (auto simp: SetDefaultTimeUnitFromFlag_def SetDefaultTimeUnit_def unit_of_flag_def)

lemma SetDefaultTimeUnitFromFlag_cases:
  "SetDefaultTimeUnitFromFlag s g = (if s \<in> {[], ''ns'', ''us'', ''ms'', ''s''}
     then Inr (g\<lparr>g_default_time_unit := unit_of_flag s (g_default_time_unit g)\<rparr>) else Inl (ExitWith 0))"
  by (auto simp: SetDefaultTimeUnitFromFlag_def SetDefaultTimeUnit_def unit_of_flag_def)

lemma AddCustomContext_frame:
  "g_flags (AddCustomContext k v g) = g_flags g" "g_executable_name (AddCustomContext k v g) = g_executable_name g"
  "g_default_time_unit (AddCustomContext k v g) = g_default_time_unit g"
  by (simp_all add: AddCustomContext_def Let_def)

definition custom_context :: "Globals \<Rightarrow> string \<rightharpoonup> string" where
  "custom_context g = (case g_context g of None \<Rightarrow> Map.empty | Some m \<Rightarrow> map_of m)"

lemma AddCustomContext_keeps: "custom_context (AddCustomContext k v g) = [k \<mapsto> v] ++ custom_context g"
proof -
  have "map_of (fst (map_emplace k v m)) = [k \<mapsto> v] ++ map_of m" for m :: kv_map
    by (auto simp: map_emplace_def map_of_map_put map_add_def fun_eq_iff split: option.split)
  then show ?thesis by (simp add: AddCustomContext_def Let_def custom_context_def split: option.split)
qed

lemma add_context_loop:
  "g_flags (foldl (\<lambda>g kv. AddCustomContext (fst kv) (snd kv) g) g kvs) = g_flags g"
  "g_executable_name (foldl (\<lambda>g kv. AddCustomContext (fst kv) (snd kv) g) g kvs) = g_executable_name g"
  "g_default_time_unit (foldl (\<lambda>g kv. AddCustomContext (fst kv) (snd kv) g) g kvs) = g_default_time_unit g"
  "custom_context (foldl (\<lambda>g kv. AddCustomContext (fst kv) (snd kv) g) g kvs) = map_of kvs ++ custom_context g"
proof (induction kvs arbitrary: g)
  case (Cons kv kvs)
  {
    case 4
    have "map_of kvs ++ ([fst kv \<mapsto> snd kv] ++ custom_context g) = map_of (kv # kvs) ++ custom_context g"
      unfolding map_add_assoc by (rule ext) (auto simp: map_add_def split: option.splits)
    then show ?case using Cons.IH(4) by (simp add: AddCustomContext_keeps fun_upd_def)
  }
qed (simp_all add: AddCustomContext_frame)

lemma CreateReporter_valid: "valid_format name \<Longrightarrow> \<exists>r. CreateReporter name oo = Inr r"
  by (auto simp: valid_format_def CreateReporter_def)

text \<open>C25: What \<open>Initialize\<close> does, for every command line.  The flags are those before, with every argument set in
  order as \<open>set_flag\<close> lists them (which name sets which flag to what); \<open>recognised\<close> are the arguments it takes.  It
  succeeds exactly when none of the others asks for help, both formats are known, the time unit is one of the
  four or empty, and the color is not empty; otherwise it exits with status 0.  When it succeeds only
  the arguments remain that no flag takes, in order; the program name, the log level and the default time unit are
  set; of the custom context every entry there is is kept, then comes \<open>dry_run\<close> if that flag is set, then the
  pairs of the context flag; and both the default display reporter and the file reporter can be created.
  (The messages it prints are left open.)\<close>

theorem Initialize_effect:
  assumes "flags_ok (g_flags g)"
  shows "let fl = foldl (\<lambda>fl arg. snd (set_arg arg fl)) (g_flags g) args in
    if (\<forall>arg \<in> set args. recognised arg \<or> map_option fst (split_arg arg) \<noteq> Some ''help'') \<and>
       {fl_format fl, fl_out_format fl} \<subseteq> {''console'', ''json'', ''csv''} \<and>
       fl_time_unit fl \<in> {[], ''ns'', ''us'', ''ms'', ''s''} \<and> fl_color fl \<noteq> []
    then \<exists>errors g'. Initialize (Some (prog # args)) g = Inr (Some (prog # filter (\<lambda>arg. \<not> recognised arg) args), errors, g') \<and>
      g_flags g' = fl \<and> flags_ok fl \<and> g_executable_name g' = prog \<and> g_log_level g' = fl_v fl \<and>
      g_default_time_unit g' = unit_of_flag (fl_time_unit fl) (g_default_time_unit g) \<and>
      custom_context g' = map_of (fl_context fl) ++ (if fl_dry_run fl then [''dry_run'' \<mapsto> ''true''] else Map.empty) ++
        custom_context g \<and>
      (\<exists>r. CreateDefaultDisplayReporter tty fl = Inr r) \<and> (\<exists>r. CreateReporter (fl_out_format fl) oo = Inr r)
    else Initialize (Some (prog # args)) g = Inl (ExitWith 0)"
proof -
  define fl where "fl = foldl (\<lambda>fl arg. snd (set_arg arg fl)) (g_flags g) args"
  define g1 where "g1 = g\<lparr>g_executable_name := prog, g_flags := fl\<rparr>"
  have asks: "IsFlag arg ''help'' \<longleftrightarrow> map_option fst (split_arg arg) = Some ''help''" for arg by (simp add: IsFlag_split)
  note parsed = parse_args_set[of args "g_flags g", folded fl_def, unfolded asks]
  show ?thesis
  proof (cases "\<forall>arg \<in> set args. recognised arg \<or> map_option fst (split_arg arg) \<noteq> Some ''help''")
    case False
    then have "parse_args args (g_flags g) = Inl (ExitWith 0)" using parsed by simp
    then have "Initialize (Some (prog # args)) g = Inl (ExitWith 0)"
      by (simp add: Initialize_def ParseCommandLineFlags_def)
    then show ?thesis using False by (simp add: Let_def)
  next
    case taken: True
    then obtain e where e: "parse_args args (g_flags g) = Inr (filter (\<lambda>arg. \<not> recognised arg) args, fl, e)"
      using parsed by auto
    have ok: "flags_ok fl" using parse_args_result[OF assms, of args] e by simp
    define g3 where "g3 = foldl (\<lambda>g kv. AddCustomContext (fst kv) (snd kv) g)
      ((if fl_dry_run fl then AddCustomContext ''dry_run'' ''true'' else (\<lambda>g. g))
        (g1\<lparr>g_default_time_unit := unit_of_flag (fl_time_unit fl) (g_default_time_unit g)\<rparr>)) (fl_context fl)"
    have "Initialize (Some (prog # args)) g =
        (if {fl_format fl, fl_out_format fl} \<subseteq> {''console'', ''json'', ''csv''} \<and>
           fl_time_unit fl \<in> {[], ''ns'', ''us'', ''ms'', ''s''} \<and> fl_color fl \<noteq> []
         then Inr (Some (prog # filter (\<lambda>arg. \<not> recognised arg) args), e, g3\<lparr>g_log_level := fl_v (g_flags g3)\<rparr>)
         else Inl (ExitWith 0))"
      using e by (simp add: Initialize_def ParseCommandLineFlags_def valid_format_def SetDefaultTimeUnitFromFlag_cases
          Let_def g3_def g1_def)
    moreover have "g_flags g3 = fl" "g_executable_name g3 = prog"
      "g_default_time_unit g3 = unit_of_flag (fl_time_unit fl) (g_default_time_unit g)"
      "custom_context g3 = map_of (fl_context fl) ++ (if fl_dry_run fl then [''dry_run'' \<mapsto> ''true''] else Map.empty) ++
        custom_context g"
      by (simp_all add: g3_def add_context_loop AddCustomContext_frame AddCustomContext_keeps g1_def)
        (simp_all add: custom_context_def)
    ultimately show ?thesis
      using taken ok CreateReporter_valid[of "fl_format fl"] CreateReporter_valid[of "fl_out_format fl"]
      unfolding fl_def[symmetric]
      by (simp add: Let_def valid_format_def CreateDefaultDisplayReporter_def custom_context_def)
  qed
qed

definition sample_globals :: Globals where
  "sample_globals = \<lparr>g_flags = default_flags (\<lambda>_. None), g_default_time_unit = kNanosecond, g_context = None,
     g_executable_name = [], g_log_level = 0\<rparr>"

theorem Initialize_effect_witness:
  "\<exists>errors g'. Initialize (Some (''bench'' # [''--benchmark_repetitions=3'', ''x'', ''--benchmark_dry_run''])) sample_globals =
      Inr (Some [''bench'', ''x''], errors, g') \<and>
    fl_repetitions (g_flags g') = 3 \<and> custom_context g' = [''dry_run'' \<mapsto> ''true'']"
proof -
  have ok: "flags_ok (g_flags sample_globals)" by (simp add: sample_globals_def default_flags_ok)
  have args: "set_arg ''--benchmark_repetitions=3'' fl = (True, fl\<lparr>fl_repetitions := 3\<rparr>)" "set_arg ''x'' fl = (False, fl)"
    "set_arg ''--benchmark_dry_run'' fl = (True, fl\<lparr>fl_dry_run := True\<rparr>)" for fl
    by (simp_all add: set_arg_def split_arg_def set_flag_def Let_def ParseInt32_def strtol_def split_sign_def is_space_def
        is_digit_def digit_value_def int_width_defs)
  have names: "split_arg ''x'' = None" by (simp add: split_arg_def)
  from Initialize_effect[OF ok, of "[''--benchmark_repetitions=3'', ''x'', ''--benchmark_dry_run'']" "''bench''"] show ?thesis
    by (fastforce simp: args names recognised_def Let_def sample_globals_def default_flags_def StringFromEnv_def KvPairsFromEnv_def
        custom_context_def)
qed

section \<open>The minimum time flag\<close>

lemma strtol_show_int_saturates:
  assumes "\<not> in_i64 n" "t = [] \<or> \<not> is_digit (hd t)"
  shows "\<exists>v. strtol (show_int n @ t) = (v, t, True)"
proof (cases "n < 0")
  case True
  obtain c s where s: "show_nat (nat (- n)) = c # s" "is_digit c" by (rule show_nat_Cons)
  have "read_digits 0 (c # s @ t) = (nat (- n), t)"
    using read_digits_show_nat[OF assms(2), of "nat (- n)"] s by simp
  with True s assms(1) show ?thesis
    by (simp add: strtol_def show_int_def is_space_def split_sign_def int_width_defs del: read_digits.simps)
next
  case False
  obtain c s where s: "show_nat (nat n) = c # s" "is_digit c" by (rule show_nat_Cons)
  have r: "read_digits 0 (c # s @ t) = (nat n, t)"
    using read_digits_show_nat[OF assms(2), of "nat n"] s by simp
  have "c \<noteq> CHR ''-''" "c \<noteq> CHR ''+''" using s(2) by (auto simp: is_digit_def)
  with False r s assms(1) digit_not_space[OF s(2)] show ?thesis
    by (simp add: strtol_def show_int_def split_sign_def int_width_defs del: read_digits.simps)
qed

text \<open>\<open>--benchmark_min_time=<n>x\<close> asks for exactly \<open>n\<close> iterations when \<open>n\<close> is a 64-bit integer, and fails
  the check otherwise.  Only the character where the number ends is looked at, so whatever stands
  between a first and a last \<open>x\<close> is ignored.\<close>

theorem ParseBenchMinTime_iterations:
  "ParseBenchMinTime (show_int n @ ''x'') =
     (if in_i64 n then Inr (ITERS n) else Inl (CheckFailed (malformed_iters (show_int n @ ''x'')))) \<and>
   ParseBenchMinTime (show_int n @ ''x'' @ ignored @ ''x'') =
     (if in_i64 n then Inr (ITERS n) else Inl (CheckFailed (malformed_iters (show_int n @ ''x'' @ ignored @ ''x''))))"
proof -
  have x: "\<not> is_digit CHR ''x''" by (simp add: is_digit_def)
  have "ParseBenchMinTime (show_int n @ CHR ''x'' # t) =
      (if in_i64 n then Inr (ITERS n) else Inl (CheckFailed (malformed_iters (show_int n @ CHR ''x'' # t))))"
    if "last (CHR ''x'' # t) = CHR ''x''" for t
    using strtol_show_int[of n "CHR ''x'' # t"] strtol_show_int_saturates[of n "CHR ''x'' # t"] x that
    by (auto simp: ParseBenchMinTime_def)
  from this[of "[]"] this[of "ignored @ ''x''"] show ?thesis by simp
qed

section \<open>A negative number of repetitions\<close>

text \<open>The number of repetitions is not checked: a negative \<open>--benchmark_repetitions\<close> is converted to
  an enormous unsigned number of repetition indices, and \<open>RunBenchmarks\<close> throws \<open>std::length_error\<close>
  before anything has run.\<close>

theorem negative_repetitions_throw:
  assumes "fl_repetitions fl < 0" "in_i32 (fl_repetitions fl)" "\<not> fl_dry_run fl"
    and "i_repetitions b = 0" "i_complexity b = oNone"
    and "BenchmarkRunner_new fl b (Some (se_perf_open env (StrSplit (fl_perf_counters fl) CHR '',''))) None = Inr r"
    and "se_ctx_display env" "se_ctx_file env"
  shows "RunBenchmarks fuel env fl [b] out mach = Some (Inl (Threw ''std::length_error: vector::reserve''))"
proof -
  have r: "br_repeats r = fl_repetitions fl"
    using assms(3,4,6) by (cases "aggregates_flags fl b") (auto simp: BenchmarkRunner_new_def rbind_eq_Inr Let_def)
  have "fl_repetitions fl mod 2 ^ 64 = (fl_repetitions fl + 2 ^ 64) mod 2 ^ 64" by simp
  also have "\<dots> = fl_repetitions fl + 2 ^ 64"
    using assms(1,2) by (intro mod_pos_pos_trivial) (simp_all add: int_width_defs)
  finally have "fl_repetitions fl mod 2 ^ 64 = fl_repetitions fl + 2 ^ 64" .
  then have "int vector_max_size < fl_repetitions fl mod 2 ^ 64"
    using assms(2) by (simp add: int_width_defs vector_max_size_def)
  then have "vector_max_size < nat (fl_repetitions fl mod 2 ^ 64)" by simp
  then have "repetition_indices_of (nat (fl_repetitions fl mod 2 ^ 64)) [r] = Inl (Threw ''std::length_error: vector::reserve'')"
    by (simp add: repetition_indices_of_def)
  then show ?thesis
    using assms(5-8) r by (simp add: RunBenchmarks_def run_all_def add_runner_def Let_def)
qed

theorem negative_repetitions_throw_witness:
  "RunBenchmarks 0 sample_env (sample_flags\<lparr>fl_repetitions := -1\<rparr>) [sample_instance] \<lparr>out_display = [], out_file = None\<rparr> machine_init =
     Some (Inl (Threw ''std::length_error: vector::reserve''))"
proof -
  let ?fl = "sample_flags\<lparr>fl_repetitions := -1\<rparr>"
  have fl: "ParseBenchMinTime (fl_min_time ?fl) = Inr (ITERS 5)" "usable_flag (ITERS 5)"
    by (simp_all add: sample_flags_def ParseBenchMinTime_def strtol_def split_sign_def is_space_def is_digit_def
        digit_value_def int_width_defs usable_flag_def kMaxIterations_def)
  have w: "usable_warmup (fl_min_warmup_time ?fl)" "fl_perf_counters ?fl = []" "\<not> fl_dry_run ?fl" "in_i32 (-1)"
    by (simp_all add: sample_flags_def default_flags_def usable_warmup_def DoubleFromEnv_def StringFromEnv_def
        BoolFromEnv_def int_width_defs)
  have b: "usable_instance sample_instance" "i_complexity sample_instance = oNone" "i_repetitions sample_instance = 0"
    by (simp_all add: usable_instance_def sample_instance_def BenchmarkInstance_new_def Benchmark_new_def
        ComputeStatistics_def kMaxIterations_def IsZero_def usable_warmup_def)
  obtain r where "BenchmarkRunner_new ?fl sample_instance (Some []) None = Inr r"
    using BenchmarkRunner_new_ok[OF fl w(1) b(1) w(2), of None] by blast
  then show ?thesis
    using negative_repetitions_throw[of ?fl sample_instance sample_env r] w b by (simp add: sample_env_def)
qed

end
