(* ===== verification/SystemMonitor.thy ===== *)
theory SystemMonitor
  imports Csv Runtime
begin

text \<open>
  The monitor of the machine: src/benchmark_monitor_C/system_monitor.cpp and system_monitor.h.

  The machine is a parameter: a \<open>machine_state\<close> holds what the files, the directories and \<open>sysconf\<close>
  show at one moment.  A \<open>uint64_t\<close> is a \<open>64 word\<close>.
\<close>

section \<open>Conversions that throw\<close>

text \<open>\<open>std::stoull\<close>, \<open>std::stoll\<close>, \<open>std::stod\<close>: text after the number is ignored.  \<open>strtoull\<close> negates modulo 2^64.\<close>

definition stoull :: "string \<Rightarrow> 64 word res" where
  "stoull s = (let (neg, t) = split_sign (dropWhile is_space s) in
     case t of
       c # _ \<Rightarrow>
         if is_digit c then
           (let (n, rest) = read_digits 0 t
            in if n \<ge> 2 ^ 64 then Inl (Threw ''std::out_of_range: stoull'')
               else Inr (if neg then - of_nat n else of_nat n))
         else Inl (Threw ''std::invalid_argument: stoull'')
     | [] \<Rightarrow> Inl (Threw ''std::invalid_argument: stoull''))"

definition stoll :: "string \<Rightarrow> int res" where
  "stoll s = (let (v, rest, range_error) = strtol s in
     if rest = s then Inl (Threw ''std::invalid_argument: stoll'')
     else if range_error then Inl (Threw ''std::out_of_range: stoll'')
     else Inr v)"

definition stod :: "string \<Rightarrow> double res" where
  "stod s = (let (v, rest, range_error) = strtod s in
     if rest = s then Inl (Threw ''std::invalid_argument: stod'')
     else if range_error then Inl (Threw ''std::out_of_range: stod'')
     else Inr v)"

section \<open>Reading the machine\<close>

record machine_state =
  ms_file :: "string \<Rightarrow> string option"
  ms_directory :: "string \<Rightarrow> string list option"
  ms_exists :: "string \<Rightarrow> bool"
  ms_which_perf :: bool
  ms_processors_online :: int
  ms_timestamp :: string

record SystemMonitor =
  sm_rapl_path :: string
  sm_rapl_available :: bool
  sm_perf_available :: bool

definition SystemMonitor_new :: "machine_state \<Rightarrow> SystemMonitor" where
  "SystemMonitor_new ms = \<lparr>sm_rapl_path = ''/sys/class/powercap/intel-rapl'',
     sm_rapl_available = ms_exists ms ''/sys/class/powercap/intel-rapl'', sm_perf_available = ms_which_perf ms\<rparr>"

definition readSysFile :: "machine_state \<Rightarrow> string \<Rightarrow> string" where
  "readSysFile ms path = (case ms_file ms path of None \<Rightarrow> [] | Some content \<Rightarrow> takeWhile (\<lambda>c. c \<noteq> CHR ''\<newline>'') content)"

definition readSysFileUInt64 :: "machine_state \<Rightarrow> string \<Rightarrow> 64 word" where
  "readSysFileUInt64 ms path =
     (let content = readSysFile ms path in
      if content = [] then 0 else (case stoull content of Inl _ \<Rightarrow> 0 | Inr v \<Rightarrow> v))"

record MonitorCPUInfo =
  mc_freq_mhz :: double
  mc_governor :: string
  mc_usage_pct :: double
  mc_num_threads :: int

text \<open>The conversion of the frequency is not guarded, so what it throws is thrown.\<close>

definition getCPUInfo :: "machine_state \<Rightarrow> MonitorCPUInfo res" where
  "getCPUInfo ms =
     (let freq_str = readSysFile ms ''/sys/devices/system/cpu/cpu0/cpufreq/scaling_cur_freq'' in
      rbind (if freq_str \<noteq> [] then rbind (stod freq_str) (\<lambda>f. Inr (f / Fin 1000)) else Inr (Fin 0)) (\<lambda>freq_mhz.
      Inr \<lparr>mc_freq_mhz = freq_mhz,
           mc_governor = readSysFile ms ''/sys/devices/system/cpu/cpu0/cpufreq/scaling_governor'',
           mc_usage_pct = Fin 0, mc_num_threads = ms_processors_online ms\<rparr>))"

text \<open>The first directory entry with the name of the first package.\<close>

definition readRAPLEnergy :: "SystemMonitor \<Rightarrow> machine_state \<Rightarrow> 64 word" where
  "readRAPLEnergy sm ms =
     (if \<not> sm_rapl_available sm then 0
      else (case ms_directory ms (sm_rapl_path sm) of
          None \<Rightarrow> 0
        | Some entries \<Rightarrow>
            (case find (\<lambda>dirname. contains dirname ''intel-rapl:0'') entries of
               None \<Rightarrow> 0
             | Some dirname \<Rightarrow> readSysFileUInt64 ms (sm_rapl_path sm @ ''/'' @ dirname @ ''/energy_uj''))))"

definition temp_paths :: "string list" where
  "temp_paths = [''/sys/class/thermal/thermal_zone0/temp'', ''/sys/class/thermal/thermal_zone1/temp'',
     ''/sys/class/hwmon/hwmon0/temp1_input'', ''/sys/class/hwmon/hwmon1/temp1_input'']"

fun first_temperature :: "machine_state \<Rightarrow> string list \<Rightarrow> double" where
  "first_temperature ms [] = Fin 0"
| "first_temperature ms (path # paths) =
     (let temp_str = readSysFile ms path in
      if temp_str \<noteq> [] then (case stod temp_str of Inr t \<Rightarrow> t / Fin 1000 | Inl _ \<Rightarrow> first_temperature ms paths)
      else first_temperature ms paths)"

definition getTemperature :: "machine_state \<Rightarrow> double" where
  "getTemperature ms = first_temperature ms temp_paths"

section \<open>Derived metrics\<close>

definition double_of_word :: "64 word \<Rightarrow> double" where
  "double_of_word w = double_of_int (uint w)"

definition calculateIPC :: "64 word \<Rightarrow> 64 word \<Rightarrow> double" where
  "calculateIPC instructions cycles =
     (if cycles = 0 then Fin 0 else double_of_word instructions / double_of_word cycles)"

definition calculateEDP :: "double \<Rightarrow> double \<Rightarrow> double" where
  "calculateEDP energy_j time_s = energy_j * time_s * time_s"

definition calculatePowerAvg :: "double \<Rightarrow> double \<Rightarrow> double" where
  "calculatePowerAvg energy_j time_s = (if deq time_s (Fin 0) then Fin 0 else energy_j / time_s)"

record PerfMetrics =
  pm_instructions :: "64 word"
  pm_cycles :: "64 word"
  pm_cache_misses :: "64 word"
  pm_branch_misses :: "64 word"
  pm_ipc :: double

text \<open>\<open>std::getline\<close> until the end of a stream: a last delimiter does not start another line.\<close>

definition getlines :: "string \<Rightarrow> string list" where
  "getlines s = (let ls = split_at CHR ''\<newline>'' s in if last ls = [] then butlast ls else ls)"

definition nth_field :: "nat \<Rightarrow> string \<Rightarrow> string" where
  "nth_field i line = (let fs = split_at CHR '','' line in if i < length fs then fs ! i else [])"

definition store_event :: "string \<Rightarrow> 64 word \<Rightarrow> PerfMetrics \<Rightarrow> PerfMetrics" where
  "store_event event v metrics =
     (if contains event ''instructions'' then metrics\<lparr>pm_instructions := v\<rparr>
      else if contains event ''cycles'' \<and> \<not> contains event ''cache'' then metrics\<lparr>pm_cycles := v\<rparr>
      else if contains event ''cache-misses'' then metrics\<lparr>pm_cache_misses := v\<rparr>
      else if contains event ''branch-misses'' then metrics\<lparr>pm_branch_misses := v\<rparr>
      else metrics)"

definition perf_line :: "PerfMetrics \<Rightarrow> string \<Rightarrow> PerfMetrics" where
  "perf_line metrics line =
     (if line = [] then metrics
      else
        (let value_str = nth_field 0 line; event = nth_field 2 line in
         if value_str = [] \<or> value_str = ''<not counted>'' then metrics
         else (case stoull value_str of Inl _ \<Rightarrow> metrics | Inr v \<Rightarrow> store_event event v metrics)))"

definition PerfMetrics_init :: PerfMetrics where
  "PerfMetrics_init = \<lparr>pm_instructions = 0, pm_cycles = 0, pm_cache_misses = 0, pm_branch_misses = 0, pm_ipc = Fin 0\<rparr>"

definition parsePerfMetrics :: "string \<Rightarrow> PerfMetrics" where
  "parsePerfMetrics perf_output =
     (let metrics = foldl perf_line PerfMetrics_init (getlines perf_output)
      in metrics\<lparr>pm_ipc := calculateIPC (pm_instructions metrics) (pm_cycles metrics)\<rparr>)"

section \<open>The CSV file\<close>

record EnergyMetrics =
  en_energy_uj :: "64 word"
  en_energy_j :: double
  en_power_avg_w :: double

record BenchmarkResult =
  be_timestamp :: string
  be_benchmark_name :: string
  be_data_size :: int
  be_cpu_info :: MonitorCPUInfo
  be_perf :: PerfMetrics
  be_energy :: EnergyMetrics
  be_time_s :: double
  be_temperature_c :: double
  be_edp :: double

text \<open>The writer: whether the header is there, whether the file is open, and the text appended to it.\<close>

record CSVWriter =
  cw_header_written :: bool
  cw_open :: bool
  cw_text :: string

definition CSVWriter_new :: "bool \<Rightarrow> bool \<Rightarrow> CSVWriter" where
  "CSVWriter_new exists can_open = \<lparr>cw_header_written = exists, cw_open = can_open, cw_text = []\<rparr>"

definition header_line :: string where
  "header_line = ''timestamp,benchmark,N,cpu_freq_MHz,cpu_governor,cpu_usage_pct,threads,'' @
     ''instructions,cycles,ipc,cache_misses,branch_misses,'' @
     ''energy_uj,energy_J,time_s,edp,power_avg_W,temperature_C\<newline>''"

definition append_file :: "string \<Rightarrow> CSVWriter \<Rightarrow> CSVWriter" where
  "append_file s cw = cw\<lparr>cw_text := cw_text cw @ s\<rparr>"

definition writeHeader :: "CSVWriter \<Rightarrow> CSVWriter" where
  "writeHeader cw =
     (if \<not> cw_open cw \<or> cw_header_written cw then cw
      else (append_file header_line cw)\<lparr>cw_header_written := True\<rparr>)"

definition result_fields :: "BenchmarkResult \<Rightarrow> string list" where
  "result_fields r =
     [be_timestamp r, be_benchmark_name r, show_int (be_data_size r), fmt_f 2 (mc_freq_mhz (be_cpu_info r)),
      mc_governor (be_cpu_info r), fmt_f 1 (mc_usage_pct (be_cpu_info r)), show_int (mc_num_threads (be_cpu_info r)),
      show_int (uint (pm_instructions (be_perf r))), show_int (uint (pm_cycles (be_perf r))), fmt_f 3 (pm_ipc (be_perf r)),
      show_int (uint (pm_cache_misses (be_perf r))), show_int (uint (pm_branch_misses (be_perf r))),
      show_int (uint (en_energy_uj (be_energy r))), fmt_f 6 (en_energy_j (be_energy r)), fmt_f 6 (be_time_s r),
      fmt_e 2 (be_edp r), fmt_f 3 (en_power_avg_w (be_energy r)), fmt_f 1 (be_temperature_c r)]"

text \<open>\<open>snprintf\<close> into a buffer of 1024 bytes: a longer line is cut, and loses its newline.\<close>

definition result_line :: "BenchmarkResult \<Rightarrow> string" where
  "result_line r = take 1023 (separated '','' (result_fields r) @ ''\<newline>'')"

definition writeResult :: "BenchmarkResult \<Rightarrow> CSVWriter \<Rightarrow> CSVWriter" where
  "writeResult r cw =
     (if \<not> cw_open cw then cw
      else append_file (result_line r) (if cw_header_written cw then cw else writeHeader cw))"

definition CSVWriter_close :: "CSVWriter \<Rightarrow> CSVWriter" where
  "CSVWriter_close cw = cw\<lparr>cw_open := False\<rparr>"

section \<open>The file is a table\<close>

lemma plain_fixed_digits [simp]: "plain (fixed_digits p r)"
  by (simp add: fixed_digits_def)

lemma plain_sci_string [simp]: "plain (sci_string p r)"
  by (simp add: sci_string_def show_exponent_def case_prod_unfold Let_def)

lemma plain_fmt [simp]: "plain (fmt_f p d)" "plain (fmt_e p d)"
  by (simp_all add: fmt_f_def fmt_e_def show_double_def split: double.splits)

text \<open>A result that fits one line of the file.\<close>

definition tabular_result :: "BenchmarkResult \<Rightarrow> bool" where
  "tabular_result r \<longleftrightarrow> plain (be_timestamp r) \<and> plain (be_benchmark_name r) \<and> plain (mc_governor (be_cpu_info r)) \<and>
     length (separated '','' (result_fields r)) < 1023"

definition header_columns :: "string list" where
  "header_columns = [''timestamp'', ''benchmark'', ''N'', ''cpu_freq_MHz'', ''cpu_governor'', ''cpu_usage_pct'',
     ''threads'', ''instructions'', ''cycles'', ''ipc'', ''cache_misses'', ''branch_misses'', ''energy_uj'',
     ''energy_J'', ''time_s'', ''edp'', ''power_avg_W'', ''temperature_C'']"

lemma header_line_columns: "header_line = separated '','' header_columns @ ''\<newline>''"
  by (simp add: header_line_def header_columns_def)

lemma csv_row_plain:
  assumes "\<forall>f \<in> set (f # fs). plain f"
  shows "csv_read Start [] [] (separated '','' (f # fs) @ CHR ''\<newline>'' # s) = (f # fs) # csv_read Start [] [] s"
proof -
  let ?fs = "map (\<lambda>t. (t, t)) (f # fs)"
  have "csv_read Start [] [] (separated '','' (map fst ?fs) @ CHR ''\<newline>'' # s) = ([] @ map snd ?fs) # csv_read Start [] [] s"
    by (rule csv_read_fields) (use assms in auto)
  then show ?thesis by (simp add: comp_def)
qed

lemma result_line_fits: "tabular_result r \<Longrightarrow> result_line r = separated '','' (result_fields r) @ ''\<newline>''"
  by (simp add: result_line_def tabular_result_def take_all del: take_append)

lemma csv_read_result:
  assumes "tabular_result r"
  shows "csv_read Start [] [] (result_line r @ s) = result_fields r # csv_read Start [] [] s"
proof -
  obtain f fs where f: "result_fields r = f # fs" by (simp add: result_fields_def)
  have "\<forall>f \<in> set (result_fields r). plain f"
    using assms by (simp add: result_fields_def tabular_result_def)
  then show ?thesis using csv_row_plain[of f fs s] by (simp add: result_line_fits[OF assms] f)
qed

lemma csv_read_results:
  "\<forall>r \<in> set rs. tabular_result r \<Longrightarrow>
     csv_read Start [] [] (concat (map result_line rs) @ s) = map result_fields rs @ csv_read Start [] [] s"
  by (induction rs) (simp_all add: csv_read_result)

lemma csv_read_header_line: "csv_read Start [] [] (header_line @ s) = header_columns # csv_read Start [] [] s"
proof -
  have "\<forall>f \<in> set header_columns. plain f" by code_simp
  then show ?thesis unfolding header_line_columns header_columns_def by (simp only: append_assoc append.simps csv_row_plain)
qed

lemma writeResults_text:
  assumes "cw_open cw"
  shows "cw_text (foldl (\<lambda>cw r. writeResult r cw) cw rs) =
      cw_text cw @ (if cw_header_written cw \<or> rs = [] then [] else header_line) @ concat (map result_line rs)"
    and "cw_open (foldl (\<lambda>cw r. writeResult r cw) cw rs)"
    and "cw_header_written (foldl (\<lambda>cw r. writeResult r cw) cw rs) = (cw_header_written cw \<or> rs \<noteq> [])"
  using assms by (induction rs arbitrary: cw) (simp_all add: writeResult_def append_file_def writeHeader_def)

text \<open>However many results are written, the new text is a table, with a header unless the file was there.\<close>

lemma writeResults_table:
  assumes "cw_open cw" "cw_text cw = []" "rs \<noteq> []" "\<forall>r \<in> set rs. tabular_result r"
  shows "csv_table (cw_text (foldl (\<lambda>cw r. writeResult r cw) cw rs)) =
     (if cw_header_written cw then [] else [header_columns]) @ map result_fields rs"
  using writeResults_text(1)[OF assms(1), of rs] csv_read_results[OF assms(4), of "[]"] assms(2,3)
  by (simp add: csv_table_def csv_read_header_line)

section \<open>The output of perf\<close>

text \<open>A line of \<open>perf stat -x,\<close>: a counted value, an empty unit, the event, more fields.\<close>

definition perf_text :: "string \<times> 64 word \<Rightarrow> string \<Rightarrow> string" where
  "perf_text ev rest = show_int (uint (snd ev)) @ '',,'' @ fst ev @ '','' @ rest @ ''\<newline>''"

definition measured_events :: "string list" where
  "measured_events = [''instructions'', ''cycles'', ''cache-misses'', ''branch-misses'']"

definition last_value :: "string \<Rightarrow> (string \<times> 64 word) list \<Rightarrow> 64 word" where
  "last_value event evs = foldl (\<lambda>v ev. if fst ev = event then snd ev else v) 0 evs"

lemma stoull_show: "stoull (show_int (uint w)) = Inr (w :: 64 word)"
proof -
  obtain c s where s: "show_nat (nat (uint w)) = c # s" "is_digit c" by (rule show_nat_Cons)
  have r: "read_digits 0 (c # s) = (nat (uint w), [])"
    using read_digits_show_nat[of "[]" "nat (uint w)"] s by simp
  have c: "c \<noteq> CHR ''-''" "c \<noteq> CHR ''+''" using s(2) by (auto simp: is_digit_def)
  have "\<not> nat (uint w) \<ge> 2 ^ 64" using unsigned_less[where 'a = nat, of w] by simp
  then show ?thesis using s r c digit_not_space[OF s(2)]
    by (simp add: stoull_def show_int_def split_sign_def del: read_digits.simps)
qed

lemma getlines_concat:
  "\<forall>l \<in> set ls. CHR ''\<newline>'' \<notin> set l \<Longrightarrow> getlines (concat (map (\<lambda>l. l @ ''\<newline>'') ls)) = ls"
proof -
  assume "\<forall>l \<in> set ls. CHR ''\<newline>'' \<notin> set l"
  then have "split_at CHR ''\<newline>'' (concat (map (\<lambda>l. l @ ''\<newline>'') ls)) = ls @ [[]]"
    by (induction ls) (simp_all add: split_at_append)
  then show ?thesis by (simp add: getlines_def Let_def)
qed

lemma perf_line_text:
  assumes "CHR '','' \<notin> set event"
  shows "perf_line metrics (show_int (uint w) @ '',,'' @ event @ '','' @ rest) = store_event event w metrics"
proof -
  have "CHR '','' \<notin> set (show_int (uint w))" using plain_show_int[of "uint w"] by (auto simp: plain_def)
  then have "split_at CHR '','' (show_int (uint w) @ '',,'' @ event @ '','' @ rest) =
      show_int (uint w) # [] # event # split_at CHR '','' rest"
    using assms by (simp add: split_at_append)
  then have "nth_field 0 (show_int (uint w) @ '',,'' @ event @ '','' @ rest) = show_int (uint w)"
    "nth_field 2 (show_int (uint w) @ '',,'' @ event @ '','' @ rest) = event"
    by (simp_all add: nth_field_def)
  moreover have "show_int (uint w) \<noteq> []" by (simp add: show_int_def)
  moreover have "show_int (uint w) \<noteq> ''<not counted>''"
    using show_nat_digits[of "nat (uint w)"] by (auto simp: show_int_def is_digit_def)
  ultimately show ?thesis by (simp add: perf_line_def stoull_show)
qed

lemma measured_contains:
  "contains ''instructions'' ''instructions''" "\<not> contains ''cycles'' ''instructions''"
  "\<not> contains ''cache-misses'' ''instructions''" "\<not> contains ''branch-misses'' ''instructions''"
  "contains ''cycles'' ''cycles''" "\<not> contains ''cache-misses'' ''cycles''" "\<not> contains ''branch-misses'' ''cycles''"
  "\<not> contains ''cycles'' ''cache''" "contains ''cache-misses'' ''cache-misses''"
  "\<not> contains ''branch-misses'' ''cache-misses''" "contains ''branch-misses'' ''branch-misses''"
  by code_simp+

lemma store_event_measured:
  "store_event ''instructions'' w m = m\<lparr>pm_instructions := w\<rparr>" "store_event ''cycles'' w m = m\<lparr>pm_cycles := w\<rparr>"
  "store_event ''cache-misses'' w m = m\<lparr>pm_cache_misses := w\<rparr>" "store_event ''branch-misses'' w m = m\<lparr>pm_branch_misses := w\<rparr>"
  by (simp_all only: store_event_def measured_contains if_True if_False simp_thms)

lemma store_measured:
  assumes "ev \<in> set measured_events"
  shows "pm_instructions (store_event ev w m) = (if ev = ''instructions'' then w else pm_instructions m)"
    "pm_cycles (store_event ev w m) = (if ev = ''cycles'' then w else pm_cycles m)"
    "pm_cache_misses (store_event ev w m) = (if ev = ''cache-misses'' then w else pm_cache_misses m)"
    "pm_branch_misses (store_event ev w m) = (if ev = ''branch-misses'' then w else pm_branch_misses m)"
  using assms unfolding measured_events_def by (auto simp: store_event_measured)

text \<open>Of the output of \<open>perf stat -x,\<close> with the four events the monitor asks for, in any order and any
  number of times, \<open>parsePerfMetrics\<close> takes the last value of each event, 0 when there is none, whatever
  the further fields of the lines, and the instructions per cycle are computed from the two of them.\<close>

theorem parsePerfMetrics_last_values:
  assumes "\<forall>(ev, rest) \<in> set lines. fst ev \<in> set measured_events \<and> CHR ''\<newline>'' \<notin> set rest"
  shows "parsePerfMetrics (concat (map (\<lambda>(ev, rest). perf_text ev rest) lines)) =
    \<lparr>pm_instructions = last_value ''instructions'' (map fst lines), pm_cycles = last_value ''cycles'' (map fst lines),
     pm_cache_misses = last_value ''cache-misses'' (map fst lines),
     pm_branch_misses = last_value ''branch-misses'' (map fst lines),
     pm_ipc = calculateIPC (last_value ''instructions'' (map fst lines)) (last_value ''cycles'' (map fst lines))\<rparr>"
proof -
  let ?line = "\<lambda>(ev :: string \<times> 64 word, rest). show_int (uint (snd ev)) @ '',,'' @ fst ev @ '','' @ rest"
  let ?m = "foldl perf_line PerfMetrics_init (map ?line lines)"
  have ev: "CHR ''\<newline>'' \<notin> set e" "CHR '','' \<notin> set e" if "e \<in> set measured_events" for e
    using that by (auto simp: measured_events_def)
  have show_ok: "CHR ''\<newline>'' \<notin> set (show_int n)" for n using plain_show_int[of n] by (auto simp: plain_def)
  have "\<forall>l \<in> set (map ?line lines). CHR ''\<newline>'' \<notin> set l"
    using assms ev show_ok by fastforce
  from getlines_concat[OF this] have lines: "getlines (concat (map (\<lambda>(ev, rest). perf_text ev rest) lines)) = map ?line lines"
    by (simp add: comp_def case_prod_unfold perf_text_def)
  have fold: "pm_instructions (foldl perf_line m (map ?line ls)) = foldl (\<lambda>v ev. if fst ev = ''instructions'' then snd ev else v) (pm_instructions m) (map fst ls) \<and>
     pm_cycles (foldl perf_line m (map ?line ls)) = foldl (\<lambda>v ev. if fst ev = ''cycles'' then snd ev else v) (pm_cycles m) (map fst ls) \<and>
     pm_cache_misses (foldl perf_line m (map ?line ls)) = foldl (\<lambda>v ev. if fst ev = ''cache-misses'' then snd ev else v) (pm_cache_misses m) (map fst ls) \<and>
     pm_branch_misses (foldl perf_line m (map ?line ls)) = foldl (\<lambda>v ev. if fst ev = ''branch-misses'' then snd ev else v) (pm_branch_misses m) (map fst ls)"
    if "\<forall>(ev, rest) \<in> set ls. fst ev \<in> set measured_events" for ls m
    using that
  proof (induction ls arbitrary: m)
    case (Cons l ls)
    obtain e w rest where l: "l = ((e, w), rest)" by (metis surj_pair)
    then have e: "e \<in> set measured_events" using Cons.prems by auto
    have "perf_line m (?line l) = store_event e w m" using perf_line_text[OF ev(2)[OF e]] l by simp
    then show ?case using Cons.IH[of "store_event e w m"] Cons.prems l store_measured[OF e, of w m] by simp
  qed simp
  show ?thesis
    using fold[of lines PerfMetrics_init] assms
    by (simp add: parsePerfMetrics_def lines last_value_def PerfMetrics_init_def Let_def) fastforce
qed

theorem parsePerfMetrics_last_values_witness:
  "parsePerfMetrics (concat (map (\<lambda>(ev, rest). perf_text ev rest)
     [((''cycles'', 4), ''100.00''), ((''instructions'', 8), []), ((''cycles'', 2), [])])) =
   \<lparr>pm_instructions = 8, pm_cycles = 2, pm_cache_misses = 0, pm_branch_misses = 0, pm_ipc = calculateIPC 8 2\<rparr>"
  using parsePerfMetrics_last_values[of "[((''cycles'', 4), ''100.00''), ((''instructions'', 8), []), ((''cycles'', 2), [])]"]
  by (simp add: measured_events_def last_value_def)

end
