(* ===== verification/Kernels.thy ===== *)
theory Kernels
  imports Register Runtime SystemMonitor
begin

text \<open>
  The benchmarks of the monitored suite: src/benchmark_monitor_C/benchmark_monitor.cpp.

  A vector is a list; \<open>v[i]\<close> out of range is undefined behaviour and so a failure of the model.  The
  floating-point arithmetic of the matrix product is single precision in the source; that loop is
  written over any type with \<open>0\<close>, \<open>+\<close> and \<open>*\<close>.
\<close>

section \<open>Vectors and loops\<close>

definition vget :: "'a list \<Rightarrow> int \<Rightarrow> 'a res" where
  "vget v i = (if 0 \<le> i \<and> i < int (length v) then Inr (v ! nat i) else Inl (Undefined ''vector index out of range''))"

definition vput :: "'a list \<Rightarrow> int \<Rightarrow> 'a \<Rightarrow> 'a list res" where
  "vput v i x = (if 0 \<le> i \<and> i < int (length v) then Inr (v[nat i := x]) else Inl (Undefined ''vector index out of range''))"

text \<open>\<open>std::vector<T> v(n, x)\<close> for a signed \<open>n\<close> and elements of \<open>bytes\<close> bytes: \<open>n\<close> is converted to \<open>size_t\<close>.\<close>

definition new_vector :: "int \<Rightarrow> int \<Rightarrow> 'a \<Rightarrow> 'a list res" where
  "new_vector bytes n x =
     (if n < 0 \<or> n > int64_max div bytes then Inl (Threw ''std::length_error: vector'') else Inr (replicate (nat n) x))"

text \<open>The values of \<open>i\<close> in \<open>for (i = 0; i < n; i++)\<close>.\<close>

definition counted :: "int \<Rightarrow> int list" where
  "counted n = [0 .. n - 1]"

text \<open>Conversions to narrower or signed integers: modulo 2^32, 2^64.\<close>

definition to_int32 :: "int \<Rightarrow> int" where
  "to_int32 x = sint (word_of_int x :: 32 word)"

definition to_int64 :: "int \<Rightarrow> int" where
  "to_int64 x = sint (word_of_int x :: 64 word)"

lemma to_int32_id: "in_i32 x \<Longrightarrow> to_int32 x = x"
  unfolding to_int32_def by (simp add: signed_of_int signed_take_bit_int_eq_self int_width_defs)

lemma to_int64_id: "in_i64 x \<Longrightarrow> to_int64 x = x"
  unfolding to_int64_def by (simp add: signed_of_int signed_take_bit_int_eq_self int_width_defs)

section \<open>The kernels\<close>

definition vector_add :: "int \<Rightarrow> double list \<Rightarrow> double list \<Rightarrow> double list \<Rightarrow> double list res" where
  "vector_add N a b c =
     rfold (\<lambda>c i. rbind (vget a i) (\<lambda>x. rbind (vget b i) (\<lambda>y. vput c i (x + y)))) c (counted N)"

definition dot_product :: "int \<Rightarrow> double list \<Rightarrow> double list \<Rightarrow> double res" where
  "dot_product N a b =
     rfold (\<lambda>result i. rbind (vget a i) (\<lambda>x. rbind (vget b i) (\<lambda>y. Inr (result + x * y)))) (Fin 0) (counted N)"

definition memcpy :: "'a list \<Rightarrow> 'a list \<Rightarrow> int \<Rightarrow> 'a list res" where
  "memcpy dst src n =
     (if 0 \<le> n \<and> n \<le> int (length src) \<and> n \<le> int (length dst) then Inr (take (nat n) src @ drop (nat n) dst)
      else Inl (Undefined ''memcpy out of range''))"

definition loop_copy :: "int \<Rightarrow> 'a list \<Rightarrow> 'a list \<Rightarrow> 'a list res" where
  "loop_copy N src dst = rfold (\<lambda>dst i. rbind (vget src i) (vput dst i)) dst (counted N)"

text \<open>Row-major matrices; the indices are computed in \<open>int\<close>.\<close>

definition index2 :: "int \<Rightarrow> int \<Rightarrow> int \<Rightarrow> int res" where
  "index2 row width col = rbind (chk_int in_i32 (row * width)) (\<lambda>r. chk_int in_i32 (r + col))"

definition product_entry :: "int \<Rightarrow> int \<Rightarrow> 'a::{zero,plus,times} list \<Rightarrow> 'a list \<Rightarrow> int \<Rightarrow> int \<Rightarrow> 'a res" where
  "product_entry K N A B i j =
     rfold (\<lambda>sum k. rbind (index2 i K k) (\<lambda>p. rbind (vget A p) (\<lambda>x.
                    rbind (index2 k N j) (\<lambda>q. rbind (vget B q) (\<lambda>y. Inr (sum + x * y)))))) 0 (counted K)"

definition matrix_multiply ::
  "int \<Rightarrow> int \<Rightarrow> int \<Rightarrow> 'a::{zero,plus,times} list \<Rightarrow> 'a list \<Rightarrow> 'a list \<Rightarrow> 'a list res" where
  "matrix_multiply M K N A B C =
     rfold (\<lambda>C i. rfold (\<lambda>C j.
       rbind (product_entry K N A B i j) (\<lambda>sum. rbind (index2 i N j) (\<lambda>p. vput C p sum)))
       C (counted N)) C (counted M)"

section \<open>The measured loop over the data of a benchmark\<close>

text \<open>
  \<open>for (auto _ : state)\<close> as in \<open>Runtime\<close>, with the local variables of the benchmark passed along.
\<close>

fun user_range_loop ::
  "nat \<Rightarrow> ('u \<Rightarrow> State \<Rightarrow> world \<Rightarrow> ('u \<times> State \<times> world) res) \<Rightarrow> 'u \<Rightarrow> int \<Rightarrow> State \<Rightarrow> world \<Rightarrow>
   ('u \<times> State \<times> world) res option" where
  "user_range_loop 0 f u cached st w = None"
| "user_range_loop (Suc fuel) f u cached st w =
     (case StateIterator_neq cached st w of
        Inl e \<Rightarrow> Some (Inl e)
      | Inr (False, st1, w1) \<Rightarrow> Some (Inr (u, st1, w1))
      | Inr (True, st1, w1) \<Rightarrow>
          (case f u st1 w1 of
             Inl e \<Rightarrow> Some (Inl e)
           | Inr (u', st2, w2) \<Rightarrow>
               (case StateIterator_incr cached of
                  Inl e \<Rightarrow> Some (Inl e)
                | Inr cached' \<Rightarrow> user_range_loop fuel f u' cached' st2 w2)))"

definition user_range_for ::
  "nat \<Rightarrow> ('u \<Rightarrow> State \<Rightarrow> world \<Rightarrow> ('u \<times> State \<times> world) res) \<Rightarrow> 'u \<Rightarrow> State \<Rightarrow> world \<Rightarrow>
   ('u \<times> State \<times> world) res option" where
  "user_range_for fuel f u st w =
     (let cached = StateIterator_begin st in
      case StartKeepRunning st w of
        Inl e \<Rightarrow> Some (Inl e)
      | Inr (st1, w1) \<Rightarrow> user_range_loop fuel f u cached st1 w1)"

text \<open>A body that only computes on the data.\<close>

definition on_data :: "('u \<Rightarrow> 'u res) \<Rightarrow> 'u \<Rightarrow> State \<Rightarrow> world \<Rightarrow> ('u \<times> State \<times> world) res" where
  "on_data f u st w = rbind (f u) (\<lambda>u'. Inr (u', st, w))"

definition orbind :: "'a res option \<Rightarrow> ('a \<Rightarrow> 'b res option) \<Rightarrow> 'b res option" where
  "orbind m f = (case m of None \<Rightarrow> None | Some (Inl e) \<Rightarrow> Some (Inl e) | Some (Inr x) \<Rightarrow> f x)"

lemma orbind_simps [simp]:
  "orbind None f = None" "orbind (Some (Inl e)) f = Some (Inl e)" "orbind (Some (Inr x)) f = f x"
  by (simp_all add: orbind_def)

section \<open>The benchmarks\<close>

text \<open>The globals: the monitor is a pointer, null until \<open>main\<close> sets it.\<close>

record globals =
  gl_monitor :: "SystemMonitor option"
  gl_energy_start :: "64 word"
  gl_temp_start :: double

definition initial_measures :: "machine_state \<Rightarrow> globals \<Rightarrow> globals res" where
  "initial_measures ms g =
     (case gl_monitor g of
        None \<Rightarrow> Inl (Undefined ''null g_monitor'')
      | Some mon \<Rightarrow> Inr (g\<lparr>gl_energy_start := readRAPLEnergy mon ms, gl_temp_start := getTemperature ms\<rparr>))"

definition chk_mul :: "int \<Rightarrow> int \<Rightarrow> int res" where
  "chk_mul x y = chk_int in_i64 (x * y)"

definition BM_VectorAdd ::
  "nat \<Rightarrow> machine_state \<Rightarrow> globals \<Rightarrow> State \<Rightarrow> world \<Rightarrow> (double list \<times> globals \<times> State \<times> world) res option" where
  "BM_VectorAdd fuel ms g st w =
     orbind (Some (rbind (range_at st 0) (\<lambda>N.
       rbind (new_vector 8 N (Fin 1)) (\<lambda>a. rbind (new_vector 8 N (Fin 2)) (\<lambda>b. rbind (new_vector 8 N (Fin 0)) (\<lambda>c.
       rbind (initial_measures ms g) (\<lambda>g'. Inr (N, a, b, c, g'))))))))
     (\<lambda>(N, a, b, c, g').
     orbind (user_range_for fuel (on_data (vector_add N a b)) c st w) (\<lambda>(c', st1, w1).
     Some (rbind (chk_mul (iterations st1) N) (\<lambda>items.
       Inr (c', g', SetItemsProcessed items (SetBytesProcessed (to_int64 (items * 8 * 3)) st1), w1)))))"

definition BM_DotProduct ::
  "nat \<Rightarrow> machine_state \<Rightarrow> globals \<Rightarrow> State \<Rightarrow> world \<Rightarrow> (double option \<times> globals \<times> State \<times> world) res option" where
  "BM_DotProduct fuel ms g st w =
     orbind (Some (rbind (range_at st 0) (\<lambda>N.
       rbind (new_vector 8 N (Fin (3 / 2))) (\<lambda>a. rbind (new_vector 8 N (Fin (5 / 2))) (\<lambda>b.
       rbind (initial_measures ms g) (\<lambda>g'. Inr (N, a, b, g')))))))
     (\<lambda>(N, a, b, g').
     orbind (user_range_for fuel (on_data (\<lambda>_. rbind (dot_product N a b) (\<lambda>r. Inr (Some r)))) None st w)
       (\<lambda>(r, st1, w1).
     Some (rbind (chk_mul (iterations st1) N) (\<lambda>n. rbind (chk_mul n 2) (\<lambda>items.
       Inr (r, g', SetItemsProcessed items st1, w1))))))"

definition copy_benchmark ::
  "(int \<Rightarrow> string \<Rightarrow> string \<Rightarrow> string res) \<Rightarrow> nat \<Rightarrow> machine_state \<Rightarrow> globals \<Rightarrow> State \<Rightarrow> world \<Rightarrow>
   (string \<times> globals \<times> State \<times> world) res option" where
  "copy_benchmark copy fuel ms g st w =
     orbind (Some (rbind (range_at st 0) (\<lambda>N.
       rbind (new_vector 1 N CHR ''A'') (\<lambda>src. rbind (new_vector 1 N CHR ''B'') (\<lambda>dst.
       rbind (initial_measures ms g) (\<lambda>g'. Inr (N, src, dst, g')))))))
     (\<lambda>(N, src, dst, g').
     orbind (user_range_for fuel (on_data (copy N src)) dst st w) (\<lambda>(dst', st1, w1).
     Some (rbind (chk_mul (iterations st1) N) (\<lambda>bytes. Inr (dst', g', SetBytesProcessed bytes st1, w1)))))"

definition BM_MemCpy ::
  "nat \<Rightarrow> machine_state \<Rightarrow> globals \<Rightarrow> State \<Rightarrow> world \<Rightarrow> (string \<times> globals \<times> State \<times> world) res option" where
  "BM_MemCpy = copy_benchmark (\<lambda>N src dst. memcpy dst src N)"

definition BM_LoopCopy ::
  "nat \<Rightarrow> machine_state \<Rightarrow> globals \<Rightarrow> State \<Rightarrow> world \<Rightarrow> (string \<times> globals \<times> State \<times> world) res option" where
  "BM_LoopCopy = copy_benchmark loop_copy"

text \<open>The three sizes are \<open>int\<close>; \<open>one\<close> and \<open>two\<close> are the literals \<open>1.0f\<close> and \<open>2.0f\<close>.\<close>

definition BM_MatrixMultiply ::
  "'a::{zero,plus,times} \<Rightarrow> 'a \<Rightarrow> nat \<Rightarrow> machine_state \<Rightarrow> globals \<Rightarrow> State \<Rightarrow> world \<Rightarrow>
   ('a list \<times> globals \<times> State \<times> world) res option" where
  "BM_MatrixMultiply one two fuel ms g st w =
     orbind (Some (rbind (range_at st 0) (\<lambda>m. rbind (range_at st 1) (\<lambda>k. rbind (range_at st 2) (\<lambda>n.
       let M = to_int32 m; K = to_int32 k; N = to_int32 n in
       rbind (rbind (chk_int in_i32 (M * K)) (\<lambda>s. new_vector 4 s one)) (\<lambda>A.
       rbind (rbind (chk_int in_i32 (K * N)) (\<lambda>s. new_vector 4 s two)) (\<lambda>B.
       rbind (rbind (chk_int in_i32 (M * N)) (\<lambda>s. new_vector 4 s 0)) (\<lambda>C.
       rbind (initial_measures ms g) (\<lambda>g'. Inr (M, K, N, A, B, C, g'))))))))))
     (\<lambda>(M, K, N, A, B, C, g').
     orbind (user_range_for fuel (on_data (matrix_multiply M K N A B)) C st w) (\<lambda>(C', st1, w1).
     Some (rbind (rfold chk_mul (iterations st1) [2, M, N, K]) (\<lambda>items.
       Inr (C', g', SetItemsProcessed items st1, w1)))))"

text \<open>The registrations, \<open>BENCHMARK(...)\<close> with the chained calls.\<close>

definition register_VectorAdd :: "builder_call list" where
  "register_VectorAdd = [CRange 16384 1048576, CUnit kMillisecond]"

definition register_DotProduct :: "builder_call list" where
  "register_DotProduct = [CRange 16384 1048576, CUnit kMillisecond]"

definition register_MemCpy :: "builder_call list" where
  "register_MemCpy = [CRange 16384 16777216, CUnit kMillisecond]"

definition register_LoopCopy :: "builder_call list" where
  "register_LoopCopy = [CRange 16384 16777216, CUnit kMillisecond]"

definition register_MatrixMultiply :: "builder_call list" where
  "register_MatrixMultiply =
     [CArgs [32, 32, 32], CArgs [64, 64, 64], CArgs [128, 128, 128], CUnit kMillisecond]"

section \<open>Counting loops\<close>

text \<open>The rule of a counting loop that may fail: an invariant indexed by the counter.\<close>

lemma counted_loop:
  assumes "0 \<le> n" "P 0 s"
    and step: "\<And>i s. 0 \<le> i \<Longrightarrow> i < n \<Longrightarrow> P i s \<Longrightarrow> \<exists>s'. f s i = Inr s' \<and> P (i + 1) s'"
  shows "\<exists>s'. rfold f s (counted n) = Inr s' \<and> P n s'"
proof -
  have "m \<le> n \<Longrightarrow> \<exists>s'. rfold f s (counted m) = Inr s' \<and> P m s'" if "0 \<le> m" for m
    using that
  proof (induction m rule: int_ge_induct)
    case base
    then show ?case using assms(2) by (simp add: counted_def)
  next
    case (step m)
    then obtain s' where s': "rfold f s (counted m) = Inr s'" "P m s'" by auto
    obtain s'' where "f s' m = Inr s''" "P (m + 1) s''"
      using assms(3)[OF step.hyps _ s'(2)] step.prems by auto
    moreover have "counted (m + 1) = counted m @ [m]"
      using step.hyps upto_rec2[of 0 m] by (simp add: counted_def)
    ultimately show ?case using s'(1) by (auto simp: rfold_append)
  qed
  then show ?thesis using assms(1) by blast
qed

lemma vget_in [simp]: "i < length v \<Longrightarrow> vget v (int i) = Inr (v ! i)"
  by (simp add: vget_def)

lemma vput_in [simp]: "i < length v \<Longrightarrow> vput v (int i) x = Inr (v[i := x])"
  by (simp add: vput_def)

text \<open>The same rule with natural numbers.\<close>

lemma counted_loop_nat:
  assumes "P 0 s" and "\<And>i s. i < n \<Longrightarrow> P i s \<Longrightarrow> \<exists>s'. f s (int i) = Inr s' \<and> P (Suc i) s'"
  shows "\<exists>s'. rfold f s (counted (int n)) = Inr s' \<and> P n s'"
proof -
  have "\<exists>s'. rfold f s (counted (int n)) = Inr s' \<and> P (nat (int n)) s'"
  proof (rule counted_loop[where P = "\<lambda>i. P (nat i)"])
    fix i s assume "0 \<le> i" "i < int n" "P (nat i) s"
    then show "\<exists>s'. f s i = Inr s' \<and> P (nat (i + 1)) s'"
      using assms(2)[of "nat i" s] by (auto simp: nat_add_distrib)
  qed (use assms(1) in simp_all)
  then show ?thesis by simp
qed

text \<open>A loop that fills a list from the left with the values of another one.\<close>

definition filled :: "'a list \<Rightarrow> nat \<Rightarrow> 'a list \<Rightarrow> bool" where
  "filled goal i v \<longleftrightarrow> length v = length goal \<and> (\<forall>p < i. v ! p = goal ! p)"

lemma filled_0: "length v = length goal \<Longrightarrow> filled goal 0 v"
  by (simp add: filled_def)

lemma filled_Suc: "filled goal i v \<Longrightarrow> i < length goal \<Longrightarrow> filled goal (Suc i) (v[i := goal ! i])"
  by (auto simp: filled_def nth_list_update less_Suc_eq)

lemma filled_all: "filled goal (length goal) v \<Longrightarrow> v = goal"
  by (simp add: filled_def nth_equalityI)

lemma fill_loop:
  assumes "length v = length goal"
    and "\<And>i v. i < length goal \<Longrightarrow> filled goal i v \<Longrightarrow> f v (int i) = Inr (v[i := goal ! i])"
  shows "rfold f v (counted (int (length goal))) = Inr goal"
proof -
  have "\<exists>v'. rfold f v (counted (int (length goal))) = Inr v' \<and> filled goal (length goal) v'"
    by (rule counted_loop_nat) (use assms filled_0 filled_Suc in auto)
  then show ?thesis using filled_all by blast
qed

lemma vector_add_sum:
  assumes "length a = N" "length b = N" "length c = N"
  shows "vector_add (int N) a b c = Inr (map2 (+) a b)"
  unfolding vector_add_def
  using fill_loop[of c "map2 (+) a b" "\<lambda>c i. rbind (vget a i) (\<lambda>x. rbind (vget b i) (\<lambda>y. vput c i (x + y)))"] assms
  by (auto simp: filled_def)

lemma dot_product_fold:
  assumes "length a = N" "length b = N"
  shows "dot_product (int N) a b = Inr (foldl (\<lambda>r i. r + a ! i * b ! i) (Fin 0) [0..<N])"
proof -
  have "\<exists>r. dot_product (int N) a b = Inr r \<and> r = foldl (\<lambda>r i. r + a ! i * b ! i) (Fin 0) [0..<N]"
    unfolding dot_product_def by (rule counted_loop_nat) (use assms in auto)
  then show ?thesis by blast
qed

text \<open>The two ways of copying agree, and both replace the destination.\<close>

lemma loop_copy_memcpy:
  assumes "length src = N" "length dst = N"
  shows "loop_copy (int N) src dst = Inr src" "memcpy dst src (int N) = Inr src"
proof -
  show "loop_copy (int N) src dst = Inr src"
    unfolding loop_copy_def
    using fill_loop[of dst src "\<lambda>dst i. rbind (vget src i) (vput dst i)"] assms by (auto simp: filled_def)
  show "memcpy dst src (int N) = Inr src" using assms by (simp add: memcpy_def)
qed

section \<open>The matrix product\<close>

definition entry :: "nat \<Rightarrow> nat \<Rightarrow> 'a::{zero,plus,times} list \<Rightarrow> 'a list \<Rightarrow> nat \<Rightarrow> nat \<Rightarrow> 'a" where
  "entry K N A B i j = foldl (\<lambda>s k. s + A ! (i * K + k) * B ! (k * N + j)) 0 [0..<K]"

definition matrix_product :: "nat \<Rightarrow> nat \<Rightarrow> nat \<Rightarrow> 'a::{zero,plus,times} list \<Rightarrow> 'a list \<Rightarrow> 'a list" where
  "matrix_product M K N A B = map (\<lambda>p. entry K N A B (p div N) (p mod N)) [0..<M * N]"

lemma length_matrix_product [simp]: "length (matrix_product M K N A B) = M * N"
  by (simp add: matrix_product_def)

lemma cell_bound: "i < M \<Longrightarrow> j < N \<Longrightarrow> i * N + j < M * (N :: nat)"
proof -
  assume "i < M" "j < N"
  then have "i * N + j < (i + 1) * N" by (simp add: algebra_simps)
  also have "\<dots> \<le> M * N" using \<open>i < M\<close> by (intro mult_le_mono1) simp
  finally show ?thesis .
qed

lemma nth_matrix_product:
  "i < M \<Longrightarrow> j < N \<Longrightarrow> matrix_product M K N A B ! (i * N + j) = entry K N A B i j"
  using cell_bound[of i M j N] by (simp add: matrix_product_def)

text \<open>Over a semiring an entry is the sum of products.\<close>

lemma entry_sum: "entry K N (A :: 'a::semiring_0 list) B i j = (\<Sum>k<K. A ! (i * K + k) * B ! (k * N + j))"
proof -
  have "foldl (\<lambda>s k. s + A ! (i * K' + k) * B ! (k * N + j)) 0 [0..<K] = (\<Sum>k<K. A ! (i * K' + k) * B ! (k * N + j))" for K'
    by (induction K) simp_all
  then show ?thesis by (simp add: entry_def)
qed

lemma index2_in:
  assumes "i < M" "j < N" "int M * int N \<le> int32_max"
  shows "index2 (int i) (int N) (int j) = Inr (int (i * N + j))"
proof -
  have "int (i * N + j) < int (M * N)" using cell_bound[OF assms(1,2)] by (simp only: of_nat_less_iff)
  then have "int i * int N + int j < int32_max" using assms(3) by simp
  moreover have "0 \<le> int i * int N" "0 \<le> int i * int N + int j" by simp_all
  ultimately have "in_i32 (int i * int N)" "in_i32 (int i * int N + int j)"
    unfolding in_i32_def int32_min_def by linarith+
  then show ?thesis by (simp add: index2_def)
qed

definition matrix_sizes :: "nat \<Rightarrow> nat \<Rightarrow> nat \<Rightarrow> bool" where
  "matrix_sizes M K N \<longleftrightarrow> int M * int K \<le> int32_max \<and> int K * int N \<le> int32_max \<and> int M * int N \<le> int32_max"

lemma product_entry_value:
  assumes "length A = M * K" "length B = K * N" "matrix_sizes M K N" "i < M" "j < N"
  shows "product_entry (int K) (int N) A B (int i) (int j) = Inr (entry K N A B i j)"
proof -
  have "\<exists>s. product_entry (int K) (int N) A B (int i) (int j) = Inr s \<and>
      s = foldl (\<lambda>s k. s + A ! (i * K + k) * B ! (k * N + j)) 0 [0..<K]"
    unfolding product_entry_def
  proof (rule counted_loop_nat[where P = "\<lambda>k s. s = foldl (\<lambda>s k. s + A ! (i * K + k) * B ! (k * N + j)) 0 [0..<k]"])
    fix k and s :: 'a
    assume k: "k < K" and s: "s = foldl (\<lambda>s k. s + A ! (i * K + k) * B ! (k * N + j)) 0 [0..<k]"
    have "index2 (int i) (int K) (int k) = Inr (int (i * K + k))" "index2 (int k) (int N) (int j) = Inr (int (k * N + j))"
      using index2_in assms k by (auto simp: matrix_sizes_def)
    moreover have "vget A (int (i * K + k)) = Inr (A ! (i * K + k))" "vget B (int (k * N + j)) = Inr (B ! (k * N + j))"
      using cell_bound[OF assms(4) k] cell_bound[OF k assms(5)] assms(1,2) by (intro vget_in; simp)+
    ultimately show "\<exists>s'. rbind (index2 (int i) (int K) (int k)) (\<lambda>p. rbind (vget A p) (\<lambda>x.
          rbind (index2 (int k) (int N) (int j)) (\<lambda>q. rbind (vget B q) (\<lambda>y. Inr (s + x * y))))) = Inr s' \<and>
        s' = foldl (\<lambda>s k. s + A ! (i * K + k) * B ! (k * N + j)) 0 [0..<Suc k]"
      using s by simp
  qed simp
  then show ?thesis by (auto simp: entry_def)
qed

lemma matrix_multiply_value:
  assumes "length A = M * K" "length B = K * N" "length C = M * N" "matrix_sizes M K N"
  shows "matrix_multiply (int M) (int K) (int N) A B C = Inr (matrix_product M K N A B)"
proof -
  let ?P = "matrix_product M K N A B"
  have row: "\<exists>C'. rfold (\<lambda>C j. rbind (product_entry (int K) (int N) A B (int i) j) (\<lambda>sum.
        rbind (index2 (int i) (int N) j) (\<lambda>p. vput C p sum))) C (counted (int N)) = Inr C' \<and> filled ?P (i * N + N) C'"
    if i: "i < M" and C: "filled ?P (i * N) C" for i C
  proof (rule counted_loop_nat[where P = "\<lambda>j. filled ?P (i * N + j)"])
    fix j C assume j: "j < N" and C: "filled ?P (i * N + j) C"
    then have "length C = M * N" by (simp add: filled_def)
    then have "vput C (int (i * N + j)) (entry K N A B i j) = Inr (C[i * N + j := ?P ! (i * N + j)])"
      using cell_bound[OF i j] nth_matrix_product[OF i j, of K A B] by (intro trans[OF vput_in]) simp_all
    moreover have "index2 (int i) (int N) (int j) = Inr (int (i * N + j))"
      using index2_in[OF i j] assms(4) by (simp add: matrix_sizes_def)
    ultimately show "\<exists>C'. rbind (product_entry (int K) (int N) A B (int i) (int j)) (\<lambda>sum.
          rbind (index2 (int i) (int N) (int j)) (\<lambda>p. vput C p sum)) = Inr C' \<and> filled ?P (i * N + Suc j) C'"
      using filled_Suc[OF C] cell_bound[OF i j] product_entry_value[OF assms(1,2,4) i j] by simp
  qed (use C in simp)
  have "\<exists>C'. matrix_multiply (int M) (int K) (int N) A B C = Inr C' \<and> filled ?P (M * N) C'"
    unfolding matrix_multiply_def
    by (rule counted_loop_nat[where P = "\<lambda>i. filled ?P (i * N)"]) (use row assms(3) filled_0[of C ?P] in \<open>auto simp: algebra_simps\<close>)
  then show ?thesis using filled_all[of ?P] by auto
qed

text \<open>The three nested loops of the matrix benchmark fill \<open>C\<close>, whatever it held, with the product of
  the two row-major matrices, each entry summed in the order of \<open>k\<close>; no index is out of range and no
  index computation overflows as long as the three matrices have at most \<open>INT_MAX\<close> elements.\<close>

theorem matrix_multiply_product:
  assumes "length A = M * K" "length B = K * N" "length C = M * N" "matrix_sizes M K N"
  shows "matrix_multiply (int M) (int K) (int N) A B C = Inr (matrix_product M K N A B)"
  by (rule matrix_multiply_value[OF assms])

theorem matrix_multiply_product_witness:
  "matrix_multiply 2 2 1 [1, 2, 3, 4] [5, 6] [0, 0 :: int] = Inr [17, 39]"
  using matrix_multiply_product[of "[1, 2, 3, 4]" 2 2 "[5, 6]" 1 "[0, 0 :: int]"]
  by (simp add: matrix_sizes_def int32_max_def matrix_product_def entry_def upt_rec)

section \<open>The benchmarks run\<close>

lemma user_range_loop_runs:
  assumes body: "\<And>k u st w. J k u \<Longrightarrow> running_state st T 0 M \<Longrightarrow> world_ready True w \<Longrightarrow>
      \<exists>u' w'. f u st w = Inr (u', st, w') \<and> world_ready True w' \<and> J (Suc k) u'"
    and "running_state st T 0 M" "world_ready True w" "J k u" "m < fuel"
  shows "\<exists>u' st' w'. user_range_loop fuel f u (int m) st w = Some (Inr (u', st', w')) \<and> J (k + m) u' \<and>
    control st' = (0, 0, M, True, True, NotSkipped) \<and> world_ready False w'"
  using assms(2-5)
proof (induction fuel arbitrary: m st w k u)
  case (Suc fuel)
  show ?case
  proof (cases m)
    case 0
    obtain st' w' where "FinishKeepRunning st w = Inr (st', w')"
      "control st' = (0, 0, M, True, True, NotSkipped)" "world_ready False w'"
      using FinishKeepRunning_running[OF Suc.prems(1,2)] by blast
    then show ?thesis using 0 Suc.prems(3) by (simp add: StateIterator_neq_def)
  next
    case (Suc m')
    obtain u' w1 where f: "f u st w = Inr (u', st, w1)" "world_ready True w1" "J (Suc k) u'"
      using body[OF Suc.prems(3,1,2)] by blast
    then show ?thesis
      using Suc.IH[OF Suc.prems(1) f(2,3), of m'] Suc.prems(4) Suc
      by (simp add: StateIterator_neq_def StateIterator_incr_def)
  qed
qed simp

text \<open>The loop executes the body \<open>max_iterations\<close> times, and \<open>iterations()\<close> is that number.\<close>

lemma user_range_for_runs:
  assumes "\<And>k u st T M w. J k u \<Longrightarrow> running_state st T 0 M \<Longrightarrow> world_ready True w \<Longrightarrow>
      \<exists>u' w'. f u st w = Inr (u', st, w') \<and> world_ready True w' \<and> J (Suc k) u'"
    and "J 0 u" "fresh st" "world_ready False w" "nat (s_max_iterations st) < fuel"
  shows "\<exists>u' st' w'. user_range_for fuel f u st w = Some (Inr (u', st', w')) \<and>
    J (nat (s_max_iterations st)) u' \<and> iterations st' = s_max_iterations st \<and> s_finished st' \<and> world_ready False w'"
proof -
  let ?M = "s_max_iterations st"
  obtain st1 w1 where start: "StartKeepRunning st w = Inr (st1, w1)" "running_state st1 ?M 0 ?M" "world_ready True w1"
    using StartKeepRunning_fresh[OF assms(3,4)] by blast
  have "1 \<le> ?M" "\<not> skipped st" using assms(3) by (simp_all add: fresh_def control_def skipped_def)
  moreover obtain u' st' w' where "user_range_loop fuel f u (int (nat ?M)) st1 w1 = Some (Inr (u', st', w'))"
    "J (0 + nat ?M) u'" "control st' = (0, 0, ?M, True, True, NotSkipped)" "world_ready False w'"
    using user_range_loop_runs[where J = J and f = f, OF _ start(2,3) assms(2,5)] assms(1)[of _ _ _ ?M ?M] by blast
  ultimately show ?thesis
    using start(1) by (auto simp: user_range_for_def StateIterator_begin_def control_def iterations_def)
qed

text \<open>Two bodies that agree on the data that can occur run alike.\<close>

lemma user_range_loop_cong:
  assumes "J u" and "\<And>u st w. J u \<Longrightarrow> f u st w = f' u st w"
    and "\<And>u u' st w st' w'. J u \<Longrightarrow> f u st w = Inr (u', st', w') \<Longrightarrow> J u'"
  shows "user_range_loop fuel f u cached st w = user_range_loop fuel f' u cached st w"
  using assms(1)
proof (induction fuel arbitrary: u cached st w)
  case (Suc fuel)
  show ?case
    using assms(2)[OF Suc.prems] assms(3)[OF Suc.prems] Suc.IH
    by (simp split: sum.splits prod.splits bool.splits)
qed simp

lemma user_range_for_cong:
  assumes "J u" and "\<And>u st w. J u \<Longrightarrow> f u st w = f' u st w"
    and "\<And>u u' st w st' w'. J u \<Longrightarrow> f u st w = Inr (u', st', w') \<Longrightarrow> J u'"
  shows "user_range_for fuel f u st w = user_range_for fuel f' u st w"
  using user_range_loop_cong[where J = J and u = u and f = f and f' = f', OF assms] by (simp add: user_range_for_def Let_def split: sum.splits)

lemma new_vector_length: "new_vector bytes n x = Inr v \<Longrightarrow> 0 \<le> n \<and> length v = nat n"
  by (auto simp: new_vector_def split: if_splits)

text \<open>The two copying benchmarks, the loop and \<open>memcpy\<close>, are equivalent on every state and machine: the same
  destination, the same counters, the same failures.\<close>

theorem BM_LoopCopy_equiv_BM_MemCpy:
  "BM_LoopCopy fuel ms g st w = BM_MemCpy fuel ms g st w"
proof -
  have loop: "user_range_for fuel (on_data (loop_copy N src)) dst st w =
      user_range_for fuel (on_data (\<lambda>dst. memcpy dst src N)) dst st w"
    if "0 \<le> N" "length src = nat N" "length dst = nat N" for N :: int and src dst :: string
  proof (rule user_range_for_cong[where J = "\<lambda>dst. length dst = nat N"])
    show "on_data (loop_copy N src) u st w = on_data (\<lambda>dst. memcpy dst src N) u st w" if "length u = nat N" for u st w
      using loop_copy_memcpy[of src "nat N" u] that \<open>0 \<le> N\<close> \<open>length src = nat N\<close> by (simp add: on_data_def)
    show "length u' = nat N"
      if "length u = nat N" "on_data (loop_copy N src) u st w = Inr (u', st', w')" for u u' st w st' w'
      using loop_copy_memcpy[of src "nat N" u] that \<open>0 \<le> N\<close> \<open>length src = nat N\<close> by (simp add: on_data_def)
  qed (use that in simp)
  show ?thesis
    unfolding BM_LoopCopy_def BM_MemCpy_def copy_benchmark_def
    by (auto simp: orbind_def rbind_eq_Inr loop dest!: new_vector_length split: option.splits sum.splits)
qed

text \<open>A run of the matrix benchmark: the counters show the operations of all iterations.\<close>

lemma BM_MatrixMultiply_runs:
  assumes "fresh st" "world_ready False w" "nat (s_max_iterations st) < fuel"
    and "s_range st = [int M, int K, int N]" "matrix_sizes M K N" "gl_monitor g = Some mon"
    and small: "int M \<le> int32_max" "int K \<le> int32_max" "int N \<le> int32_max"
    and no_overflow: "rfold chk_mul (s_max_iterations st) [2, int M, int N, int K] = Inr items"
  shows "\<exists>st' w'. BM_MatrixMultiply one two fuel ms g st w =
      Some (Inr (matrix_product M K N (replicate (M * K) one) (replicate (K * N) two),
        g\<lparr>gl_energy_start := readRAPLEnergy mon ms, gl_temp_start := getTemperature ms\<rparr>, st', w')) \<and>
    map_of (s_counters st') ''items_per_second'' = Some \<lparr>c_value = double_of_int items, c_flags = kIsRate, c_oneK = kIs1000\<rparr>"
proof -
  let ?A = "replicate (M * K) one" and ?B = "replicate (K * N) two" and ?C = "replicate (M * N) 0"
  let ?P = "matrix_product M K N ?A ?B"
  have fits: "to_int32 (int n) = int n" if "int n \<le> int32_max" for n
    using that by (intro to_int32_id) (simp add: in_i32_def int32_min_def)
  have vec: "rbind (chk_int in_i32 (int m * int n)) (\<lambda>s. new_vector 4 s x) = Inr (replicate (m * n) x)"
    if "int m * int n \<le> int32_max" for m n and x :: 'a
  proof -
    have "0 \<le> int m * int n" by simp
    then have "in_i32 (int m * int n)" "\<not> int m * int n < 0" "\<not> int m * int n > int64_max div 4"
      using that unfolding in_i32_def int32_min_def int32_max_def int64_max_def by linarith+
    then show ?thesis by (simp add: new_vector_def nat_mult_distrib)
  qed
  obtain C' st1 w1 where run: "user_range_for fuel (on_data (matrix_multiply (int M) (int K) (int N) ?A ?B)) ?C st w =
      Some (Inr (C', st1, w1))"
    and C': "length C' = M * N \<and> (nat (s_max_iterations st) = 0 \<or> C' = ?P)"
    and it: "iterations st1 = s_max_iterations st"
    using user_range_for_runs[where J = "\<lambda>k C. length C = M * N \<and> (k = 0 \<or> C = ?P)"
        and f = "on_data (matrix_multiply (int M) (int K) (int N) ?A ?B)" and u = ?C, OF _ _ assms(1-3)]
      matrix_multiply_value[of ?A M K ?B N, OF _ _ _ assms(5)]
    by (fastforce simp: on_data_def)
  have "C' = ?P" using C' assms(1) by (auto simp: fresh_def)
  moreover have "range_at st 0 = Inr (int M)" "range_at st 1 = Inr (int K)" "range_at st 2 = Inr (int N)"
    using assms(4) by (simp_all add: range_at_def)
  ultimately show ?thesis
    using run it no_overflow assms(5,6) fits[OF small(1)] fits[OF small(2)] fits[OF small(3)]
    by (simp add: map_of_map_put BM_MatrixMultiply_def vec matrix_sizes_def initial_measures_def SetItemsProcessed_def Let_def)
qed

end
