(* ===== verification/Gpu.thy ===== *)
theory Gpu
  imports Kernels
begin

text \<open>
  The GPU benchmarks: src/gpu_benchmarks/gpu_benchmarks.cu.

  The two kernels, run by every thread of a grid in some order; the benchmarks that time them and
  append a row per iteration to a file; the monitor of power and temperature.  The CUDA runtime and
  NVML are parameters (\<open>gpu_env\<close>): what the queries answer, what the events measure, what fresh device
  memory holds.  Allocations and launches are taken to succeed; the source ignores their results.
  Single precision: the kernels are written over any type with \<open>0\<close>, \<open>+\<close>, \<open>*\<close>; elsewhere a \<open>float\<close> is the
  double that holds its value.
\<close>

section \<open>Threads of a grid\<close>

record gpu_thread =
  blockIdx_x :: int
  blockIdx_y :: int
  blockIdx_z :: int
  threadIdx_x :: int
  threadIdx_y :: int
  threadIdx_z :: int

text \<open>\<open>int x = blockIdx.x * blockDim.x + threadIdx.x\<close>, computed in \<open>unsigned int\<close>.\<close>

definition global_index :: "int \<Rightarrow> int \<Rightarrow> int \<Rightarrow> int" where
  "global_index block block_dim thread = to_int32 (block * block_dim + thread)"

text \<open>\<open>(n + block - 1) / block\<close>, in \<open>unsigned int\<close> for an \<open>int\<close> \<open>n\<close>.\<close>

definition grid_size :: "int \<Rightarrow> int \<Rightarrow> int" where
  "grid_size n block = ((n + block - 1) mod 2 ^ 32) div block"

definition grid_threads :: "int \<times> int \<times> int \<Rightarrow> int \<times> int \<times> int \<Rightarrow> gpu_thread list" where
  "grid_threads = (\<lambda>(gx, gy, gz) (bx, by', bz).
     [\<lparr>blockIdx_x = i, blockIdx_y = j, blockIdx_z = k, threadIdx_x = x, threadIdx_y = y, threadIdx_z = z\<rparr>.
        k \<leftarrow> counted gz, j \<leftarrow> counted gy, i \<leftarrow> counted gx, z \<leftarrow> counted bz, y \<leftarrow> counted by', x \<leftarrow> counted bx])"

text \<open>
  A launch: the threads in the order in which they get to run.  A thread reads memory that no thread
  writes and makes one write, so a finer interleaving has the effect of such an order.
\<close>

definition launch :: "(gpu_thread \<Rightarrow> 'm \<Rightarrow> 'm res) \<Rightarrow> gpu_thread list \<Rightarrow> 'm \<Rightarrow> 'm res" where
  "launch kern threads mem = rfold (\<lambda>mem t. kern t mem) mem threads"

section \<open>The kernels\<close>

definition gemm_naive ::
  "'a::{zero,plus,times} list \<Rightarrow> 'a list \<Rightarrow> int \<Rightarrow> int \<Rightarrow> int \<Rightarrow> gpu_thread \<Rightarrow> 'a list \<Rightarrow> 'a list res" where
  "gemm_naive A B M K N t C =
     (let row = global_index (blockIdx_y t) 16 (threadIdx_y t);
          col = global_index (blockIdx_x t) 16 (threadIdx_x t)
      in if row < M \<and> col < N
         then rbind (product_entry K N A B row col) (\<lambda>sum. rbind (index2 row N col) (\<lambda>p. vput C p sum))
         else Inr C)"

text \<open>
  The 7-point stencil; \<open>half\<close> and \<open>sixth\<close> are the literals \<open>0.5f\<close> and \<open>0.0833333f\<close>.  The products
  in the indices are in \<open>int\<close>; the offsets are added to \<open>idx\<close>.
\<close>

definition stencil_value :: "'a::{plus,times} \<Rightarrow> 'a \<Rightarrow> 'a list \<Rightarrow> int \<Rightarrow> int \<Rightarrow> int \<Rightarrow> 'a res" where
  "stencil_value half sixth src X plane idx =
     rbind (vget src idx) (\<lambda>center. rbind (vget src (idx + 1)) (\<lambda>xp. rbind (vget src (idx - 1)) (\<lambda>xm.
     rbind (vget src (idx + X)) (\<lambda>yp. rbind (vget src (idx - X)) (\<lambda>ym.
     rbind (vget src (idx + plane)) (\<lambda>zp. rbind (vget src (idx - plane)) (\<lambda>zm.
     Inr (half * center + sixth * (xp + xm + yp + ym + zp + zm)))))))))"

definition stencil3d_7point ::
  "'a::{plus,times} \<Rightarrow> 'a \<Rightarrow> 'a list \<Rightarrow> int \<Rightarrow> int \<Rightarrow> int \<Rightarrow> gpu_thread \<Rightarrow> 'a list \<Rightarrow> 'a list res" where
  "stencil3d_7point half sixth src X Y Z t dst =
     (let x = global_index (blockIdx_x t) 8 (threadIdx_x t);
          y = global_index (blockIdx_y t) 8 (threadIdx_y t);
          z = global_index (blockIdx_z t) 8 (threadIdx_z t)
      in if x \<le> 0 \<or> y \<le> 0 \<or> z \<le> 0 \<or> x \<ge> X - 1 \<or> y \<ge> Y - 1 \<or> z \<ge> Z - 1 then Inr dst
         else rbind (index2 z Y y) (\<lambda>zy. rbind (index2 zy X x) (\<lambda>idx.
              rbind (chk_int in_i32 (X * Y)) (\<lambda>plane.
              rbind (stencil_value half sixth src X plane idx) (\<lambda>v. vput dst idx v)))))"

section \<open>The monitor and the file\<close>

record gpu_env =
  ge_nvmlInit :: bool
  ge_nvmlDeviceGetHandleByIndex :: bool
  ge_power :: "nat \<Rightarrow> int option"
  ge_temperature :: "nat \<Rightarrow> int option"
  ge_elapsed_ms :: "nat \<Rightarrow> double"
  ge_timestamp :: "nat \<Rightarrow> string"
  ge_can_append :: bool
  ge_active_blocks :: int
  ge_maxThreadsPerMultiProcessor :: int
  ge_threads :: "nat \<Rightarrow> gpu_thread list \<Rightarrow> gpu_thread list"

record GPUMonitor =
  gm_nvml_inited :: bool

definition GPUMonitor_new :: "gpu_env \<Rightarrow> GPUMonitor" where
  "GPUMonitor_new env = \<lparr>gm_nvml_inited = (ge_nvmlInit env \<and> ge_nvmlDeviceGetHandleByIndex env)\<rparr>"

text \<open>The answers are numbered by the query.\<close>

definition getPowerMilliWatts :: "gpu_env \<Rightarrow> GPUMonitor \<Rightarrow> nat \<Rightarrow> int" where
  "getPowerMilliWatts env mon query =
     (if \<not> gm_nvml_inited mon then 0 else (case ge_power env query of None \<Rightarrow> 0 | Some p \<Rightarrow> p))"

definition getTemperatureC :: "gpu_env \<Rightarrow> GPUMonitor \<Rightarrow> nat \<Rightarrow> int" where
  "getTemperatureC env mon query =
     (if \<not> gm_nvml_inited mon then -1
      else (case ge_temperature env query of None \<Rightarrow> -1 | Some t \<Rightarrow> to_int32 t))"

definition appendCsvRow :: "bool \<Rightarrow> string \<Rightarrow> string \<Rightarrow> string" where
  "appendCsvRow can_append row content = (if \<not> can_append then content else content @ row @ ''\<newline>'')"

section \<open>Single precision\<close>

definition round24 :: "rat \<Rightarrow> rat" where
  "round24 r = (if r = 0 then 0
                else let q = pow2 (max (ilog2 \<bar>r\<bar> - 23) (-149)) in of_int (rne (r / q)) * q)"

definition to_float :: "double \<Rightarrow> double" where
  "to_float d = (case d of
       Fin r \<Rightarrow> (let v = round24 r in
         if 2 ^ 128 \<le> \<bar>v\<bar> then Infty (v < 0) else if v = 0 \<and> r < 0 then NegZero else Fin v)
     | _ \<Rightarrow> d)"

definition float_of_int :: "int \<Rightarrow> double" where
  "float_of_int n = to_float (Fin (of_int n))"

definition occupancy_estimate :: "gpu_env \<Rightarrow> int \<Rightarrow> double" where
  "occupancy_estimate env block_threads =
     (let activeThreadsPerSM = to_int32 (ge_active_blocks env * block_threads) in
      if ge_maxThreadsPerMultiProcessor env > 0
      then to_float (to_float (Fin 100 * float_of_int activeThreadsPerSM) /
             float_of_int (ge_maxThreadsPerMultiProcessor env))
      else Fin 0)"

section \<open>The benchmarks\<close>

text \<open>What both benchmarks compute from one timed launch.\<close>

record launch_metrics =
  lm_ms :: double
  lm_time_s :: double
  lm_energy_j :: double
  lm_edp :: double
  lm_temp_c :: int

definition measure_launch :: "gpu_env \<Rightarrow> GPUMonitor \<Rightarrow> nat \<Rightarrow> launch_metrics" where
  "measure_launch env mon k =
     (let p_before = getPowerMilliWatts env mon (2 * k);
          p_after = getPowerMilliWatts env mon (2 * k + 1);
          ms = ge_elapsed_ms env k;
          time_s = ms / Fin 1000;
          avg_power_w = (double_of_int p_before + double_of_int p_after) / Fin 2 / Fin 1000;
          energy_j = avg_power_w * time_s
      in \<lparr>lm_ms = ms, lm_time_s = time_s, lm_energy_j = energy_j, lm_edp = energy_j * time_s,
          lm_temp_c = getTemperatureC env mon k\<rparr>)"

definition result_row ::
  "string \<Rightarrow> string \<Rightarrow> int \<Rightarrow> int \<Rightarrow> int \<Rightarrow> launch_metrics \<Rightarrow> double \<Rightarrow> double \<Rightarrow> string list" where
  "result_row timestamp name X Y Z lm perf occupancy =
     [timestamp, name, show_int X, show_int Y, show_int Z, fmt_f 3 (lm_ms lm), fmt_f 3 perf,
      fmt_f 3 (lm_energy_j lm), show_int (lm_temp_c lm), fmt_f 3 occupancy, fmt_f 3 (lm_edp lm)]"

text \<open>The data of a benchmark: the device buffer, the file, the number of the iteration.\<close>

type_synonym 'a gpu_data = "'a list \<times> string \<times> nat"

definition timed_iteration ::
  "gpu_env \<Rightarrow> (gpu_thread \<Rightarrow> 'a list \<Rightarrow> 'a list res) \<Rightarrow> gpu_thread list \<Rightarrow> (launch_metrics \<Rightarrow> string list) \<Rightarrow>
   GPUMonitor \<Rightarrow> 'a gpu_data \<Rightarrow> State \<Rightarrow> world \<Rightarrow> ('a gpu_data \<times> State \<times> world) res" where
  "timed_iteration env kern threads row mon = (\<lambda>(mem, csv, k) st w.
     rbind (launch kern (ge_threads env k threads) mem) (\<lambda>mem'.
     (let lm = measure_launch env mon k in
      rbind (SetIterationTime (lm_time_s lm) w) (\<lambda>w'.
      Inr ((mem', appendCsvRow (ge_can_append env) (separated '','' (row lm)) csv, Suc k), st, w')))))"

definition gemm_row :: "gpu_env \<Rightarrow> int \<Rightarrow> int \<Rightarrow> int \<Rightarrow> nat \<Rightarrow> launch_metrics \<Rightarrow> string list" where
  "gemm_row env M K N k lm =
     (let gflops = (Fin 2 * double_of_int M * double_of_int N * double_of_int K) / (lm_time_s lm * Fin 1000000000)
      in result_row (ge_timestamp env k) ''GEMM'' M K N lm gflops (occupancy_estimate env (16 * 16)))"

definition stencil_row :: "gpu_env \<Rightarrow> int \<Rightarrow> int \<Rightarrow> int \<Rightarrow> int \<Rightarrow> nat \<Rightarrow> launch_metrics \<Rightarrow> string list" where
  "stencil_row env inner X Y Z k lm =
     (let bytes = double_of_int inner * Fin 8 * Fin 4;
          bandwidth_GBps = (bytes / lm_time_s lm) / Fin 1000000000
      in result_row (ge_timestamp env k) ''STENCIL3D'' X Y Z lm bandwidth_GBps (occupancy_estimate env (8 * 8 * 8)))"

text \<open>A vector of \<open>size_t\<close> many floats.\<close>

definition float_vector :: "int \<Rightarrow> 'a \<Rightarrow> 'a list res" where
  "float_vector n x = (if n mod 2 ^ 64 > int64_max div 4 then Inl (Threw ''std::length_error: vector'')
     else Inr (replicate (nat (n mod 2 ^ 64)) x))"

definition BM_GEMM_GPU ::
  "gpu_env \<Rightarrow> (nat \<Rightarrow> 'a list) \<Rightarrow> 'a::{zero,one,plus,times} itself \<Rightarrow> nat \<Rightarrow> string \<Rightarrow> State \<Rightarrow> world \<Rightarrow>
   ('a list \<times> string \<times> State \<times> world) res option" where
  "BM_GEMM_GPU env fresh_memory T fuel csv st w =
     orbind (Some (rbind (range_at st 0) (\<lambda>m. rbind (range_at st 1) (\<lambda>k. rbind (range_at st 2) (\<lambda>n.
       let M = to_int32 m; K = to_int32 k; N = to_int32 n in
       rbind (float_vector (M * K) (1 :: 'a)) (\<lambda>hA. rbind (float_vector (K * N) (1 :: 'a)) (\<lambda>hB.
       rbind (float_vector (M * N) (0 :: 'a)) (\<lambda>hC. Inr (M, K, N, hA, hB, hC)))))))))
     (\<lambda>(M, K, N, hA, hB, hC).
     let threads = grid_threads (grid_size N 16, grid_size M 16, 1) (16, 16, 1);
         mon = GPUMonitor_new env
     in orbind (user_range_for fuel
          (\<lambda>u. timed_iteration env (gemm_naive hA hB M K N) threads (gemm_row env M K N (snd (snd u))) mon u)
          (fresh_memory (length hC), csv, 0) st w) (\<lambda>((dC, csv', _), st1, w1).
     Some (rbind (rfold chk_mul (iterations st1) [2, M, N, K]) (\<lambda>items.
       Inr (dC, csv', SetItemsProcessed items st1, w1)))))"

text \<open>\<open>(X-2)*(Y-2)*(Z-2)\<close> is a product of \<open>int\<close>s.\<close>

definition chk_mul32 :: "int \<Rightarrow> int \<Rightarrow> int res" where
  "chk_mul32 x y = chk_int in_i32 (x * y)"

definition interior_points :: "int \<Rightarrow> int res" where
  "interior_points d = rbind (chk_int in_i32 (d - 2)) (\<lambda>e. rfold chk_mul32 e [e, e])"

definition BM_Stencil3D_GPU ::
  "gpu_env \<Rightarrow> (nat \<Rightarrow> 'a list) \<Rightarrow> 'a::{zero,one,plus,times} \<Rightarrow> 'a \<Rightarrow> nat \<Rightarrow> string \<Rightarrow> State \<Rightarrow> world \<Rightarrow>
   ('a list \<times> string \<times> State \<times> world) res option" where
  "BM_Stencil3D_GPU env fresh_memory half sixth fuel csv st w =
     orbind (Some (rbind (range_at st 0) (\<lambda>dim0.
       let d = to_int32 dim0 in
       rbind (float_vector (d * d * d) (1 :: 'a)) (\<lambda>hA. rbind (float_vector (d * d * d) (0 :: 'a)) (\<lambda>hB.
       Inr (d, hA, hB))))))
     (\<lambda>(d, hA, hB).
     let g = grid_size d 8;
         threads = grid_threads (g, g, g) (8, 8, 8);
         mon = GPUMonitor_new env
     in orbind (user_range_for fuel
          (\<lambda>u st w. rbind (interior_points d) (\<lambda>inner.
            timed_iteration env (stencil3d_7point half sixth hA d d d) threads
              (stencil_row env inner d d d (snd (snd u))) mon u st w))
          (fresh_memory (length hB), csv, 0) st w) (\<lambda>((dDst, csv', _), st1, w1).
     Some (rbind (rbind (interior_points d) (chk_mul (iterations st1))) (\<lambda>items.
       Inr (dDst, csv', SetItemsProcessed items st1, w1)))))"

section \<open>Registration and main\<close>

definition register_GEMM_GPU :: "builder_call list" where
  "register_GEMM_GPU = [CArgs [128, 128, 128], CArgs [256, 256, 256], CArgs [512, 512, 512], CUseManualTime]"

definition register_Stencil3D_GPU :: "builder_call list" where
  "register_Stencil3D_GPU = [CArg 64, CArg 96, CArg 128, CUseManualTime]"

text \<open>The header is written only when the file is empty; \<open>None\<close> when it cannot be opened.\<close>

definition csv_start :: "string option \<Rightarrow> string option" where
  "csv_start content = map_option (\<lambda>c. if c = []
     then ''timestamp,benchmark,M,K,N,time_ms,perf,energy_j,temp_c,occupancy,edp\<newline>'' else c) content"

section \<open>What a launch does to memory\<close>

text \<open>
  When every thread writes at most one cell, and what it writes there does not depend on the memory,
  the result of a launch does not depend on the order of the threads.
\<close>

lemma launch_writes:
  assumes "length mem = n" "length goal = n"
    and "\<And>t mem. t \<in> set ts \<Longrightarrow> length mem = n \<Longrightarrow>
      kern t mem = Inr (case target t of None \<Rightarrow> mem | Some p \<Rightarrow> mem[p := goal ! p])"
  shows "launch kern ts mem = Inr (map (\<lambda>p. if \<exists>t \<in> set ts. target t = Some p then goal ! p else mem ! p) [0..<n])"
  using assms(1,3)
proof (induction ts arbitrary: mem)
  case Nil
  then show ?case using map_nth[of mem] by (simp add: launch_def)
next
  case (Cons t ts)
  define mem1 where "mem1 = (case target t of None \<Rightarrow> mem | Some p \<Rightarrow> mem[p := goal ! p])"
  have "kern t mem = Inr mem1" "length mem1 = n"
    using Cons.prems by (auto simp: mem1_def split: option.splits)
  then have "launch kern (t # ts) mem =
      Inr (map (\<lambda>p. if \<exists>t \<in> set ts. target t = Some p then goal ! p else mem1 ! p) [0..<n])"
    using Cons.IH[of mem1] Cons.prems(2) by (simp add: launch_def)
  moreover have "(if \<exists>t \<in> set ts. target t = Some p then goal ! p else mem1 ! p) =
      (if \<exists>t \<in> set (t # ts). target t = Some p then goal ! p else mem ! p)" if "p < n" for p
    using that Cons.prems(1) by (auto simp: mem1_def nth_list_update split: option.splits)
  ultimately show ?case by simp
qed

lemma set_counted: "set (counted n) = {i. 0 \<le> i \<and> i < n}"
  by (auto simp: counted_def)

lemma grid_threads_iff:
  "t \<in> set (grid_threads (gx, gy, gz) (bx, by', bz)) \<longleftrightarrow>
     0 \<le> blockIdx_x t \<and> blockIdx_x t < gx \<and> 0 \<le> blockIdx_y t \<and> blockIdx_y t < gy \<and>
     0 \<le> blockIdx_z t \<and> blockIdx_z t < gz \<and> 0 \<le> threadIdx_x t \<and> threadIdx_x t < bx \<and>
     0 \<le> threadIdx_y t \<and> threadIdx_y t < by' \<and> 0 \<le> threadIdx_z t \<and> threadIdx_z t < bz"
  by (cases t) (auto simp: grid_threads_def set_counted image_iff)

text \<open>A grid covers \<open>n\<close> positions with blocks of \<open>b\<close> threads, and goes past \<open>n\<close> by less than a block.\<close>

lemma grid_size_covers:
  assumes "0 < b" "b \<le> 16" "int n \<le> int32_max - 15"
  shows "0 \<le> block \<Longrightarrow> block < grid_size (int n) b \<Longrightarrow> 0 \<le> thread \<Longrightarrow> thread < b \<Longrightarrow>
      global_index block b thread = block * b + thread"
    and "i < n \<Longrightarrow> int i div b < grid_size (int n) b"
proof -
  have small: "(int n + b - 1) mod 2 ^ 32 = int n + b - 1" using assms by (simp add: int32_max_def)
  then have g: "grid_size (int n) b = (int n + b - 1) div b" by (simp add: grid_size_def)
  show "global_index block b thread = block * b + thread"
    if "0 \<le> block" "block < grid_size (int n) b" "0 \<le> thread" "thread < b"
  proof -
    have "(block + 1) * b \<le> ((int n + b - 1) div b) * b" using that(2) g assms(1) by (intro mult_right_mono) simp_all
    also have "\<dots> \<le> int n + b - 1" using div_mult_mod_eq[of "int n + b - 1" b] pos_mod_sign[OF assms(1), of "int n + b - 1"] by linarith
    finally have "block * b + thread \<le> int32_max"
      using that(4) assms(2,3) by (simp add: algebra_simps)
    moreover have "0 \<le> block * b + thread" using that assms(1) by simp
    ultimately have "in_i32 (block * b + thread)" by (simp add: in_i32_def int32_min_def)
    then show ?thesis by (simp add: global_index_def to_int32_id)
  qed
  show "int i div b < grid_size (int n) b" if "i < n"
  proof -
    have "int i div b \<le> (int n - 1) div b" using that assms(1) by (intro zdiv_mono1) simp_all
    also have "\<dots> < (int n + b - 1) div b"
      using div_add_self2[of b "int n - 1"] assms(1) by (simp add: algebra_simps)
    finally show ?thesis by (simp add: g)
  qed
qed

section \<open>The matrix kernel\<close>

definition gemm_target :: "nat \<Rightarrow> nat \<Rightarrow> gpu_thread \<Rightarrow> nat option" where
  "gemm_target M N t =
     (let row = blockIdx_y t * 16 + threadIdx_y t; col = blockIdx_x t * 16 + threadIdx_x t
      in if row < int M \<and> col < int N then Some (nat row * N + nat col) else None)"

lemma gemm_thread:
  assumes "length A = M * K" "length B = K * N" "matrix_sizes M K N"
    and "int M \<le> int32_max - 15" "int N \<le> int32_max - 15"
    and "t \<in> set (grid_threads (grid_size (int N) 16, grid_size (int M) 16, 1) (16, 16, 1))" "length C = M * N"
  shows "gemm_naive A B (int M) (int K) (int N) t C =
    Inr (case gemm_target M N t of None \<Rightarrow> C | Some p \<Rightarrow> C[p := matrix_product M K N A B ! p])"
proof -
  define row where "row = blockIdx_y t * 16 + threadIdx_y t"
  define col where "col = blockIdx_x t * 16 + threadIdx_x t"
  note t = assms(6)[unfolded grid_threads_iff]
  have index: "global_index (blockIdx_y t) 16 (threadIdx_y t) = row" "global_index (blockIdx_x t) 16 (threadIdx_x t) = col"
    using grid_size_covers(1)[of 16 M] grid_size_covers(1)[of 16 N] t assms(4,5) by (auto simp: row_def col_def)
  have nonneg: "0 \<le> row" "0 \<le> col" using t by (simp_all add: row_def col_def)
  show ?thesis
  proof (cases "row < int M \<and> col < int N")
    case True
    then obtain i j where ij: "row = int i" "col = int j" "i < M" "j < N"
      using nonneg by (metis nonneg_int_cases of_nat_less_iff)
    have "vput C (int (i * N + j)) (entry K N A B i j) = Inr (C[i * N + j := matrix_product M K N A B ! (i * N + j)])"
      using vput_in[of "i * N + j" C] cell_bound[OF ij(3,4)] nth_matrix_product[OF ij(3,4), of K A B] assms(7) by simp
    moreover have "index2 row (int N) col = Inr (int (i * N + j))"
      using index2_in[OF ij(3,4)] assms(3) ij by (simp add: matrix_sizes_def)
    ultimately show ?thesis
      using product_entry_value[OF assms(1-3) ij(3,4)] ij
      by (simp add: gemm_naive_def index gemm_target_def Let_def flip: row_def col_def)
  next
    case False
    then show ?thesis
      unfolding gemm_naive_def index gemm_target_def Let_def row_def[symmetric] col_def[symmetric] by (simp only: if_False option.case)
  qed
qed

lemma gemm_covers:
  assumes "int M \<le> int32_max - 15" "int N \<le> int32_max - 15" "p < M * N"
  shows "\<exists>t \<in> set (grid_threads (grid_size (int N) 16, grid_size (int M) 16, 1) (16, 16, 1)). gemm_target M N t = Some p"
proof -
  have N: "0 < N" using assms(3) by (cases N) simp_all
  then have ij: "p div N < M" "p mod N < N" using assms(3) by (simp_all add: less_mult_imp_div_less)
  let ?i = "int (p div N)" and ?j = "int (p mod N)"
  let ?t = "\<lparr>blockIdx_x = ?j div 16, blockIdx_y = ?i div 16, blockIdx_z = 0,
    threadIdx_x = ?j mod 16, threadIdx_y = ?i mod 16, threadIdx_z = 0\<rparr>"
  have "?t \<in> set (grid_threads (grid_size (int N) 16, grid_size (int M) 16, 1) (16, 16, 1))"
    using grid_size_covers(2)[of 16 M "p div N"] grid_size_covers(2)[of 16 N "p mod N"] ij assms(1,2)
    unfolding grid_threads_iff by (simp add: pos_imp_zdiv_nonneg_iff)
  moreover have "gemm_target M N ?t = Some p"
    using ij by (simp add: gemm_target_def Let_def)
  ultimately show ?thesis by blast
qed

lemma gemm_grid:
  assumes "length A = M * K" "length B = K * N" "length C = M * N" "matrix_sizes M K N"
    and "int M \<le> int32_max - 15" "int N \<le> int32_max - 15"
    and "set ts = set (grid_threads (grid_size (int N) 16, grid_size (int M) 16, 1) (16, 16, 1))"
  shows "launch (gemm_naive A B (int M) (int K) (int N)) ts C = Inr (matrix_product M K N A B)"
proof -
  let ?P = "matrix_product M K N A B"
  let ?written = "\<lambda>p. \<exists>t \<in> set ts. gemm_target M N t = Some p"
  have "launch (gemm_naive A B (int M) (int K) (int N)) ts C = Inr (map (\<lambda>p. if ?written p then ?P ! p else C ! p) [0..<M * N])"
    by (rule launch_writes) (use assms(3) gemm_thread[OF assms(1,2,4-6)] in \<open>auto simp: assms(7)\<close>)
  moreover have "map (\<lambda>p. if ?written p then ?P ! p else C ! p) [0..<M * N] = ?P"
    by (rule nth_equalityI) (use gemm_covers[OF assms(5,6)] in \<open>auto simp: assms(7)\<close>)
  ultimately show ?thesis by simp
qed

text \<open>C19: The GPU matrix kernel, run by all the threads of the grid that the benchmark launches, in any
  order, leaves in \<open>C\<close> the product of the two matrices: exactly what the nested loops of the CPU
  benchmark compute, whatever \<open>C\<close> held; the threads beyond the edges write nothing.\<close>

theorem gemm_grid_product:
  assumes "length A = M * K" "length B = K * N" "length C = M * N" "matrix_sizes M K N"
    and "int M \<le> int32_max - 15" "int N \<le> int32_max - 15"
    and "set ts = set (grid_threads (grid_size (int N) 16, grid_size (int M) 16, 1) (16, 16, 1))"
  shows "launch (gemm_naive A B (int M) (int K) (int N)) ts C = Inr (matrix_product M K N A B) \<and>
    launch (gemm_naive A B (int M) (int K) (int N)) ts C = matrix_multiply (int M) (int K) (int N) A B C"
  using gemm_grid[OF assms] matrix_multiply_value[OF assms(1-4)] by simp

theorem gemm_grid_product_witness:
  "launch (gemm_naive [1, 2, 3, 4] [5, 6] 2 2 1)
     (rev (grid_threads (grid_size 1 16, grid_size 2 16, 1) (16, 16, 1))) [0, 0 :: int] = Inr [17, 39]"
  using gemm_grid_product[of "[1, 2, 3, 4]" 2 2 "[5, 6]" 1 "[0, 0 :: int]"
      "rev (grid_threads (grid_size 1 16, grid_size 2 16, 1) (16, 16, 1))"]
  by (simp add: matrix_sizes_def int32_max_def matrix_product_def entry_def upt_rec)

section \<open>A run of the benchmark\<close>

text \<open>A run of the matrix benchmark appends one row per iteration to the file.\<close>

lemma timed_iteration_ready:
  assumes "launch kern (ge_threads env k threads) mem = Inr mem'" "world_ready True w"
  shows "\<exists>w'. timed_iteration env kern threads row mon (mem, csv, k) st w =
      Inr ((mem', appendCsvRow (ge_can_append env) (separated '','' (row (measure_launch env mon k))) csv, Suc k), st, w') \<and>
    world_ready True w'"
  using assms
  by (auto simp: timed_iteration_def SetIterationTime_def Timer_SetIterationTime_def the_timer_def world_ready_def Let_def)

definition gemm_rows :: "gpu_env \<Rightarrow> nat \<Rightarrow> nat \<Rightarrow> nat \<Rightarrow> nat \<Rightarrow> string" where
  "gemm_rows env M K N n = concat (map (\<lambda>k. separated '',''
     (gemm_row env (int M) (int K) (int N) k (measure_launch env (GPUMonitor_new env) k)) @ ''\<newline>'') [0..<n])"

lemma float_vector_of_product:
  assumes "int m * int n \<le> int32_max"
  shows "float_vector (int m * int n) x = Inr (replicate (m * n) x)"
proof -
  have "0 \<le> int m * int n" by simp
  then have "(int m * int n) mod 2 ^ 64 = int m * int n" "\<not> int m * int n > int64_max div 4"
    using assms unfolding int32_max_def int64_max_def by (simp_all add: mod_pos_pos_trivial)
  then show ?thesis by (simp add: float_vector_def nat_mult_distrib)
qed

lemma BM_GEMM_GPU_runs:
  fixes fresh_memory :: "nat \<Rightarrow> 'a::{zero,one,plus,times} list"
  assumes "fresh st" "world_ready False w" "nat (s_max_iterations st) < fuel"
    and "s_range st = [int M, int K, int N]" "matrix_sizes M K N"
    and "int M \<le> int32_max - 15" "int K \<le> int32_max" "int N \<le> int32_max - 15"
    and "\<forall>n. length (fresh_memory n) = n" "\<forall>k ts. set (ge_threads env k ts) = set ts" "ge_can_append env"
    and "rfold chk_mul (s_max_iterations st) [2, int M, int N, int K] = Inr items"
  shows "\<exists>st' w'. BM_GEMM_GPU env fresh_memory TYPE('a) fuel csv st w =
    Some (Inr (matrix_product M K N (replicate (M * K) 1) (replicate (K * N) 1),
      csv @ gemm_rows env M K N (nat (s_max_iterations st)), st', w'))"
proof -
  let ?A = "replicate (M * K) (1 :: 'a)" and ?B = "replicate (K * N) (1 :: 'a)" and ?mon = "GPUMonitor_new env"
  let ?P = "matrix_product M K N ?A ?B" and ?n = "nat (s_max_iterations st)"
  let ?threads = "grid_threads (grid_size (int N) 16, grid_size (int M) 16, 1) (16, 16, 1)"
  let ?body = "\<lambda>u. timed_iteration env (gemm_naive ?A ?B (int M) (int K) (int N)) ?threads
    (gemm_row env (int M) (int K) (int N) (snd (snd u))) ?mon u"
  let ?J = "\<lambda>k (mem, c, k'). k' = k \<and> length mem = M * N \<and> (k = 0 \<or> mem = ?P) \<and> c = csv @ gemm_rows env M K N k"
  have body: "\<exists>u' w'. ?body u st w = Inr (u', st, w') \<and> world_ready True w' \<and> ?J (Suc k) u'"
    if J: "?J k u" and ready: "world_ready True w" for k u st w
  proof -
    obtain mem where u: "u = (mem, csv @ gemm_rows env M K N k, k)" "length mem = M * N" using J by auto
    have "launch (gemm_naive ?A ?B (int M) (int K) (int N)) (ge_threads env k ?threads) mem = Inr ?P"
      using gemm_grid[of ?A M K ?B N mem "ge_threads env k ?threads"] u(2) assms(5,6,8,10) by simp
    from timed_iteration_ready[OF this ready] show ?thesis
      using assms(11) by (fastforce simp: u(1) gemm_rows_def appendCsvRow_def)
  qed
  obtain mem c k' st1 w1 where run: "user_range_for fuel ?body (fresh_memory (M * N), csv, 0) st w = Some (Inr ((mem, c, k'), st1, w1))"
    "?J ?n (mem, c, k')" "iterations st1 = s_max_iterations st"
    using user_range_for_runs[where J = ?J and f = ?body and u = "(fresh_memory (M * N), csv, 0)", OF _ _ assms(1-3)] body assms(9)
    by (fastforce simp: gemm_rows_def)
  have fits: "to_int32 (int M) = int M" "to_int32 (int K) = int K" "to_int32 (int N) = int N"
    using assms(6-8) by (intro to_int32_id; simp add: in_i32_def int32_min_def)+
  have "range_at st 0 = Inr (int M)" "range_at st 1 = Inr (int K)" "range_at st 2 = Inr (int N)"
    using assms(4) by (simp_all add: range_at_def)
  moreover have "?n \<noteq> 0" using assms(1) by (simp add: fresh_def)
  ultimately show ?thesis
    using run assms(12) assms(5)
    by (simp add: BM_GEMM_GPU_def fits float_vector_of_product matrix_sizes_def Let_def)
qed

section \<open>The stencil kernel\<close>

abbreviation cell3 :: "nat \<Rightarrow> nat \<Rightarrow> nat \<Rightarrow> nat \<Rightarrow> nat \<Rightarrow> nat" where
  "cell3 X Y x y z \<equiv> (z * Y + y) * X + x"

definition inner_point :: "nat \<Rightarrow> nat \<Rightarrow> nat \<Rightarrow> nat \<times> nat \<times> nat \<Rightarrow> bool" where
  "inner_point X Y Z = (\<lambda>(x, y, z). 0 < x \<and> 0 < y \<and> 0 < z \<and> x + 1 < X \<and> y + 1 < Y \<and> z + 1 < Z)"

text \<open>The specification: an interior cell gets the weighted sum of itself and its six neighbours.\<close>

definition stencil_cell :: "'a::{plus,times} \<Rightarrow> 'a \<Rightarrow> 'a list \<Rightarrow> nat \<Rightarrow> nat \<Rightarrow> nat \<Rightarrow> nat \<Rightarrow> nat \<Rightarrow> 'a" where
  "stencil_cell half sixth src X Y x y z =
     half * src ! cell3 X Y x y z + sixth * (src ! cell3 X Y (x + 1) y z + src ! cell3 X Y (x - 1) y z +
       src ! cell3 X Y x (y + 1) z + src ! cell3 X Y x (y - 1) z +
       src ! cell3 X Y x y (z + 1) + src ! cell3 X Y x y (z - 1))"

definition coordinates :: "nat \<Rightarrow> nat \<Rightarrow> nat \<Rightarrow> nat \<times> nat \<times> nat" where
  "coordinates X Y p = (p mod X, p div X mod Y, p div X div Y)"

definition stencil_reference :: "'a::{plus,times} \<Rightarrow> 'a \<Rightarrow> 'a list \<Rightarrow> nat \<Rightarrow> nat \<Rightarrow> nat \<Rightarrow> 'a list \<Rightarrow> 'a list" where
  "stencil_reference half sixth src X Y Z dst =
     map (\<lambda>p. let (x, y, z) = coordinates X Y p in
            if inner_point X Y Z (x, y, z) then stencil_cell half sixth src X Y x y z else dst ! p) [0..<Z * Y * X]"

lemma cell3_bound: "x < X \<Longrightarrow> y < Y \<Longrightarrow> z < Z \<Longrightarrow> cell3 X Y x y z < Z * Y * X"
  by (intro cell_bound)

lemma coordinates_cell3: "x < X \<Longrightarrow> y < Y \<Longrightarrow> coordinates X Y (cell3 X Y x y z) = (x, y, z)"
  by (simp add: coordinates_def)

lemma nth_stencil_reference:
  assumes "inner_point X Y Z (x, y, z)"
  shows "stencil_reference half sixth src X Y Z dst ! cell3 X Y x y z = stencil_cell half sixth src X Y x y z"
proof -
  have "x < X" "y < Y" "z < Z" using assms by (auto simp: inner_point_def)
  then show ?thesis
    using cell3_bound[of x X y Y z Z] assms by (simp add: stencil_reference_def coordinates_cell3)
qed

definition grid_sizes :: "nat \<Rightarrow> nat \<Rightarrow> nat \<Rightarrow> bool" where
  "grid_sizes X Y Z \<longleftrightarrow> int Z * int Y * int X \<le> int32_max \<and>
     int X \<le> int32_max - 15 \<and> int Y \<le> int32_max - 15 \<and> int Z \<le> int32_max - 15"

text \<open>Inside, none of the seven reads is out of range and the index arithmetic does not overflow.\<close>

lemma stencil_value_inner:
  assumes "inner_point X Y Z (x, y, z)" "length src = Z * Y * X"
  shows "stencil_value half sixth src (int X) (int X * int Y) (int (cell3 X Y x y z)) =
    Inr (stencil_cell half sixth src X Y x y z)"
proof -
  have xyz: "0 < x" "0 < y" "0 < z" "x + 1 < X" "y + 1 < Y" "z + 1 < Z" using assms(1) by (auto simp: inner_point_def)
  then obtain x' y' z' where pred: "x = Suc x'" "y = Suc y'" "z = Suc z'" by (metis gr0_implies_Suc)
  let ?c = "int (cell3 X Y x y z)"
  have moves: "?c + 1 = int (cell3 X Y (x + 1) y z)" "?c - 1 = int (cell3 X Y (x - 1) y z)"
    "?c + int X = int (cell3 X Y x (y + 1) z)" "?c - int X = int (cell3 X Y x (y - 1) z)"
    "?c + int X * int Y = int (cell3 X Y x y (z + 1))" "?c - int X * int Y = int (cell3 X Y x y (z - 1))"
    by (simp_all add: pred algebra_simps)
  have reads: "vget src (int (cell3 X Y a b c)) = Inr (src ! cell3 X Y a b c)" if "a < X" "b < Y" "c < Z" for a b c
    using cell3_bound[OF that] assms(2) by (intro vget_in) simp
  have "vget src ?c = Inr (src ! cell3 X Y x y z)"
    "vget src (int (cell3 X Y (x + 1) y z)) = Inr (src ! cell3 X Y (x + 1) y z)"
    "vget src (int (cell3 X Y (x - 1) y z)) = Inr (src ! cell3 X Y (x - 1) y z)"
    "vget src (int (cell3 X Y x (y + 1) z)) = Inr (src ! cell3 X Y x (y + 1) z)"
    "vget src (int (cell3 X Y x (y - 1) z)) = Inr (src ! cell3 X Y x (y - 1) z)"
    "vget src (int (cell3 X Y x y (z + 1))) = Inr (src ! cell3 X Y x y (z + 1))"
    "vget src (int (cell3 X Y x y (z - 1))) = Inr (src ! cell3 X Y x y (z - 1))"
    using xyz by (intro reads; linarith)+
  then show ?thesis unfolding stencil_value_def moves stencil_cell_def by (simp only: rbind_Inr)
qed

definition stencil_target :: "nat \<Rightarrow> nat \<Rightarrow> nat \<Rightarrow> gpu_thread \<Rightarrow> nat option" where
  "stencil_target X Y Z t =
     (let x = nat (blockIdx_x t * 8 + threadIdx_x t); y = nat (blockIdx_y t * 8 + threadIdx_y t);
          z = nat (blockIdx_z t * 8 + threadIdx_z t)
      in if inner_point X Y Z (x, y, z) then Some (cell3 X Y x y z) else None)"

abbreviation stencil_grid :: "nat \<Rightarrow> nat \<Rightarrow> nat \<Rightarrow> gpu_thread list" where
  "stencil_grid X Y Z \<equiv> grid_threads (grid_size (int X) 8, grid_size (int Y) 8, grid_size (int Z) 8) (8, 8, 8)"

lemma stencil_thread:
  assumes "length src = Z * Y * X" "length dst0 = Z * Y * X" "grid_sizes X Y Z"
    and "t \<in> set (stencil_grid X Y Z)" "length dst = Z * Y * X"
  shows "stencil3d_7point half sixth src (int X) (int Y) (int Z) t dst =
    Inr (case stencil_target X Y Z t of None \<Rightarrow> dst
         | Some p \<Rightarrow> dst[p := stencil_reference half sixth src X Y Z dst0 ! p])"
proof -
  note t = assms(4)[unfolded grid_threads_iff] and sizes = assms(3)[unfolded grid_sizes_def]
  define x y z where xyz_def: "x = nat (blockIdx_x t * 8 + threadIdx_x t)" "y = nat (blockIdx_y t * 8 + threadIdx_y t)"
    "z = nat (blockIdx_z t * 8 + threadIdx_z t)"
  have xyz: "blockIdx_x t * 8 + threadIdx_x t = int x" "blockIdx_y t * 8 + threadIdx_y t = int y"
    "blockIdx_z t * 8 + threadIdx_z t = int z"
    using t by (simp_all add: xyz_def)
  have index: "global_index (blockIdx_x t) 8 (threadIdx_x t) = int x" "global_index (blockIdx_y t) 8 (threadIdx_y t) = int y"
    "global_index (blockIdx_z t) 8 (threadIdx_z t) = int z"
    using grid_size_covers(1)[of 8 X] grid_size_covers(1)[of 8 Y] grid_size_covers(1)[of 8 Z] t sizes xyz by auto
  have guard: "\<not> (int x \<le> 0 \<or> int y \<le> 0 \<or> int z \<le> 0 \<or> int x \<ge> int X - 1 \<or> int y \<ge> int Y - 1 \<or> int z \<ge> int Z - 1) \<longleftrightarrow>
      inner_point X Y Z (x, y, z)"
    by (auto simp: inner_point_def)
  show ?thesis
  proof (cases "inner_point X Y Z (x, y, z)")
    case True
    then have inside: "x < X" "y < Y" "z < Z" by (auto simp: inner_point_def)
    have "1 \<le> int X" using inside by simp
    then have "int Z * int Y * 1 \<le> int Z * int Y * int X" by (intro mult_left_mono) simp_all
    then have "int Z * int Y \<le> int32_max" using sizes by linarith
    then have zy: "index2 (int z) (int Y) (int y) = Inr (int (z * Y + y))"
      using index2_in[of z Z y Y] inside by simp
    have idx: "index2 (int (z * Y + y)) (int X) (int x) = Inr (int (cell3 X Y x y z))"
      using index2_in[of "z * Y + y" "Z * Y" x X] cell_bound[OF inside(3,2)] inside(1) sizes by simp
    have "1 \<le> int Z" using inside by simp
    then have "1 * (int X * int Y) \<le> int Z * (int X * int Y)" by (intro mult_right_mono) simp_all
    then have "int X * int Y \<le> int32_max" using sizes by (simp add: ac_simps)
    moreover have "0 \<le> int X * int Y" by simp
    ultimately have "in_i32 (int X * int Y)" unfolding in_i32_def int32_min_def by linarith
    then have plane: "chk_int in_i32 (int X * int Y) = Inr (int X * int Y)" by simp
    have "cell3 X Y x y z < length dst" using cell3_bound[OF inside] assms(5) by simp
    then show ?thesis
      using True stencil_value_inner[OF True assms(1), of half sixth] guard
      by (simp add: stencil3d_7point_def index zy idx plane Let_def stencil_target_def xyz nth_stencil_reference[OF True]
          vput_in del: of_nat_add of_nat_mult)
  next
    case False
    then show ?thesis using guard by (auto simp: stencil3d_7point_def index Let_def stencil_target_def xyz)
  qed
qed

lemma stencil_covers:
  assumes "grid_sizes X Y Z" "inner_point X Y Z (x, y, z)"
  shows "\<exists>t \<in> set (stencil_grid X Y Z). stencil_target X Y Z t = Some (cell3 X Y x y z)"
proof -
  let ?t = "\<lparr>blockIdx_x = int x div 8, blockIdx_y = int y div 8, blockIdx_z = int z div 8,
    threadIdx_x = int x mod 8, threadIdx_y = int y mod 8, threadIdx_z = int z mod 8\<rparr>"
  have "x < X" "y < Y" "z < Z" using assms(2) by (auto simp: inner_point_def)
  then have "?t \<in> set (stencil_grid X Y Z)"
    using grid_size_covers(2)[of 8 X x] grid_size_covers(2)[of 8 Y y] grid_size_covers(2)[of 8 Z z] assms(1)
    unfolding grid_threads_iff by (simp add: pos_imp_zdiv_nonneg_iff grid_sizes_def)
  moreover have "stencil_target X Y Z ?t = Some (cell3 X Y x y z)"
    using assms(2) by (simp add: stencil_target_def Let_def)
  ultimately show ?thesis by blast
qed

text \<open>C24: The GPU stencil kernel, run by all the threads of the grid in any order, computes the 7-point
  stencil of every interior cell and leaves the cells of the faces alone; it reads only inside \<open>src\<close>
  and no index overflows as long as the grid has at most \<open>INT_MAX\<close> cells.\<close>

theorem stencil_grid_reference:
  assumes "length src = Z * Y * X" "length dst = Z * Y * X" "grid_sizes X Y Z"
    and "set ts = set (stencil_grid X Y Z)"
  shows "launch (stencil3d_7point half sixth src (int X) (int Y) (int Z)) ts dst =
    Inr (stencil_reference half sixth src X Y Z dst)"
proof -
  let ?R = "stencil_reference half sixth src X Y Z dst" and ?n = "Z * Y * X"
  let ?written = "\<lambda>p. \<exists>t \<in> set ts. stencil_target X Y Z t = Some p"
  have "launch (stencil3d_7point half sixth src (int X) (int Y) (int Z)) ts dst =
      Inr (map (\<lambda>p. if ?written p then ?R ! p else dst ! p) [0..<?n])"
    by (rule launch_writes)
      (use assms(2) stencil_thread[OF assms(1-3)] in \<open>auto simp: assms(4) stencil_reference_def\<close>)
  moreover have "map (\<lambda>p. if ?written p then ?R ! p else dst ! p) [0..<?n] = ?R"
  proof (rule nth_equalityI)
    fix p assume "p < length (map (\<lambda>p. if ?written p then ?R ! p else dst ! p) [0..<?n])"
    then have p: "p < ?n" by simp
    obtain x y z where c: "coordinates X Y p = (x, y, z)" by (cases "coordinates X Y p")
    then have cell: "cell3 X Y x y z = p" by (auto simp: coordinates_def)
    have "?written p" if "inner_point X Y Z (x, y, z)"
      using stencil_covers[OF assms(3) that] assms(4) cell by simp
    then show "map (\<lambda>p. if ?written p then ?R ! p else dst ! p) [0..<?n] ! p = ?R ! p"
      using p c by (auto simp: stencil_reference_def)
  qed (simp add: stencil_reference_def)
  ultimately show ?thesis by simp
qed

theorem stencil_grid_reference_witness:
  "launch (stencil3d_7point 2 1 (replicate 27 (1 :: int)) 3 3 3) (stencil_grid 3 3 3) (replicate 27 0) =
     Inr (stencil_reference 2 1 (replicate 27 1) 3 3 3 (replicate 27 0)) \<and>
   stencil_reference 2 1 (replicate 27 (1 :: int)) 3 3 3 (replicate 27 0) ! 13 = 8"
proof -
  have "grid_sizes 3 3 3" by (simp add: grid_sizes_def int32_max_def)
  then have "launch (stencil3d_7point 2 1 (replicate 27 (1 :: int)) 3 3 3) (stencil_grid 3 3 3) (replicate 27 0) =
      Inr (stencil_reference 2 1 (replicate 27 1) 3 3 3 (replicate 27 0))"
    using stencil_grid_reference[of "replicate 27 (1 :: int)" 3 3 3 "replicate 27 0" "stencil_grid 3 3 3" 2 1] by simp
  moreover have "stencil_reference 2 1 (replicate 27 (1 :: int)) 3 3 3 (replicate 27 0) ! 13 = 8" by code_simp
  ultimately show ?thesis by blast
qed

end
