(* ===== verification/MonitorReport.thy ===== *)
theory MonitorReport
  imports Kernels Reports CommandLine
begin

text \<open>
  The reporter of the monitored suite, and its \<open>main\<close>: src/benchmark_monitor_C/benchmark_monitor.cpp.

  \<open>moments k\<close> is what the reporter finds the \<open>k\<close>-th time it looks at the machine, together with the
  value that the global \<open>g_energy_start\<close> has then (the benchmarks set it, theory \<open>Kernels\<close>).  The
  console output is UTF-8.
\<close>

section \<open>The reporter\<close>

type_synonym moments = "nat \<Rightarrow> machine_state \<times> 64 word"

record SystemMetricsReporter =
  smr_monitor :: SystemMonitor
  smr_csv_writer :: CSVWriter
  smr_moment :: nat

definition SystemMetricsReporter_new :: "machine_state \<Rightarrow> bool \<Rightarrow> bool \<Rightarrow> SystemMetricsReporter" where
  "SystemMetricsReporter_new ms exists can_open =
     \<lparr>smr_monitor = SystemMonitor_new ms, smr_csv_writer = CSVWriter_new exists can_open, smr_moment = 0\<rparr>"

definition utf8 :: "nat list \<Rightarrow> string" where
  "utf8 bytes = map char_of bytes"

definition rule_of_equals :: string where
  "rule_of_equals = replicate 80 CHR ''='' @ ''\<newline>''"

definition context_text :: "SystemMonitor \<Rightarrow> MonitorCPUInfo \<Rightarrow> string" where
  "context_text mon cpu_info =
     ''\<newline>'' @ rule_of_equals @ ''BENCHMARK MONITOR C++ - Sistema de Microbenchmarking'' @ ''\<newline>'' @ rule_of_equals @
     ''\<newline>'' @ utf8 [0xF0, 0x9F, 0x94, 0x8D] @ '' Configuraci'' @ utf8 [0xC3, 0xB3] @ ''n del sistema:'' @ ''\<newline>'' @
     ''   CPU Cores: '' @ show_int (mc_num_threads cpu_info) @ ''\<newline>'' @
     ''   CPU Freq: '' @ ostream_double (mc_freq_mhz cpu_info) @ '' MHz'' @ ''\<newline>'' @
     ''   Governor: '' @ mc_governor cpu_info @ ''\<newline>'' @
     (if sm_rapl_available mon
      then ''   '' @ utf8 [0xE2, 0x9C, 0x85] @ '' RAPL disponible'' @ ''\<newline>''
      else ''   '' @ utf8 [0xE2, 0x9A, 0xA0, 0xEF, 0xB8, 0x8F] @ ''  RAPL no disponible'' @ ''\<newline>'') @
     ''\<newline>'' @ utf8 [0xF0, 0x9F, 0x9A, 0x80] @ '' Ejecutando benchmarks...'' @ ''\<newline>\<newline>''"

definition SystemMetricsReporter_ReportContext ::
  "moments \<Rightarrow> SystemMetricsReporter \<Rightarrow> (SystemMetricsReporter \<times> string) res" where
  "SystemMetricsReporter_ReportContext moments rep =
     rbind (getCPUInfo (fst (moments (smr_moment rep)))) (\<lambda>cpu_info.
     Inr (rep\<lparr>smr_moment := Suc (smr_moment rep)\<rparr>, context_text (smr_monitor rep) cpu_info))"

text \<open>The data size is read from the name, after its first \<open>/\<close>.\<close>

definition data_size_of :: "string \<Rightarrow> int res" where
  "data_size_of name =
     (case dropWhile (\<lambda>c. c \<noteq> CHR ''/'') name of [] \<Rightarrow> Inr 0 | _ # size_str \<Rightarrow> stoll size_str)"

definition run_result :: "SystemMonitor \<Rightarrow> machine_state \<Rightarrow> 64 word \<Rightarrow> Run \<Rightarrow> BenchmarkResult res" where
  "run_result mon ms energy_start run =
     rbind (data_size_of (benchmark_name run)) (\<lambda>data_size.
     rbind (getCPUInfo ms) (\<lambda>cpu_info.
     (let time_s = GetAdjustedRealTime run / Fin 1000000000;
          energy_uj = readRAPLEnergy mon ms - energy_start;
          energy_j = double_of_word energy_uj / Fin 1000000
      in Inr \<lparr>be_timestamp = ms_timestamp ms, be_benchmark_name = benchmark_name run, be_data_size = data_size,
              be_cpu_info = cpu_info, be_perf = PerfMetrics_init,
              be_energy = \<lparr>en_energy_uj = energy_uj, en_energy_j = energy_j, en_power_avg_w = calculatePowerAvg energy_j time_s\<rparr>,
              be_time_s = time_s, be_temperature_c = getTemperature ms, be_edp = calculateEDP energy_j time_s\<rparr>)))"

definition console_line :: "Run \<Rightarrow> BenchmarkResult \<Rightarrow> string" where
  "console_line run result =
     ''  '' @ benchmark_name run @ '': '' @ ostream_double (GetAdjustedRealTime run / Fin 1000000) @ '' ms'' @
     '', Energy: '' @ ostream_double (en_energy_j (be_energy result)) @ '' J'' @
     '', Temp: '' @ ostream_double (be_temperature_c result) @ '' '' @ utf8 [0xC2, 0xB0] @ ''C'' @ ''\<newline>''"

definition report_run ::
  "moments \<Rightarrow> SystemMetricsReporter \<times> string \<Rightarrow> Run \<Rightarrow> (SystemMetricsReporter \<times> string) res" where
  "report_run moments = (\<lambda>(rep, out) run.
     if r_skipped run \<noteq> NotSkipped then Inr (rep, out)
     else
       (let (ms, energy_start) = moments (smr_moment rep) in
        rbind (run_result (smr_monitor rep) ms energy_start run) (\<lambda>result.
        Inr (rep\<lparr>smr_csv_writer := writeResult result (smr_csv_writer rep), smr_moment := Suc (smr_moment rep)\<rparr>,
             out @ console_line run result))))"

definition SystemMetricsReporter_ReportRuns ::
  "moments \<Rightarrow> Run list \<Rightarrow> SystemMetricsReporter \<Rightarrow> (SystemMetricsReporter \<times> string) res" where
  "SystemMetricsReporter_ReportRuns moments reports rep = rfold (report_run moments) (rep, []) reports"

definition SystemMetricsReporter_Finalize :: string where
  "SystemMetricsReporter_Finalize =
     ''\<newline>'' @ rule_of_equals @ utf8 [0xE2, 0x9C, 0x85] @ '' Benchmarks completados'' @ ''\<newline>'' @
     utf8 [0xF0, 0x9F, 0x93, 0x8A] @ '' Resultados guardados en: results_cpp.csv'' @ ''\<newline>'' @ rule_of_equals @ ''\<newline>''"

definition metrics_reporter :: "moments \<Rightarrow> SystemMetricsReporter reporter_ops" where
  "metrics_reporter moments = \<lparr>ro_context = (\<lambda>_. SystemMetricsReporter_ReportContext moments),
     ro_runs = SystemMetricsReporter_ReportRuns moments, ro_finalize = SystemMetricsReporter_Finalize\<rparr>"

section \<open>main\<close>

definition root_warning :: "int \<Rightarrow> string" where
  "root_warning euid =
     (if euid \<noteq> 0 then
        utf8 [0xE2, 0x9A, 0xA0, 0xEF, 0xB8, 0x8F] @ ''  Advertencia: No est'' @ utf8 [0xC3, 0xA1] @
        ''s ejecutando como root (sudo)'' @ ''\<newline>'' @
        ''   Las m'' @ utf8 [0xC3, 0xA9] @ ''tricas de RAPL pueden no estar disponibles'' @ ''\<newline>\<newline>''
      else [])"

text \<open>
  The custom reporter is the display reporter; there is no file reporter.  The result is the
  reporter with its file, and the text on \<open>std::cout\<close>.  \<open>session_of\<close> gives the environment of the
  session for the globals that \<open>Initialize\<close> leaves.
\<close>

definition monitor_main ::
  "nat \<Rightarrow> int \<Rightarrow> (Globals \<Rightarrow> session_env) \<Rightarrow> Context \<Rightarrow> machine_state \<Rightarrow> bool \<Rightarrow> bool \<Rightarrow> moments \<Rightarrow>
   string list option \<Rightarrow> Globals \<Rightarrow> BenchmarkFamilies \<Rightarrow> machine \<Rightarrow> (SystemMetricsReporter \<times> string) res option" where
  "monitor_main fuel euid session_of ctxt ms exists can_open moments argv g families mach =
     (let reporter = SystemMetricsReporter_new ms exists can_open in
      orbind (Some (Initialize argv g)) (\<lambda>(argv', e, g').
      orbind (RunSpecifiedBenchmarks fuel (session_of g') (g_flags g') families (Some CustomReporter) None
               (fl_filter (g_flags g')) mach) (\<lambda>sr.
      Some (rbind (replay (metrics_reporter moments) ctxt (out_display (sr_outputs sr)) reporter) (\<lambda>(rep, out).
        Inr (rep\<lparr>smr_csv_writer := CSVWriter_close (smr_csv_writer rep)\<rparr>,
             root_warning euid @ sr_out_text sr @ out))))))"

section \<open>One row for every run that was not skipped\<close>

text \<open>The first argument of a run: the number that follows the first \<open>/\<close> of its name.\<close>

definition first_argument :: "Run \<Rightarrow> int \<Rightarrow> bool" where
  "first_argument run n \<longleftrightarrow> (\<exists>base rest. benchmark_name run = base @ ''/'' @ show_int n @ rest \<and>
     CHR ''/'' \<notin> set base \<and> in_i64 n \<and> (rest = [] \<or> \<not> is_digit (hd rest)))"

lemma data_size_first_argument:
  assumes "first_argument run n"
  shows "data_size_of (benchmark_name run) = Inr n"
proof -
  obtain base rest where name: "benchmark_name run = base @ ''/'' @ show_int n @ rest" "CHR ''/'' \<notin> set base"
    and n: "in_i64 n" "rest = [] \<or> \<not> is_digit (hd rest)"
    using assms by (auto simp: first_argument_def)
  have "\<forall>c \<in> set base. c \<noteq> CHR ''/''" using name(2) by auto
  then have "dropWhile (\<lambda>c. c \<noteq> CHR ''/'') (benchmark_name run) = CHR ''/'' # show_int n @ rest"
    by (simp add: name(1) dropWhile_append2)
  moreover have "show_int n @ rest \<noteq> rest" by (simp add: show_int_def)
  ultimately show ?thesis using strtol_show_int[OF n] by (simp add: data_size_of_def stoll_def)
qed

definition metrics_row ::
  "SystemMonitor \<Rightarrow> machine_state \<times> 64 word \<Rightarrow> MonitorCPUInfo \<Rightarrow> int \<Rightarrow> Run \<Rightarrow> BenchmarkResult" where
  "metrics_row mon moment cpu n run =
     (let time_s = GetAdjustedRealTime run / Fin 1000000000;
          energy_uj = readRAPLEnergy mon (fst moment) - snd moment;
          energy_j = double_of_word energy_uj / Fin 1000000
      in \<lparr>be_timestamp = ms_timestamp (fst moment), be_benchmark_name = benchmark_name run, be_data_size = n,
          be_cpu_info = cpu, be_perf = PerfMetrics_init,
          be_energy = \<lparr>en_energy_uj = energy_uj, en_energy_j = energy_j, en_power_avg_w = calculatePowerAvg energy_j time_s\<rparr>,
          be_time_s = time_s, be_temperature_c = getTemperature (fst moment), be_edp = calculateEDP energy_j time_s\<rparr>)"

definition counted_runs :: "Run list \<Rightarrow> Run list" where
  "counted_runs runs = filter (\<lambda>run. r_skipped run = NotSkipped) runs"

definition rows_from ::
  "nat \<Rightarrow> SystemMonitor \<Rightarrow> moments \<Rightarrow> (nat \<Rightarrow> MonitorCPUInfo) \<Rightarrow> (Run \<Rightarrow> int) \<Rightarrow> Run list \<Rightarrow> BenchmarkResult list" where
  "rows_from k mon moments cpu arg runs =
     map (\<lambda>(i, run). metrics_row mon (moments i) (cpu i) (arg run) run) (enumerate k (counted_runs runs))"

text \<open>Runs whose names have a number after the first \<open>/\<close>, on a machine whose frequency can be read.\<close>

definition well_named :: "(Run \<Rightarrow> int) \<Rightarrow> Run list \<Rightarrow> bool" where
  "well_named arg runs \<longleftrightarrow> (\<forall>run \<in> set (counted_runs runs). first_argument run (arg run))"

definition readable :: "moments \<Rightarrow> (nat \<Rightarrow> MonitorCPUInfo) \<Rightarrow> bool" where
  "readable moments cpu \<longleftrightarrow> (\<forall>k. getCPUInfo (fst (moments k)) = Inr (cpu k))"

lemma report_runs_rows:
  assumes "well_named arg runs" "readable moments cpu"
  shows "\<exists>out'. rfold (report_run moments) (rep, out) runs =
    Inr (rep\<lparr>smr_csv_writer := foldl (\<lambda>cw r. writeResult r cw) (smr_csv_writer rep)
               (rows_from (smr_moment rep) (smr_monitor rep) moments cpu arg runs),
             smr_moment := smr_moment rep + length (counted_runs runs)\<rparr>, out')"
  using assms(1)
proof (induction runs arbitrary: rep out)
  case Nil
  then show ?case by (simp add: rows_from_def counted_runs_def)
next
  case (Cons run runs)
  then have rest: "well_named arg runs" by (simp add: well_named_def counted_runs_def)
  show ?case
  proof (cases "r_skipped run = NotSkipped")
    case True
    let ?row = "metrics_row (smr_monitor rep) (moments (smr_moment rep)) (cpu (smr_moment rep)) (arg run) run"
    let ?rep = "rep\<lparr>smr_csv_writer := writeResult ?row (smr_csv_writer rep), smr_moment := Suc (smr_moment rep)\<rparr>"
    have "run_result (smr_monitor rep) (fst (moments (smr_moment rep))) (snd (moments (smr_moment rep))) run = Inr ?row"
      using data_size_first_argument[of run "arg run"] Cons.prems True assms(2)
      by (simp add: run_result_def metrics_row_def well_named_def counted_runs_def readable_def Let_def)
    then have "report_run moments (rep, out) run = Inr (?rep, out @ console_line run ?row)"
      using True by (simp add: report_run_def case_prod_unfold Let_def)
    then show ?thesis
      using True Cons.IH[OF rest, of ?rep "out @ console_line run ?row"]
      by (simp add: counted_runs_def rows_from_def)
  next
    case False
    then show ?thesis
      using Cons.IH[OF rest, of rep out] by (simp add: report_run_def counted_runs_def rows_from_def)
  qed
qed

text \<open>Batches are reported one after the other, as if they were one.\<close>

lemma report_batches:
  "rfold (\<lambda>(rep, out) b. rbind (SystemMetricsReporter_ReportRuns moments b rep) (\<lambda>(rep', t). Inr (rep', out @ t))) (rep, out) bs =
   rfold (report_run moments) (rep, out) (concat bs)"
proof -
  have run: "report_run moments (rep, out) run = rbind (report_run moments (rep, []) run) (\<lambda>(rep', t). Inr (rep', out @ t))" for rep out run
    by (simp add: report_run_def case_prod_unfold Let_def rbind_assoc)
  have batch: "rfold (report_run moments) (rep, out) b =
      rbind (rfold (report_run moments) (rep, []) b) (\<lambda>(rep', t). Inr (rep', out @ t))" for rep out b
  proof (induction b arbitrary: rep out)
    case (Cons r b)
    consider e where "report_run moments (rep, []) r = Inl e" | rep' t where "report_run moments (rep, []) r = Inr (rep', t)"
      by (metis surj_pair sum.exhaust)
    then show ?case
    proof cases
      case 1
      then show ?thesis using run[of rep out r] by simp
    next
      case 2
      then show ?thesis using run[of rep out r] Cons.IH[of rep' "out @ t"] Cons.IH[of rep' t]
        by (simp add: rbind_assoc case_prod_unfold)
    qed
  qed simp
  show ?thesis
  proof (induction bs arbitrary: rep out)
    case (Cons b bs)
    show ?case
      using Cons.IH batch[of rep out b]
      by (simp add: SystemMetricsReporter_ReportRuns_def rfold_append rbind_assoc case_prod_unfold)
  qed simp
qed

interpretation metrics: reporter_contract "metrics_reporter moments" "\<lambda>_. True"
    "\<lambda>b. well_named arg b \<and> readable moments cpu" for moments arg cpu
proof
  fix rep runs
  assume "well_named arg runs \<and> readable moments cpu"
  then show "\<exists>rep' t. ro_runs (metrics_reporter moments) runs rep = Inr (rep', t) \<and> True"
    using report_runs_rows[of arg runs moments cpu rep "[]"]
    by (auto simp: metrics_reporter_def SystemMetricsReporter_ReportRuns_def)
qed

text \<open>C23: A session with the monitor's reporter on a fresh results file.  The name of every run that was not
  skipped has a number in range after its first slash (otherwise \<open>stoll\<close> throws, or there is no size), the frequency
  of the CPU is readable, there is at least one such run, and the fields of its row have no comma, quotation
  mark or line feed and fit the buffer of 1024 bytes together.  Then, in whatever batches the
  session reports its runs, the file becomes one table whose header names the eighteen columns and which has exactly
  one row for every run that was not skipped, in the order reported; its \<open>N\<close> is the first argument in
  the name of the run, its energy the difference of the counter modulo 2^64, its \<open>time_s\<close> the adjusted
  real time divided by 10^9 (whatever the time unit of the run).\<close>

theorem monitor_session_table:
  assumes "\<forall>c \<in> set calls. middle_call c" "well_named arg (concat (batches calls))" "readable moments cpu"
    and "rows = rows_from (Suc (smr_moment rep)) (smr_monitor rep) moments cpu arg (concat (batches calls))"
    and "cw_open (smr_csv_writer rep)" "cw_text (smr_csv_writer rep) = []" "\<not> cw_header_written (smr_csv_writer rep)"
    and "rows \<noteq> []" "\<forall>row \<in> set rows. tabular_result row"
  shows "\<exists>rep' out. replay (metrics_reporter moments) ctxt (CallContext w # calls @ [CallFinalize, CallFlush]) rep = Inr (rep', out) \<and>
    csv_table (cw_text (smr_csv_writer rep')) = header_columns # map result_fields rows"
proof -
  let ?ops = "metrics_reporter moments"
  let ?rep1 = "rep\<lparr>smr_moment := Suc (smr_moment rep)\<rparr>" and ?ctx = "context_text (smr_monitor rep) (cpu (smr_moment rep))"
  have context_call: "ro_context ?ops (ctxt\<lparr>cx_name_field_width := w\<rparr>) rep = Inr (?rep1, ?ctx)"
    using assms(3) by (simp add: metrics_reporter_def SystemMetricsReporter_ReportContext_def readable_def)
  have "\<forall>b \<in> set (batches calls). well_named arg b"
    using assms(2) by (auto simp: well_named_def counted_runs_def)
  then obtain rep' t where middle: "rfold (reporter_call ?ops ctxt) (?rep1, ?ctx) calls = Inr (rep', ?ctx @ t)"
    "rfold (\<lambda>(s, out) b. rbind (ro_runs ?ops b s) (\<lambda>(s', t). Inr (s', out @ t))) (?rep1, ?ctx) (batches calls) = Inr (rep', ?ctx @ t)"
    using metrics.replay_middle[where s = ?rep1 and calls = calls and moments = moments and arg = arg and cpu = cpu
        and ctxt = "ctxt" and out = ?ctx] assms(1,3) by auto
  have "rfold (report_run moments) (?rep1, ?ctx) (concat (batches calls)) = Inr (rep', ?ctx @ t)"
    using middle(2) report_batches[of moments ?rep1 ?ctx "batches calls"] by (simp add: metrics_reporter_def)
  then have writer: "smr_csv_writer rep' = foldl (\<lambda>cw r. writeResult r cw) (smr_csv_writer rep) rows"
    using report_runs_rows[OF assms(2,3), of ?rep1 ?ctx] assms(4) by auto
  have "csv_table (cw_text (smr_csv_writer rep')) = header_columns # map result_fields rows"
    using writeResults_table[OF assms(5,6,8,9)] assms(7) by (simp add: writer)
  moreover have "replay ?ops ctxt (CallContext w # calls @ [CallFinalize, CallFlush]) rep =
      Inr (rep', (?ctx @ t) @ SystemMetricsReporter_Finalize)"
    using middle(1) context_call by (simp add: replay_def rfold_append) (simp add: metrics_reporter_def)
  ultimately show ?thesis by blast
qed

section \<open>A concrete session\<close>

definition bare_machine :: machine_state where
  "bare_machine = \<lparr>ms_file = (\<lambda>_. None), ms_directory = (\<lambda>_. None), ms_exists = (\<lambda>_. False), ms_which_perf = False,
     ms_processors_online = 4, ms_timestamp = ''2024-01-01T00:00:00''\<rparr>"

definition bare_cpu :: MonitorCPUInfo where
  "bare_cpu = \<lparr>mc_freq_mhz = Fin 0, mc_governor = [], mc_usage_pct = Fin 0, mc_num_threads = 4\<rparr>"

definition vector_run :: Run where
  "vector_run = (Run_init 0 kMillisecond)\<lparr>r_run_name := BenchmarkName_init\<lparr>n_function_name := ''BM_VectorAdd'', n_args := ''8''\<rparr>\<rparr>"

definition bare_reporter :: SystemMetricsReporter where
  "bare_reporter = SystemMetricsReporter_new bare_machine False True"

abbreviation bare_row :: BenchmarkResult where
  "bare_row \<equiv> metrics_row (smr_monitor bare_reporter) (bare_machine, 0) bare_cpu 8 vector_run"

lemma bare_readable: "readable (\<lambda>_. (bare_machine, 0)) (\<lambda>_. bare_cpu)"
  by (simp add: readable_def getCPUInfo_def readSysFile_def bare_machine_def bare_cpu_def Let_def)

lemma vector_run_name: "benchmark_name vector_run = ''BM_VectorAdd/8''"
  by (simp add: vector_run_def benchmark_name_def BenchmarkName_str_def name_parts_def join_def BenchmarkName_init_def
      Run_init_def Let_def)

lemma vector_run_argument: "first_argument vector_run 8"
proof -
  have "show_int 8 = ''8''" by code_simp
  then show ?thesis
    unfolding first_argument_def
    by (intro exI[of _ "''BM_VectorAdd''"] exI[of _ "[]"]) (simp add: vector_run_name int_width_defs)
qed

lemma zero_formats:
  "fmt_f 1 (Fin 0) = ''0.0''" "fmt_f 2 (Fin 0) = ''0.00''" "fmt_f 3 (Fin 0) = ''0.000''" "fmt_f 6 (Fin 0) = ''0.000000''"
  "fmt_e 2 (Fin 0) = ''0.00e+00''" "show_int 0 = ''0''" "show_int 4 = ''4''" "show_int 8 = ''8''"
  by code_simp+

lemma bare_row_value:
  "bare_row = \<lparr>be_timestamp = ''2024-01-01T00:00:00'', be_benchmark_name = ''BM_VectorAdd/8'', be_data_size = 8,
     be_cpu_info = bare_cpu, be_perf = PerfMetrics_init,
     be_energy = \<lparr>en_energy_uj = 0, en_energy_j = Fin 0, en_power_avg_w = Fin 0\<rparr>,
     be_time_s = Fin 0, be_temperature_c = Fin 0, be_edp = Fin 0\<rparr>"
proof -
  have "GetAdjustedRealTime vector_run = Fin 0"
    by (simp add: vector_run_def Run_init_def GetAdjustedRealTime_def dbl_simps Let_def)
  moreover have "readRAPLEnergy (smr_monitor bare_reporter) bare_machine = 0"
    by (simp add: bare_reporter_def SystemMetricsReporter_new_def SystemMonitor_new_def bare_machine_def readRAPLEnergy_def)
  moreover have "getTemperature bare_machine = Fin 0"
    by (simp add: getTemperature_def temp_paths_def readSysFile_def bare_machine_def)
  ultimately show ?thesis
    by (simp add: metrics_row_def vector_run_name double_of_word_def calculatePowerAvg_def calculateEDP_def deq_def dbl_simps Let_def)
      (simp add: bare_machine_def)
qed

lemma bare_row_tabular: "tabular_result bare_row"
proof -
  have "result_fields bare_row = [''2024-01-01T00:00:00'', ''BM_VectorAdd/8'', ''8'', ''0.00'', [], ''0.0'', ''4'', ''0'', ''0'',
      ''0.000'', ''0'', ''0'', ''0'', ''0.000000'', ''0.000000'', ''0.00e+00'', ''0.000'', ''0.0'']"
    unfolding result_fields_def bare_row_value by (simp add: bare_cpu_def PerfMetrics_init_def zero_formats del: One_nat_def)
  moreover have "plain ''2024-01-01T00:00:00''" "plain ''BM_VectorAdd/8''" by code_simp+
  ultimately show ?thesis unfolding tabular_result_def by (simp add: bare_row_value) (simp add: bare_cpu_def plain_def)
qed

theorem monitor_session_table_witness:
  "\<exists>rep' out. replay (metrics_reporter (\<lambda>_. (bare_machine, 0))) sample_context
      (CallContext 10 # [CallFlush, CallRuns [vector_run], CallFlush] @ [CallFinalize, CallFlush]) bare_reporter = Inr (rep', out) \<and>
    csv_table (cw_text (smr_csv_writer rep')) = [header_columns, result_fields bare_row]"
  using monitor_session_table[of "[CallFlush, CallRuns [vector_run], CallFlush]" "\<lambda>_. 8" "\<lambda>_. (bare_machine, 0)" "\<lambda>_. bare_cpu"
      "[bare_row]" bare_reporter sample_context 10] vector_run_argument bare_readable bare_row_tabular
  by (simp add: well_named_def counted_runs_def rows_from_def enumerate_eq_zip vector_run_def Run_init_def bare_reporter_def
      SystemMetricsReporter_new_def CSVWriter_new_def)

end
