(* ===== verification/HardwareCounters.thy ===== *)
theory HardwareCounters
  imports Runtime "HOL-Library.Word"
begin

text \<open>
  Hardware performance counters: src/src/perf_counters.cc and perf_counters.h, as compiled with
  \<open>HAVE_LIBPFM\<close>.

  libpfm and the kernel are parameters (\<open>pfm_env\<close>): which names have an encoding, what each
  \<open>perf_event_open\<close> answers, whether a group can be enabled, the bytes a \<open>read\<close> returns.  A file
  descriptor is an \<open>int\<close>; a buffer is a list of bytes.
\<close>

section \<open>Values of the counters\<close>

definition kMaxCounters :: nat where "kMaxCounters = 32"

definition kPadding :: nat where "kPadding = 2"

text \<open>\<open>std::array<uint64_t, kPadding + kMaxCounters>\<close>, in bytes, little endian.\<close>

definition value_bytes :: nat where "value_bytes = (kPadding + kMaxCounters) * 8"

record PerfCounterValues =
  pv_values :: "8 word list"
  pv_nr_counters :: nat

definition PerfCounterValues_new :: "8 word list \<Rightarrow> nat \<Rightarrow> PerfCounterValues res" where
  "PerfCounterValues_new junk nr_counters =
     rbind (BM_CHECK (nr_counters \<le> kMaxCounters) ''nr_counters_ <= kMaxCounters'') (\<lambda>_.
     Inr \<lparr>pv_values = junk, pv_nr_counters = nr_counters\<rparr>)"

fun of_bytes :: "8 word list \<Rightarrow> int" where
  "of_bytes [] = 0"
| "of_bytes (b # bs) = uint b + 256 * of_bytes bs"

definition value_at :: "PerfCounterValues \<Rightarrow> nat \<Rightarrow> 64 word res" where
  "value_at pv pos =
     (if pos \<ge> kPadding + kMaxCounters then Inl (Undefined ''array index out of range'')
      else Inr (word_of_int (of_bytes (take 8 (drop (8 * pos) (pv_values pv))))))"

text \<open>
  \<open>::read(fd, ptr, size)\<close>: \<open>None\<close> is a negative result, otherwise the bytes, at most \<open>size\<close>.
  \<open>overwrite\<close> puts bytes at an offset of the buffer.
\<close>

definition overwrite :: "nat \<Rightarrow> 8 word list \<Rightarrow> 8 word list \<Rightarrow> 8 word list" where
  "overwrite offset bytes buf = take offset buf @ bytes @ drop (offset + length bytes) buf"

text \<open>The loop of \<open>Read\<close>: offset of \<open>ptr\<close>, bytes left, buffer; the flag tells whether it returned 0.\<close>

definition read_leader ::
  "(int \<Rightarrow> nat \<Rightarrow> 8 word list option) \<Rightarrow> bool \<times> nat \<times> nat \<times> 8 word list \<Rightarrow> int \<Rightarrow> bool \<times> nat \<times> nat \<times> 8 word list" where
  "read_leader read = (\<lambda>(failed, offset, size, buf) lead.
     if failed then (failed, offset, size, buf)
     else (case read lead size of
         None \<Rightarrow> (True, offset, size, buf)
       | Some bytes \<Rightarrow>
           (let buf1 = overwrite offset bytes buf in
            if length bytes < 8 then (True, offset, size, buf1)
            else (let data_bytes = length bytes - 8;
                      buf2 = overwrite offset (take data_bytes (drop (offset + 8) buf1)) buf1
                  in (False, offset + data_bytes, size - data_bytes, buf2)))))"

definition Read ::
  "(int \<Rightarrow> nat \<Rightarrow> 8 word list option) \<Rightarrow> int list \<Rightarrow> PerfCounterValues \<Rightarrow> nat \<times> PerfCounterValues" where
  "Read read leaders pv =
     (let (failed, offset, size, buf) = foldl (read_leader read) (False, 0, value_bytes, pv_values pv) leaders
      in (if failed then 0 else (value_bytes - size) div 8, pv\<lparr>pv_values := buf\<rparr>))"

section \<open>Opening the counters\<close>

datatype open_result = Opened int | Interrupted | Refused

record open_request =
  oq_name :: string
  oq_disabled :: bool
  oq_pinned :: bool
  oq_group :: int

text \<open>
  The calls of \<open>perf_event_open\<close> are numbered.  \<open>pe_encodes\<close> and \<open>pe_encodes_ext\<close> say whether libpfm has an encoding of a name
  for \<open>PFM_OS_PERF_EVENT\<close> and for \<open>PFM_OS_PERF_EVENT_EXT\<close>.
\<close>

record pfm_env =
  pe_encodes :: "string \<Rightarrow> bool"
  pe_encodes_ext :: "string \<Rightarrow> bool"
  pe_open :: "nat \<Rightarrow> open_request \<Rightarrow> open_result"
  pe_enable :: "int \<Rightarrow> bool"
  pe_read :: "int \<Rightarrow> nat \<Rightarrow> 8 word list option"

record PerfCounters =
  pc_counter_ids :: "int list"
  pc_leader_ids :: "int list"
  pc_counter_names :: "string list"

definition NoCounters :: PerfCounters where
  "NoCounters = \<lparr>pc_counter_ids = [], pc_leader_ids = [], pc_counter_names = []\<rparr>"

text \<open>The retries after an interruption, \<open>tries\<close> of them at most.\<close>

fun try_open :: "pfm_env \<Rightarrow> open_request \<Rightarrow> nat \<Rightarrow> nat \<Rightarrow> int \<times> nat" where
  "try_open env req calls 0 = (-1, calls)"
| "try_open env req calls (Suc tries) =
     (case pe_open env calls req of
        Opened fd \<Rightarrow> (fd, Suc calls)
      | Refused \<Rightarrow> (-1, Suc calls)
      | Interrupted \<Rightarrow> try_open env req (Suc calls) tries)"

definition kNrOfSyscallRetries :: nat where "kNrOfSyscallRetries = 5"

text \<open>
  \<open>while (id < 0)\<close>: when a group refuses the counter, a new group is tried.  \<open>is_first\<close> was computed
  before, so the leader of such a new group is opened enabled and not pinned.
\<close>

function open_counter :: "pfm_env \<Rightarrow> string \<Rightarrow> bool \<Rightarrow> int \<Rightarrow> nat \<Rightarrow> int \<times> int \<times> nat" where
  "open_counter env name is_first group_id calls =
     (let (id, calls') = try_open env \<lparr>oq_name = name, oq_disabled = is_first, oq_pinned = is_first, oq_group = group_id\<rparr>
            calls kNrOfSyscallRetries
      in if id \<ge> 0 then (id, group_id, calls')
         else if group_id \<ge> 0 then open_counter env name is_first (-1) calls'
         else (-1, group_id, calls'))"
  by pat_completeness auto

termination by (relation "measure (\<lambda>(_, _, _, group_id, _). if group_id \<ge> 0 then 1 else 0)") auto

declare open_counter.simps [simp del]

text \<open>
  The state of the loop of \<open>Create\<close>.  \<open>cr_opened\<close> is the trace of the calls that the kernel granted: descriptor, group,
  name; nothing reads it.
\<close>

record creation =
  cr_valid_names :: "string list"
  cr_counter_ids :: "int list"
  cr_leader_ids :: "int list"
  cr_group_id :: int
  cr_calls :: nat
  cr_log :: string
  cr_opened :: "(int \<times> int \<times> string) list"

definition creation_init :: creation where
  "creation_init = \<lparr>cr_valid_names = [], cr_counter_ids = [], cr_leader_ids = [], cr_group_id = -1, cr_calls = 0,
     cr_log = [], cr_opened = []\<rparr>"

definition log_line :: "string \<Rightarrow> creation \<Rightarrow> creation" where
  "log_line msg s = s\<lparr>cr_log := cr_log s @ msg @ ''\<newline>''\<rparr>"

definition create_counter :: "pfm_env \<Rightarrow> creation \<Rightarrow> string \<Rightarrow> creation" where
  "create_counter env s name =
     (if name = [] then log_line ''A performance counter name was the empty string'' s
      else if \<not> pe_encodes env name then log_line (''Unknown performance counter name: '' @ name) s
      else
        (let is_first = cr_group_id s < 0;
             (id, group_id, calls) = open_counter env name is_first (cr_group_id s) (cr_calls s);
             s1 = s\<lparr>cr_group_id := group_id, cr_calls := calls\<rparr>
         in if id < 0 then log_line (''***WARNING** Failed to get a file descriptor '' @
                ''for performance counter '' @ name @ ''. Ignoring'') s1
            else
              (let s2 = (if group_id < 0 then s1\<lparr>cr_leader_ids := cr_leader_ids s1 @ [id], cr_group_id := id\<rparr> else s1)
               in s2\<lparr>cr_counter_ids := cr_counter_ids s2 @ [id], cr_valid_names := cr_valid_names s2 @ [name],
                     cr_opened := cr_opened s2 @ [(id, group_id, name)]\<rparr>)))"

fun create_loop :: "pfm_env \<Rightarrow> nat \<Rightarrow> creation \<Rightarrow> string list \<Rightarrow> creation" where
  "create_loop env requested s [] = s"
| "create_loop env requested s (name # names) =
     (if length (cr_valid_names s) = kMaxCounters
      then log_line (show_int (int requested) @ '' counters were requested. The maximum is '' @
             show_int (int kMaxCounters) @ '' and '' @ show_int (int (length (cr_valid_names s))) @
             '' were already added. All remaining counters will be ignored'') s
      else create_loop env requested (create_counter env s name) names)"

text \<open>\<open>Create\<close>: the counters, the descriptors it closed again, what it logged.\<close>

definition Create :: "pfm_env \<Rightarrow> string list \<Rightarrow> PerfCounters \<times> int list \<times> string" where
  "Create env counter_names =
     (let s = create_loop env (length counter_names) creation_init counter_names in
      if \<exists>lead \<in> set (cr_leader_ids s). \<not> pe_enable env lead
      then (NoCounters, cr_counter_ids s,
            cr_log s @ ''***WARNING*** Failed to start counters. Claring out all counters.'' @ ''\<newline>'')
      else (\<lparr>pc_counter_ids = cr_counter_ids s, pc_leader_ids = cr_leader_ids s, pc_counter_names = cr_valid_names s\<rparr>,
            [], cr_log s))"

definition Snapshot :: "pfm_env \<Rightarrow> PerfCounters \<Rightarrow> PerfCounterValues \<Rightarrow> bool \<times> PerfCounterValues" where
  "Snapshot env pc pv =
     (let (n, pv') = Read (pe_read env) (pc_leader_ids pc) pv in (n = length (pc_counter_ids pc), pv'))"

text \<open>\<open>CloseCounters\<close>: the groups disabled, the descriptors closed.\<close>

definition CloseCounters :: "PerfCounters \<Rightarrow> int list \<times> int list" where
  "CloseCounters pc = (if pc_counter_ids pc = [] then ([], []) else (pc_leader_ids pc, pc_counter_ids pc))"

section \<open>A measurement\<close>

record PerfCountersMeasurement =
  me_counters :: PerfCounters
  me_valid_read :: bool
  me_start_values :: PerfCounterValues
  me_end_values :: PerfCounterValues

definition num_counters :: "PerfCountersMeasurement \<Rightarrow> nat" where
  "num_counters me = length (pc_counter_names (me_counters me))"

definition PerfCountersMeasurement_new :: "pfm_env \<Rightarrow> 8 word list \<Rightarrow> string list \<Rightarrow> PerfCountersMeasurement res" where
  "PerfCountersMeasurement_new env junk counter_names =
     rbind (PerfCounterValues_new junk (length counter_names)) (\<lambda>start_values.
     rbind (PerfCounterValues_new junk (length counter_names)) (\<lambda>end_values.
     Inr \<lparr>me_counters = fst (Create env counter_names), me_valid_read = True, me_start_values = start_values,
          me_end_values = end_values\<rparr>))"

definition Start :: "pfm_env \<Rightarrow> PerfCountersMeasurement \<Rightarrow> bool \<times> PerfCountersMeasurement" where
  "Start env me =
     (if num_counters me = 0 then (True, me)
      else (let (ok, pv) = Snapshot env (me_counters me) (me_start_values me);
                me' = me\<lparr>me_valid_read := (me_valid_read me \<and> ok), me_start_values := pv\<rparr>
            in (me_valid_read me', me')))"

definition counter_difference :: "64 word \<Rightarrow> 64 word \<Rightarrow> double" where
  "counter_difference end_value start_value = double_of_int (uint end_value) - double_of_int (uint start_value)"

definition measurement_of :: "PerfCountersMeasurement \<Rightarrow> nat \<times> string \<Rightarrow> (string \<times> double) res" where
  "measurement_of me = (\<lambda>(i, name).
     rbind (value_at (me_end_values me) i) (\<lambda>e. rbind (value_at (me_start_values me) i) (\<lambda>s.
     Inr (name, counter_difference e s))))"

definition Stop ::
  "pfm_env \<Rightarrow> PerfCountersMeasurement \<Rightarrow> (string \<times> double) list \<Rightarrow> (bool \<times> (string \<times> double) list \<times> PerfCountersMeasurement) res" where
  "Stop env me measurements =
     (if num_counters me = 0 then Inr (True, measurements, me)
      else
        (let (ok, pv) = Snapshot env (me_counters me) (me_end_values me);
             me' = me\<lparr>me_valid_read := (me_valid_read me \<and> ok), me_end_values := pv\<rparr>
         in rbind (rfold (\<lambda>ms p. rbind (measurement_of me' p) (\<lambda>m. Inr (ms @ [m]))) measurements
                    (enumerate 0 (pc_counter_names (me_counters me'))))
              (\<lambda>ms. Inr (me_valid_read me', ms, me'))))"

section \<open>Bytes of a group read\<close>

definition le_bytes :: "64 word \<Rightarrow> 8 word list" where
  "le_bytes w = map (\<lambda>i. word_of_int (uint w div 256 ^ i)) [0..<8]"

lemma length_le_bytes [simp]: "length (le_bytes w) = 8"
  by (simp add: le_bytes_def)



lemma length_concat_le_bytes [simp]: "length (concat (map le_bytes vs)) = 8 * length vs"
  by (induction vs) simp_all








section \<open>The groups that \<open>Create\<close> builds\<close>

text \<open>The leaders among the opened counters, and the members of a group in the order of opening.\<close>

type_synonym opened = "(int \<times> int \<times> string) list"

definition leaders :: "opened \<Rightarrow> int list" where
  "leaders os = map fst (filter (\<lambda>(fd, g, _). g < 0) os)"


lemma leaders_append [simp]: "leaders (os @ ps) = leaders os @ leaders ps"
  by (simp add: leaders_def)

lemma leaders_single [simp]: "leaders [(fd, g, name)] = (if g < 0 then [fd] else [])"
  by (simp add: leaders_def)

lemma leaders_Nil [simp]: "leaders [] = []"
  by (simp add: leaders_def)


text \<open>A counter that is no leader is in the group of the last leader.\<close>

inductive grouped :: "opened \<Rightarrow> bool" where
  no_counter: "grouped []"
| new_leader: "grouped os \<Longrightarrow> 0 \<le> fd \<Longrightarrow> g < 0 \<Longrightarrow> grouped (os @ [(fd, g, name)])"
| new_member: "grouped os \<Longrightarrow> 0 \<le> fd \<Longrightarrow> leaders os \<noteq> [] \<Longrightarrow> g = last (leaders os) \<Longrightarrow> grouped (os @ [(fd, g, name)])"






text \<open>The invariant of the loop of \<open>Create\<close>.\<close>

definition creation_ok :: "creation \<Rightarrow> bool" where
  "creation_ok s \<longleftrightarrow> grouped (cr_opened s) \<and> cr_counter_ids s = map fst (cr_opened s) \<and>
     cr_valid_names s = map (snd \<circ> snd) (cr_opened s) \<and> cr_leader_ids s = leaders (cr_opened s) \<and>
     length (cr_opened s) \<le> kMaxCounters \<and>
     (0 \<le> cr_group_id s \<longrightarrow> leaders (cr_opened s) \<noteq> [] \<and> cr_group_id s = last (leaders (cr_opened s)))"


lemma creation_ok_log [simp]: "creation_ok (log_line msg s) = creation_ok s"
  by (simp add: creation_ok_def log_line_def)





section \<open>A measurement reports every counter under its own name\<close>

























section \<open>The other operations, and the build without libpfm\<close>

definition IsCounterSupported :: "pfm_env \<Rightarrow> string \<Rightarrow> bool" where
  "IsCounterSupported env name = pe_encodes_ext env name"

text \<open>
  The move assignment: the groups disabled and the descriptors closed, the new value, and what is left of the
  other object.  Assigning an object to itself does nothing.
\<close>

definition move_assign :: "bool \<Rightarrow> PerfCounters \<Rightarrow> PerfCounters \<Rightarrow> (int list \<times> int list) \<times> PerfCounters \<times> PerfCounters" where
  "move_assign same_object this other =
     (if same_object then (([], []), this, other) else (CloseCounters this, other, NoCounters))"

text \<open>The moved-from object closes nothing when it is destroyed, so every descriptor is closed once.\<close>

lemma move_assign_closes_once:
  "fst (CloseCounters NoCounters) = [] \<and> snd (CloseCounters NoCounters) = []"
  "move_assign False this other = (gone, this', other') \<Longrightarrow>
     snd gone @ snd (CloseCounters this') @ snd (CloseCounters other') = snd (CloseCounters this) @ snd (CloseCounters other)"
  by (auto simp: move_assign_def CloseCounters_def NoCounters_def)

text \<open>Without libpfm nothing is supported: what \<open>Create\<close> returns and logs.\<close>

definition Create_unsupported :: "string list \<Rightarrow> PerfCounters \<times> string" where
  "Create_unsupported counter_names =
     (NoCounters, if counter_names \<noteq> [] then ''Performance counters not supported.\<newline>'' else [])"

definition Measurement_unsupported :: "8 word list \<Rightarrow> string list \<Rightarrow> PerfCountersMeasurement res" where
  "Measurement_unsupported junk counter_names =
     rbind (PerfCounterValues_new junk (length counter_names)) (\<lambda>start_values.
     rbind (PerfCounterValues_new junk (length counter_names)) (\<lambda>end_values.
     Inr \<lparr>me_counters = fst (Create_unsupported counter_names), me_valid_read = True,
          me_start_values = start_values, me_end_values = end_values\<rparr>))"

text \<open>A measurement then succeeds and measures nothing, whatever the kernel does.\<close>

lemma unsupported_measures_nothing:
  assumes "Measurement_unsupported junk counter_names = Inr me"
  shows "Start env me = (True, me)" "Stop env me ms = Inr (True, ms, me)"
  using assms
  by (auto simp: Measurement_unsupported_def rbind_eq_Inr Create_unsupported_def NoCounters_def Start_def Stop_def num_counters_def)

text \<open>
  More names than \<open>kMaxCounters\<close> never get as far as \<open>Create\<close>, which would ignore the rest: the values of a
  measurement are made first, and their check fails.
\<close>

lemma too_many_counters:
  assumes "kMaxCounters < length counter_names"
  shows "PerfCountersMeasurement_new env junk counter_names = Inl (CheckFailed ''nr_counters_ <= kMaxCounters'')"
  using assms by (simp add: PerfCountersMeasurement_new_def PerfCounterValues_new_def)

end
