(* ===== verification/SysInfo.thy ===== *)
theory SysInfo
  imports Reporting SystemMonitor
begin

text \<open>
  What the library finds out about the machine: src/src/sysinfo.cc, as compiled for Linux.

  The operating system is a parameter (\<open>sys_env\<close>): the files of /sys and /proc, the results of the
  system calls, the clocks.  \<open>PrintErrorAndDie\<close> exits with status 1.  A \<open>long\<close> has 64 bits.
\<close>

section \<open>Reading from files\<close>

record sys_env =
  sy_file :: "string \<Rightarrow> string option"
  sy_nprocessors_onln :: int
  sy_hostname :: "string option"
  sy_no_randomize :: bool
  sy_loadavg :: "double list option"
  sy_affinity :: "bool list option"
  sy_setaffinity :: "bool list \<Rightarrow> bool"
  sy_clock :: "nat \<Rightarrow> double"
  sy_start_ticks :: int
  sy_end_ticks :: int

text \<open>
  \<open>f >> s\<close> for a string: the word and what is left.  \<open>f >> n\<close> for an integer type: the value, whether the
  extraction failed, what is left.  The stream is \<open>good\<close> only if it did not reach the end of the file.
\<close>

definition extract_word :: "string \<Rightarrow> string \<times> string" where
  "extract_word s = (let t = dropWhile is_space s
     in (takeWhile (\<lambda>c. \<not> is_space c) t, dropWhile (\<lambda>c. \<not> is_space c) t))"

definition extract_int :: "int \<Rightarrow> int \<Rightarrow> string \<Rightarrow> int \<times> bool \<times> string" where
  "extract_int lowest highest s =
     (let t = dropWhile is_space s; (v, rest, range_error) = strtol t in
      if rest = t then (0, True, rest)
      else if v < lowest then (lowest, True, rest)
      else if v > highest then (highest, True, rest)
      else (v, range_error, rest))"

text \<open>\<open>ReadFromFile\<close>: what it returns and the value it leaves.\<close>

definition ReadFromFile_string :: "sys_env \<Rightarrow> string \<Rightarrow> bool \<times> string" where
  "ReadFromFile_string env fname = (case sy_file env fname of
       None \<Rightarrow> (False, [])
     | Some content \<Rightarrow> (let (word, rest) = extract_word content in (word \<noteq> [] \<and> rest \<noteq> [], word)))"

definition ReadFromFile_int :: "int \<Rightarrow> int \<Rightarrow> sys_env \<Rightarrow> string \<Rightarrow> bool \<times> int" where
  "ReadFromFile_int lowest highest env fname = (case sy_file env fname of
       None \<Rightarrow> (False, 0)
     | Some content \<Rightarrow> (let (v, fail, rest) = extract_int lowest highest content in (\<not> fail \<and> rest \<noteq> [], v)))"

section \<open>Frequency scaling\<close>

definition governor_file :: "int \<Rightarrow> string" where
  "governor_file cpu = ''/sys/devices/system/cpu/cpu'' @ show_int cpu @ ''/cpufreq/scaling_governor''"

definition CpuScaling :: "sys_env \<Rightarrow> int \<Rightarrow> Scaling" where
  "CpuScaling env num_cpus =
     (if num_cpus \<le> 0 then Scaling.UNKNOWN
      else if \<exists>cpu \<in> set [0..num_cpus - 1]. (let (ok, res) = ReadFromFile_string env (governor_file cpu) in ok \<and> res \<noteq> ''performance'')
      then Scaling.ENABLED else Scaling.DISABLED)"

section \<open>Maps of CPUs\<close>

text \<open>\<open>stoul(part, nullptr, 16)\<close> of a text that starts with \<open>0x\<close>; the bits of the result.\<close>

fun popcount :: "nat \<Rightarrow> nat" where
  "popcount n = (if n = 0 then 0 else n mod 2 + popcount (n div 2))"

declare popcount.simps [simp del]

definition CountBits :: "string \<Rightarrow> int res" where
  "CountBits part =
     (let (n, digits, rest) = read_base hex_value 16 0 0 part in
      if n \<ge> 2 ^ 64 then Inl (Threw ''std::out_of_range: stoul'') else Inr (int (popcount n)))"

function count_parts :: "string \<Rightarrow> int \<Rightarrow> int res" where
  "count_parts val acc =
     (case dropWhile (\<lambda>c. c \<noteq> CHR '','') val of
        [] \<Rightarrow> if val \<noteq> [] then rbind (CountBits val) (\<lambda>n. Inr (acc + n)) else Inr acc
      | comma # rest \<Rightarrow> rbind (CountBits (takeWhile (\<lambda>c. c \<noteq> CHR '','') val)) (\<lambda>n. count_parts rest (acc + n)))"
  by pat_completeness auto

termination
proof (relation "measure (\<lambda>(val, acc). length val)", goal_cases)
  case (2 val acc comma rest n)
  have "length (comma # rest) \<le> length val" using 2 length_dropWhile_le[of "\<lambda>c. c \<noteq> CHR '',''" val] by simp
  then show ?case by simp
qed simp

declare count_parts.simps [simp del]

definition CountSetBitsInCPUMap :: "string \<Rightarrow> int res" where
  "CountSetBitsInCPUMap val = count_parts val 0"

section \<open>Caches\<close>

definition die :: "'a res" where
  "die = Inl (ExitWith 1)"

definition cache_dir :: "nat \<Rightarrow> string" where
  "cache_dir idx = ''/sys/devices/system/cpu/cpu0/cache/'' @ ''index'' @ show_int (int idx) @ ''/''"

definition cache_size :: "string \<Rightarrow> int res" where
  "cache_size content =
     (let (size, fail, rest) = extract_int int32_min int32_max content in
      if fail then die
      else if rest = [] then Inr size
      else (let (suffix, _) = extract_word rest in
            if suffix = [] then Inr size
            else if suffix \<noteq> ''K'' then die
            else chk_int in_i32 (size * 1024)))"

definition read_cache :: "sys_env \<Rightarrow> string \<Rightarrow> string \<Rightarrow> CacheInfo res" where
  "read_cache env fpath size_content =
     rbind (cache_size size_content) (\<lambda>size.
     (let (type_ok, type) = ReadFromFile_string env (fpath @ ''type'') in if \<not> type_ok then die else
      let (level_ok, level) = ReadFromFile_int int32_min int32_max env (fpath @ ''level'') in if \<not> level_ok then die else
      let (map_ok, map_str) = ReadFromFile_string env (fpath @ ''shared_cpu_map'') in if \<not> map_ok then die else
      rbind (CountSetBitsInCPUMap map_str) (\<lambda>num_sharing.
      Inr \<lparr>ca_type = type, ca_level = level, ca_size = size, ca_num_sharing = num_sharing\<rparr>)))"

text \<open>\<open>while (true)\<close> over the directories; \<open>fuel\<close> bounds their number.\<close>

fun cache_loop :: "nat \<Rightarrow> sys_env \<Rightarrow> nat \<Rightarrow> CacheInfo list \<Rightarrow> CacheInfo list res option" where
  "cache_loop 0 env idx res = None"
| "cache_loop (Suc fuel) env idx res =
     (case sy_file env (cache_dir idx @ ''size'') of
        None \<Rightarrow> Some (Inr res)
      | Some content \<Rightarrow>
          (case read_cache env (cache_dir idx) content of
             Inl e \<Rightarrow> Some (Inl e)
           | Inr info \<Rightarrow> cache_loop fuel env (Suc idx) (res @ [info])))"

definition GetCacheSizesFromKVFS :: "nat \<Rightarrow> sys_env \<Rightarrow> CacheInfo list res option" where
  "GetCacheSizesFromKVFS fuel env = cache_loop fuel env 0 []"

section \<open>Names, numbers, load\<close>

definition GetSystemName :: "sys_env \<Rightarrow> string" where
  "GetSystemName env = (case sy_hostname env of None \<Rightarrow> [] | Some hostname \<Rightarrow> hostname)"

definition GetASLR :: "sys_env \<Rightarrow> ASLR" where
  "GetASLR env = (if sy_no_randomize env then ASLR.DISABLED else ASLR.ENABLED)"

definition GetNumCPUsImpl :: "sys_env \<Rightarrow> int res" where
  "GetNumCPUsImpl env = (let num_cpu = sy_nprocessors_onln env in if num_cpu < 0 then die else Inr num_cpu)"

text \<open>The number of CPUs and what is written to \<open>std::cerr\<close>.\<close>

definition GetNumCPUs :: "sys_env \<Rightarrow> (int \<times> string) res" where
  "GetNumCPUs env = rbind (GetNumCPUsImpl env) (\<lambda>num_cpus.
     Inr (if num_cpus < 1 then (1, ''Unable to extract number of CPUs.'' @ ''\<newline>'') else (num_cpus, [])))"

definition kMaxSamples :: nat where "kMaxSamples = 3"

definition GetLoadAvg :: "sys_env \<Rightarrow> double list" where
  "GetLoadAvg env = (case sy_loadavg env of None \<Rightarrow> [] | Some samples \<Rightarrow> take kMaxSamples samples)"

section \<open>Frequency\<close>

text \<open>\<open>SetAffinity\<close> keeps the first CPU of the set.\<close>

fun keep_first :: "bool \<Rightarrow> bool list \<Rightarrow> bool list" where
  "keep_first is_first [] = []"
| "keep_first is_first (b # bs) = (if b then is_first # keep_first False bs else False # keep_first is_first bs)"

definition SetAffinity :: "sys_env \<Rightarrow> bool" where
  "SetAffinity env = (case sy_affinity env of
       None \<Rightarrow> False
     | Some previous \<Rightarrow> True \<in> set previous \<and> sy_setaffinity env (keep_first True previous))"

text \<open>The destructor of the guard resets the affinity or dies.\<close>

definition reset_affinity :: "sys_env \<Rightarrow> unit res" where
  "reset_affinity env =
     (if \<not> SetAffinity env then Inr ()
      else (case sy_affinity env of None \<Rightarrow> die | Some previous \<Rightarrow> if sy_setaffinity env previous then Inr () else die))"

text \<open>The busy loop reads the clock once per turn, until a second has passed.\<close>

fun busy_loop :: "nat \<Rightarrow> (nat \<Rightarrow> double) \<Rightarrow> double \<Rightarrow> nat \<Rightarrow> nat option" where
  "busy_loop 0 clock start_time k = None"
| "busy_loop (Suc fuel) clock start_time k =
     (if clock k - start_time < Fin 1 then busy_loop fuel clock start_time (Suc k) else Some (Suc k))"

definition estimate_frequency :: "nat \<Rightarrow> sys_env \<Rightarrow> (double \<times> string) res option" where
  "estimate_frequency fuel env =
     (let start_time = sy_clock env 0;
          err = (if \<not> SetAffinity env then ''***WARNING*** Failed to set thread affinity. Estimated CPU '' @
                   ''frequency may be incorrect.'' @ ''\<newline>'' else [])
      in case busy_loop fuel (sy_clock env) start_time 1 of
           None \<Rightarrow> None
         | Some k \<Rightarrow> Some (rbind (chk_int in_i64 (sy_end_ticks env - sy_start_ticks env)) (\<lambda>ticks.
             rbind (reset_affinity env) (\<lambda>_.
             Inr (double_of_int ticks / (sy_clock env k - start_time), err)))))"

text \<open>Case-insensitive prefix test.\<close>

definition StartsWithKey :: "string \<Rightarrow> string \<Rightarrow> bool" where
  "StartsWithKey val key \<longleftrightarrow> length key \<le> length val \<and> lower (take (length key) val) = lower key"

definition value_of_line :: "string \<Rightarrow> string" where
  "value_of_line entry = drop 1 (dropWhile (\<lambda>c. c \<noteq> CHR '':'') entry)"

text \<open>The lines of /proc/cpuinfo: a frequency that is returned at once, or the last \<open>bogomips\<close>.\<close>

fun cpuinfo_lines :: "double \<Rightarrow> string list \<Rightarrow> (double + double) res" where
  "cpuinfo_lines bogo_clock [] = Inr (Inr bogo_clock)"
| "cpuinfo_lines bogo_clock (entry # entries) =
     (if entry = [] then cpuinfo_lines bogo_clock entries
      else if StartsWithKey entry ''cpu MHz'' then
        (if value_of_line entry \<noteq> [] then
           rbind (stod (value_of_line entry)) (\<lambda>v.
           (let cycles_per_second = v * Fin 1000000 in
            if Fin 0 < cycles_per_second then Inr (Inl cycles_per_second) else cpuinfo_lines bogo_clock entries))
         else cpuinfo_lines bogo_clock entries)
      else if StartsWithKey entry ''bogomips'' then
        (if value_of_line entry \<noteq> [] then
           rbind (stod (value_of_line entry)) (\<lambda>v.
           (let bogo = v * Fin 1000000 in cpuinfo_lines (if bogo < Fin 0 then Fin (-1) else bogo) entries))
         else cpuinfo_lines bogo_clock entries)
      else cpuinfo_lines bogo_clock entries)"

definition read_frequency :: "sys_env \<Rightarrow> Scaling \<Rightarrow> int option" where
  "read_frequency env scaling =
     (let tsc = ReadFromFile_int int64_min int64_max env ''/sys/devices/system/cpu/cpu0/tsc_freq_khz'';
          cur = ReadFromFile_int int64_min int64_max env ''/sys/devices/system/cpu/cpu0/cpufreq/scaling_cur_freq'';
          highest = ReadFromFile_int int64_min int64_max env ''/sys/devices/system/cpu/cpu0/cpufreq/cpuinfo_max_freq''
      in if fst tsc then Some (snd tsc)
         else if scaling = Scaling.DISABLED \<and> fst cur then Some (snd cur)
         else if fst highest then Some (snd highest) else None)"

definition GetCPUCyclesPerSecond :: "nat \<Rightarrow> sys_env \<Rightarrow> Scaling \<Rightarrow> (double \<times> string) res option" where
  "GetCPUCyclesPerSecond fuel env scaling =
     (case read_frequency env scaling of
        Some freq \<Rightarrow> Some (Inr (double_of_int freq * Fin 1000, []))
      | None \<Rightarrow>
          (case sy_file env ''/proc/cpuinfo'' of
             None \<Rightarrow> Some (Inr (Fin (-1), ''failed to open /proc/cpuinfo'' @ ''\<newline>''))
           | Some content \<Rightarrow>
               (case cpuinfo_lines (Fin (-1)) (getlines content) of
                  Inl e \<Rightarrow> Some (Inl e)
                | Inr (Inl cycles) \<Rightarrow> Some (Inr (cycles, []))
                | Inr (Inr bogo_clock) \<Rightarrow>
                    if Fin 0 \<le> bogo_clock then Some (Inr (bogo_clock, [])) else estimate_frequency fuel env)))"

section \<open>The two structures\<close>

text \<open>The members are initialised in the order of their declaration.\<close>

definition CPUInfo_new :: "nat \<Rightarrow> sys_env \<Rightarrow> (CPUInfo \<times> string) res option" where
  "CPUInfo_new fuel env =
     (case GetNumCPUs env of
        Inl e \<Rightarrow> Some (Inl e)
      | Inr (num_cpus, err1) \<Rightarrow>
          (let scaling = CpuScaling env num_cpus in
           case GetCPUCyclesPerSecond fuel env scaling of
             None \<Rightarrow> None
           | Some (Inl e) \<Rightarrow> Some (Inl e)
           | Some (Inr (cycles_per_second, err2)) \<Rightarrow>
               (case GetCacheSizesFromKVFS fuel env of
                  None \<Rightarrow> None
                | Some (Inl e) \<Rightarrow> Some (Inl e)
                | Some (Inr caches) \<Rightarrow>
                    Some (Inr (\<lparr>cpu_num_cpus = num_cpus, cpu_scaling = scaling, cpu_cycles_per_second = cycles_per_second,
                      cpu_caches = caches, cpu_load_avg = GetLoadAvg env\<rparr>, err1 @ err2)))))"

definition SystemInfo_new :: "sys_env \<Rightarrow> SystemInfo" where
  "SystemInfo_new env = \<lparr>sys_name = GetSystemName env, sys_ASLRStatus = GetASLR env\<rparr>"

section \<open>What the kernel prints is what is found\<close>

text \<open>A part of a CPU map: hexadecimal digits, with their value.\<close>

definition hex_text :: "string \<Rightarrow> bool" where
  "hex_text s \<longleftrightarrow> s \<noteq> [] \<and> length s \<le> 16 \<and> (\<forall>c \<in> set s. hex_value c \<noteq> None)"

definition hex_number :: "string \<Rightarrow> nat" where
  "hex_number s = foldl (\<lambda>acc c. 16 * acc + the (hex_value c)) 0 s"

lemma read_base_hex:
  "\<forall>c \<in> set s. hex_value c \<noteq> None \<Longrightarrow>
     read_base hex_value 16 acc k s = (foldl (\<lambda>acc c. 16 * acc + the (hex_value c)) acc s, k + length s, [])"
  by (induction s arbitrary: acc k) auto

lemma hex_value_bound: "hex_value c = Some d \<Longrightarrow> d < 16"
  by (auto simp: hex_value_def is_digit_def digit_value_def split: if_splits)

lemma hex_number_bound: "hex_text s \<Longrightarrow> hex_number s < 2 ^ 64"
proof -
  assume s: "hex_text s"
  have "\<forall>c \<in> set s. hex_value c \<noteq> None \<Longrightarrow> acc < 16 ^ k \<Longrightarrow>
      foldl (\<lambda>acc c. 16 * acc + the (hex_value c)) acc s < 16 ^ (k + length s)" for acc k
  proof (induction s arbitrary: acc k)
    case (Cons c s)
    then obtain d where d: "hex_value c = Some d" by auto
    have "16 * acc + d < 16 ^ Suc k" using Cons.prems(2) hex_value_bound[OF d] by simp
    then show ?case using Cons.IH[of "16 * acc + d" "Suc k"] Cons.prems(1) d by simp
  qed simp
  from this[of 0 0] have "hex_number s < 16 ^ length s" using s by (simp add: hex_text_def hex_number_def)
  also have "\<dots> \<le> 16 ^ 16" using s by (intro power_increasing) (simp_all add: hex_text_def)
  finally show ?thesis by simp
qed

lemma hex_char_graph: "hex_value c \<noteq> None \<Longrightarrow> c \<noteq> CHR '','' \<and> \<not> is_space c"
  by (auto simp: hex_value_def is_digit_def is_alnum_def is_upper_def is_lower_def is_space_def split: if_splits)

lemma CountBits_hex: "hex_text s \<Longrightarrow> CountBits s = Inr (int (popcount (hex_number s)))"
  using hex_number_bound[of s] read_base_hex[of s 0 0] by (simp add: CountBits_def hex_text_def hex_number_def)

lemma count_parts_hex:
  "\<forall>s \<in> set parts. hex_text s \<Longrightarrow>
     count_parts (intercalate CHR '','' parts) acc = Inr (acc + (\<Sum>s\<leftarrow>parts. int (popcount (hex_number s))))"
proof (induction parts arbitrary: acc)
  case Nil
  then show ?case by (simp add: count_parts.simps)
next
  case (Cons s parts)
  have s: "hex_text s" "s \<noteq> []" "\<forall>c \<in> set s. c \<noteq> CHR '',''"
    using Cons.prems hex_char_graph by (auto simp: hex_text_def)
  show ?case
  proof (cases "parts = []")
    case True
    have "dropWhile (\<lambda>c. c \<noteq> CHR '','') s = []" using s(3) by simp
    then have "count_parts s acc = Inr (acc + int (popcount (hex_number s)))"
      using s CountBits_hex[OF s(1)] by (simp add: count_parts.simps[of s] del: dropWhile_eq_Nil_conv)
    then show ?thesis using True by simp
  next
    case False
    then have shape: "intercalate CHR '','' (s # parts) = s @ CHR '','' # intercalate CHR '','' parts"
      by (simp add: intercalate_Cons)
    have "dropWhile (\<lambda>c. c \<noteq> CHR '','') (s @ CHR '','' # t) = CHR '','' # t"
      "takeWhile (\<lambda>c. c \<noteq> CHR '','') (s @ CHR '','' # t) = s" for t
      using s(3) by (simp_all add: dropWhile_append2 takeWhile_append2)
    then show ?thesis
      unfolding shape by (subst count_parts.simps) (use Cons s CountBits_hex[OF s(1)] in simp)
  qed
qed

text \<open>A cache as the kernel describes it: the type, the level, the size in KiB, the parts of the map.\<close>

type_synonym cache_desc = "string \<times> int \<times> nat \<times> string list"

definition cache_desc_ok :: "cache_desc \<Rightarrow> bool" where
  "cache_desc_ok = (\<lambda>(type, level, kib, parts). type \<noteq> [] \<and> (\<forall>c \<in> set type. \<not> is_space c) \<and> in_i32 level \<and>
     int kib * 1024 \<le> int32_max \<and> parts \<noteq> [] \<and> (\<forall>s \<in> set parts. hex_text s))"

definition cache_files :: "(string \<Rightarrow> string option) \<Rightarrow> nat \<Rightarrow> cache_desc \<Rightarrow> bool" where
  "cache_files file idx = (\<lambda>(type, level, kib, parts).
     file (cache_dir idx @ ''size'') = Some (show_int (int kib) @ ''K\<newline>'') \<and>
     file (cache_dir idx @ ''type'') = Some (type @ ''\<newline>'') \<and>
     file (cache_dir idx @ ''level'') = Some (show_int level @ ''\<newline>'') \<and>
     file (cache_dir idx @ ''shared_cpu_map'') = Some (intercalate CHR '','' parts @ ''\<newline>''))"

definition cache_of :: "cache_desc \<Rightarrow> CacheInfo" where
  "cache_of = (\<lambda>(type, level, kib, parts). \<lparr>ca_type = type, ca_level = level, ca_size = int kib * 1024,
     ca_num_sharing = (\<Sum>s\<leftarrow>parts. int (popcount (hex_number s)))\<rparr>)"

lemma extract_word_line:
  assumes "w \<noteq> []" "\<forall>c \<in> set w. \<not> is_space c"
  shows "extract_word (w @ ''\<newline>'') = (w, ''\<newline>'')"
proof -
  have "dropWhile is_space (w @ ''\<newline>'') = w @ ''\<newline>''" using assms by (cases w) auto
  moreover have "is_space CHR ''\<newline>''" by (simp add: is_space_def)
  ultimately show ?thesis using assms(2) by (simp add: extract_word_def takeWhile_append2 dropWhile_append2)
qed

lemma show_int_no_space: "dropWhile is_space (show_int n @ t) = show_int n @ t"
proof -
  obtain c s where "show_nat (nat n) = c # s" "is_digit c" by (rule show_nat_Cons)
  then show ?thesis using digit_not_space by (auto simp: show_int_def is_space_def)
qed

lemma extract_int_shown:
  assumes "lowest \<le> n" "n \<le> highest" "in_i64 n" "\<not> is_digit c"
  shows "extract_int lowest highest (show_int n @ c # t) = (n, False, c # t)"
  using strtol_show_int[OF assms(3), of "c # t"] assms
  by (simp add: extract_int_def show_int_no_space) (simp add: show_int_def)

lemma intercalate_no_space:
  assumes "parts \<noteq> []" "\<forall>s \<in> set parts. hex_text s"
  shows "intercalate CHR '','' parts \<noteq> []" "\<forall>c \<in> set (intercalate CHR '','' parts). \<not> is_space c"
proof -
  show "intercalate CHR '','' parts \<noteq> []" using assms by (cases parts) (auto simp: intercalate_Cons hex_text_def)
  have "\<forall>s \<in> set parts. \<forall>c \<in> set s. \<not> is_space c" using assms(2) hex_char_graph unfolding hex_text_def by blast
  moreover have "\<not> is_space CHR '',''" by (simp add: is_space_def)
  ultimately show "\<forall>c \<in> set (intercalate CHR '','' parts). \<not> is_space c"
    by (induction parts) (auto simp: intercalate_Cons)
qed

lemma read_cache_files:
  assumes "cache_desc_ok d" "cache_files (sy_file env) idx d" "sy_file env (cache_dir idx @ ''size'') = Some content"
  shows "read_cache env (cache_dir idx) content = Inr (cache_of d)"
proof -
  obtain type level kib parts where d: "d = (type, level, kib, parts)" by (rule prod_cases4)
  note ok = assms(1)[unfolded d cache_desc_ok_def prod.case] and files = assms(2)[unfolded d cache_files_def prod.case]
  have kib_ok: "int kib * 1024 \<le> int32_max" and level_ok: "in_i32 level" using ok by blast+
  have kib: "int32_min \<le> int kib" "int kib \<le> int32_max" "in_i32 (int kib * 1024)" "in_i64 (int kib)"
    using kib_ok unfolding int_width_defs by linarith+
  have level: "int32_min \<le> level" "level \<le> int32_max" "in_i64 level"
    using level_ok unfolding int_width_defs by linarith+
  have no_digit: "\<not> is_digit CHR ''K''" "\<not> is_digit CHR ''\<newline>''" by (simp_all add: is_digit_def)
  have "extract_word ''K\<newline>'' = (''K'', ''\<newline>'')" by (simp add: extract_word_def is_space_def)
  then have 1: "cache_size (show_int (int kib) @ ''K\<newline>'') = Inr (int kib * 1024)"
    using kib(3) by (simp add: cache_size_def extract_int_shown[OF kib(1,2,4) no_digit(1)])
  have 2: "ReadFromFile_int int32_min int32_max env (cache_dir idx @ ''level'') = (True, level)"
    using files by (simp only: ReadFromFile_int_def option.case extract_int_shown[OF level no_digit(2)] Let_def prod.case) simp
  have 3: "ReadFromFile_string env (cache_dir idx @ ''type'') = (True, type)"
    using files ok extract_word_line[of type] by (simp only: ReadFromFile_string_def option.case Let_def prod.case) simp
  have 4: "ReadFromFile_string env (cache_dir idx @ ''shared_cpu_map'') = (True, intercalate CHR '','' parts)"
    using files ok extract_word_line[OF intercalate_no_space[of parts]] intercalate_no_space(1)[of parts]
    by (simp only: ReadFromFile_string_def option.case Let_def prod.case) simp
  have 5: "CountSetBitsInCPUMap (intercalate CHR '','' parts) = Inr (\<Sum>s\<leftarrow>parts. int (popcount (hex_number s)))"
    using ok count_parts_hex[of parts 0] by (simp add: CountSetBitsInCPUMap_def)
  have "content = show_int (int kib) @ ''K\<newline>''" using assms(3) files by simp
  then show ?thesis
    by (simp only: read_cache_def 1 2 3 4 5 rbind_Inr Let_def prod.case not_True_eq_False if_False cache_of_def d)
qed

lemma cache_loop_files:
  assumes "\<forall>i < length ds. cache_desc_ok (ds ! i) \<and> cache_files (sy_file env) (idx + i) (ds ! i)"
    and "sy_file env (cache_dir (idx + length ds) @ ''size'') = None" "length ds < fuel"
  shows "cache_loop fuel env idx res = Some (Inr (res @ map cache_of ds))"
  using assms
proof (induction ds arbitrary: idx res fuel)
  case Nil
  then show ?case by (cases fuel) simp_all
next
  case (Cons d ds)
  obtain fuel' where fuel: "fuel = Suc fuel'" using Cons.prems(3) by (cases fuel) auto
  have d: "cache_desc_ok d" "cache_files (sy_file env) idx d" using Cons.prems(1) by force+
  then obtain content where "sy_file env (cache_dir idx @ ''size'') = Some content"
    by (auto simp: cache_files_def)
  moreover have "cache_desc_ok (ds ! i) \<and> cache_files (sy_file env) (Suc idx + i) (ds ! i)" if "i < length ds" for i
    using Cons.prems(1)[rule_format, of "Suc i"] that by simp
  ultimately show ?case
    using Cons.IH[of "Suc idx" fuel' "res @ [cache_of d]"] Cons.prems(2,3) read_cache_files[OF d]
    by (simp add: fuel)
qed

text \<open>C39: When the cache directories of /sys hold what the kernel prints (sizes in KiB, types and levels, CPU maps
  as comma-separated hexadecimal words, each file a line), the search for them ends after the last
  one and finds every cache in order, with its size in bytes and with the number of CPUs whose bit is
  set in its map.\<close>

theorem GetCacheSizes_found:
  assumes "\<forall>i < length ds. cache_desc_ok (ds ! i) \<and> cache_files (sy_file env) i (ds ! i)"
    and "sy_file env (cache_dir (length ds) @ ''size'') = None" "length ds < fuel"
  shows "GetCacheSizesFromKVFS fuel env = Some (Inr (map cache_of ds))"
  using cache_loop_files[of ds env 0 fuel "[]"] assms by (simp add: GetCacheSizesFromKVFS_def)

text \<open>A machine with one cache, shared by twelve CPUs.\<close>

definition one_cache :: "string \<Rightarrow> string option" where
  "one_cache path =
     (if path = cache_dir 0 @ ''size'' then Some (show_int 8 @ ''K\<newline>'')
      else if path = cache_dir 0 @ ''type'' then Some ''Data\<newline>''
      else if path = cache_dir 0 @ ''level'' then Some (show_int 1 @ ''\<newline>'')
      else if path = cache_dir 0 @ ''shared_cpu_map'' then Some ''f,ff\<newline>'' else None)"

definition one_cache_env :: sys_env where
  "one_cache_env = \<lparr>sy_file = one_cache, sy_nprocessors_onln = 16, sy_hostname = None, sy_no_randomize = True,
     sy_loadavg = None, sy_affinity = None, sy_setaffinity = (\<lambda>_. False), sy_clock = (\<lambda>k. Fin (of_nat k)),
     sy_start_ticks = 0, sy_end_ticks = 0\<rparr>"

lemma cache_dir_shown:
  "cache_dir 0 = ''/sys/devices/system/cpu/cpu0/cache/index0/''" "cache_dir 1 = ''/sys/devices/system/cpu/cpu0/cache/index1/''"
proof -
  have "show_int 0 = ''0''" "show_int 1 = ''1''" by code_simp+
  then show "cache_dir 0 = ''/sys/devices/system/cpu/cpu0/cache/index0/''" "cache_dir 1 = ''/sys/devices/system/cpu/cpu0/cache/index1/''"
    by (simp_all add: cache_dir_def)
qed

theorem GetCacheSizes_found_witness:
  "GetCacheSizesFromKVFS 5 one_cache_env = Some (Inr [\<lparr>ca_type = ''Data'', ca_level = 1, ca_size = 8192, ca_num_sharing = 12\<rparr>])"
proof -
  let ?d = "(''Data'', 1, 8, [''f'', ''ff'']) :: cache_desc"
  have hex: "hex_text ''f''" "hex_text ''ff''" "popcount (hex_number ''f'') = 4" "popcount (hex_number ''ff'') = 8" by code_simp+
  have "\<forall>c \<in> set ''Data''. \<not> is_space c" by code_simp
  then have "cache_desc_ok ?d" using hex by (simp add: cache_desc_ok_def int_width_defs)
  moreover have "cache_files (sy_file one_cache_env) 0 ?d"
    by (simp add: cache_files_def one_cache_env_def one_cache_def)
  moreover have "sy_file one_cache_env (cache_dir 1 @ ''size'') = None"
    by (simp add: one_cache_env_def one_cache_def cache_dir_shown del: One_nat_def)
  moreover have "cache_of ?d = \<lparr>ca_type = ''Data'', ca_level = 1, ca_size = 8192, ca_num_sharing = 12\<rparr>"
    by (simp add: cache_of_def hex)
  ultimately show ?thesis using GetCacheSizes_found[of "[?d]" one_cache_env 5] by simp
qed

end
