(* ===== verification/Timers.thy ===== *)
theory Timers
  imports CText Doubles
begin

text \<open>
  Times of the process and of the day: src/src/timers.cc, as compiled for Linux.

  What \<open>clock_gettime\<close>, \<open>localtime_r\<close> and \<open>gmtime_r\<close> give is a parameter: a \<open>timespec\<close>, or \<open>None\<close> when the call
  fails, and two broken-down times.  \<open>strftime\<close> is modelled at its uses.
\<close>

section \<open>CPU times\<close>

record timespec =
  tv_sec :: int
  tv_nsec :: int

definition MakeTime :: "timespec \<Rightarrow> double" where
  "MakeTime ts = double_of_int (tv_sec ts) + double_of_int (tv_nsec ts) * rnd (1 / 1000000000)"

text \<open>\<open>DiagnoseAndExit\<close> prints and exits with status 1.\<close>

definition ProcessCPUUsage :: "timespec option \<Rightarrow> double res" where
  "ProcessCPUUsage process_cputime =
     (case process_cputime of Some spec \<Rightarrow> Inr (MakeTime spec) | None \<Rightarrow> Inl (ExitWith 1))"

definition ThreadCPUUsage :: "timespec option \<Rightarrow> double res" where
  "ThreadCPUUsage thread_cputime =
     (case thread_cputime of Some ts \<Rightarrow> Inr (MakeTime ts) | None \<Rightarrow> Inl (ExitWith 1))"

section \<open>The local date and time\<close>

text \<open>A broken-down time: years since 1900, months from 0, \<open>tm_gmtoff\<close> in seconds (\<open>None\<close> when unknown).\<close>

record tm =
  tm_year :: nat
  tm_mon :: nat
  tm_mday :: nat
  tm_hour :: nat
  tm_min :: nat
  tm_sec :: nat
  tm_gmtoff :: "int option"

definition pad_zero :: "nat \<Rightarrow> string \<Rightarrow> string" where
  "pad_zero w s = replicate (w - length s) CHR ''0'' @ s"

definition two_digits :: "nat \<Rightarrow> string" where
  "two_digits n = pad_zero 2 (show_nat n)"

text \<open>\<open>strftime\<close> with \<open>%z\<close>, and with \<open>%Y-%m-%dT%H:%M:%S\<close>.\<close>

definition strftime_z :: "tm \<Rightarrow> string" where
  "strftime_z t = (case tm_gmtoff t of
       None \<Rightarrow> []
     | Some off \<Rightarrow> (let m = nat \<bar>off\<bar> div 60
         in (if off < 0 then ''-'' else ''+'') @ pad_zero 4 (show_nat (m div 60 * 100 + m mod 60))))"

definition strftime_timestamp :: "tm \<Rightarrow> string" where
  "strftime_timestamp t =
     show_nat (tm_year t + 1900) @ ''-'' @ two_digits (tm_mon t + 1) @ ''-'' @ two_digits (tm_mday t) @ ''T'' @
     two_digits (tm_hour t) @ '':'' @ two_digits (tm_min t) @ '':'' @ two_digits (tm_sec t)"

definition kTzOffsetLen :: nat where "kTzOffsetLen = 6"

definition kTimestampLen :: nat where "kTimestampLen = 19"

text \<open>The offset as \<open>+HHMM\<close> is read as one number and printed again with a colon.\<close>

definition format_offset :: "string \<Rightarrow> string" where
  "format_offset tz_offset =
     (let (offset_minutes, _, _) = strtol tz_offset;
          sign = (if offset_minutes < 0 then ''-'' else ''+'');
          n = nat \<bar>offset_minutes\<bar>
      in sign @ two_digits (n div 100) @ '':'' @ two_digits (n mod 100))"

definition LocalDateTimeString :: "tm \<Rightarrow> tm \<Rightarrow> string res" where
  "LocalDateTimeString local gm =
     (let z = strftime_z local in
      rbind (if length z < kTzOffsetLen \<and> length z > 1
             then rbind (BM_CHECK (length (format_offset z) = kTzOffsetLen) ''tz_len == kTzOffsetLen'')
                    (\<lambda>_. Inr (local, format_offset z))
             else Inr (gm, ''-00:00'')) (\<lambda>(t, tz_offset).
      rbind (BM_CHECK (length (strftime_timestamp t) = kTimestampLen) ''timestamp_len == kTimestampLen'') (\<lambda>_.
      Inr (strftime_timestamp t @ tz_offset))))"

section \<open>The text can be read back\<close>

text \<open>The reader of RFC 3339: the six numbers and the offset in minutes, which \<open>-00:00\<close> says is not known.\<close>

definition number :: "nat \<Rightarrow> nat \<Rightarrow> string \<Rightarrow> nat" where
  "number i w s = fst (read_digits 0 (take w (drop i s)))"

definition read_rfc3339 :: "string \<Rightarrow> ((nat \<times> nat \<times> nat) \<times> (nat \<times> nat \<times> nat) \<times> int option) option" where
  "read_rfc3339 s =
     (if length s = 25 \<and> s ! 4 = CHR ''-'' \<and> s ! 7 = CHR ''-'' \<and> s ! 10 = CHR ''T'' \<and> s ! 13 = CHR '':'' \<and>
         s ! 16 = CHR '':'' \<and> s ! 22 = CHR '':'' \<and> s ! 19 \<in> {CHR ''+'', CHR ''-''}
      then Some ((number 0 4 s, number 5 2 s, number 8 2 s), (number 11 2 s, number 14 2 s, number 17 2 s),
        (if s ! 19 = CHR ''-'' \<and> number 20 2 s = 0 \<and> number 23 2 s = 0 then None
         else Some ((if s ! 19 = CHR ''-'' then -1 else 1) * int (number 20 2 s * 60 + number 23 2 s))))
      else None)"

lemma read_zeros: "read_digits 0 (replicate k CHR ''0'' @ s) = read_digits 0 s"
  by (induction k) (simp_all add: is_digit_def digit_value_def)

lemma read_padded: "fst (read_digits 0 (pad_zero w (show_nat n))) = n"
  using read_digits_show_nat[of "[]" n] by (simp add: pad_zero_def read_zeros)

lemma read_padded_all: "read_digits 0 (pad_zero w (show_nat n)) = (n, [])"
  using read_digits_show_nat[of "[]" n] by (simp add: pad_zero_def read_zeros)

lemma length_padded: "0 < w \<Longrightarrow> n < 10 ^ w \<Longrightarrow> length (pad_zero w (show_nat n)) = w"
  using length_show_nat_le[of w n] by (simp add: pad_zero_def)

lemma padded_digit:
  assumes "0 < w"
  obtains c s where "pad_zero w (show_nat n) = c # s" "is_digit c"
proof (cases "w - length (show_nat n)")
  case 0
  with that show thesis using show_nat_Cons[of n] by (auto simp: pad_zero_def)
next
  case (Suc k)
  with that show thesis by (simp add: pad_zero_def is_digit_def)
qed

lemma two_digits_length: "n < 100 \<Longrightarrow> length (two_digits n) = 2"
  by (simp add: two_digits_def length_padded)

lemma two_digits_read: "fst (read_digits 0 (two_digits n)) = n"
  by (simp add: two_digits_def read_padded)

lemma year_padded: "1000 \<le> n \<Longrightarrow> pad_zero 4 (show_nat n) = show_nat n"
  using length_show_nat_le[of 3 n] by (simp add: pad_zero_def)

definition calendar_time :: "tm \<Rightarrow> bool" where
  "calendar_time t \<longleftrightarrow> 1000 \<le> tm_year t + 1900 \<and> tm_year t + 1900 < 10000 \<and> tm_mon t < 12 \<and> tm_mday t < 32 \<and>
     tm_hour t < 24 \<and> tm_min t < 60 \<and> tm_sec t < 62"

definition offset_minutes :: "int \<Rightarrow> int" where
  "offset_minutes off = (if off < 0 then - (\<bar>off\<bar> div 60) else off div 60)"

lemma timestamp_length: "calendar_time t \<Longrightarrow> length (strftime_timestamp t) = 19"
  using length_padded[of 4 "tm_year t + 1900"] year_padded[of "tm_year t + 1900"]
  by (simp add: calendar_time_def strftime_timestamp_def two_digits_length)

lemma strtol_signed:
  assumes "n < 10000"
  shows "strtol ((if neg then ''-'' else ''+'') @ pad_zero 4 (show_nat n)) = (if neg then - int n else int n, [], False)"
proof -
  obtain c s where c: "pad_zero 4 (show_nat n) = c # s" "is_digit c" by (rule padded_digit[of 4 n]) simp_all
  with read_padded_all[of 4 n] have "read_digits 0 (c # s) = (n, [])" by simp
  with assms c show ?thesis
    by (simp add: strtol_def is_space_def split_sign_def int_width_defs del: read_digits.simps)
qed

lemma strftime_z_length: "tm_gmtoff t = Some off \<Longrightarrow> \<bar>off\<bar> < 360000 \<Longrightarrow> length (strftime_z t) = 5"
proof -
  assume t: "tm_gmtoff t = Some off" "\<bar>off\<bar> < 360000"
  define m where "m = nat \<bar>off\<bar> div 60"
  have "m < 6000" using t(2) unfolding m_def by simp
  then have "m div 60 * 100 + m mod 60 < 10 ^ 4"
    using div_le_mono[of m 5999 60] mod_less_divisor[of 60 m] by simp
  then show ?thesis using t(1) by (simp add: strftime_z_def Let_def m_def length_padded)
qed

lemma format_offset_colon:
  assumes "tm_gmtoff t = Some off" "\<bar>off\<bar> < 360000" and m: "m = nat \<bar>off\<bar> div 60"
  shows "m div 60 < 100" "format_offset (strftime_z t) =
    (if off < 0 \<and> 0 < m then ''-'' else ''+'') @ two_digits (m div 60) @ '':'' @ two_digits (m mod 60)"
proof -
  define n where "n = m div 60 * 100 + m mod 60"
  have "m < 6000" using assms(2) unfolding m by simp
  then show h: "m div 60 < 100" using div_le_mono[of m 5999 60] by simp
  have s: "m mod 60 < 60" by simp
  have n: "n < 10000" "n div 100 = m div 60" "n mod 100 = m mod 60"
    using h s unfolding n_def by simp_all
  have "n = 0 \<longleftrightarrow> m = 0" using div_mult_mod_eq[of m 60] unfolding n_def by auto
  then have "0 < n \<longleftrightarrow> 0 < m" by linarith
  with assms(1) n strtol_signed[OF n(1), of "off < 0"] show
    "format_offset (strftime_z t) =
      (if off < 0 \<and> 0 < m then ''-'' else ''+'') @ two_digits (m div 60) @ '':'' @ two_digits (m mod 60)"
    by (simp add: format_offset_def strftime_z_def Let_def m[symmetric] n_def[symmetric])
qed

lemma LocalDateTimeString_known:
  assumes "calendar_time local" "tm_gmtoff local = Some off" "\<bar>off\<bar> < 360000"
  shows "LocalDateTimeString local gm = Inr (strftime_timestamp local @ format_offset (strftime_z local))"
  using format_offset_colon[OF assms(2,3) refl] strftime_z_length[OF assms(2,3)] timestamp_length[OF assms(1)]
  by (simp add: LocalDateTimeString_def kTzOffsetLen_def kTimestampLen_def two_digits_length BM_CHECK_def)

lemma read_timestamp:
  assumes t: "calendar_time t" and "h < 100" "m < 100" "c \<in> {CHR ''+'', CHR ''-''}"
  shows "read_rfc3339 (strftime_timestamp t @ c # two_digits h @ '':'' @ two_digits m) =
    Some ((tm_year t + 1900, tm_mon t + 1, tm_mday t), (tm_hour t, tm_min t, tm_sec t),
      (if c = CHR ''-'' \<and> h = 0 \<and> m = 0 then None
       else Some ((if c = CHR ''-'' then -1 else 1) * int (h * 60 + m))))"
proof -
  have y: "length (show_nat (tm_year t + 1900)) = 4" "fst (read_digits 0 (show_nat (tm_year t + 1900))) = tm_year t + 1900"
    using t length_padded[of 4 "tm_year t + 1900"] year_padded[of "tm_year t + 1900"] read_padded[of 4 "tm_year t + 1900"]
    by (simp_all add: calendar_time_def)
  have d: "length (two_digits (tm_mon t + 1)) = 2" "length (two_digits (tm_mday t)) = 2" "length (two_digits (tm_hour t)) = 2"
    "length (two_digits (tm_min t)) = 2" "length (two_digits (tm_sec t)) = 2" "length (two_digits h) = 2" "length (two_digits m) = 2"
    using assms two_digits_length by (simp_all add: calendar_time_def)
  show ?thesis
    using assms(4) y d two_digits_read
    by (simp add: read_rfc3339_def number_def strftime_timestamp_def nth_append del: read_digits.simps)
qed

text \<open>C40: the time a report is dated with can be read back, when the years have four digits.  With a known offset of less
  than 100 hours the text is the local date and time and the offset in whole minutes; with an unknown one it is the
  time in UTC with the offset \<open>-00:00\<close>, which readers of RFC 3339 take for an unknown offset, and which is
  never written for a known one.  Neither check of the function fails.\<close>

theorem LocalDateTimeString_roundtrip:
  assumes "calendar_time local" "calendar_time gm" "\<And>off. tm_gmtoff local = Some off \<Longrightarrow> \<bar>off\<bar> < 360000"
  shows "\<exists>s. LocalDateTimeString local gm = Inr s \<and> (drop 19 s = ''-00:00'' \<longleftrightarrow> tm_gmtoff local = None) \<and>
    read_rfc3339 s = Some (let t = (if tm_gmtoff local = None then gm else local) in
      ((tm_year t + 1900, tm_mon t + 1, tm_mday t), (tm_hour t, tm_min t, tm_sec t),
       map_option offset_minutes (tm_gmtoff local)))"
proof (cases "tm_gmtoff local")
  case None
  have "''-00:00'' = CHR ''-'' # two_digits 0 @ '':'' @ two_digits 0" by code_simp
  with None read_timestamp[OF assms(2), of 0 0 "CHR ''-''"] timestamp_length[OF assms(2)] show ?thesis
    by (simp add: LocalDateTimeString_def strftime_z_def kTzOffsetLen_def kTimestampLen_def BM_CHECK_def Let_def
        del: append_Cons)
next
  case (Some off)
  define m where "m = nat \<bar>off\<bar> div 60"
  note off = Some assms(3)[OF Some]
  note form = format_offset_colon[OF off m_def]
  define c where "c = (if off < 0 \<and> 0 < m then CHR ''-'' else CHR ''+'')"
  have h: "m div 60 * 60 + m mod 60 = m" by simp
  have o: "offset_minutes off = (if off < 0 then -1 else 1) * int m"
    unfolding offset_minutes_def m_def by (simp add: zdiv_int)
  have "c = CHR ''-'' \<Longrightarrow> m div 60 \<noteq> 0 \<or> m mod 60 \<noteq> 0" using h unfolding c_def by (auto split: if_splits)
  with read_timestamp[OF assms(1) form(1), of "m mod 60" c] o have read:
    "read_rfc3339 (strftime_timestamp local @ c # two_digits (m div 60) @ '':'' @ two_digits (m mod 60)) =
      Some ((tm_year local + 1900, tm_mon local + 1, tm_mday local), (tm_hour local, tm_min local, tm_sec local),
        Some (offset_minutes off))"
    unfolding h by (auto simp: c_def)
  have "c # two_digits (m div 60) @ '':'' @ two_digits (m mod 60) \<noteq> ''-00:00''"
  proof
    assume e: "c # two_digits (m div 60) @ '':'' @ two_digits (m mod 60) = ''-00:00''"
    have "''-00:00'' = CHR ''-'' # two_digits 0 @ '':'' @ two_digits 0" by code_simp
    with read_timestamp[OF assms(1), of 0 0 "CHR ''-''"] read e show False by simp
  qed
  with Some form read LocalDateTimeString_known[OF assms(1) off] timestamp_length[OF assms(1)] show ?thesis
    by (auto simp: c_def Let_def split: if_splits)
qed

theorem LocalDateTimeString_roundtrip_witness:
  "let t = \<lparr> tm_year = 125, tm_mon = 4, tm_mday = 9, tm_hour = 17, tm_min = 5, tm_sec = 0, tm_gmtoff = Some (-12600) \<rparr> in
   \<exists>s. LocalDateTimeString t t = Inr s \<and> read_rfc3339 s = Some ((2025, 5, 9), (17, 5, 0), Some (-210))"
  using LocalDateTimeString_roundtrip[of
      "\<lparr> tm_year = 125, tm_mon = 4, tm_mday = 9, tm_hour = 17, tm_min = 5, tm_sec = 0, tm_gmtoff = Some (-12600) \<rparr>"
      "\<lparr> tm_year = 125, tm_mon = 4, tm_mday = 9, tm_hour = 17, tm_min = 5, tm_sec = 0, tm_gmtoff = Some (-12600) \<rparr>"]
  by (auto simp: calendar_time_def offset_minutes_def Let_def)

end
