(* ===== verification/Program.thy ===== *)
theory Program
  imports Reports CommandLine "HOL-Library.Word"
begin

text \<open>
  The whole program: \<open>BENCHMARK_MAIN\<close> of src/include/benchmark/benchmark.h on top of \<open>Initialize\<close>,
  \<open>RunSpecifiedBenchmarks\<close> and the reporters, and \<open>MaybeReenterWithoutASLR\<close> (src/src/benchmark.cc),
  which may replace the process by a new one.
\<close>

unbundle bit_operations_syntax

section \<open>Without address space layout randomisation\<close>

text \<open>
  The kernel is a parameter: \<open>personality(request)\<close> in a process with persona \<open>p\<close> returns a value
  and leaves a persona; \<open>execv\<close> succeeds or returns.  The value of \<open>ADDR_NO_RANDOMIZE\<close> is that of
  Linux.  A result of -1 is the word of all ones.
\<close>

record aslr_kernel =
  ak_personality :: "32 word \<Rightarrow> 32 word \<Rightarrow> 32 word \<times> 32 word"
  ak_execv :: "32 word \<Rightarrow> bool"

definition ADDR_NO_RANDOMIZE :: "32 word" where "ADDR_NO_RANDOMIZE = 0x0040000"

datatype reenter = Continue "32 word" | Execed "32 word"

definition MaybeReenterWithoutASLR :: "aslr_kernel \<Rightarrow> bool \<Rightarrow> 32 word \<Rightarrow> reenter" where
  "MaybeReenterWithoutASLR kern null_argv persona =
     (if null_argv then Continue persona else
      let (curr_personality, s1) = ak_personality kern 0xffffffff persona in
      if curr_personality = - 1 then Continue s1 else
      if curr_personality AND ADDR_NO_RANDOMIZE \<noteq> 0 then Continue s1 else
      let proposed_personality = curr_personality OR ADDR_NO_RANDOMIZE;
          (prev_personality, s2) = ak_personality kern proposed_personality s1 in
      if prev_personality = - 1 then Continue s2 else
      let (new_personality, s3) = ak_personality kern 0xffffffff s2 in
      if new_personality AND ADDR_NO_RANDOMIZE = 0 then Continue s3 else
      if ak_execv kern s3 then Execed s3 else Continue s3)"

text \<open>The images of the process, one after the other; the persona survives \<open>execv\<close>.  The result is the
  number of replacements and the persona with which \<open>main\<close> goes on.\<close>

fun process_images :: "nat \<Rightarrow> aslr_kernel \<Rightarrow> bool \<Rightarrow> 32 word \<Rightarrow> (nat \<times> 32 word) option" where
  "process_images 0 kern null_argv persona = None"
| "process_images (Suc fuel) kern null_argv persona =
     (case MaybeReenterWithoutASLR kern null_argv persona of
        Continue p \<Rightarrow> Some (0, p)
      | Execed p \<Rightarrow> map_option (\<lambda>(n, q). (Suc n, q)) (process_images fuel kern null_argv p))"

text \<open>What is documented of the query: it reports the persona, or fails, and changes nothing.\<close>

definition query_documented :: "aslr_kernel \<Rightarrow> bool" where
  "query_documented kern \<longleftrightarrow> (\<forall>p. ak_personality kern 0xffffffff p \<in> {(p, p), (- 1, p)})"

lemma reenter_settles:
  assumes "query_documented kern" "MaybeReenterWithoutASLR kern null_argv persona = Execed p"
  shows "MaybeReenterWithoutASLR kern null_argv' p = Continue p" "persona AND ADDR_NO_RANDOMIZE = 0"
    "ak_personality kern 0xffffffff p = (p, p) \<Longrightarrow> p AND ADDR_NO_RANDOMIZE \<noteq> 0"
proof -
  have q: "ak_personality kern 0xffffffff r = (r, r) \<or> ak_personality kern 0xffffffff r = (- 1, r)" for r
    using assms(1) unfolding query_documented_def by blast
  obtain prev s2 where request: "ak_personality kern (persona OR ADDR_NO_RANDOMIZE) persona = (prev, s2)"
    by (cases "ak_personality kern (persona OR ADDR_NO_RANDOMIZE) persona")
  have curr: "ak_personality kern 0xffffffff persona = (persona, persona)" "persona \<noteq> - 1" "persona AND ADDR_NO_RANDOMIZE = 0"
    using assms(2) q[of persona] by (auto simp: MaybeReenterWithoutASLR_def Let_def split: if_splits)
  then have p: "p = s2" "fst (ak_personality kern 0xffffffff s2) AND ADDR_NO_RANDOMIZE \<noteq> 0"
    using assms(2) q[of s2] request by (auto simp: MaybeReenterWithoutASLR_def Let_def split: if_splits)
  show "persona AND ADDR_NO_RANDOMIZE = 0" by (rule curr(3))
  show "ak_personality kern 0xffffffff p = (p, p) \<Longrightarrow> p AND ADDR_NO_RANDOMIZE \<noteq> 0" using p by simp
  show "MaybeReenterWithoutASLR kern null_argv' p = Continue p"
    using q[of s2] p by (auto simp: MaybeReenterWithoutASLR_def Let_def)
qed

text \<open>The program is replaced at most once, whatever the kernel answers to the request: the second image always
  goes on, and it does so without randomisation unless its query fails.\<close>

lemma reenter_at_most_once:
  assumes "query_documented kern"
  shows "\<exists>n p. process_images 2 kern null_argv persona = Some (n, p) \<and> n \<le> 1 \<and>
    (n = 1 \<longrightarrow> persona AND ADDR_NO_RANDOMIZE = 0 \<and>
      (ak_personality kern 0xffffffff p = (p, p) \<longrightarrow> p AND ADDR_NO_RANDOMIZE \<noteq> 0))"
  using reenter_settles[OF assms, of null_argv persona]
  by (cases "MaybeReenterWithoutASLR kern null_argv persona") (auto simp: numeral_2_eq_2)

section \<open>The program\<close>

text \<open>
  What \<open>main\<close> finds: the session's environment, the context the machine gives (\<open>SysInfo\<close>, \<open>Timers\<close>).
  The context a reporter gets has the program's name and the custom context of the command line.
\<close>

record program_env =
  pg_session :: session_env
  pg_context :: Context

definition main_context :: "program_env \<Rightarrow> Globals \<Rightarrow> Context" where
  "main_context env g = (pg_context env)\<lparr>cx_executable_name := Some (g_executable_name g), cx_global_context := g_context g\<rparr>"

text \<open>The session's environment: the library's reporters accept every context, and the default time unit
  is the one \<open>Initialize\<close> set.\<close>

definition main_session_env :: "program_env \<Rightarrow> Globals \<Rightarrow> session_env" where
  "main_session_env env g = (pg_session env)\<lparr>se_ctx_display := True, se_ctx_file := True,
     se_harness := (se_harness (pg_session env))\<lparr>h_default_time_unit := g_default_time_unit g\<rparr>\<rparr>"

text \<open>The text that the calls of a session make a reporter write to its output stream.\<close>

definition reporter_text :: "bool \<Rightarrow> reporter \<Rightarrow> Context \<Rightarrow> report_call list \<Rightarrow> string res" where
  "reporter_text same_stream rep context calls =
     (case rep of
        JSONReporter \<Rightarrow> rbind (replay json_reporter context calls JSONReporter_new) (\<lambda>(_, t). Inr t)
      | CSVReporter \<Rightarrow> rbind (replay (csv_reporter same_stream) context calls CSVReporter_new) (\<lambda>(_, t). Inr t)
      | ConsoleReporter opts \<Rightarrow>
          rbind (replay (console_reporter same_stream) context calls (ConsoleReporter_new opts)) (\<lambda>(_, t). Inr t)
      | CustomReporter \<Rightarrow> Inr [])"

text \<open>The exit code, the standard output, the file of \<open>--benchmark_out\<close>, what \<open>main\<close> and the flags write to
  \<open>std::cerr\<close>, and the session, if there was one.\<close>

record main_result =
  mr_code :: int
  mr_out :: string
  mr_file :: "string option"
  mr_err :: string
  mr_session :: "session_result option"

text \<open>
  The texts are computed from the calls when the session is over; when both fail, the result is the session's
  failure.
\<close>

definition session_texts :: "program_env \<Rightarrow> Globals \<Rightarrow> session_result \<Rightarrow> (string \<times> string option) res" where
  "session_texts env g s =
     rbind (reporter_text False (sr_display s) (main_context env g) (out_display (sr_outputs s))) (\<lambda>out.
     rbind (case (sr_file s, out_file (sr_outputs s)) of
              (Some r, Some calls) \<Rightarrow> rbind (reporter_text True r (main_context env g) calls) (\<lambda>t. Inr (Some t))
            | _ \<Rightarrow> Inr None) (\<lambda>file.
     Inr (out @ sr_out_text s, file)))"

definition BENCHMARK_MAIN ::
  "nat \<Rightarrow> program_env \<Rightarrow> string list option \<Rightarrow> Globals \<Rightarrow> BenchmarkFamilies \<Rightarrow> machine \<Rightarrow> main_result res option" where
  "BENCHMARK_MAIN fuel env argv0 g0 families mach =
     (let argv = (case argv0 of None \<Rightarrow> [''benchmark''] | Some argv \<Rightarrow> argv) in
      case Initialize (Some argv) g0 of
        Inl e \<Rightarrow> Some (Inl e)
      | Inr (argv', err, g) \<Rightarrow>
          (let (unrecognized, t) = ReportUnrecognizedArguments (the argv') in
           if unrecognized then
             Some (Inr \<lparr>mr_code = 1, mr_out = [], mr_file = None, mr_err = err @ t, mr_session = None\<rparr>)
           else
             (case RunSpecifiedBenchmarks fuel (main_session_env env g) (g_flags g) families None None (fl_filter (g_flags g)) mach of
                None \<Rightarrow> None
              | Some (Inl e) \<Rightarrow> Some (Inl e)
              | Some (Inr s) \<Rightarrow> Some (rbind (session_texts env g s) (\<lambda>(out, file).
                  Inr \<lparr>mr_code = 0, mr_out = out, mr_file = file, mr_err = err, mr_session = Some s\<rparr>)))))"

section \<open>What the program does\<close>

lemma RunSpecifiedBenchmarks_display:
  assumes "RunSpecifiedBenchmarks fuel env fl families None None spec mach = Some (Inr s)"
  shows "CreateReporter (fl_format fl) (GetOutputOptions (se_is_color_terminal env) fl False) = Inr (sr_display s)"
    "sr_file s = None \<longleftrightarrow> fl_out fl = []"
  using assms
  by (auto simp: RunSpecifiedBenchmarks_def Let_def rbind_eq_Inr CreateDefaultDisplayReporter_def setup_file_reporter_def
      split: sum.splits option.splits if_splits prod.splits)

lemma Initialize_kept:
  assumes "Initialize (Some (prog # args)) g0 = Inr (argv, err, g)" "flags_ok (g_flags g0)"
  shows "argv = Some (prog # filter (\<lambda>arg. \<not> recognised arg) args)"
  using assms parse_args_result[of "g_flags g0" args]
  by (auto simp: Initialize_def ParseCommandLineFlags_def Let_def rbind_eq_Inr split: if_splits)

text \<open>C15: The exit code of the program.  When \<open>main\<close> returns, it returns 1 exactly if an argument is left that no flag
  takes; then it has run nothing, printed nothing to the standard output and named each of these arguments, in order, on
  \<open>std::cerr\<close>.  Otherwise it returns 0 after one session with the reporter of the format that the command line
  chose, and there is a file reporter exactly if a file was named.\<close>

theorem BENCHMARK_MAIN_exit_code:
  assumes "flags_ok (g_flags g0)" "BENCHMARK_MAIN fuel env (Some (prog # args)) g0 families mach = Some (Inr r)"
  shows "\<exists>argv err g. Initialize (Some (prog # args)) g0 = Inr (argv, err, g) \<and>
    (if \<exists>arg \<in> set args. \<not> recognised arg
     then mr_code r = 1 \<and> mr_session r = None \<and> mr_out r = [] \<and> mr_file r = None \<and>
       mr_err r = err @ concat (map (\<lambda>a. prog @ '': error: unrecognized command-line flag: '' @ a @ ''\<newline>'')
         (filter (\<lambda>arg. \<not> recognised arg) args))
     else mr_code r = 0 \<and> mr_err r = err \<and> (\<exists>s. mr_session r = Some s \<and>
       CreateReporter (fl_format (g_flags g)) (GetOutputOptions (se_is_color_terminal (pg_session env)) (g_flags g) False) =
         Inr (sr_display s) \<and>
       (sr_file s = None \<longleftrightarrow> fl_out (g_flags g) = [])))"
proof -
  obtain argv err g where init: "Initialize (Some (prog # args)) g0 = Inr (argv, err, g)"
    using assms(2) by (cases "Initialize (Some (prog # args)) g0") (auto simp: BENCHMARK_MAIN_def)
  let ?kept = "filter (\<lambda>arg. \<not> recognised arg) args"
  have argv: "argv = Some (prog # ?kept)" by (rule Initialize_kept[OF init assms(1)])
  show ?thesis
  proof (cases "?kept = []")
    case False
    then show ?thesis using assms(2) init argv
      by (auto simp: BENCHMARK_MAIN_def ReportUnrecognizedArguments_def filter_empty_conv)
  next
    case True
    then obtain s out filed where s: "RunSpecifiedBenchmarks fuel (main_session_env env g) (g_flags g) families None None
        (fl_filter (g_flags g)) mach = Some (Inr s)"
      "r = \<lparr>mr_code = 0, mr_out = out, mr_file = filed, mr_err = err, mr_session = Some s\<rparr>"
      using assms(2) init argv
      by (auto simp: BENCHMARK_MAIN_def ReportUnrecognizedArguments_def rbind_eq_Inr split: option.splits sum.splits)
    show ?thesis
      using init True s(2) RunSpecifiedBenchmarks_display[OF s(1)]
      by (auto simp: filter_empty_conv main_session_env_def)
  qed
qed

lemma RunSpecifiedBenchmarks_runs:
  assumes "FindBenchmarks (h_default_time_unit (se_harness env)) (se_compile env) families (effective_spec spec) [] =
      Inr (True, families', fs)" "fs_benchmarks fs \<noteq> []"
    and "fl_format fl = ''json''" "fl_out fl = []" "\<not> fl_list_tests fl"
    and "RunBenchmarks fuel env fl (fs_benchmarks fs) \<lparr>out_display = [], out_file = None\<rparr> mach = Some (Inr (outputs, mach', warnings))"
  shows "\<exists>s. RunSpecifiedBenchmarks fuel env fl families None None spec mach = Some (Inr s) \<and>
    sr_display s = JSONReporter \<and> sr_file s = None \<and> sr_outputs s = outputs \<and> sr_out_text s = [] \<and>
    sr_count s = length (fs_benchmarks fs)"
  using assms
  by (simp add: RunSpecifiedBenchmarks_def CreateDefaultDisplayReporter_def CreateReporter_def setup_file_reporter_def)

text \<open>The JSON reporter gives a text for every session, and a document when the reports are clean.\<close>

lemma json_session_text:
  assumes "clean_context context" "RoundDouble (cpu_cycles_per_second (cx_cpu_info context) / Fin 1000000) = Inr mhz"
    "session_calls w calls"
  shows "\<exists>js t. replay json_reporter context calls JSONReporter_new = Inr (js, t) \<and>
    ((\<forall>run \<in> set (concat (batches calls)). clean_run run) \<longrightarrow>
      json_document t (document_value context mhz (concat (batches calls))))"
proof -
  obtain middle where calls: "calls = CallContext w # middle @ [CallFinalize, CallFlush]" "\<forall>c \<in> set middle. middle_call c"
    using assms(3) by (auto simp: session_calls_def)
  obtain head where head: "JSONReporter_ReportContext (context\<lparr>cx_name_field_width := w\<rparr>) = Inr head"
    using assms(2) by (simp add: JSONReporter_ReportContext_def Let_def)
  obtain js t where "rfold (reporter_call json_reporter context) (JSONReporter_new, head) middle = Inr (js, head @ t)"
    using json.replay_middle[where s = JSONReporter_new and calls = middle and ctxt = "context" and out = head] calls(2) by auto
  then have replayed: "replay json_reporter context calls JSONReporter_new = Inr (js, head @ t @ JSONReporter_Finalize)"
    using head by (simp add: replay_def calls(1) json_reporter_def rfold_append)
  show ?thesis
  proof (intro exI conjI impI)
    assume clean: "\<forall>run \<in> set (concat (batches calls)). clean_run run"
    have b: "batches calls = batches middle" by (simp add: calls(1))
    obtain js' t' where "replay json_reporter context calls JSONReporter_new = Inr (js', t')"
      "json_document t' (document_value context mhz (concat (batches calls)))"
      using json_session[OF assms(1,2) calls(2), of w] clean unfolding b calls(1) by auto
    then show "json_document (head @ t @ JSONReporter_Finalize) (document_value context mhz (concat (batches calls)))"
      using replayed by simp
  qed (rule replayed)
qed

text \<open>The instances that a filter selects from the registered families, numbered as \<open>FindBenchmarks\<close> does.\<close>

definition matching_instances :: "TimeUnit \<Rightarrow> (string \<Rightarrow> bool) \<Rightarrow> bool \<Rightarrow> BenchmarkFamilies \<Rightarrow> BenchmarkInstance list" where
  "matching_instances u matches neg families = concat (map (\<lambda>(j, f, sel).
     map (\<lambda>(k, args, t). BenchmarkInstance_new u f (int j) (int k) args t) (enumerate 0 sel))
     (enumerate 0 (matching_families matches neg families)))"

text \<open>C1: What a program does from its command line to its output.  When the command line leaves nothing over and asks for
  JSON, the filter matches some of the registered benchmarks, these repeat once and behave well, and the flags are usable, then
  \<open>main\<close> returns 0, whatever the clocks say; it has run every matching instance and reported it exactly once; and if the texts
  in the reports are clean, the standard output is one JSON document with the context and these runs.\<close>

theorem BENCHMARK_MAIN_reports_all:
  assumes init: "Initialize (Some argv) g0 = Inr (Some [prog], err, g)"
    and chosen: "fl_format (g_flags g) = ''json''" "fl_out (g_flags g) = []" "\<not> fl_list_tests (g_flags g)"
    and pattern: "spec = effective_spec (fl_filter (g_flags g))" "neg = (hd spec = CHR ''-'')"
      "se_compile (pg_session env) (if neg then tl spec else spec) = Inr matches"
    and bs: "bs = matching_instances (g_default_time_unit g) matches neg families" "bs \<noteq> []" "length bs \<le> vector_max_size"
      "\<forall>b \<in> set bs. usable_instance b \<and> single_repetition (g_flags g) b \<and>
         good_harness (se_harness (main_session_env env g)) b (Some [])"
    and flag: "ParseBenchMinTime (fl_min_time (g_flags g)) = Inr flag" "usable_flag flag" "usable_warmup (fl_min_warmup_time (g_flags g))"
    and perf: "fl_perf_counters (g_flags g) = []" "se_perf_open (pg_session env) [] = []"
    and shuffle: "\<And>xs. mset (se_shuffle (pg_session env) xs) = mset xs"
    and ctxt: "clean_context (main_context env g)"
      "RoundDouble (cpu_cycles_per_second (cx_cpu_info (main_context env g)) / Fin 1000000) = Inr mhz"
  shows "\<exists>r s runs. BENCHMARK_MAIN enough_turns env (Some argv) g0 families mach = Some (Inr r) \<and>
    mr_code r = 0 \<and> mr_session r = Some s \<and> sr_count s = length bs \<and>
    runs = concat (batches (out_display (sr_outputs s))) \<and> mset (map r_run_name runs) = image_mset i_name (mset bs) \<and>
    ((\<forall>run \<in> set runs. clean_run run) \<longrightarrow> json_document (mr_out r) (document_value (main_context env g) mhz runs))"
proof -
  let ?env = "main_session_env env g" and ?none = "\<lparr>out_display = [], out_file = None\<rparr>"
  have spec: "spec \<noteq> []" by (simp add: pattern(1) effective_spec_def)
  have envs: "se_compile ?env = se_compile (pg_session env)" "se_shuffle ?env = se_shuffle (pg_session env)"
    "se_perf_open ?env = se_perf_open (pg_session env)" "se_ctx_display ?env" "se_ctx_file ?env"
    "h_default_time_unit (se_harness ?env) = g_default_time_unit g"
    by (simp_all add: main_session_env_def)
  obtain fs where found: "FindBenchmarks (g_default_time_unit g) (se_compile ?env) families spec [] =
      Inr (True, map (map_option with_default_args) families, fs)" "fs_benchmarks fs = bs"
    using FindBenchmarks_found[of "se_compile ?env" neg spec matches "g_default_time_unit g" families] pattern(2,3) spec
    by (auto simp: bs(1) matching_instances_def envs(1))
  have perf': "se_perf_open ?env [] = []" and shuffle': "\<And>xs. mset (se_shuffle ?env xs) = mset xs"
    using perf(2) shuffle by (simp_all add: envs)
  obtain cs mach' log where run: "RunBenchmarks enough_turns ?env (g_flags g) bs ?none mach =
      Some (Inr (\<lparr>out_display = cs, out_file = None\<rparr>, mach', log))" "mset (reported_names cs) = image_mset i_name (mset bs)"
    using session_reports_all[of "g_flags g" flag ?env bs None mach, OF flag perf(1) perf' bs(4,3) shuffle' envs(4,5)]
    by auto
  obtain s where s: "RunSpecifiedBenchmarks enough_turns ?env (g_flags g) families None None (fl_filter (g_flags g)) mach = Some (Inr s)"
    "sr_display s = JSONReporter" "sr_file s = None" "sr_outputs s = \<lparr>out_display = cs, out_file = None\<rparr>"
    "sr_out_text s = []" "sr_count s = length bs"
    using RunSpecifiedBenchmarks_runs[of ?env families "fl_filter (g_flags g)" _ fs "g_flags g", OF _ _ chosen, of _ enough_turns mach] found bs(2)
      run(1) pattern(1)
    by (fastforce simp: envs)
  have calls: "session_calls (name_field_width (g_flags g) bs) cs"
    using protocol[of enough_turns ?env "g_flags g" bs None mach] run(1) by simp
  obtain js t where t: "replay json_reporter (main_context env g) cs JSONReporter_new = Inr (js, t)"
    and doc: "(\<forall>run \<in> set (concat (batches cs)). clean_run run) \<longrightarrow>
      json_document t (document_value (main_context env g) mhz (concat (batches cs)))"
    using json_session_text[OF ctxt calls] by blast
  have names: "map r_run_name (concat (batches cs)) = reported_names cs" for cs
    unfolding reported_names_def by (induction cs rule: batches.induct) auto
  have "BENCHMARK_MAIN enough_turns env (Some argv) g0 families mach =
      Some (Inr \<lparr>mr_code = 0, mr_out = t, mr_file = None, mr_err = err, mr_session = Some s\<rparr>)"
    using init s t
    by (simp add: BENCHMARK_MAIN_def ReportUnrecognizedArguments_def session_texts_def reporter_text_def)
  then show ?thesis
    by (intro exI[of _ "\<lparr>mr_code = 0, mr_out = t, mr_file = None, mr_err = err, mr_session = Some s\<rparr>"]
        exI[of _ s] exI[of _ "concat (batches cs)"] conjI) (use s run(2) names doc in simp_all)
qed

section \<open>A concrete program\<close>

definition sample_program :: program_env where
  "sample_program = \<lparr>pg_session = sample_env, pg_context = sample_context\<rparr>"

definition json_globals :: Globals where
  "json_globals = sample_globals\<lparr>g_flags := sample_flags\<lparr>fl_format := ''json''\<rparr>\<rparr>"

definition sample_family :: Benchmark where
  "sample_family = Benchmark_new StatisticsMean StatisticsMedian StatisticsStdDev StatisticsCV kNanosecond ''BM_f''"

lemma json_globals_flags:
  "fl_format (g_flags json_globals) = ''json''" "fl_out_format (g_flags json_globals) = ''json''" "fl_out (g_flags json_globals) = []"
  "\<not> fl_list_tests (g_flags json_globals)" "fl_filter (g_flags json_globals) = []" "fl_time_unit (g_flags json_globals) = []"
  "fl_color (g_flags json_globals) = ''auto''" "\<not> fl_dry_run (g_flags json_globals)" "fl_context (g_flags json_globals) = []"
  "fl_perf_counters (g_flags json_globals) = []" "fl_min_time (g_flags json_globals) = ''5x''"
  "usable_warmup (fl_min_warmup_time (g_flags json_globals))" "fl_repetitions (g_flags json_globals) = 1"
  "g_default_time_unit json_globals = kNanosecond" "g_context json_globals = None"
  by (simp_all add: json_globals_def sample_globals_def sample_flags_def default_flags_def BoolFromEnv_def StringFromEnv_def
      DoubleFromEnv_def Int32FromEnv_def usable_warmup_def KvPairsFromEnv_def)

lemma json_globals_Initialize:
  "Initialize (Some [''bench'']) json_globals = Inr (Some [''bench''], [],
     json_globals\<lparr>g_executable_name := ''bench'', g_log_level := fl_v (g_flags json_globals)\<rparr>)"
  by (simp add: Initialize_def ParseCommandLineFlags_def json_globals_flags valid_format_def SetDefaultTimeUnitFromFlag_def)

lemma not_a_flag:
  "parse_args [''x''] fl = Inr ([''x''], fl, [])" "\<not> recognised ''x''"
proof -
  have "ParseFlagValue (Some ''x'') (Some f) opt = None" for f opt
    by (simp add: ParseFlagValue_def starts_with_def)
  then have p: "parse_arg ''x'' fl = (False, [], fl)" "\<not> IsFlag ''x'' ''help''" for fl
    by (simp_all add: parse_arg_def arg_parsers_def bool_flag_def string_flag_def int32_flag_def double_flag_def
        context_flag_def ParseBoolFlag_def ParseStringFlag_def ParseInt32Flag_def ParseDoubleFlag_def ParseKeyValueFlag_def IsFlag_def)
  then show "parse_args [''x''] fl = Inr ([''x''], fl, [])" "\<not> recognised ''x''"
    using parse_arg_recognised[of "''x''" fl] by simp_all
qed

theorem BENCHMARK_MAIN_exit_code_witness:
  "\<exists>r. BENCHMARK_MAIN 0 sample_program (Some [''bench'', ''x'']) json_globals [] machine_init = Some (Inr r) \<and>
    mr_code r = 1 \<and> mr_err r = ''bench: error: unrecognized command-line flag: x\<newline>''"
proof -
  have "Initialize (Some [''bench'', ''x'']) json_globals = Inr (Some [''bench'', ''x''], [],
     json_globals\<lparr>g_executable_name := ''bench'', g_log_level := fl_v (g_flags json_globals)\<rparr>)"
    using not_a_flag(1)
    by (simp add: Initialize_def ParseCommandLineFlags_def json_globals_flags valid_format_def SetDefaultTimeUnitFromFlag_def)
  then obtain r where r: "BENCHMARK_MAIN 0 sample_program (Some [''bench'', ''x'']) json_globals [] machine_init = Some (Inr r)"
    and init: "\<And>argv err g. Initialize (Some [''bench'', ''x'']) json_globals = Inr (argv, err, g) \<Longrightarrow> err = []"
    by (simp add: BENCHMARK_MAIN_def ReportUnrecognizedArguments_def)
  have "flags_ok (g_flags json_globals)"
    using default_flags_ok[of "\<lambda>_. None"] by (simp add: json_globals_def sample_globals_def sample_flags_def flags_ok_def)
  from BENCHMARK_MAIN_exit_code[OF this r] show ?thesis using r init not_a_flag(2) by auto
qed

theorem BENCHMARK_MAIN_reports_all_witness:
  "\<exists>r s. BENCHMARK_MAIN enough_turns sample_program (Some [''bench'']) json_globals [Some sample_family] machine_init = Some (Inr r) \<and>
    mr_code r = 0 \<and> mr_session r = Some s \<and> sr_count s = 1"
proof -
  let ?g = "json_globals\<lparr>g_executable_name := ''bench'', g_log_level := fl_v (g_flags json_globals)\<rparr>"
  let ?f = "with_default_args sample_family" and ?matches = "\<lambda>_. True"
  let ?b = "BenchmarkInstance_new kNanosecond ?f 0 0 [] 1"
  have name: "BenchmarkName_str (instance_name ?f [] 1) = ''BM_f''"
    by (simp add: BenchmarkName_str_def join_spec name_parts_def instance_name_def with_default_args_def sample_family_def
        Benchmark_new_def ComputeStatistics_def IsZero_def time_type_name_def ArgsCnt_def)
  have "candidates ?f = [([], 1)]"
    by (simp add: candidates_def thread_counts_of_def with_default_args_def sample_family_def Benchmark_new_def
        ComputeStatistics_def ArgsCnt_def)
  then have "matching_families ?matches False [Some sample_family] = [(?f, [([], 1)])]"
    by (simp add: matching_families_def map_filter_simps selected_def name name_selected_def
        kDisabledPrefix_def starts_with_def)
  then have bs: "[?b] = matching_instances (g_default_time_unit ?g) ?matches False [Some sample_family]"
    by (simp add: matching_instances_def json_globals_flags)
  have inst: "usable_instance ?b" "i_complexity ?b = oNone" "i_repetitions ?b = 0" "i_threads ?b = 1"
    by (simp_all add: usable_instance_def sample_family_def BenchmarkInstance_new_def Benchmark_new_def with_default_args_def
        ComputeStatistics_def kMaxIterations_def IsZero_def usable_warmup_def)
  have good: "good_harness (se_harness (main_session_env sample_program ?g)) ?b (Some [])"
    unfolding good_harness_def inst(4)
    by (auto simp: main_session_env_def sample_program_def sample_env_def stuck_clock_harness_def kMaxIterations_def int64_max_def
        intro!: exI[of _ kMaxIterations] empty_loop_well_behaved)
  have flag: "ParseBenchMinTime (fl_min_time (g_flags ?g)) = Inr (ITERS 5)"
    by (simp add: json_globals_flags ParseBenchMinTime_def strtol_def split_sign_def is_space_def is_digit_def
        digit_value_def int_width_defs)
  have mhz: "RoundDouble (cpu_cycles_per_second (cx_cpu_info (main_context sample_program ?g)) / Fin 1000000) = Inr 1"
    using sample_mhz by (simp add: main_context_def sample_program_def sample_context_def)
  have ctxt: "clean_context (main_context sample_program ?g)"
    by (simp add: main_context_def sample_program_def sample_context_def clean_context_def clean_def clean_char_def json_globals_flags)
  show ?thesis
    using BENCHMARK_MAIN_reports_all[of "[''bench'']" json_globals "''bench''" "[]" ?g "''.''" False sample_program ?matches "[?b]" "[Some sample_family]"
        "ITERS 5" 1 machine_init, OF json_globals_Initialize _ _ _ _ _ _ bs _ _ _ flag _ _ _ _ _ ctxt mhz]
      inst good
    by (auto simp: json_globals_flags effective_spec_def sample_program_def sample_env_def usable_flag_def kMaxIterations_def
        single_repetition_def vector_max_size_def)
qed

end
