(* ===== verification/Repetitions.thy ===== *)
theory Repetitions
  imports Sessions Reporting
begin

text \<open>
  Sessions with repetitions (src/src/benchmark.cc, src/src/benchmark_runner.cc, src/src/statistics.cc together):
  whatever the interleaving, each benchmark is reported when its last repetition is done, with one run per repetition and
  one aggregate per statistic.
\<close>

section \<open>Benchmarks that run to the end\<close>

text \<open>The function runs exactly the iterations asked for, is not skipped and sets no counters.\<close>

definition steady_body :: "body \<Rightarrow> int \<Rightarrow> bool" where
  "steady_body f iters \<longleftrightarrow> (\<forall>st w r. fresh st \<and> s_max_iterations st = iters \<and> s_counters st = [] \<and> s_complexity_n st = 0 \<and>
     world_ready False w \<and> w_results w = Some r \<and> tr_skipped r = NotSkipped \<longrightarrow>
     (\<exists>st' w' r'. f st w = Inr (st', w') \<and> s_max_iterations st' = iters \<and> iterations st' = iters \<and> \<not> skipped st' \<and>
        s_counters st' = [] \<and> w_results w' = Some r' \<and> tr_skipped r' = NotSkipped \<and>
        tr_iterations r' = tr_iterations r \<and> tr_counters r' = tr_counters r))"

definition steady_harness :: "harness \<Rightarrow> BenchmarkInstance \<Rightarrow> bool" where
  "steady_harness h b \<longleftrightarrow> good_harness h b (Some []) \<and>
     (\<forall>k iters. 1 \<le> iters \<and> iters \<le> kMaxIterations \<longrightarrow> steady_body (h_run h k) iters)"

lemma State_new_counters: "State_new name iters args tid n perf = Inr st \<Longrightarrow> perf_idle perf \<Longrightarrow> s_counters st = []"
  by (auto simp: State_new_def rbind_eq_Inr perf_idle_def split: option.splits if_splits)

lemma RunInThread_steady:
  assumes body: "steady_body (h_run h (m_calls m)) iters" and iters: "1 \<le> iters" and tid: "tid < i_threads b"
    and r: "tr_skipped r = NotSkipped" "tr_counters r = []"
    and run: "RunInThread h b iters (Some []) profiled (r, m) tid = Inr (r1, m1)"
  shows "tr_skipped r1 = NotSkipped \<and> tr_counters r1 = [] \<and> tr_iterations r1 = tr_iterations r + iters"
proof -
  let ?w = "thread_world h (m_calls m) b (Some []) profiled r"
  have w: "world_ready False ?w" "w_results ?w = Some r" "perf_idle (w_perf ?w)"
    by (auto simp: thread_world_def world_ready_def perf_idle_def ThreadTimer_new_def)
  obtain st where st: "State_new (n_function_name (i_name b)) iters (i_args b) tid (i_threads b) (w_perf ?w) = Inr st"
    "fresh st" "s_max_iterations st = iters" "s_complexity_n st = 0"
    using State_new_fresh[OF iters tid w(3)] by metis
  obtain st' w' r' where f: "h_run h (m_calls m) st ?w = Inr (st', w')" "s_max_iterations st' = iters" "iterations st' = iters"
    "\<not> skipped st'" "s_counters st' = []" "w_results w' = Some r'" "tr_skipped r' = NotSkipped"
    "tr_iterations r' = tr_iterations r" "tr_counters r' = tr_counters r"
    using body st w r(1) State_new_counters[OF st(1) w(3)] unfolding steady_body_def by metis
  show ?thesis
    using run st(1) f r(2)
    by (auto simp: RunInThread_def Instance_Run_def the_results_def merge_results_def rbind_eq_Inr Increment_def chk_int_eq_Inr)
qed

lemma RunInThreads_steady:
  assumes body: "\<forall>k. steady_body (h_run h k) iters" and iters: "1 \<le> iters" and tids: "\<forall>t \<in> set tids. t < i_threads b"
    and r: "tr_skipped r = NotSkipped" "tr_counters r = []"
    and run: "rfold (RunInThread h b iters (Some []) profiled) (r, m) tids = Inr (r1, m1)"
  shows "tr_skipped r1 = NotSkipped \<and> tr_counters r1 = [] \<and> tr_iterations r1 = tr_iterations r + int (length tids) * iters"
  using tids r run
proof (induction tids arbitrary: r m)
  case (Cons t tids)
  from Cons.prems(4) obtain r2 m2 where step: "RunInThread h b iters (Some []) profiled (r, m) t = Inr (r2, m2)"
    "rfold (RunInThread h b iters (Some []) profiled) (r2, m2) tids = Inr (r1, m1)"
    by (auto simp: rbind_eq_Inr)
  have "tr_skipped r2 = NotSkipped \<and> tr_counters r2 = [] \<and> tr_iterations r2 = tr_iterations r + iters"
    using RunInThread_steady[OF body[rule_format] iters _ Cons.prems(2,3) step(1)] Cons.prems(1) by simp
  then show ?case using Cons.IH[OF _ _ _ step(2)] Cons.prems(1) by (simp add: algebra_simps)
qed simp

lemma iterate_once_steady:
  assumes h: "steady_harness h (br_b r)" and iters: "1 \<le> br_iters r" "br_iters r \<le> kMaxIterations" "br_perf r = Some []"
    and run: "iterate_once h r m = Inr (i, m1)"
  shows "tr_skipped (it_results i) = NotSkipped \<and> tr_counters (it_results i) = [] \<and>
    tr_iterations (it_results i) = i_threads (br_b r) * br_iters r"
proof -
  let ?b = "br_b r"
  have g: "good_harness h ?b (Some [])" and body: "\<forall>k. steady_body (h_run h k) (br_iters r)"
    using h iters by (auto simp: steady_harness_def)
  have th: "1 \<le> i_threads ?b" and order: "\<And>k. length (h_order h k (i_threads ?b)) = nat (i_threads ?b)"
    "\<And>k. \<forall>t \<in> set (h_order h k (i_threads ?b)). t < i_threads ?b"
    using g unfolding good_harness_def by fastforce+
  obtain k m2 m3 where "rfold (RunInThread h ?b (br_iters r) (Some []) False) (ThreadResult_init, m2)
      (h_order h k (i_threads ?b)) = Inr (it_results i, m3)"
    using run iters(3) th by (auto simp: iterate_once_def DoNIterations_def Let_def rbind_eq_Inr)
  from RunInThreads_steady[OF body iters(1) order(2) _ _ this] show ?thesis
    using order(1) th by (simp add: ThreadResult_init_def)
qed

section \<open>A repetition\<close>

text \<open>The report of the \<open>k\<close>-th of \<open>n\<close> repetitions of \<open>iters\<close> iterations per thread.\<close>

definition repetition_run :: "BenchmarkInstance \<Rightarrow> int \<Rightarrow> int \<Rightarrow> int \<Rightarrow> Run \<Rightarrow> bool" where
  "repetition_run b n iters k rep \<longleftrightarrow> r_run_name rep = i_name b \<and> r_run_type rep = RT_Iteration \<and>
     r_repetition_index rep = k \<and> r_repetitions rep = n \<and> r_skipped rep = NotSkipped \<and>
     r_iterations rep = i_threads b * iters \<and> r_counters rep = [] \<and> r_statistics rep = Some (i_statistics b)"

lemma CreateRunReport_steady:
  assumes "tr_skipped res = NotSkipped" "tr_counters res = []" "tr_iterations res = i_threads b * iters"
  shows "repetition_run b n iters k (CreateRunReport h b res mi mem secs k n)"
  using assms by (simp add: repetition_run_def CreateRunReport_def Let_def Run_init_def Finish_def)

lemma measuring_loop_last:
  "measuring_loop fuel h fin r m = Some (Inr (i, r', m')) \<Longrightarrow>
     (\<exists>m0. iterate_once h r' m0 = Inr (i, m')) \<and> (\<exists>k. r' = r\<lparr>br_iters := k\<rparr>)"
proof (induction fuel arbitrary: r m)
  case (Suc fuel)
  show ?case
  proof (cases "iterate_once h r m")
    case (Inr im)
    obtain i1 m1 where im: "im = (i1, m1)" by (cases im)
    show ?thesis
    proof (cases "fin r i1")
      case True
      then show ?thesis using Suc.prems Inr im by (auto intro!: exI[of _ m] exI[of _ "br_iters r"])
    next
      case False
      then obtain iters where "measuring_loop fuel h fin (r\<lparr>br_iters := iters\<rparr>) m1 = Some (Inr (i, r', m'))"
        using Suc.prems Inr im by (auto split: sum.splits if_splits)
      then show ?thesis using Suc.IH by fastforce
    qed
  qed (use Suc.prems in simp)
qed simp

text \<open>A runner in the middle of its repetitions.\<close>

abbreviation runs_of :: "BenchmarkRunner \<Rightarrow> Run list" where
  "runs_of r \<equiv> rr_non_aggregates (br_run_results r)"

definition runner_inv :: "BenchmarkInstance \<Rightarrow> BenchmarkRunner \<Rightarrow> bool" where
  "runner_inv b r \<longleftrightarrow> br_b r = b \<and> br_perf r = Some [] \<and> br_family r = None \<and> 1 \<le> br_iters r \<and> br_iters r \<le> kMaxIterations \<and>
     (\<not> br_warmup_done r \<longrightarrow> good_min_time (br_min_warmup_time r)) \<and>
     (\<not> br_has_explicit_iteration_count r \<longrightarrow> good_min_time (br_min_time r)) \<and>
     br_num_repetitions_done r = int (length (runs_of r)) \<and>
     (\<forall>k < length (runs_of r). repetition_run b (br_repeats r) (br_iters r) (int k) (runs_of r ! k))"

lemma RunWarmUp_frame:
  "RunWarmUp fuel h fl r m = Some (Inr (r1, m1)) \<Longrightarrow> r1 = r\<lparr>br_warmup_done := True\<rparr>"
  using measuring_loop_last by (fastforce simp: RunWarmUp_def FinishWarmUp_def split: option.splits sum.splits)

lemma DoOneRepetition_last:
  assumes "DoOneRepetition fuel h fl r None m = Some (Inr (r', pf, m'))"
  shows "\<exists>k i m0 m1 mi mem. iterate_once h (r\<lparr>br_warmup_done := True, br_iters := k\<rparr>) m0 = Inr (i, m1) \<and> br_iters r' = k \<and> pf = None \<and>
    r' = add_report (CreateRunReport h (br_b r) (it_results i) mi mem (it_seconds i) (br_num_repetitions_done r) (br_repeats r))
      (r\<lparr>br_warmup_done := True, br_iters := k\<rparr>)"
proof -
  let ?fin = "results_are_significant fl (br_num_repetitions_done r = 0)"
  obtain r1 m1 where warm: "(if \<not> br_warmup_done r then RunWarmUp fuel h fl r m else Some (Inr (r, m))) = Some (Inr (r1, m1))"
    and rest: "(case measuring_loop fuel h ?fin r1 m1 of None \<Rightarrow> None | Some (Inl e) \<Rightarrow> Some (Inl e)
      | Some (Inr (i, r2, m2)) \<Rightarrow> Some (finish_repetition h i r2 None m2)) = Some (Inr (r', pf, m'))"
    using assms unfolding DoOneRepetition_def Let_def by (auto split: if_splits option.splits sum.splits)
  have r1: "r1 = r\<lparr>br_warmup_done := True\<rparr>" using warm RunWarmUp_frame by (cases "br_warmup_done r") auto
  obtain i r2 m2 where loop: "measuring_loop fuel h ?fin r1 m1 = Some (Inr (i, r2, m2))"
    "finish_repetition h i r2 None m2 = Inr (r', pf, m')"
    using rest by (auto split: option.splits sum.splits)
  obtain m0 k where last: "iterate_once h r2 m0 = Inr (i, m2)" "r2 = r1\<lparr>br_iters := k\<rparr>"
    using measuring_loop_last[OF loop(1)] by blast
  obtain mi mem where "pf = None" "r' = add_report (CreateRunReport h (br_b r) (it_results i) mi mem (it_seconds i)
      (br_num_repetitions_done r) (br_repeats r)) (r\<lparr>br_warmup_done := True, br_iters := k\<rparr>)"
    using loop(2) unfolding last(2) r1 by (auto simp: finish_repetition_def Let_def rbind_eq_Inr)
  then show ?thesis
    using last unfolding r1
    by (intro exI[of _ k] exI[of _ i] exI[of _ m0] exI[of _ m2] exI[of _ mi] exI[of _ mem]) simp
qed

text \<open>One repetition more.\<close>

lemma repetition_steady:
  assumes inv: "runner_inv b r" and h: "steady_harness h b" and more: "HasRepeatsRemaining r"
  shows "\<exists>r' m' rep. DoOneRepetition enough_turns h fl r None m = Some (Inr (r', None, m')) \<and> runner_inv b r' \<and>
    runs_of r' = runs_of r @ [rep] \<and> br_num_repetitions_done r' = br_num_repetitions_done r + 1 \<and> br_repeats r' = br_repeats r \<and>
    rr_display_report_aggregates_only (br_run_results r') = rr_display_report_aggregates_only (br_run_results r)"
proof -
  have r: "br_b r = b" "br_perf r = Some []" "br_family r = None" "1 \<le> br_iters r" "br_iters r \<le> kMaxIterations"
    "\<not> br_warmup_done r \<longrightarrow> good_min_time (br_min_warmup_time r)"
    "\<not> br_has_explicit_iteration_count r \<longrightarrow> good_min_time (br_min_time r)"
    "br_num_repetitions_done r = int (length (runs_of r))"
    "\<And>k. k < length (runs_of r) \<Longrightarrow> repetition_run b (br_repeats r) (br_iters r) (int k) (runs_of r ! k)"
    using inv by (simp_all add: runner_inv_def)
  have good: "good_harness h (br_b r) (br_perf r)" using h r(1,2) by (simp add: steady_harness_def)
  have mt: "br_num_repetitions_done r = 0 \<and> \<not> br_has_explicit_iteration_count r \<longrightarrow> good_min_time (br_min_time r)"
    using r(7) by simp
  obtain r' m' where D: "DoOneRepetition enough_turns h fl r None m = Some (Inr (r', None, m'))"
    "br_iters r \<le> br_iters r'" "br_iters r' \<le> kMaxIterations"
    "br_num_repetitions_done r \<noteq> 0 \<longrightarrow> br_iters r' = br_iters r"
    using repetition_reports[OF good more r(4,5,6) mt, of fl None m] by (auto split: if_splits)
  obtain k i m0 m1 mi mem where last: "iterate_once h (r\<lparr>br_warmup_done := True, br_iters := k\<rparr>) m0 = Inr (i, m1)"
    "br_iters r' = k" and r': "r' = add_report (CreateRunReport h (br_b r) (it_results i) mi mem (it_seconds i)
      (br_num_repetitions_done r) (br_repeats r)) (r\<lparr>br_warmup_done := True, br_iters := k\<rparr>)"
    using DoOneRepetition_last[OF D(1)] by blast
  let ?rep = "CreateRunReport h (br_b r) (it_results i) mi mem (it_seconds i) (br_num_repetitions_done r) (br_repeats r)"
  have "tr_skipped (it_results i) = NotSkipped \<and> tr_counters (it_results i) = [] \<and> tr_iterations (it_results i) = i_threads b * k"
    using iterate_once_steady[OF _ _ _ _ last(1)] h r(1,2,4) D(2,3) last(2) by simp
  then have rep: "repetition_run b (br_repeats r) k (br_num_repetitions_done r) ?rep"
    using CreateRunReport_steady r(1) by simp
  have r'': "br_b r' = b" "br_perf r' = Some []" "br_family r' = None" "br_warmup_done r'" "br_repeats r' = br_repeats r"
    "br_has_explicit_iteration_count r' = br_has_explicit_iteration_count r" "br_min_time r' = br_min_time r"
    "runs_of r' = runs_of r @ [?rep]" "br_num_repetitions_done r' = br_num_repetitions_done r + 1"
    "rr_display_report_aggregates_only (br_run_results r') = rr_display_report_aggregates_only (br_run_results r)"
    using r(1-3) unfolding r' by (simp_all add: add_report_def)
  have "repetition_run b (br_repeats r') (br_iters r') (int j) (runs_of r' ! j)" if "j < length (runs_of r')" for j
  proof (cases "j < length (runs_of r)")
    case True
    then have "runs_of r \<noteq> []" by auto
    then have "br_iters r' = br_iters r" using D(4) r(8) by simp
    then show ?thesis using r(9)[OF True] True by (simp add: r'' nth_append)
  next
    case False
    then have "j = length (runs_of r)" using that by (simp add: r'')
    then show ?thesis using rep r(8) last(2) by (simp add: r'')
  qed
  then have "runner_inv b r'"
    using r(4,7,8) D(2,3) by (auto simp: runner_inv_def r'')
  then show ?thesis using D(1) r'' by blast
qed

section \<open>The results of a benchmark\<close>

text \<open>What is reported in the end: a run for each of the \<open>n\<close> repetitions, and an aggregate for each statistic if there are at
  least two.\<close>

definition repeated_reports :: "BenchmarkInstance \<Rightarrow> int \<Rightarrow> Run list \<times> Run list \<Rightarrow> bool" where
  "repeated_reports b n res \<longleftrightarrow> (case res of (runs, aggs) \<Rightarrow>
     int (length runs) = n \<and> (\<exists>iters. \<forall>k < length runs. repetition_run b n iters (int k) (runs ! k)) \<and>
     length aggs = (if n < 2 then 0 else length (i_statistics b)) \<and>
     (\<forall>j < length aggs. let S = i_statistics b ! j; a = aggs ! j in
        r_run_name a = i_name b \<and> r_run_type a = RT_Aggregate \<and> r_aggregate_name a = st_name S \<and> r_iterations a = n \<and>
        (st_unit S \<noteq> kTime \<longrightarrow> r_real_accumulated_time a = st_compute S (map r_real_accumulated_time runs))))"

definition final_results :: "harness \<Rightarrow> BenchmarkRunner \<Rightarrow> Run list \<times> Run list" where
  "final_results h r = (case GetResults h r of
     Inr rr \<Rightarrow> (rr_non_aggregates rr, rr_aggregates_only rr) | Inl _ \<Rightarrow> ([], []))"

lemma aggregate_fields:
  "r_run_name (aggregate junk u reports acc S) = r_run_name (hd reports)"
  "r_run_type (aggregate junk u reports acc S) = RT_Aggregate"
  "r_aggregate_name (aggregate junk u reports acc S) = st_name S"
  "r_iterations (aggregate junk u reports acc S) = int (length reports)"
  "st_unit S \<noteq> kTime \<Longrightarrow> r_real_accumulated_time (aggregate junk u reports acc S) = st_compute S (acc_real acc)"
  by (simp_all add: aggregate_def Let_def)

lemma GetResults_steady:
  assumes inv: "runner_inv b r" and fin: "\<not> HasRepeatsRemaining r"
  shows "\<exists>aggs. GetResults h r = Inr ((br_run_results r)\<lparr>rr_aggregates_only := aggs\<rparr>) \<and>
    repeated_reports b (br_repeats r) (runs_of r, aggs)"
proof -
  let ?runs = "runs_of r"
  have n: "br_repeats r = int (length ?runs)" and run: "\<And>k. k < length ?runs \<Longrightarrow>
      repetition_run b (br_repeats r) (br_iters r) (int k) (?runs ! k)"
    using inv fin by (simp_all add: runner_inv_def HasRepeatsRemaining_def)
  have all: "\<exists>k. repetition_run b (br_repeats r) (br_iters r) k rep" if "rep \<in> set ?runs" for rep
    using run that by (metis in_set_conv_nth)
  have counted: "counted ?runs = ?runs"
    using all by (auto simp: counted_def repetition_run_def skipped_run_def filter_id_conv)
  have same: "benchmark_name rep = BenchmarkName_str (i_name b)" "r_iterations rep = i_threads b * br_iters r" "r_counters rep = []"
    if "rep \<in> set ?runs" for rep
    using all[OF that] by (auto simp: repetition_run_def benchmark_name_def)
  have counters: "all_counters ?runs = []" using same(3) by simp
  have comparable: "comparable_runs ?runs"
    unfolding comparable_runs_def flags_agree_def counters
  proof (intro conjI ballI)
    fix rep assume rep: "rep \<in> set ?runs"
    then have "hd ?runs \<in> set ?runs" by (intro hd_in_set) auto
    then show "benchmark_name (hd ?runs) = benchmark_name rep" "r_iterations (hd ?runs) = r_iterations rep"
      using same rep by simp_all
  qed simp
  show ?thesis
  proof (cases "length ?runs < 2")
    case True
    then have "ComputeStats (h_junk h) (h_default_time_unit h) ?runs = Inr []"
      using counted by (auto simp: ComputeStats_def counted_def)
    then show ?thesis using fin n run True
      by (intro exI[of _ "[]"]) (auto simp: GetResults_def repeated_reports_def)
  next
    case False
    then have hd: "repetition_run b (br_repeats r) (br_iters r) 0 (hd ?runs)"
      using run[of 0] by (cases ?runs) auto
    let ?acc = "\<lambda>cs. \<lparr>acc_real = map r_real_accumulated_time ?runs, acc_cpu = map r_cpu_accumulated_time ?runs, acc_counters = cs\<rparr>"
    obtain cs where "ComputeStats (h_junk h) (h_default_time_unit h) ?runs =
        Inr (map (aggregate (h_junk h) (h_default_time_unit h) ?runs (?acc cs)) (i_statistics b))"
      using ComputeStats_passes[OF _ comparable, of "h_junk h" "h_default_time_unit h"] False hd
      by (auto simp: counted repetition_run_def)
    then obtain acc where cs: "ComputeStats (h_junk h) (h_default_time_unit h) ?runs =
        Inr (map (aggregate (h_junk h) (h_default_time_unit h) ?runs acc) (i_statistics b))" "acc_real acc = map r_real_accumulated_time ?runs"
      using that[of "?acc cs"] by simp
    let ?aggs = "map (aggregate (h_junk h) (h_default_time_unit h) ?runs acc) (i_statistics b)"
    have "repeated_reports b (br_repeats r) (?runs, ?aggs)"
      unfolding repeated_reports_def prod.case Let_def
    proof (intro conjI exI[of _ "br_iters r"] allI impI)
      show "length ?aggs = (if br_repeats r < 2 then 0 else length (i_statistics b))" using n False by simp
    qed (use n run hd cs(2) in \<open>simp_all add: aggregate_fields repetition_run_def[of _ _ _ 0]\<close>)
    then show ?thesis using fin cs(1) by (auto simp: GetResults_def)
  qed
qed

section \<open>The loop over the repetitions\<close>

text \<open>The batches that a reporter sees of a benchmark.\<close>

definition shown :: "bool \<Rightarrow> Run list \<times> Run list \<Rightarrow> Run list list" where
  "shown aggregates_only res = (if aggregates_only \<and> snd res \<noteq> [] then [] else [fst res]) @
     (if snd res \<noteq> [] then [snd res] else [])"

abbreviation display_only :: "BenchmarkRunner \<Rightarrow> bool" where
  "display_only r \<equiv> rr_display_report_aggregates_only (br_run_results r)"

lemma report_runner_steady:
  assumes inv: "runner_inv b r" and fin: "\<not> HasRepeatsRemaining r"
  shows "\<exists>out'. report_runner h m r fam out = Inr (fam, out') \<and>
    batches (out_display out') = batches (out_display out) @ shown (display_only r) (final_results h r) \<and>
    repeated_reports b (br_repeats r) (final_results h r)"
proof -
  obtain aggs where g: "GetResults h r = Inr ((br_run_results r)\<lparr>rr_aggregates_only := aggs\<rparr>)"
    "repeated_reports b (br_repeats r) (runs_of r, aggs)"
    using GetResults_steady[OF assms] by blast
  have "br_family r = None" using inv by (simp add: runner_inv_def)
  then show ?thesis using g
    by (simp add: report_runner_def family_report_def Report_def report_one_def to_file_def to_display_def FlushStreams_def
        runs_config_def final_results_def shown_def Let_def)
qed

text \<open>The runners in the middle of the loop: each has as many repetitions left as there are indices of it to come.\<close>

definition loop_inv :: "BenchmarkInstance list \<Rightarrow> nat list \<Rightarrow> BenchmarkRunner list \<Rightarrow> bool" where
  "loop_inv bs idxs rs \<longleftrightarrow> length rs = length bs \<and> set idxs \<subseteq> {..<length bs} \<and>
     (\<forall>i < length bs. runner_inv (bs ! i) (rs ! i) \<and> br_repeats (rs ! i) = br_num_repetitions_done (rs ! i) + int (count_list idxs i))"

lemma repetition_step:
  assumes inv: "loop_inv bs (i # idxs) (lp_runners s)" and h: "\<forall>b \<in> set bs. steady_harness h b"
  shows "\<exists>s' r'. run_repetition enough_turns h m fl s i = Some (Inr s') \<and> lp_runners s' = (lp_runners s)[i := r'] \<and>
    loop_inv bs idxs (lp_runners s') \<and> br_repeats r' = br_repeats (lp_runners s ! i) \<and> display_only r' = display_only (lp_runners s ! i) \<and>
    batches (out_display (lp_out s')) = batches (out_display (lp_out s)) @
      (if i \<in> set idxs then [] else shown (display_only r') (final_results h r')) \<and>
    (i \<notin> set idxs \<longrightarrow> repeated_reports (bs ! i) (br_repeats r') (final_results h r'))"
proof -
  let ?r = "lp_runners s ! i"
  have i: "i < length bs" "i < length (lp_runners s)" and r: "runner_inv (bs ! i) ?r"
    "br_repeats ?r = br_num_repetitions_done ?r + 1 + int (count_list idxs i)"
    using inv by (auto simp: loop_inv_def)
  then have more: "HasRepeatsRemaining ?r" by (simp add: HasRepeatsRemaining_def)
  have hb: "steady_harness h (bs ! i)" using h i(1) by simp
  obtain r' m' rep where step: "DoOneRepetition enough_turns h fl ?r None (lp_machine s) = Some (Inr (r', None, m'))"
    and r': "runner_inv (bs ! i) r'" "br_num_repetitions_done r' = br_num_repetitions_done ?r + 1" "br_repeats r' = br_repeats ?r"
    "display_only r' = display_only ?r"
    using repetition_steady[OF r(1) hb more, of fl "lp_machine s"] by blast
  have remaining: "HasRepeatsRemaining r' \<longleftrightarrow> i \<in> set idxs"
    using r(2) r'(2,3) count_list_0_iff[of idxs i] by (auto simp: HasRepeatsRemaining_def)
  have inv': "loop_inv bs idxs ((lp_runners s)[i := r'])"
    using inv i r(2) r' by (auto simp: loop_inv_def nth_list_update)
  have fam: "br_family ?r = None" using r(1) by (simp add: runner_inv_def)
  show ?thesis
  proof (cases "i \<in> set idxs")
    case True
    let ?s = "s\<lparr>lp_runners := (lp_runners s)[i := r'], lp_machine := m'\<rparr>"
    have "run_repetition enough_turns h m fl s i = Some (Inr ?s)"
      using True i step fam remaining by (simp add: run_repetition_def Let_def)
    then show ?thesis using True inv' r' by (intro exI[of _ ?s] exI[of _ r']) simp
  next
    case False
    obtain out' where out': "report_runner h m r' (lp_families s) (lp_out s) = Inr (lp_families s, out')"
      "batches (out_display out') = batches (out_display (lp_out s)) @ shown (display_only r') (final_results h r')"
      "repeated_reports (bs ! i) (br_repeats r') (final_results h r')"
      using report_runner_steady[OF r'(1), of h m "lp_families s" "lp_out s"] remaining False by blast
    let ?s = "s\<lparr>lp_runners := (lp_runners s)[i := r'], lp_machine := m', lp_out := out'\<rparr>"
    have "run_repetition enough_turns h m fl s i = Some (Inr ?s)"
      using False i step fam remaining out'(1) by (simp add: run_repetition_def Let_def)
    then show ?thesis using False inv' r' out'(2,3) by (intro exI[of _ ?s] exI[of _ r']) simp
  qed
qed

lemma repetitions_loop:
  assumes "loop_inv bs idxs (lp_runners s)" and h: "\<forall>b \<in> set bs. steady_harness h b"
  shows "\<exists>s' res. ofold (run_repetition enough_turns h m fl) s idxs = Some (Inr s') \<and>
    (\<forall>i \<in> set idxs. repeated_reports (bs ! i) (br_repeats (lp_runners s ! i)) (res i)) \<and>
    batches (out_display (lp_out s')) = batches (out_display (lp_out s)) @
      concat (map (\<lambda>i. shown (display_only (lp_runners s ! i)) (res i)) (remdups idxs))"
  using assms(1)
proof (induction idxs arbitrary: s)
  case (Cons i idxs)
  obtain s1 r' where step: "run_repetition enough_turns h m fl s i = Some (Inr s1)" "lp_runners s1 = (lp_runners s)[i := r']"
    "loop_inv bs idxs (lp_runners s1)" "br_repeats r' = br_repeats (lp_runners s ! i)" "display_only r' = display_only (lp_runners s ! i)"
    "batches (out_display (lp_out s1)) = batches (out_display (lp_out s)) @
      (if i \<in> set idxs then [] else shown (display_only r') (final_results h r'))"
    "i \<notin> set idxs \<longrightarrow> repeated_reports (bs ! i) (br_repeats r') (final_results h r')"
    using repetition_step[OF Cons.prems h, of m fl] by blast
  have same: "br_repeats (lp_runners s1 ! j) = br_repeats (lp_runners s ! j)" "display_only (lp_runners s1 ! j) = display_only (lp_runners s ! j)" for j
    using Cons.prems by (simp_all add: step(2,4,5) nth_list_update loop_inv_def)
  obtain s' res where ih: "ofold (run_repetition enough_turns h m fl) s1 idxs = Some (Inr s')"
    "\<forall>j \<in> set idxs. repeated_reports (bs ! j) (br_repeats (lp_runners s ! j)) (res j)"
    "batches (out_display (lp_out s')) = batches (out_display (lp_out s1)) @
      concat (map (\<lambda>j. shown (display_only (lp_runners s ! j)) (res j)) (remdups idxs))"
    using Cons.IH[OF step(3)] unfolding same by blast
  let ?res = "if i \<in> set idxs then res else res(i := final_results h r')"
  have shown: "concat (map (\<lambda>j. shown (display_only (lp_runners s ! j)) (?res j)) (remdups (i # idxs))) =
      (if i \<in> set idxs then [] else shown (display_only r') (final_results h r')) @
      concat (map (\<lambda>j. shown (display_only (lp_runners s ! j)) (res j)) (remdups idxs))"
    using step(5) by (auto intro!: arg_cong[where f = concat] map_cong)
  have "ofold (run_repetition enough_turns h m fl) s (i # idxs) = Some (Inr s')" using step(1) ih(1) by simp
  moreover have "\<forall>j \<in> set (i # idxs). repeated_reports (bs ! j) (br_repeats (lp_runners s ! j)) (?res j)"
    using step(4,7) ih(2) by simp
  ultimately show ?case
    using step(6) ih(3) by (intro exI[of _ s'] exI[of _ ?res] conjI) (simp_all only: shown append.assoc)
qed simp

section \<open>A session\<close>

definition repeats_of :: "BenchFlags \<Rightarrow> BenchmarkInstance \<Rightarrow> int" where
  "repeats_of fl b = (if fl_dry_run fl then 1 else if i_repetitions b \<noteq> 0 then i_repetitions b else fl_repetitions fl)"

definition started :: "BenchFlags \<Rightarrow> BenchmarkInstance \<Rightarrow> BenchmarkRunner \<Rightarrow> bool" where
  "started fl b r \<longleftrightarrow> runner_inv b r \<and> br_num_repetitions_done r = 0 \<and> br_repeats r = repeats_of fl b \<and>
     display_only r = fst (aggregates_flags fl b)"

lemma BenchmarkRunner_new_started:
  assumes "ParseBenchMinTime (fl_min_time fl) = Inr flag" "usable_flag flag" "usable_warmup (fl_min_warmup_time fl)"
    "usable_instance b" "fl_perf_counters fl = []"
  shows "\<exists>r. BenchmarkRunner_new fl b (Some []) None = Inr r \<and> started fl b r"
proof -
  obtain r where r: "BenchmarkRunner_new fl b (Some []) None = Inr r" "runner_ok b r" "br_family r = None" "br_repeats r = repeats_of fl b"
    using BenchmarkRunner_new_ok[OF assms, of None] by (auto simp: repeats_of_def)
  obtain d f where df: "aggregates_flags fl b = (d, f)" by (cases "aggregates_flags fl b")
  have "display_only r = fst (aggregates_flags fl b)"
    using r(1) unfolding BenchmarkRunner_new_def Let_def df prod.case by (clarsimp simp: rbind_eq_Inr)
  then show ?thesis using r by (auto simp: started_def runner_inv_def runner_ok_def)
qed

lemma add_runner_started:
  assumes flag: "ParseBenchMinTime (fl_min_time fl) = Inr flag" "usable_flag flag"
    and warm: "usable_warmup (fl_min_warmup_time fl)" and perf: "fl_perf_counters fl = []"
    and bs: "\<forall>b \<in> set bs. usable_instance b \<and> i_complexity b = oNone \<and> 1 \<le> repeats_of fl b"
    and len: "int (su_total s) + sum_list (map (repeats_of fl) bs) < 2 ^ 64"
  shows "\<exists>rs wt. rfold (add_runner fl []) s bs = Inr (s\<lparr>su_runners := su_runners s @ rs,
      su_total := su_total s + nat (sum_list (map (repeats_of fl) bs)), su_with_threads := wt\<rparr>) \<and> list_all2 (started fl) bs rs"
  using bs len
proof (induction bs arbitrary: s)
  case Nil
  then show ?case by (intro exI[of _ "[]"] exI[of _ "su_with_threads s"]) simp
next
  case (Cons b bs)
  have b: "usable_instance b" "i_complexity b = oNone" "1 \<le> repeats_of fl b" using Cons.prems(1) by auto
  obtain r where r: "BenchmarkRunner_new fl b (Some []) None = Inr r" "started fl b r"
    using BenchmarkRunner_new_started[OF flag warm b(1) perf] by blast
  have rest: "0 \<le> sum_list (map (repeats_of fl) bs)" using Cons.prems(1) by (intro sum_list_nonneg) auto
  let ?n = "repeats_of fl b"
  let ?s = "s\<lparr>su_runners := su_runners s @ [r], su_total := su_total s + nat ?n,
      su_with_threads := su_with_threads s + (if i_threads b > 1 then 1 else 0)\<rparr>"
  have "(int (su_total s) + ?n) mod 2 ^ 64 = int (su_total s) + ?n"
    using Cons.prems(2) b(3) rest by (intro mod_pos_pos_trivial) auto
  then have total: "nat ((int (su_total s) + ?n) mod 2 ^ 64) = su_total s + nat ?n" using b(3) by simp
  have step: "add_runner fl [] s b = Inr ?s"
    unfolding add_runner_def Let_def using r b(2) total by (simp add: started_def)
  obtain rs wt where "rfold (add_runner fl []) ?s bs = Inr (?s\<lparr>su_runners := su_runners ?s @ rs,
      su_total := su_total ?s + nat (sum_list (map (repeats_of fl) bs)), su_with_threads := wt\<rparr>)" "list_all2 (started fl) bs rs"
    using Cons.IH[of ?s] Cons.prems b(3) by auto
  moreover have "nat (sum_list (map (repeats_of fl) (b # bs))) = nat ?n + nat (sum_list (map (repeats_of fl) bs))"
    using b(3) rest by (simp add: nat_add_distrib)
  ultimately show ?case using r(2) step by (intro exI[of _ "r # rs"] exI[of _ wt]) simp
qed

text \<open>The indices of the repetitions, before the shuffle.\<close>

definition repetition_order :: "BenchFlags \<Rightarrow> BenchmarkInstance list \<Rightarrow> nat list" where
  "repetition_order fl bs = concat (map (\<lambda>i. replicate (nat (repeats_of fl (bs ! i))) i) [0..<length bs])"

lemma repetition_indices_started:
  assumes "list_all2 (started fl) bs rs" "\<forall>b \<in> set bs. 1 \<le> repeats_of fl b" "sum_list (map (repeats_of fl) bs) \<le> int vector_max_size"
  shows "repetition_indices_of (nat (sum_list (map (repeats_of fl) bs))) rs = Inr (repetition_order fl bs)"
proof -
  have len: "length rs = length bs" using assms(1) by (simp add: list_all2_lengthD)
  have "br_repeats (rs ! i) = repeats_of fl (bs ! i)" if "i < length bs" for i
    using assms(1) that by (auto simp: list_all2_conv_all_nth started_def)
  then have "map (\<lambda>(i, r). replicate (nat (br_repeats r)) i) (enumerate 0 rs) =
      map (\<lambda>i. replicate (nat (repeats_of fl (bs ! i))) i) [0..<length bs]"
    by (intro nth_equalityI) (simp_all add: len nth_enumerate_eq)
  then have order: "concat (map (\<lambda>(i, r). replicate (nat (br_repeats r)) i) (enumerate 0 rs)) = repetition_order fl bs"
    by (simp add: repetition_order_def)
  have "map (\<lambda>i. nat (repeats_of fl (bs ! i))) [0..<length bs] = map (\<lambda>b. nat (repeats_of fl b)) bs"
    by (rule nth_equalityI) simp_all
  then have "length (repetition_order fl bs) = sum_list (map (\<lambda>b. nat (repeats_of fl b)) bs)"
    by (simp add: repetition_order_def length_concat comp_def)
  also have "\<dots> = nat (sum_list (map (repeats_of fl) bs))"
    using assms(2)
  proof (induction bs)
    case (Cons b bs)
    then have "0 \<le> sum_list (map (repeats_of fl) bs)" by (intro sum_list_nonneg) auto
    with Cons show ?case by (simp add: nat_add_distrib)
  qed simp
  finally show ?thesis using assms(3) by (simp add: repetition_indices_of_def order)
qed

lemma count_repetition_order:
  assumes "i < length bs"
  shows "count_list (repetition_order fl bs) i = nat (repeats_of fl (bs ! i))"
proof -
  have rep: "count_list (replicate n x) y = (if y = x then n else 0)" for n :: nat and x y :: nat
    by (induction n) auto
  have "count_list (concat (map (\<lambda>i. replicate (n i) i) [0..<k])) j = (if j < k then n j else 0)" for n :: "nat \<Rightarrow> nat" and j k
    by (induction k) (auto simp: rep less_Suc_eq)
  then show ?thesis using assms by (simp add: repetition_order_def)
qed

lemma repetition_order_set:
  assumes "\<forall>b \<in> set bs. 1 \<le> repeats_of fl b"
  shows "set (repetition_order fl bs) = {..<length bs}"
proof -
  have "set (replicate (nat (repeats_of fl (bs ! i))) i) = {i}" if "i < length bs" for i
  proof -
    have "1 \<le> repeats_of fl (bs ! i)" using assms that by simp
    then show ?thesis by (simp add: set_replicate_conv_if)
  qed
  then have "(\<Union>i \<in> {..<length bs}. set (replicate (nat (repeats_of fl (bs ! i))) i)) = {..<length bs}" by auto
  then show ?thesis unfolding repetition_order_def by (simp add: atLeast0LessThan)
qed

lemma started_loop_inv:
  assumes "list_all2 (started fl) bs rs" "\<forall>b \<in> set bs. 1 \<le> repeats_of fl b" "mset order = mset (repetition_order fl bs)"
  shows "loop_inv bs order rs"
proof -
  have count: "count_list order i = nat (repeats_of fl (bs ! i))" if "i < length bs" for i
    using count_repetition_order[OF that, of fl] assms(3) by (metis count_mset)
  have set: "set order = {..<length bs}"
    using repetition_order_set[OF assms(2)] assms(3) by (metis mset_eq_setD)
  have rs: "length rs = length bs" "\<And>i. i < length bs \<Longrightarrow> started fl (bs ! i) (rs ! i)"
    using assms(1) by (simp_all add: list_all2_conv_all_nth)
  show ?thesis
    unfolding loop_inv_def
  proof (intro conjI allI impI)
    fix i assume i: "i < length bs"
    then have "1 \<le> repeats_of fl (bs ! i)" using assms(2) by simp
    then show "br_repeats (rs ! i) = br_num_repetitions_done (rs ! i) + int (count_list order i)"
      using rs(2)[OF i] count[OF i] by (simp add: started_def)
    show "runner_inv (bs ! i) (rs ! i)" using rs(2)[OF i] by (simp add: started_def)
  qed (simp_all add: rs(1) set)
qed

text \<open>C8: Sessions with repetitions, interleaved at random or not.  For benchmarks that run to the end, \<open>RunBenchmarks\<close> returns
  whatever the clocks say; the display reporter sees each benchmark exactly once, when the last of its repetitions is done, with
  one run per repetition, numbered in order and all of the same number of iterations, and, from two repetitions on, one aggregate
  for each of its statistics over these runs; with the aggregates-only option it sees the aggregates alone.\<close>

theorem RunBenchmarks_repetitions:
  assumes flag: "ParseBenchMinTime (fl_min_time fl) = Inr flag" "usable_flag flag"
    and warm: "usable_warmup (fl_min_warmup_time fl)" and perf: "fl_perf_counters fl = []" "se_perf_open env [] = []"
    and bs: "\<forall>b \<in> set bs. usable_instance b \<and> i_complexity b = oNone \<and> 1 \<le> repeats_of fl b \<and> steady_harness (se_harness env) b"
    and len: "sum_list (map (repeats_of fl) bs) \<le> int vector_max_size"
    and shuffle: "\<And>xs. mset (se_shuffle env xs) = mset xs"
    and ctxt: "se_ctx_display env" "file = None \<or> se_ctx_file env"
    and order: "order = (if fl_enable_random_interleaving fl then se_shuffle env (repetition_order fl bs) else repetition_order fl bs)"
  shows "\<exists>out mach' warnings res.
    RunBenchmarks enough_turns env fl bs \<lparr>out_display = [], out_file = map_option (\<lambda>_. []) file\<rparr> mach = Some (Inr (out, mach', warnings)) \<and>
    (\<forall>i < length bs. repeated_reports (bs ! i) (repeats_of fl (bs ! i)) (res i)) \<and>
    batches (out_display out) = concat (map (\<lambda>i. shown (fst (aggregates_flags fl (bs ! i))) (res i)) (remdups order)) \<and>
    set (remdups order) = {..<length bs}"
proof -
  let ?h = "se_harness env" and ?n = "nat (sum_list (map (repeats_of fl) bs))" and ?none = "\<lparr>out_display = [], out_file = map_option (\<lambda>_. []) file\<rparr>"
  let ?su0 = "\<lparr>su_runners = [], su_families = [], su_total = 0, su_with_threads = 0\<rparr>"
  have reps: "\<forall>b \<in> set bs. 1 \<le> repeats_of fl b" using bs by simp
  have small: "int 0 + sum_list (map (repeats_of fl) bs) < 2 ^ 64" using len by (simp add: vector_max_size_def)
  obtain rs wt where su: "rfold (add_runner fl []) ?su0 bs = Inr (?su0\<lparr>su_runners := rs, su_total := ?n, su_with_threads := wt\<rparr>)"
    and rs: "list_all2 (started fl) bs rs"
    using add_runner_started[OF flag warm perf(1), of bs ?su0] bs small by auto
  have mset: "mset order = mset (repetition_order fl bs)" unfolding order using shuffle by simp
  have set: "set order = {..<length bs}" using mset repetition_order_set[OF reps] by (metis mset_eq_setD)
  have rs_nth: "br_repeats (rs ! i) = repeats_of fl (bs ! i)" "display_only (rs ! i) = fst (aggregates_flags fl (bs ! i))"
    if "i < length bs" for i
    using rs that by (auto simp: list_all2_conv_all_nth started_def)
  let ?ctx = "[CallContext (name_field_width fl bs)]"
  define out0 where "out0 = FlushStreams (to_file ?ctx (to_display ?ctx ?none))"
  let ?s = "\<lparr>lp_runners = rs, lp_families = [], lp_machine = mach, lp_out = out0\<rparr>"
  obtain s' res where s': "ofold (run_repetition enough_turns ?h (se_libm env) fl) ?s order = Some (Inr s')"
    "\<forall>i \<in> set order. repeated_reports (bs ! i) (br_repeats (rs ! i)) (res i)"
    "batches (out_display (lp_out s')) = batches (out_display out0) @ concat (map (\<lambda>i. shown (display_only (rs ! i)) (res i)) (remdups order))"
    using repetitions_loop[of bs order ?s ?h "se_libm env" fl] started_loop_inv[OF rs reps mset] bs by auto
  have "run_all enough_turns env fl bs out0 mach = Some (Inr (lp_out s', lp_machine s', threads_warning wt 0))"
    unfolding run_all_def Let_def
    using perf su repetition_indices_started[OF rs reps len] s'(1) by (simp add: order StrSplit_def)
  then have "RunBenchmarks enough_turns env fl bs ?none mach =
      Some (Inr (finalize_all (lp_out s'), lp_machine s', threads_warning wt 0))"
    using ctxt by (auto simp: RunBenchmarks_def Let_def out0_def)
  moreover have "batches (out_display (finalize_all (lp_out s'))) =
      concat (map (\<lambda>i. shown (fst (aggregates_flags fl (bs ! i))) (res i)) (remdups order))"
  proof -
    have "map (\<lambda>i. shown (display_only (rs ! i)) (res i)) (remdups order) =
        map (\<lambda>i. shown (fst (aggregates_flags fl (bs ! i))) (res i)) (remdups order)"
      by (rule map_cong) (simp_all add: set rs_nth)
    moreover have "batches (out_display (finalize_all out)) = batches (out_display out)" "batches (out_display out0) = []" for out
      by (simp_all add: finalize_all_def FlushStreams_def to_display_def to_file_def out0_def)
    ultimately show ?thesis using s'(3) by (simp only: append_Nil)
  qed
  moreover have "\<forall>i < length bs. repeated_reports (bs ! i) (repeats_of fl (bs ! i)) (res i)"
    using s'(2) rs_nth set by auto
  ultimately show ?thesis using set by auto
qed

section \<open>A concrete session\<close>

lemma timer_perf:
  "StartTimer w = Inr w' \<Longrightarrow> w_perf w' = w_perf w" "StopTimer w = Inr w' \<Longrightarrow> w_perf w' = w_perf w"
  "StartStopBarrier w = Inr w' \<Longrightarrow> w_perf w' = w_perf w" "w_perf (emit e w) = w_perf w"
  by (auto simp: StartTimer_def StopTimer_def StartStopBarrier_def emit_def ChronoClockNow_def ReadCpuTimerOfChoice_def
      rbind_eq_Inr Let_def split: if_splits)

lemma PauseTiming_counters:
  "PauseTiming st w = Inr (st', w') \<Longrightarrow> perf_idle (w_perf w) \<Longrightarrow> s_counters st' = s_counters st \<and> perf_idle (w_perf w')"
  using timer_perf(2)
  by (fastforce simp: PauseTiming_def rbind_eq_Inr perf_idle_def perf_stop_def Let_def split: option.splits)

lemma KeepRunning_counters:
  assumes "KeepRunning st w = Inr (c, st', w')" "perf_idle (w_perf w)"
  shows "s_counters st' = s_counters st \<and> perf_idle (w_perf w')"
proof -
  have start: "s_counters st1 = s_counters st \<and> perf_idle (w_perf w1)" if "StartKeepRunning st w = Inr (st1, w1)" for st1 w1
    using that assms(2) timer_perf
    by (auto simp: StartKeepRunning_def ResumeTiming_def rbind_eq_Inr Let_def split: if_splits option.splits)
  have finish: "s_counters st2 = s_counters st1 \<and> perf_idle (w_perf w2)"
    if "FinishKeepRunning st1 w1 = Inr (st2, w2)" "perf_idle (w_perf w1)" for st1 w1 st2 w2
    using that PauseTiming_counters timer_perf
    by (fastforce simp: FinishKeepRunning_def rbind_eq_Inr Let_def split: if_splits)
  show ?thesis
    using assms start finish
    by (auto simp: KeepRunning_def KeepRunningInternal_def rbind_eq_Inr split: if_splits) 
qed

lemma quiet_loop_counters:
  "while_keep_running fuel KeepRunning quiet k st w = Some (Inr (n, st', w')) \<Longrightarrow> perf_idle (w_perf w) \<Longrightarrow>
     s_counters st' = s_counters st"
proof (induction fuel arbitrary: k st w)
  case (Suc fuel)
  obtain c st1 w1 where t: "KeepRunning st w = Inr (c, st1, w1)" using Suc.prems(1) by (cases "KeepRunning st w") auto
  note keeps = KeepRunning_counters[OF t Suc.prems(2)]
  show ?case
  proof (cases c)
    case True
    then show ?thesis using Suc.prems(1) t keeps Suc.IH[of "Suc k" st1 w1] by (simp add: quiet_def)
  qed (use Suc.prems(1) t keeps in simp)
qed simp

lemma empty_loop_steady:
  assumes "1 \<le> iters"
  shows "steady_body empty_loop iters"
  unfolding steady_body_def
proof (intro allI impI)
  fix st w r
  assume a: "fresh st \<and> s_max_iterations st = iters \<and> s_counters st = [] \<and> s_complexity_n st = 0 \<and>
    world_ready False w \<and> w_results w = Some r \<and> tr_skipped r = NotSkipped"
  then obtain st' w' where f: "empty_loop st w = Inr (st', w')" "control st' = (0, 0, iters, True, True, NotSkipped)"
    "w_results w' = Some r"
    using empty_loop_runs[of st w] by auto
  obtain n where "while_keep_running (nat (s_max_iterations st) + 1) KeepRunning quiet 0 st w = Some (Inr (n, st', w'))"
    using f(1) by (auto simp: empty_loop_def split: option.splits sum.splits)
  then have "s_counters st' = s_counters st"
    by (rule quiet_loop_counters) (use a in \<open>simp add: world_ready_def\<close>)
  then have "s_counters st' = []" using a by simp
  then show "\<exists>st' w' r'. empty_loop st w = Inr (st', w') \<and> s_max_iterations st' = iters \<and> iterations st' = iters \<and> \<not> skipped st' \<and>
      s_counters st' = [] \<and> w_results w' = Some r' \<and> tr_skipped r' = NotSkipped \<and>
      tr_iterations r' = tr_iterations r \<and> tr_counters r' = tr_counters r"
    using f a by (intro exI[of _ st'] exI[of _ w'] exI[of _ r]) (auto simp: control_def iterations_def skipped_def)
qed

lemma sample_steady: "steady_harness stuck_clock_harness sample_instance"
  using sample_good empty_loop_steady by (simp add: steady_harness_def stuck_clock_harness_def)

definition repeated_flags :: BenchFlags where
  "repeated_flags = sample_flags\<lparr>fl_repetitions := 3\<rparr>"

theorem RunBenchmarks_repetitions_witness:
  "\<exists>out mach' warnings res.
    RunBenchmarks enough_turns sample_env repeated_flags [sample_instance, sample_instance]
      \<lparr>out_display = [], out_file = None\<rparr> machine_init = Some (Inr (out, mach', warnings)) \<and>
    (\<forall>i < (2::nat). repeated_reports sample_instance 3 (res i)) \<and>
    batches (out_display out) = shown False (res 1) @ shown False (res 0)"
proof -
  have fl: "ParseBenchMinTime (fl_min_time repeated_flags) = Inr (ITERS 5)"
    by (simp add: repeated_flags_def sample_flags_def ParseBenchMinTime_def strtol_def split_sign_def is_space_def is_digit_def
        digit_value_def int_width_defs)
  have flags: "usable_warmup (fl_min_warmup_time repeated_flags)" "fl_perf_counters repeated_flags = []"
    "fl_repetitions repeated_flags = 3" "\<not> fl_dry_run repeated_flags" "fl_enable_random_interleaving repeated_flags"
    "\<not> fl_report_aggregates_only repeated_flags" "\<not> fl_display_aggregates_only repeated_flags"
    by (simp_all add: repeated_flags_def sample_flags_def default_flags_def usable_warmup_def DoubleFromEnv_def StringFromEnv_def
        Int32FromEnv_def BoolFromEnv_def)
  have inst: "usable_instance sample_instance" "i_complexity sample_instance = oNone" "i_repetitions sample_instance = 0"
    "i_aggregation_report_mode sample_instance = ARM_Unspecified"
    by (simp_all add: usable_instance_def sample_instance_def BenchmarkInstance_new_def Benchmark_new_def
        ComputeStatistics_def kMaxIterations_def IsZero_def usable_warmup_def)
  have reps: "repeats_of repeated_flags sample_instance = 3" by (simp add: repeats_of_def flags inst)
  have disp: "fst (aggregates_flags repeated_flags sample_instance) = False" by (simp add: aggregates_flags_def flags inst)
  let ?bs = "[sample_instance, sample_instance]"
  have order: "repetition_order repeated_flags ?bs = [0, 0, 0, 1, 1, 1]"
    by (simp add: repetition_order_def reps numeral_eq_Suc)
  have nth: "?bs ! i = sample_instance" if "i < 2" for i using that by (auto simp: less_2_cases_iff)
  obtain out mach' warnings res where run: "RunBenchmarks enough_turns sample_env repeated_flags ?bs
      \<lparr>out_display = [], out_file = map_option (\<lambda>_. []) None\<rparr> machine_init = Some (Inr (out, mach', warnings))"
    "\<forall>i < length ?bs. repeated_reports (?bs ! i) (repeats_of repeated_flags (?bs ! i)) (res i)"
    "batches (out_display out) = concat (map (\<lambda>i. shown (fst (aggregates_flags repeated_flags (?bs ! i))) (res i)) (remdups [1, 1, 1, 0, 0, 0]))"
    using RunBenchmarks_repetitions[where fl = repeated_flags and flag = "ITERS 5" and env = sample_env and bs = ?bs and order = "[1, 1, 1, 0, 0, 0]"
        and mach = machine_init, of None]
      fl flags inst reps sample_steady order
    by (auto simp: sample_env_def usable_flag_def kMaxIterations_def vector_max_size_def)
  show ?thesis
    using run by (intro exI[of _ out] exI[of _ mach'] exI[of _ warnings] exI[of _ res]) (simp add: reps disp nth numeral_2_eq_2)
qed

end
