(* ===== verification/Threads.thy ===== *)
theory Threads
  imports Measuring Barrier
begin

text \<open>
  The threads of one run (\<open>ThreadRunnerDefault\<close> and \<open>RunInThread\<close> of src/src/benchmark_runner.cc),
  with all their interleavings.

  \<open>Runner\<close> composes the threads of a run one after the other, in the order \<open>h_order\<close> in which they
  finish.  Here each thread is the sequence of what it does to the objects it shares with the others:
  the start/stop barrier, the results under their mutex, its removal from the barrier.  Any thread may
  take the next step.  The barrier is the one of \<open>Barrier\<close>, with its waits, notifications and
  spurious wake-ups.  What a thread does between two such actions depends on itself alone, as long as
  the user's function leaves the shared results alone (\<open>oblivious\<close>), so its actions are known when it
  starts.

  The properties: the timer of a thread runs only between its passages of the barrier and the threads pass it
  together, every step but falling asleep and waking up decreases the work left and every schedule can
  be completed, and the results are those of the sequential composition in the order of finishing.
\<close>

section \<open>The actions of a thread\<close>

datatype action =
    AWait
  | ASkip Skipped string
  | AMerge State ThreadTimer
  | AComplete

text \<open>
  \<open>RunInThread\<close> as actions: the barrier is passed as often as the user's function has recorded it,
  a benchmark that did not run is skipped, then the measurements are added to the results and
  \<open>NotifyThreadComplete\<close> removes the thread from the barrier.
\<close>

definition barrier_calls :: "world \<Rightarrow> nat" where
  "barrier_calls w = length (barrier_passes w)"

definition thread_actions ::
  "harness \<Rightarrow> BenchmarkInstance \<Rightarrow> int \<Rightarrow> string list option \<Rightarrow> nat \<Rightarrow> int \<Rightarrow> action list res" where
  "thread_actions h b iters perf k thread_id =
     rbind (Instance_Run (h_run h k) b iters thread_id (thread_world h k b perf False ThreadResult_init)) (\<lambda>(st, w).
     (let ran = (skipped st \<or> iterations st \<ge> s_max_iterations st) in
      rbind (if \<not> ran then SkipWithError did_not_run st w else Inr (st, w)) (\<lambda>(st1, w1).
      rbind (the_timer w1) (\<lambda>timer.
      Inr (replicate (barrier_calls w) AWait @ (if ran then [] else [ASkip SkippedWithError did_not_run]) @
           [AMerge st1 timer, AComplete])))))"

section \<open>The system\<close>

text \<open>
  \<open>ts_created\<close> counts the threads of the pool that the main thread has created, \<open>ts_joined\<close> those it
  has joined; \<open>ts_merged\<close> records in which order the threads had the mutex of the results.
\<close>

record tsys =
  ts_barrier :: barrier
  ts_pcs :: "pc list"
  ts_todo :: "action list list"
  ts_results :: ThreadResult
  ts_merged :: "nat list"
  ts_created :: nat
  ts_joined :: nat

text \<open>The thread that finishes as number \<open>k\<close> is the \<open>k\<close>-th call of the user's function in this run.\<close>

definition call_index :: "int list \<Rightarrow> int \<Rightarrow> nat" where
  "call_index order thread_id = length (takeWhile (\<lambda>j. j \<noteq> thread_id) order)"

definition threads_start :: "harness \<Rightarrow> BenchmarkRunner \<Rightarrow> machine \<Rightarrow> tsys res" where
  "threads_start h r m =
     (let b = br_b r; n = nat (i_threads b); order = h_order h (m_calls m) (i_threads b) in
      rbind (GetThreadRunner (i_threads b)) (\<lambda>_.
        rbind (rfold (\<lambda>acts i.
            rbind (thread_actions h b (br_iters r) (br_perf r) (m_calls m + call_index order (int i)) (int i)) (\<lambda>a.
            Inr (acts @ [a]))) [] [0..<n]) (\<lambda>todo.
        Inr \<lparr>ts_barrier = Barrier_new (i_threads b), ts_pcs = replicate n Outside, ts_todo = todo,
             ts_results = ThreadResult_init, ts_merged = [], ts_created = 0, ts_joined = 0\<rparr>)))"

text \<open>
  \<open>RunThreads\<close>: the main thread creates the pool, then calls the function itself (as thread 0), then joins
  the pool in order.  A pool thread runs once it is created.
\<close>

definition runs :: "tsys \<Rightarrow> nat \<Rightarrow> bool" where
  "runs s i \<longleftrightarrow> i < length (ts_pcs s) \<and>
     (if i = 0 then ts_created s = length (ts_pcs s) - 1 else i \<le> ts_created s)"

inductive tstep :: "tsys \<Rightarrow> tsys \<Rightarrow> bool" where
  t_create: "ts_created s < length (ts_pcs s) - 1 \<Longrightarrow> tstep s (s\<lparr>ts_created := Suc (ts_created s)\<rparr>)"
| t_wait: "runs s i \<Longrightarrow> ts_todo s ! i = AWait # rest \<Longrightarrow>
     step i (ts_barrier s, ts_pcs s) l (b', pcs') \<Longrightarrow> pcs' ! i \<noteq> Removed \<Longrightarrow>
     tstep s (s\<lparr>ts_barrier := b', ts_pcs := pcs',
       ts_todo := (case l of None \<Rightarrow> ts_todo s | Some _ \<Rightarrow> (ts_todo s)[i := rest])\<rparr>)"
| t_skip: "runs s i \<Longrightarrow> ts_todo s ! i = ASkip reason msg # rest \<Longrightarrow>
     tstep s (s\<lparr>ts_results := first_skip reason msg (ts_results s), ts_todo := (ts_todo s)[i := rest]\<rparr>)"
| t_merge: "runs s i \<Longrightarrow> ts_todo s ! i = AMerge st timer # rest \<Longrightarrow>
     merge_results st timer (ts_results s) = Inr r \<Longrightarrow>
     tstep s (s\<lparr>ts_results := r, ts_merged := ts_merged s @ [i], ts_todo := (ts_todo s)[i := rest]\<rparr>)"
| t_complete: "runs s i \<Longrightarrow> ts_todo s ! i = AComplete # rest \<Longrightarrow>
     step i (ts_barrier s, ts_pcs s) l (b', pcs') \<Longrightarrow> pcs' ! i = Removed \<Longrightarrow>
     tstep s (s\<lparr>ts_barrier := b', ts_pcs := pcs', ts_todo := (ts_todo s)[i := rest]\<rparr>)"
| t_join: "ts_joined s < length (ts_pcs s) - 1 \<Longrightarrow> ts_pcs s ! 0 = Removed \<Longrightarrow>
     ts_pcs s ! Suc (ts_joined s) = Removed \<Longrightarrow> tstep s (s\<lparr>ts_joined := Suc (ts_joined s)\<rparr>)"

inductive_cases tstep_elim: "tstep s s'"

text \<open>\<open>RunThreads\<close> has returned.\<close>

definition finished :: "tsys \<Rightarrow> bool" where
  "finished s \<longleftrightarrow> ts_joined s = length (ts_pcs s) - 1 \<and> ts_pcs s ! 0 = Removed"

text \<open>How often a thread has passed the barrier, from the actions it had and those it has left.\<close>

definition waits :: "action list \<Rightarrow> int" where
  "waits xs = int (length (filter (\<lambda>a. a = AWait) xs))"

definition passed :: "tsys \<Rightarrow> tsys \<Rightarrow> nat \<Rightarrow> int" where
  "passed s0 s i = waits (ts_todo s0 ! i) - waits (ts_todo s ! i)"

section \<open>What one barrier step does to the threads\<close>

lemma wake_simps [simp]:
  "wake t = Outside \<longleftrightarrow> t = Outside" "wake t = Notifying \<longleftrightarrow> t = Notifying" "wake t = Removed \<longleftrightarrow> t = Removed"
  by (cases t; simp)+

lemma step_others:
  assumes "step i (b, ts) l (b', ts')"
  shows "i < length ts" "length ts' = length ts" "ts ! i \<noteq> Removed"
    "j < length ts \<Longrightarrow> j \<noteq> i \<Longrightarrow> ts' ! j = ts ! j \<or> ts' ! j = wake (ts ! j)"
  using assms by (auto elim!: step_elim split: if_splits)

lemma step_own:
  assumes "step i (b, ts) l (b', ts')"
  shows "l \<noteq> None \<Longrightarrow> ts' ! i = Outside" "l = None \<Longrightarrow> ts' ! i \<noteq> Outside"
    "ts' ! i = Removed \<Longrightarrow> ts ! i = Outside \<and> l = None"
  using assms by (auto elim!: step_elim split: if_splits)

text \<open>Where a thread is, given the phase of the barrier and how often the thread has passed it.\<close>

fun in_sync :: "int \<Rightarrow> pc \<Rightarrow> int \<Rightarrow> bool" where
  "in_sync ph Outside k = (k = ph)"
| "in_sync ph (Sleeping p) k = (k = p \<and> ph - 1 \<le> p)"
| "in_sync ph (Awake p) k = (k = p \<and> ph - 1 \<le> p)"
| "in_sync ph Notifying k = (k = ph - 1)"
| "in_sync ph Removed k = (k \<le> ph)"

lemma in_sync_wake [simp]: "in_sync ph (wake t) k = in_sync ph t k"
  by (cases t) simp_all

lemma in_sync_next: "t = Removed \<or> waits_at ph t \<Longrightarrow> in_sync ph t k \<Longrightarrow> in_sync (ph + 1) t k"
  by (cases t) simp_all

lemma step_in_sync_own:
  assumes "inv n (b, ts)" "step i (b, ts) l (b', ts')" "in_sync (bar_phase_number b) (ts ! i) k"
  shows "in_sync (bar_phase_number b') (ts' ! i) (case l of None \<Rightarrow> k | Some _ \<Rightarrow> k + 1)"
proof -
  have "p \<le> bar_phase_number b" if "ts ! i = Awake p" for p
    using assms(1) step_others(1)[OF assms(2)] nth_mem[of i ts] that by (auto simp: inv_def)
  then show ?thesis
    using assms(2,3)
    by (fastforce elim!: step_elim rbindE
        simp: create_barrier_enter_def create_barrier_resume_def remove_thread_def end_phase_def
          wait_predicate_def Let_def
        split: if_splits)
qed

lemma step_in_sync:
  assumes inv: "inv n (b, ts)" and step: "step i (b, ts) l (b', ts')"
    and sync: "\<forall>j < length ts. in_sync (bar_phase_number b) (ts ! j) (k j)" and j: "j < length ts"
  shows "in_sync (bar_phase_number b') (ts' ! j) (k j + (if j = i \<and> l \<noteq> None then 1 else 0))"
proof (cases "j = i")
  case True
  then show ?thesis
    using step_in_sync_own[OF inv step, of "k i"] sync j by (cases l) auto
next
  case False
  have "in_sync (bar_phase_number b') (ts ! j) (k j)"
  proof (cases "bar_phase_number b' = bar_phase_number b")
    case same: False
    then have "ts ! j = Removed \<or> waits_at (bar_phase_number b) (ts ! j)" "bar_phase_number b' = bar_phase_number b + 1"
      using step_phase[OF inv step] False j by auto
    then show ?thesis using in_sync_next sync j by simp
  qed (use sync j in simp)
  then show ?thesis using step_others(4)[OF step j False] False by auto
qed

section \<open>Invariant of the system\<close>

text \<open>A program ends with its only \<open>AComplete\<close>; a thread in the barrier is at an \<open>AWait\<close>.\<close>

definition ends :: "action list \<Rightarrow> bool" where
  "ends xs \<longleftrightarrow> xs \<noteq> [] \<and> last xs = AComplete \<and> AComplete \<notin> set (butlast xs)"

lemma ends_Cons: "ends (x # xs) \<Longrightarrow> x \<noteq> AComplete \<Longrightarrow> ends xs"
  by (cases xs) (auto simp: ends_def)

lemma ends_AComplete: "ends (AComplete # xs) \<Longrightarrow> xs = []"
  by (cases xs) (auto simp: ends_def)

fun in_shape :: "pc \<Rightarrow> action list \<Rightarrow> bool" where
  "in_shape Removed xs = (xs = [])"
| "in_shape Outside xs = ends xs"
| "in_shape _ xs = (ends xs \<and> hd xs = AWait)"

lemma in_shape_wake [simp]: "in_shape (wake t) xs = in_shape t xs"
  by (cases t) simp_all

lemma in_shape_at: "in_shape t (x # xs) \<Longrightarrow> ends (x # xs) \<and> (x \<noteq> AWait \<longrightarrow> t = Outside)"
  by (cases t) auto

lemma in_shape_waiting: "ends xs \<Longrightarrow> hd xs = AWait \<Longrightarrow> t \<noteq> Removed \<Longrightarrow> in_shape t xs"
  by (cases t) auto

lemma waits_simps [simp]:
  "waits [] = 0" "waits (x # xs) = (if x = AWait then 1 else 0) + waits xs" "waits (xs @ ys) = waits xs + waits ys"
  by (simp_all add: waits_def)

definition tinv :: "nat \<Rightarrow> tsys \<Rightarrow> tsys \<Rightarrow> bool" where
  "tinv n s0 s \<longleftrightarrow> length (ts_pcs s) = n \<and> length (ts_todo s) = n \<and> inv n (ts_barrier s, ts_pcs s) \<and>
     (\<forall>i < n. in_shape (ts_pcs s ! i) (ts_todo s ! i) \<and>
        in_sync (bar_phase_number (ts_barrier s)) (ts_pcs s ! i) (passed s0 s i)) \<and>
     ts_created s \<le> n - 1 \<and> ts_joined s \<le> n - 1 \<and>
     (0 < ts_joined s \<longrightarrow> ts_pcs s ! 0 = Removed) \<and> (\<forall>i. 0 < i \<and> i \<le> ts_joined s \<longrightarrow> ts_pcs s ! i = Removed)"

lemma tinvD:
  assumes "tinv n s0 s" "i < n"
  shows "in_shape (ts_pcs s ! i) (ts_todo s ! i)"
    "in_sync (bar_phase_number (ts_barrier s)) (ts_pcs s ! i) (passed s0 s i)"
  using assms by (simp_all add: tinv_def)

text \<open>A thread that is removed stays removed.\<close>

lemma step_removed: "step i (b, ts) l (b', ts') \<Longrightarrow> j < length ts \<Longrightarrow> ts ! j = Removed \<Longrightarrow> ts' ! j = Removed"
  using step_others(3)[of i b ts l b' ts'] step_others(4)[of i b ts l b' ts' j] by (cases "j = i") auto

lemma tinv_barrier:
  assumes inv: "tinv n s0 s" and todo: "ts_todo s ! i = x # rest"
    and step: "step i (ts_barrier s, ts_pcs s) l (b', pcs')"
    and x: "x = AWait \<and> pcs' ! i \<noteq> Removed \<or> x = AComplete \<and> pcs' ! i = Removed"
    and s': "s' = s\<lparr>ts_barrier := b', ts_pcs := pcs', ts_todo :=
      (if x = AWait \<and> l = None then ts_todo s else (ts_todo s)[i := rest])\<rparr>"
  shows "tinv n s0 s'"
proof -
  have len: "length (ts_pcs s) = n" "length (ts_todo s) = n" "length pcs' = n" "i < n"
    and binv: "inv n (ts_barrier s, ts_pcs s)"
    using inv step_others(1,2)[OF step] by (auto simp: tinv_def)
  have at: "ends (x # rest)" using tinvD(1)[OF inv len(4)] in_shape_at[of "ts_pcs s ! i"] todo by auto
  have l: "x = AComplete \<Longrightarrow> l = None" using step_own(3)[OF step] x by auto
  have passed: "passed s0 s' j = passed s0 s j + (if j = i \<and> l \<noteq> None then 1 else 0)" if "j < n" for j
    using that todo x l len by (auto simp: passed_def s' nth_list_update)
  have shape: "in_shape (ts_pcs s' ! j) (ts_todo s' ! j)" if "j < n" for j
  proof (cases "j = i")
    case True
    have "in_shape (pcs' ! i) (if x = AWait \<and> l = None then x # rest else rest)"
    proof (cases "x = AWait")
      case wait: True
      then show ?thesis
        using at x step_own(1)[OF step] ends_Cons[OF at] in_shape_waiting[of "x # rest" "pcs' ! i"]
        by (cases l) auto
    next
      case False
      then show ?thesis using at x ends_AComplete by auto
    qed
    then show ?thesis using True len todo by (auto simp: s')
  next
    case False
    then show ?thesis
      using tinvD(1)[OF inv that] step_others(4)[OF step, of j] that len by (auto simp: s')
  qed
  have sync: "in_sync (bar_phase_number b') (pcs' ! j) (passed s0 s' j)" if "j < n" for j
    using step_in_sync[OF binv step, of "passed s0 s" j] tinvD(2)[OF inv] len that by (simp add: passed)
  have removed: "pcs' ! j = Removed" if "j < n" "ts_pcs s ! j = Removed" for j
    using step_removed[OF step] that len by simp
  show ?thesis
    using inv shape sync inv_step[OF step binv] len removed by (auto simp: tinv_def s')
qed

lemma tinv_local:
  assumes inv: "tinv n s0 s" and todo: "ts_todo s ! i = x # rest" and x: "x \<noteq> AWait" "x \<noteq> AComplete"
    and i: "runs s i" and s': "s' = s\<lparr>ts_results := r, ts_merged := order, ts_todo := (ts_todo s)[i := rest]\<rparr>"
  shows "tinv n s0 s'"
proof -
  have len: "length (ts_pcs s) = n" "length (ts_todo s) = n" "i < n"
    using inv i by (auto simp: tinv_def runs_def)
  have out: "ends rest" "ts_pcs s ! i = Outside"
    using tinvD(1)[OF inv len(3)] in_shape_at[of "ts_pcs s ! i" x rest] ends_Cons[of x rest] todo x by auto
  have passed: "passed s0 s' j = passed s0 s j" if "j < n" for j
    using that todo x len by (auto simp: passed_def s' nth_list_update)
  have "in_shape (ts_pcs s' ! j) (ts_todo s' ! j)" if "j < n" for j
    using tinvD(1)[OF inv that] out len by (cases "j = i") (auto simp: s')
  then show ?thesis using inv passed by (auto simp: tinv_def s')
qed

lemma tinv_step:
  assumes "tstep s s'" "tinv n s0 s"
  shows "tinv n s0 s'"
  using assms
proof (cases rule: tstep.cases)
  case t_create
  then show ?thesis using assms(2) by (auto simp: tinv_def passed_def)
next
  case (t_wait i rest l b' pcs')
  then show ?thesis
    by (intro tinv_barrier[OF assms(2) t_wait(3,4), where s' = s']) (cases l; auto)+
next
  case (t_skip i reason msg rest)
  show ?thesis by (rule tinv_local[OF assms(2) t_skip(3) _ _ t_skip(2), where s' = s' and r = "ts_results s'" and order = "ts_merged s"])
      (auto simp: t_skip(1))
next
  case (t_merge i st timer rest r)
  show ?thesis by (rule tinv_local[OF assms(2) t_merge(3) _ _ t_merge(2), where s' = s' and r = r and order = "ts_merged s @ [i]"])
      (auto simp: t_merge(1))
next
  case (t_complete i rest l b' pcs')
  then show ?thesis
    by (intro tinv_barrier[OF assms(2) t_complete(3,4), where s' = s']) auto
next
  case t_join
  then show ?thesis using assms(2) by (auto simp: tinv_def passed_def le_Suc_eq)
qed


section \<open>The start\<close>

lemma rfold_collect:
  "rfold (\<lambda>acts i. rbind (g i) (\<lambda>a. Inr (acts @ [a]))) acc is = Inr xs \<Longrightarrow>
   length xs = length acc + length is \<and> take (length acc) xs = acc \<and>
   (\<forall>k < length is. g (is ! k) = Inr (xs ! (length acc + k)))"
proof (induction "is" arbitrary: acc)
  case (Cons i "is")
  obtain a where a: "g i = Inr a" "rfold (\<lambda>acts i. rbind (g i) (\<lambda>a. Inr (acts @ [a]))) (acc @ [a]) is = Inr xs"
    using Cons.prems by (auto elim!: rbindE)
  note IH = Cons.IH[OF a(2)]
  then have "take (Suc (length acc)) xs = acc @ [a]" by simp
  then have "xs ! length acc = a" "take (length acc) xs = acc"
    using nth_take[of "length acc" "Suc (length acc)" xs] take_take[of "length acc" "Suc (length acc)" xs]
    by simp_all
  then show ?case using IH a(1) by (auto simp: nth_Cons split: nat.split)
qed auto

text \<open>The actions are a program: waits, perhaps a skip, the merge, the end.\<close>

definition program :: "nat \<Rightarrow> bool \<Rightarrow> State \<Rightarrow> ThreadTimer \<Rightarrow> action list" where
  "program k skips st timer = replicate k AWait @
     (if skips then [ASkip SkippedWithError did_not_run] else []) @ [AMerge st timer, AComplete]"

lemma thread_actions_program:
  "thread_actions h b iters perf k tid = Inr xs \<Longrightarrow> \<exists>w sk st timer. xs = program w sk st timer"
  by (fastforce simp: thread_actions_def program_def Let_def elim!: rbindE)

lemma ends_program [simp]: "ends (program k sk st timer)"
  by (auto simp: ends_def program_def butlast_append)

lemma threads_startD:
  assumes "threads_start h r m = Inr s0"
  defines "n \<equiv> nat (i_threads (br_b r))"
  shows "1 \<le> i_threads (br_b r)" "ts_barrier s0 = Barrier_new (int n)" "ts_pcs s0 = replicate n Outside"
    "length (ts_todo s0) = n" "ts_results s0 = ThreadResult_init" "ts_merged s0 = []" "ts_created s0 = 0" "ts_joined s0 = 0"
    "i < n \<Longrightarrow> thread_actions h (br_b r) (br_iters r) (br_perf r)
       (m_calls m + call_index (h_order h (m_calls m) (i_threads (br_b r))) (int i)) (int i) = Inr (ts_todo s0 ! i)"
  using assms by (auto simp: threads_start_def GetThreadRunner_def Let_def n_def elim!: rbindE split: if_splits dest!: rfold_collect)

lemma tinv_start:
  assumes "threads_start h r m = Inr s0"
  shows "tinv (nat (i_threads (br_b r))) s0 s0"
proof -
  note start = threads_startD[OF assms]
  have "in_shape Outside (ts_todo s0 ! i)" if "i < nat (i_threads (br_b r))" for i
    using thread_actions_program[OF start(9)[OF that]] by auto
  moreover have "inv (nat (i_threads (br_b r))) (ts_barrier s0, ts_pcs s0)"
    unfolding start(2,3) by (rule inv_init)
  ultimately show ?thesis
    using start by (auto simp: tinv_def passed_def Barrier_new_def)
qed


section \<open>The threads are timed together\<close>




lemma waits_program [simp]: "waits (program k sk st timer) = int k"
  by (simp add: waits_def program_def)



section \<open>Progress\<close>

text \<open>
  The work left: what the main thread has to create and join, the actions of the threads, and how far a
  thread is inside a call of the barrier.  Only falling asleep and waking up leave it unchanged.
\<close>

fun pc_work :: "pc \<Rightarrow> nat" where
  "pc_work Outside = 3"
| "pc_work (Sleeping _) = 2"
| "pc_work (Awake _) = 2"
| "pc_work Notifying = 1"
| "pc_work Removed = 0"

definition thread_work :: "tsys \<Rightarrow> nat \<Rightarrow> nat" where
  "thread_work s i = 4 * length (ts_todo s ! i) + pc_work (ts_pcs s ! i)"

definition work :: "tsys \<Rightarrow> nat" where
  "work s = (\<Sum>i < length (ts_pcs s). thread_work s i) +
     (length (ts_pcs s) - 1 - ts_created s) + (length (ts_pcs s) - 1 - ts_joined s)"

lemma pc_work_wake [simp]: "pc_work (wake t) = pc_work t"
  by (cases t) simp_all

lemma pc_work_step:
  assumes "step i (b, ts) l (b', ts')"
  shows "case l of None \<Rightarrow> pc_work (ts' ! i) \<le> pc_work (ts ! i) | Some _ \<Rightarrow> pc_work (ts' ! i) \<le> pc_work (ts ! i) + 2"
  using assms by (auto elim!: step_elim split: if_splits)

lemma sum_one_less:
  fixes f g :: "nat \<Rightarrow> nat"
  assumes "i < n" "f i \<le> g i" "\<And>j. j < n \<Longrightarrow> j \<noteq> i \<Longrightarrow> f j = g j"
  shows "(\<Sum>j < n. f j) \<le> (\<Sum>j < n. g j)" "f i < g i \<Longrightarrow> (\<Sum>j < n. f j) < (\<Sum>j < n. g j)"
proof -
  have "(\<Sum>j < n. f j) = f i + (\<Sum>j \<in> {..<n} - {i}. f j)" "(\<Sum>j < n. g j) = g i + (\<Sum>j \<in> {..<n} - {i}. g j)"
    using assms(1) by (auto intro: sum.remove)
  moreover have "(\<Sum>j \<in> {..<n} - {i}. f j) = (\<Sum>j \<in> {..<n} - {i}. g j)"
    by (rule sum.cong) (use assms(3) in auto)
  ultimately show "(\<Sum>j < n. f j) \<le> (\<Sum>j < n. g j)" "f i < g i \<Longrightarrow> (\<Sum>j < n. f j) < (\<Sum>j < n. g j)"
    using assms(2) by linarith+
qed

lemma work_thread:
  assumes len: "length (ts_pcs s') = length (ts_pcs s)" "i < length (ts_pcs s)"
    and main: "ts_created s' = ts_created s" "ts_joined s' = ts_joined s"
    and le: "thread_work s' i \<le> thread_work s i"
    and others: "\<And>j. j < length (ts_pcs s) \<Longrightarrow> j \<noteq> i \<Longrightarrow> thread_work s' j = thread_work s j"
  shows "work s' \<le> work s" "thread_work s' i < thread_work s i \<Longrightarrow> work s' < work s"
  using sum_one_less[of i "length (ts_pcs s)" "thread_work s'" "thread_work s"] assms
  by (simp_all add: work_def)

lemma work_barrier:
  assumes inv: "tinv n s0 s" and todo: "ts_todo s ! i = x # rest"
    and step: "step i (ts_barrier s, ts_pcs s) l (b', pcs')"
    and x: "x = AWait \<or> pcs' ! i = Removed"
    and s': "s' = s\<lparr>ts_barrier := b', ts_pcs := pcs', ts_todo :=
      (if x = AWait \<and> l = None then ts_todo s else (ts_todo s)[i := rest])\<rparr>"
  shows "work s' \<le> work s" "x \<noteq> AWait \<or> l \<noteq> None \<or> pc_work (pcs' ! i) < pc_work (ts_pcs s ! i) \<Longrightarrow> work s' < work s"
proof -
  have len: "length (ts_pcs s) = n" "length (ts_todo s) = n" "length pcs' = n" "i < n"
    using inv step_others(1,2)[OF step] by (auto simp: tinv_def)
  have le: "thread_work s' i \<le> thread_work s i"
    using pc_work_step[OF step] todo len x by (auto simp: thread_work_def s' split: option.splits)
  have less: "thread_work s' i < thread_work s i"
    if "x \<noteq> AWait \<or> l \<noteq> None \<or> pc_work (pcs' ! i) < pc_work (ts_pcs s ! i)"
    using pc_work_step[OF step] todo len x that by (auto simp: thread_work_def s' split: option.splits)
  have others: "thread_work s' j = thread_work s j" if "j < length (ts_pcs s)" "j \<noteq> i" for j
    using step_others(4)[OF step that] that(2) by (auto simp: thread_work_def s')
  note W = work_thread[of s' s i, OF _ _ _ _ le others]
  show "work s' \<le> work s" by (rule W(1)) (use len in \<open>auto simp: s'\<close>)
  show "work s' < work s" if "x \<noteq> AWait \<or> l \<noteq> None \<or> pc_work (pcs' ! i) < pc_work (ts_pcs s ! i)"
    by (rule W(2)) (use len less[OF that] in \<open>auto simp: s'\<close>)
qed

lemma work_local:
  assumes "tinv n s0 s" "ts_todo s ! i = x # rest" "runs s i"
    and s': "s' = s\<lparr>ts_results := r, ts_merged := order, ts_todo := (ts_todo s)[i := rest]\<rparr>"
  shows "work s' < work s"
proof -
  have len: "length (ts_pcs s) = n" "length (ts_todo s) = n" "i < n" using assms by (auto simp: tinv_def runs_def)
  have "thread_work s' i < thread_work s i" using assms len by (simp add: thread_work_def s')
  then show ?thesis
    using len by (intro work_thread(2)[of s' s i]) (auto simp: s' thread_work_def)
qed

lemma work_step:
  assumes "tstep s s'" "tinv n s0 s"
  shows "work s' \<le> work s"
  using assms
proof (cases rule: tstep.cases)
  case (t_wait i rest l b' pcs')
  show ?thesis
    by (rule work_barrier(1)[OF assms(2) t_wait(3,4), where s' = s']) (cases l; auto simp: t_wait(1))+
next
  case (t_skip i reason msg rest)
  have "work s' < work s"
    by (rule work_local[OF assms(2) t_skip(3,2), where r = "ts_results s'" and order = "ts_merged s"]) (simp add: t_skip(1))
  then show ?thesis by simp
next
  case (t_merge i st timer rest r)
  have "work s' < work s"
    by (rule work_local[OF assms(2) t_merge(3,2), where r = r and order = "ts_merged s @ [i]"]) (simp add: t_merge(1))
  then show ?thesis by simp
next
  case (t_complete i rest l b' pcs')
  show ?thesis
    by (rule work_barrier(1)[OF assms(2) t_complete(3,4), where s' = s']) (auto simp: t_complete)
qed (auto simp: work_def thread_work_def)

text \<open>One thread falls asleep again, or wakes up without having been notified; nothing else changes.\<close>

definition only_sleeps :: "tsys \<Rightarrow> tsys \<Rightarrow> bool" where
  "only_sleeps s s' \<longleftrightarrow> (\<exists>i < length (ts_pcs s). \<exists>p t. s' = s\<lparr>ts_pcs := (ts_pcs s)[i := t]\<rparr> \<and>
     ((ts_pcs s ! i, t) = (Awake p, Sleeping p) \<or> (ts_pcs s ! i, t) = (Sleeping p, Awake p)))"

lemma barrier_step_same_work:
  assumes "step i (b, ts) None (b', ts')" "ts' ! i \<noteq> Removed" "\<not> pc_work (ts' ! i) < pc_work (ts ! i)"
  obtains p t where "i < length ts" "b' = b" "ts' = ts[i := t]"
    "(ts ! i, t) = (Awake p, Sleeping p) \<or> (ts ! i, t) = (Sleeping p, Awake p)"
  using assms by (cases rule: step.cases) (auto split: if_splits)

lemma work_step_same:
  assumes "tstep s s'" "tinv n s0 s" "\<not> only_sleeps s s'"
  shows "work s' < work s"
  using assms(1)
proof (cases rule: tstep.cases)
  case (t_wait i rest l b' pcs')
  have s': "s' = s\<lparr>ts_barrier := b', ts_pcs := pcs', ts_todo :=
      (if AWait = AWait \<and> l = None then ts_todo s else (ts_todo s)[i := rest])\<rparr>"
    by (cases l) (simp_all add: t_wait(1))
  have "l \<noteq> None \<or> pc_work (pcs' ! i) < pc_work (ts_pcs s ! i)"
  proof (rule ccontr)
    assume "\<not> ?thesis"
    then have l: "l = None" "\<not> pc_work (pcs' ! i) < pc_work (ts_pcs s ! i)" by simp_all
    obtain p t where "i < length (ts_pcs s)" "b' = ts_barrier s" "pcs' = (ts_pcs s)[i := t]"
      "(ts_pcs s ! i, t) = (Awake p, Sleeping p) \<or> (ts_pcs s ! i, t) = (Sleeping p, Awake p)"
      using barrier_step_same_work[OF t_wait(4)[unfolded l(1)] t_wait(5) l(2)] .
    moreover from this have "s' = s\<lparr>ts_pcs := (ts_pcs s)[i := t]\<rparr>" using l(1) by (simp add: t_wait(1))
    ultimately show False using assms(3) unfolding only_sleeps_def by blast
  qed
  then show ?thesis by (intro work_barrier(2)[OF assms(2) t_wait(3,4) _ s']) auto
next
  case (t_skip i reason msg rest)
  show ?thesis
    by (rule work_local[OF assms(2) t_skip(3,2), where r = "ts_results s'" and order = "ts_merged s"]) (simp add: t_skip(1))
next
  case (t_merge i st timer rest r)
  show ?thesis
    by (rule work_local[OF assms(2) t_merge(3,2), where r = r and order = "ts_merged s @ [i]"]) (simp add: t_merge(1))
next
  case (t_complete i rest l b' pcs')
  show ?thesis
    by (rule work_barrier(2)[OF assms(2) t_complete(3,4), where s' = s']) (auto simp: t_complete)
qed (auto simp: work_def thread_work_def)

lemma only_sleeps_work:
  assumes "only_sleeps s s'"
  shows "work s' = work s"
proof -
  obtain i p t where i: "i < length (ts_pcs s)" "s' = s\<lparr>ts_pcs := (ts_pcs s)[i := t]\<rparr>"
    "(ts_pcs s ! i, t) = (Awake p, Sleeping p) \<or> (ts_pcs s ! i, t) = (Sleeping p, Awake p)"
    using assms unfolding only_sleeps_def by blast
  then have "pc_work ((ts_pcs s)[i := t] ! j) = pc_work (ts_pcs s ! j)" for j
    by (cases "j = i") auto
  then show ?thesis using i(2) by (simp add: work_def thread_work_def)
qed

section \<open>What the threads add to the results\<close>

text \<open>How far a thread is in its program, and what that leaves to do.\<close>

definition left_of :: "action list \<Rightarrow> action list \<Rightarrow> bool" where
  "left_of p xs \<longleftrightarrow> (\<exists>k sk st timer. p = program k sk st timer \<and>
     ((\<exists>k'. xs = program k' sk st timer) \<or> xs = program 0 False st timer \<or> xs = [AComplete] \<or> xs = []))"

definition merges :: "action list \<Rightarrow> bool" where
  "merges xs \<longleftrightarrow> (\<exists>st timer. AMerge st timer \<in> set xs)"

definition skips :: "action list \<Rightarrow> bool" where
  "skips xs \<longleftrightarrow> ASkip SkippedWithError did_not_run \<in> set xs"

fun merge_of :: "action list \<Rightarrow> ThreadResult \<Rightarrow> ThreadResult res" where
  "merge_of [] r = Inr r"
| "merge_of (AMerge st timer # xs) r = merge_results st timer r"
| "merge_of (_ # xs) r = merge_of xs r"

lemma merge_of_waits [simp]: "merge_of (replicate k AWait @ xs) r = merge_of xs r"
  by (induction k) simp_all

lemma program_facts [simp]:
  "merge_of (program k sk st timer) r = merge_results st timer r" "merges (program k sk st timer)"
  "skips (program k sk st timer) = sk" "AMerge st' timer' \<in> set (program k sk st timer) \<longleftrightarrow> st' = st \<and> timer' = timer"
  by (auto simp: program_def merges_def skips_def)

lemma program_Cons:
  "program k sk st timer = x # rest \<Longrightarrow>
   (\<exists>k'. k = Suc k' \<and> x = AWait \<and> rest = program k' sk st timer) \<or>
   k = 0 \<and> sk \<and> x = ASkip SkippedWithError did_not_run \<and> rest = program 0 False st timer \<or>
   k = 0 \<and> \<not> sk \<and> x = AMerge st timer \<and> rest = [AComplete]"
  by (cases k) (auto simp: program_def split: if_splits)

lemma left_of_Cons:
  assumes "left_of p (x # rest)"
  shows "left_of p rest"
    "x = AWait \<Longrightarrow> merges rest = merges (x # rest) \<and> skips rest = skips (x # rest)"
    "x = ASkip reason msg \<Longrightarrow> reason = SkippedWithError \<and> msg = did_not_run \<and> skips p \<and> merges rest \<and> \<not> skips rest"
    "x = AMerge st timer \<Longrightarrow>
       merge_of p = merge_results st timer \<and> AMerge st timer \<in> set p \<and> rest = [AComplete]"
    "x = AComplete \<Longrightarrow> rest = []"
proof -
  obtain k sk st' timer' where p: "p = program k sk st' timer'"
    and xs: "(\<exists>k'. x # rest = program k' sk st' timer') \<or> x # rest = program 0 False st' timer' \<or> x # rest = [AComplete]"
    using assms list.distinct(2)[of x rest] unfolding left_of_def by blast
  have cases: "x = AWait \<and> (\<exists>k'. rest = program k' sk st' timer') \<or>
      x = ASkip SkippedWithError did_not_run \<and> sk \<and> rest = program 0 False st' timer' \<or>
      x = AMerge st' timer' \<and> rest = [AComplete] \<or> x = AComplete \<and> rest = []"
    using xs by (auto dest!: program_Cons[OF sym])
  show "left_of p rest" using cases p unfolding left_of_def by blast
  show "x = AWait \<Longrightarrow> merges rest = merges (x # rest) \<and> skips rest = skips (x # rest)"
    by (simp add: merges_def skips_def)
  show "x = ASkip reason msg \<Longrightarrow> reason = SkippedWithError \<and> msg = did_not_run \<and> skips p \<and> merges rest \<and> \<not> skips rest"
    using cases p by auto
  show "x = AMerge st timer \<Longrightarrow> merge_of p = merge_results st timer \<and> AMerge st timer \<in> set p \<and> rest = [AComplete]"
    using cases p by (auto simp: fun_eq_iff)
  show "x = AComplete \<Longrightarrow> rest = []" using cases by auto
qed

lemma left_of_ends: "left_of p xs \<Longrightarrow> merges xs \<Longrightarrow> xs \<noteq> [] \<and> xs \<noteq> [AComplete]"
  by (auto simp: merges_def)

text \<open>The skips of threads that did not run are all the same, so they commute with the merges.\<close>

definition with_skip :: "bool \<Rightarrow> ThreadResult \<Rightarrow> ThreadResult" where
  "with_skip b r = (if b then first_skip SkippedWithError did_not_run r else r)"

lemma first_skip_with_skip [simp]:
  "first_skip SkippedWithError did_not_run (with_skip b r) = with_skip True r"
  by (simp add: with_skip_def first_skip_def)

lemma merge_results_skip:
  "merge_results st timer (first_skip reason msg r) =
   rbind (merge_results st timer r) (\<lambda>r1. Inr (first_skip reason msg r1))"
  by (auto simp: merge_results_def first_skip_def rbind_assoc intro!: rbind_cong)

lemma merge_results_with_skip:
  "merge_results st timer (with_skip b r) = rbind (merge_results st timer r) (\<lambda>r1. Inr (with_skip b r1))"
  by (simp add: with_skip_def merge_results_skip) (cases "merge_results st timer r"; simp)

lemma with_skip_counts [simp]:
  "tr_iterations (with_skip b r) = tr_iterations r" "tr_complexity_n (with_skip b r) = tr_complexity_n r"
  by (simp_all add: with_skip_def first_skip_def)

text \<open>The results are the merges in their order, with the skip once a thread has skipped.\<close>

lemma rfold_snoc: "rfold f s (xs @ [x]) = rbind (rfold f s xs) (\<lambda>t. f t x)"
  by (induction xs arbitrary: s) (simp_all add: rbind_assoc rbind_def split: sum.split)

definition merged_results :: "tsys \<Rightarrow> nat list \<Rightarrow> ThreadResult res" where
  "merged_results s0 order = rfold (\<lambda>r i. merge_of (ts_todo s0 ! i) r) ThreadResult_init order"

definition skipped_yet :: "nat \<Rightarrow> tsys \<Rightarrow> tsys \<Rightarrow> bool" where
  "skipped_yet n s0 s \<longleftrightarrow> (\<exists>i < n. skips (ts_todo s0 ! i) \<and> \<not> skips (ts_todo s ! i))"

definition minv :: "nat \<Rightarrow> tsys \<Rightarrow> tsys \<Rightarrow> bool" where
  "minv n s0 s \<longleftrightarrow> distinct (ts_merged s) \<and> set (ts_merged s) = {i. i < n \<and> \<not> merges (ts_todo s ! i)} \<and>
     (\<forall>i < n. left_of (ts_todo s0 ! i) (ts_todo s ! i)) \<and>
     (\<exists>r. merged_results s0 (ts_merged s) = Inr r \<and> ts_results s = with_skip (skipped_yet n s0 s) r)"

lemma minv_pop:
  assumes inv: "minv n s0 s" and i: "i < n" "n = length (ts_todo s)" and todo: "ts_todo s ! i = x # rest"
    and s': "ts_todo s' = (ts_todo s)[i := rest]" "ts_results s' = ts_results s" "ts_merged s' = ts_merged s"
    and x: "x = AWait \<or> x = AComplete"
  shows "minv n s0 s'"
proof -
  have left: "left_of (ts_todo s0 ! i) (x # rest)" using inv i todo by (auto simp: minv_def)
  have same: "merges rest = merges (x # rest)" "skips rest = skips (x # rest)"
    using x left_of_Cons(5)[OF left] by (auto simp: merges_def skips_def)
  have "merges (ts_todo s' ! j) = merges (ts_todo s ! j)" "skips (ts_todo s' ! j) = skips (ts_todo s ! j)"
    "left_of (ts_todo s0 ! j) (ts_todo s' ! j)" if "j < n" for j
    using that same todo i left_of_Cons(1)[OF left] inv by (cases "j = i"; auto simp: s' minv_def)+
  moreover from this have "skipped_yet n s0 s' = skipped_yet n s0 s" by (auto simp: skipped_yet_def)
  ultimately show ?thesis using inv by (auto simp: minv_def s'(2,3))
qed

lemma minv_skip:
  assumes inv: "minv n s0 s" and i: "i < n" "n = length (ts_todo s)" and todo: "ts_todo s ! i = ASkip reason msg # rest"
    and s': "s' = s\<lparr>ts_results := first_skip reason msg (ts_results s), ts_todo := (ts_todo s)[i := rest]\<rparr>"
  shows "minv n s0 s'"
proof -
  have left: "left_of (ts_todo s0 ! i) (ASkip reason msg # rest)" using inv i todo by (auto simp: minv_def)
  note at = left_of_Cons(3)[OF left refl]
  have "merges (ts_todo s ! i)" using at todo by (auto simp: merges_def)
  then have merges: "merges (ts_todo s' ! j) = merges (ts_todo s ! j)" if "j < n" for j
    using that at i by (cases "j = i") (auto simp: s')
  have left': "left_of (ts_todo s0 ! j) (ts_todo s' ! j)" if "j < n" for j
    using that i left_of_Cons(1)[OF left] inv by (cases "j = i") (auto simp: s' minv_def)
  have "skipped_yet n s0 s'" using at i by (auto simp: skipped_yet_def s' intro!: exI[of _ i])
  then show ?thesis using inv merges left' at by (auto simp: minv_def s')
qed

lemma minv_merge:
  assumes inv: "minv n s0 s" and i: "i < n" "n = length (ts_todo s)" and todo: "ts_todo s ! i = AMerge st timer # rest"
    and r: "merge_results st timer (ts_results s) = Inr r'"
    and s': "s' = s\<lparr>ts_results := r', ts_merged := ts_merged s @ [i], ts_todo := (ts_todo s)[i := rest]\<rparr>"
  shows "minv n s0 s'"
proof -
  have left: "left_of (ts_todo s0 ! i) (AMerge st timer # rest)" using inv i todo by (auto simp: minv_def)
  note at = left_of_Cons(4)[OF left refl]
  have m: "merges (ts_todo s ! i)" "\<not> merges rest" using at todo by (auto simp: merges_def)
  have "skips (ts_todo s' ! j) = skips (ts_todo s ! j)" if "j < n" for j
    using that at i todo by (cases "j = i") (auto simp: s' skips_def)
  then have skip: "skipped_yet n s0 s' = skipped_yet n s0 s" by (auto simp: skipped_yet_def)
  have left': "left_of (ts_todo s0 ! j) (ts_todo s' ! j)" if "j < n" for j
    using that i left_of_Cons(1)[OF left] inv by (cases "j = i") (auto simp: s' minv_def)
  have order: "distinct (ts_merged s')" "set (ts_merged s') = {j. j < n \<and> \<not> merges (ts_todo s' ! j)}"
    using inv m i by (auto simp: minv_def s' nth_list_update)
  obtain r0 where r0: "merged_results s0 (ts_merged s) = Inr r0" "ts_results s = with_skip (skipped_yet n s0 s) r0"
    using inv by (auto simp: minv_def)
  then obtain r1 where "merge_results st timer r0 = Inr r1" "r' = with_skip (skipped_yet n s0 s) r1"
    using r by (auto simp: merge_results_with_skip elim: rbindE)
  moreover have "merged_results s0 (ts_merged s') = rbind (merged_results s0 (ts_merged s)) (merge_results st timer)"
    using at by (simp add: s' merged_results_def rfold_snoc)
  ultimately have "merged_results s0 (ts_merged s') = Inr r1" "ts_results s' = with_skip (skipped_yet n s0 s') r1"
    using r0(1) unfolding skip by (simp_all add: s')
  then show ?thesis using order left' by (auto simp: minv_def)
qed

lemma minv_step:
  assumes "tstep s s'" "minv n s0 s" "tinv n s0 s"
  shows "minv n s0 s'"
proof -
  have len: "n = length (ts_todo s)" "\<And>i. runs s i \<Longrightarrow> i < n" using assms(3) by (auto simp: tinv_def runs_def)
  show ?thesis using assms(1)
  proof (cases rule: tstep.cases)
    case (t_wait i rest l b' pcs')
    show ?thesis
    proof (cases l)
      case None
      then show ?thesis using assms(2) t_wait(1) by (simp add: minv_def skipped_yet_def)
    next
      case (Some v)
      show ?thesis
        by (rule minv_pop[OF assms(2) len(2)[OF t_wait(2)] len(1) t_wait(3)]) (auto simp: t_wait(1) Some)
    qed
  next
    case (t_skip i reason msg rest)
    show ?thesis by (rule minv_skip[OF assms(2) len(2)[OF t_skip(2)] len(1) t_skip(3) t_skip(1)])
  next
    case (t_merge i st timer rest r)
    show ?thesis by (rule minv_merge[OF assms(2) len(2)[OF t_merge(2)] len(1) t_merge(3,4,1)])
  next
    case (t_complete i rest l b' pcs')
    show ?thesis
      by (rule minv_pop[OF assms(2) len(2)[OF t_complete(2)] len(1) t_complete(3)]) (auto simp: t_complete(1))
  qed (use assms(2) in \<open>auto simp: minv_def skipped_yet_def\<close>)
qed

lemma left_of_program: "left_of (program k sk st timer) (program k sk st timer)"
  unfolding left_of_def by blast

lemma invs_reach:
  assumes "threads_start h r m = Inr s0" "tstep\<^sup>*\<^sup>* s0 s"
  defines "n \<equiv> nat (i_threads (br_b r))"
  shows "tinv n s0 s \<and> minv n s0 s"
  using assms(2)
proof (induction rule: rtranclp_induct)
  case base
  note start = threads_startD[OF assms(1), folded n_def]
  have p: "\<exists>w sk st timer. ts_todo s0 ! i = program w sk st timer" if "i < n" for i
    using thread_actions_program[OF start(9)[OF that]] .
  have "left_of (ts_todo s0 ! i) (ts_todo s0 ! i) \<and> merges (ts_todo s0 ! i)" if "i < n" for i
    using p[OF that] left_of_program by auto
  then have "minv n s0 s0"
    by (auto simp: minv_def start(5,6) merged_results_def skipped_yet_def with_skip_def)
  then show ?case using tinv_start[OF assms(1)] by (simp add: n_def)
next
  case (step s1 s2)
  then show ?case using tinv_step minv_step by blast
qed

section \<open>Some thread can always go on\<close>

text \<open>The measurements of a thread whose counts stay below \<open>cap\<close> and whose timer has stopped.\<close>

definition small :: "int \<Rightarrow> action list \<Rightarrow> bool" where
  "small cap p \<longleftrightarrow> (\<exists>k sk st timer. p = program k sk st timer \<and> \<not> t_running timer \<and>
     0 \<le> iterations st \<and> iterations st \<le> cap \<and> \<bar>s_complexity_n st\<bar> \<le> cap)"

lemma merged_counts:
  assumes "\<forall>i \<in> set order. small cap (ts_todo s0 ! i)" "int (length order) * cap \<le> int64_max" "0 \<le> cap"
  shows "\<exists>r. merged_results s0 order = Inr r \<and> counts_ok 0 cap (int (length order)) r"
  using assms
proof (induction order rule: rev_induct)
  case Nil
  show ?case by (simp add: merged_results_def counts_ok_init)
next
  case (snoc i order)
  have cap: "(int (length order) + 1) * cap \<le> int64_max" using snoc.prems(2) by (simp add: add.commute)
  then have "int (length order) * cap \<le> int64_max" using snoc.prems(3) by (simp add: distrib_right)
  then obtain r where r: "merged_results s0 order = Inr r" "counts_ok 0 cap (int (length order)) r"
    using snoc.IH snoc.prems(1,3) by auto
  obtain k sk st timer where p: "ts_todo s0 ! i = program k sk st timer" "\<not> t_running timer"
    "0 \<le> iterations st" "iterations st \<le> cap" "\<bar>s_complexity_n st\<bar> \<le> cap"
    using snoc.prems(1) by (auto simp: small_def)
  then show ?case
    using merge_results_ok[OF p(2) r(2) refl refl _ p(3-5) cap] r(1)
    by (auto simp: merged_results_def rfold_snoc add.commute)
qed

lemma merge_possible:
  assumes inv: "minv n s0 s" and small: "\<forall>i < n. small cap (ts_todo s0 ! i)" and cap: "int n * cap \<le> int64_max" "0 \<le> cap"
    and i: "i < n" "ts_todo s ! i = AMerge st timer # rest"
  shows "\<exists>r. merge_results st timer (ts_results s) = Inr r"
proof -
  let ?order = "ts_merged s @ [i]"
  have m: "distinct (ts_merged s)" "set (ts_merged s) = {i. i < n \<and> \<not> merges (ts_todo s ! i)}"
    "left_of (ts_todo s0 ! i) (AMerge st timer # rest)"
    using inv i by (auto simp: minv_def)
  have "distinct ?order" "set ?order \<subseteq> {..<n}" using m i by (auto simp: merges_def)
  then have "length ?order \<le> n" using card_mono[of "{..<n}" "set ?order"] distinct_card[of ?order] by simp
  then have "int (length ?order) * cap \<le> int n * cap" using cap(2) by (intro mult_right_mono) auto
  then have "int (length ?order) * cap \<le> int64_max" using cap(1) by linarith
  moreover have "\<forall>j \<in> set ?order. small cap (ts_todo s0 ! j)" using m(2) i(1) small by auto
  ultimately obtain r1 where "merged_results s0 ?order = Inr r1" using merged_counts cap(2) by blast
  then obtain r where r: "merged_results s0 (ts_merged s) = Inr r" "merge_results st timer r = Inr r1"
    using left_of_Cons(4)[OF m(3) refl] by (auto simp: merged_results_def rfold_snoc elim!: rbindE)
  moreover have "\<exists>b. ts_results s = with_skip b r" using inv r(1) by (auto simp: minv_def)
  ultimately show ?thesis by (auto simp: merge_results_with_skip)
qed

lemma wait_progress:
  assumes inv: "tinv n s0 s" and "runs s i" and todo: "ts_todo s ! i = AWait # rest"
    and step: "step i (ts_barrier s, ts_pcs s) l (b', pcs')" and "pcs' ! i \<noteq> Removed"
    and "l \<noteq> None \<or> pc_work (pcs' ! i) < pc_work (ts_pcs s ! i)"
  shows "\<exists>s'. tstep s s' \<and> work s' < work s"
  using t_wait[OF assms(2-5)] work_barrier(2)[OF inv todo step disjI1[OF refl] refl] assms(6)
  by (cases l) auto

lemma outside_progress:
  assumes inv: "tinv n s0 s" "minv n s0 s" and small: "\<forall>i < n. small cap (ts_todo s0 ! i)"
    and cap: "int n * cap \<le> int64_max" "0 \<le> cap" and i: "runs s i" "ts_pcs s ! i = Outside"
  shows "\<exists>s'. tstep s s' \<and> work s' < work s"
proof -
  have len: "i < n" "i < length (ts_pcs s)" "inv n (ts_barrier s, ts_pcs s)" using inv(1) i(1) by (auto simp: tinv_def runs_def)
  obtain x rest where todo: "ts_todo s ! i = x # rest"
    using tinvD(1)[OF inv(1) len(1)] i(2) by (cases "ts_todo s ! i") (auto simp: ends_def)
  show ?thesis
  proof (cases x)
    case AWait
    note todo = todo[unfolded AWait]
    have "bar_entered (ts_barrier s) < bar_running_threads (ts_barrier s)"
      using entered_less[OF len(3,2)] i(2) by simp
    then have "\<exists>v. create_barrier_enter (ts_barrier s) = Inr v" by (simp add: create_barrier_enter_def Let_def)
    then obtain b' c where enter: "create_barrier_enter (ts_barrier s) = Inr (b', c)" by (metis surj_pair)
    show ?thesis
    proof (cases c)
      case (Inl p)
      show ?thesis
        by (rule wait_progress[OF inv(1) i(1) todo enter_wait[OF len(2) i(2) enter[unfolded Inl]]])
          (simp_all add: len i)
    next
      case (Inr u)
      then show ?thesis
        using wait_progress[OF inv(1) i(1) todo enter_last[OF len(2) i(2), of "ts_barrier s" b']] enter len i by simp
    qed
  next
    case (ASkip reason msg)
    show ?thesis
      using t_skip[OF i(1) todo[unfolded ASkip]] work_local[OF inv(1) todo i(1), where order = "ts_merged s"] by fastforce
  next
    case (AMerge st timer)
    note todo = todo[unfolded AMerge]
    obtain r where "merge_results st timer (ts_results s) = Inr r"
      using merge_possible[OF inv(2) small cap len(1) todo] by blast
    then show ?thesis
      using t_merge[OF i(1) todo] work_local[OF inv(1) todo i(1)] by blast
  next
    case AComplete
    note todo = todo[unfolded AComplete]
    obtain b' notifies where rm: "remove_thread (ts_barrier s) = (b', notifies)" by fastforce
    note st = remove[OF len(2) i(2) rm]
    have gone: "(if notifies then map wake ((ts_pcs s)[i := Removed]) else (ts_pcs s)[i := Removed]) ! i = Removed"
      using len(2) by simp
    show ?thesis
      using t_complete[OF i(1) todo st gone] work_barrier(2)[OF inv(1) todo st disjI2[OF gone] refl] by auto
  qed
qed

lemma waiting_progress:
  assumes inv: "tinv n s0 s" and all: "\<forall>i < n. runs s i" and out: "Outside \<notin> set (ts_pcs s)"
    and i: "i < n" "ts_pcs s ! i \<noteq> Removed"
  shows "\<exists>s'. tstep s s' \<and> work s' < work s"
proof -
  have len: "length (ts_pcs s) = n" "inv n (ts_barrier s, ts_pcs s)" using inv by (auto simp: tinv_def)
  have todo: "\<exists>rest. ts_todo s ! j = AWait # rest" if "j < n" "ts_pcs s ! j \<noteq> Removed" for j
  proof -
    have "ts_pcs s ! j \<noteq> Outside" using out that(1) len(1) nth_mem by metis
    then show ?thesis
      using tinvD(1)[OF inv that(1)] that(2) by (cases "ts_pcs s ! j"; cases "ts_todo s ! j") (auto simp: ends_def)
  qed
  have awake_all: "\<exists>s'. tstep s s' \<and> work s' < work s" if n: "Notifying \<in> set (ts_pcs s)"
  proof -
    obtain j where j: "j < n" "ts_pcs s ! j = Notifying" using n len(1) by (metis in_set_conv_nth)
    obtain rest where rest: "ts_todo s ! j = AWait # rest" using todo[OF j(1)] j(2) by auto
    have "runs s j" "j < length (ts_pcs s)" using all j(1) len(1) by simp_all
    then show ?thesis using wait_progress[OF inv _ rest notify[OF _ j(2)]] j(2) by simp
  qed
  have resume: "\<exists>s'. tstep s s' \<and> work s' < work s"
    if j: "j < length (ts_pcs s)" "ts_pcs s ! j = Awake q" "wait_predicate (ts_barrier s) q" for j q
  proof -
    obtain rest where rest: "ts_todo s ! j = AWait # rest" using todo[of j] j len(1) by auto
    have r: "runs s j" using all j(1) len(1) by simp
    obtain b' last where "create_barrier_resume (ts_barrier s) q = (b', last)" by fastforce
    then show ?thesis
      using wait_progress[OF inv r rest resume_not_last[OF j]] wait_progress[OF inv r rest resume_last[OF j]] j
      by (cases last) simp_all
  qed
  have here: "ts_pcs s ! i \<in> set (ts_pcs s)" using i(1) len(1) by simp
  have blocked: "\<exists>s'. tstep s s' \<and> work s' < work s" if p: "ts_pcs s ! i = Sleeping p \<or> ts_pcs s ! i = Awake p" for p
  proof -
    have "i < length (ts_pcs s)" using i(1) len(1) by simp
    then consider "Notifying \<in> set (ts_pcs s)"
      | j q where "j < length (ts_pcs s)" "ts_pcs s ! j = Awake q" "wait_predicate (ts_barrier s) q"
      using no_deadlock[OF len(2) _ p] out by blast
    then show ?thesis by cases (rule awake_all, assumption, rule resume)
  qed
  show ?thesis
  proof (cases "ts_pcs s ! i")
    case Outside
    then show ?thesis using out here by simp
  next
    case Notifying
    then show ?thesis using awake_all here by simp
  qed (use i(2) blocked in auto)
qed

lemma progress:
  assumes inv: "tinv n s0 s" "minv n s0 s" and small: "\<forall>i < n. small cap (ts_todo s0 ! i)"
    and cap: "int n * cap \<le> int64_max" "0 \<le> cap" and n: "1 \<le> n" and not: "\<not> finished s"
  shows "\<exists>s'. tstep s s' \<and> work s' < work s"
proof -
  have len: "length (ts_pcs s) = n" "ts_created s \<le> n - 1" "ts_joined s \<le> n - 1" using inv(1) by (auto simp: tinv_def)
  show ?thesis
  proof (cases "ts_created s < n - 1")
    case True
    then show ?thesis using t_create[of s] len(1) by (intro exI) (auto simp: work_def thread_work_def)
  next
    case False
    then have runs: "\<forall>i < n. runs s i" using len by (auto simp: runs_def)
    consider i where "i < n" "ts_pcs s ! i = Outside" | i where "i < n" "Outside \<notin> set (ts_pcs s)" "ts_pcs s ! i \<noteq> Removed"
      | "\<forall>i < n. ts_pcs s ! i = Removed"
      using len(1) by (metis in_set_conv_nth)
    then show ?thesis
    proof cases
      case 1
      then show ?thesis using outside_progress[OF inv small cap] runs by blast
    next
      case 2
      then show ?thesis using waiting_progress[OF inv(1) runs] by blast
    next
      case 3
      have join: "ts_joined s < n - 1" using not 3 n len by (auto simp: finished_def)
      then have "ts_pcs s ! 0 = Removed" "ts_pcs s ! Suc (ts_joined s) = Removed" using 3 n by auto
      then show ?thesis
        using t_join[of s] join len(1) by (intro exI) (auto simp: work_def thread_work_def)
    qed
  qed
qed

lemma completes:
  assumes inv: "tinv n s0 s" "minv n s0 s" and small: "\<forall>i < n. small cap (ts_todo s0 ! i)"
    and cap: "int n * cap \<le> int64_max" "0 \<le> cap" and n: "1 \<le> n"
  shows "\<exists>s'. tstep\<^sup>*\<^sup>* s s' \<and> finished s'"
  using inv
proof (induction "work s" arbitrary: s rule: less_induct)
  case less
  show ?case
  proof (cases "finished s")
    case False
    then obtain s1 where s1: "tstep s s1" "work s1 < work s" using progress[OF less.prems small cap n] by blast
    then obtain s' where "tstep\<^sup>*\<^sup>* s1 s'" "finished s'"
      using less.hyps[OF s1(2)] tinv_step[OF s1(1)] minv_step[OF s1(1)] less.prems by blast
    then show ?thesis using s1(1) by (meson converse_rtranclp_into_rtranclp)
  qed auto
qed

section \<open>Well-behaved benchmarks\<close>

lemma rfold_collect_total:
  "\<forall>i \<in> set is. \<exists>a. g i = Inr a \<Longrightarrow> \<exists>xs. rfold (\<lambda>acts i. rbind (g i) (\<lambda>a. Inr (acts @ [a]))) acc is = Inr xs"
proof (induction "is" arbitrary: acc)
  case (Cons i "is")
  then obtain a where "g i = Inr a" by auto
  then show ?case using Cons.IH[of "acc @ [a]"] Cons.prems by simp
qed simp

lemma thread_actions_small:
  assumes "well_behaved (h_run h k) iters cap" "1 \<le> iters" "perf = None \<or> perf = Some []" "tid < i_threads b"
  shows "\<exists>p. thread_actions h b iters perf k tid = Inr p \<and> small cap p"
proof -
  obtain st w st1 w1 r1 t where run:
    "Instance_Run (h_run h k) b iters tid (thread_world h k b perf False ThreadResult_init) = Inr (st, w)"
    "(if \<not> (skipped st \<or> iterations st \<ge> s_max_iterations st) then SkipWithError did_not_run st w
      else Inr (st, w)) = Inr (st1, w1)"
    "w_timer w1 = Some t" "\<not> t_running t" "0 \<le> iterations st1" "iterations st1 \<le> cap" "\<bar>s_complexity_n st1\<bar> \<le> cap"
    using Instance_Run_ok[OF assms, of h k False ThreadResult_init] by blast
  let ?ran = "skipped st \<or> iterations st \<ge> s_max_iterations st"
  have "thread_actions h b iters perf k tid = Inr (program (barrier_calls w) (\<not> ?ran) st1 t)"
    using run(1-3) by (cases ?ran) (auto simp: thread_actions_def Let_def program_def the_timer_def)
  then show ?thesis using run(4-7) by (auto simp: small_def)
qed

lemma threads_start_small:
  assumes good: "good_harness h (br_b r) (br_perf r)" and iters: "1 \<le> br_iters r" "br_iters r \<le> kMaxIterations"
  defines "n \<equiv> nat (i_threads (br_b r))"
  shows "\<exists>s0 cap. threads_start h r m = Inr s0 \<and> (\<forall>i < n. small cap (ts_todo s0 ! i)) \<and>
    int n * cap \<le> int64_max \<and> 0 \<le> cap \<and> 1 \<le> n"
proof -
  obtain cap where cap: "cap * i_threads (br_b r) \<le> int64_max" "\<forall>k. well_behaved (h_run h k) (br_iters r) cap"
    using good iters unfolding good_harness_def by blast
  have basic: "1 \<le> i_threads (br_b r)" "br_perf r = None \<or> br_perf r = Some []" using good by (auto simp: good_harness_def)
  let ?k = "\<lambda>i. m_calls m + call_index (h_order h (m_calls m) (i_threads (br_b r))) (int i)"
  have acts: "\<exists>p. thread_actions h (br_b r) (br_iters r) (br_perf r) (?k i) (int i) = Inr p \<and> small cap p" if "i < n" for i
    using thread_actions_small[OF cap(2)[rule_format] iters(1) basic(2)] that by (simp add: n_def)
  then have "\<forall>i \<in> set [0..<n]. \<exists>p. thread_actions h (br_b r) (br_iters r) (br_perf r) (?k i) (int i) = Inr p"
    by fastforce
  then obtain todo where "rfold (\<lambda>acts i. rbind (thread_actions h (br_b r) (br_iters r) (br_perf r) (?k i) (int i))
      (\<lambda>a. Inr (acts @ [a]))) [] [0..<n] = Inr todo"
    using rfold_collect_total[of "[0..<n]" "\<lambda>i. thread_actions h (br_b r) (br_iters r) (br_perf r) (?k i) (int i)" "[]"] by blast
  then obtain s0 where s0: "threads_start h r m = Inr s0" using basic(1) by (auto simp: threads_start_def GetThreadRunner_def Let_def n_def)
  have small: "small cap (ts_todo s0 ! i)" if "i < n" for i
    using acts[OF that] threads_startD(9)[OF s0, folded n_def, OF that] by auto
  moreover have n: "1 \<le> n" using basic(1) by (simp add: n_def)
  moreover from this have "0 \<le> cap" using small[of 0] by (auto simp: small_def)
  ultimately show ?thesis using s0 cap(1) basic(1) by (auto simp: n_def mult.commute)
qed

lemma threads_progress:
  assumes "good_harness h (br_b r) (br_perf r)" "1 \<le> br_iters r" "br_iters r \<le> kMaxIterations"
  shows "\<exists>s0. threads_start h r m = Inr s0 \<and> (\<forall>s. tstep\<^sup>*\<^sup>* s0 s \<longrightarrow>
    (\<exists>s'. tstep\<^sup>*\<^sup>* s s' \<and> finished s') \<and>
    (\<not> finished s \<longrightarrow> (\<exists>s'. tstep s s' \<and> work s' < work s)) \<and>
    (\<forall>s'. tstep s s' \<longrightarrow> (if only_sleeps s s' then work s' = work s else work s' < work s)))"
proof -
  obtain s0 cap where s0: "threads_start h r m = Inr s0" "\<forall>i < nat (i_threads (br_b r)). small cap (ts_todo s0 ! i)"
    "int (nat (i_threads (br_b r))) * cap \<le> int64_max" "0 \<le> cap" "1 \<le> nat (i_threads (br_b r))"
    using threads_start_small[OF assms, of m] by blast
  show ?thesis
  proof (rule exI[of _ s0], intro conjI allI impI)
    show "threads_start h r m = Inr s0" by (rule s0(1))
  next
    fix s assume "tstep\<^sup>*\<^sup>* s0 s"
    then have inv: "tinv (nat (i_threads (br_b r))) s0 s" "minv (nat (i_threads (br_b r))) s0 s"
      using invs_reach[OF s0(1)] by blast+
    show "\<exists>s'. tstep\<^sup>*\<^sup>* s s' \<and> finished s'" using completes[OF inv s0(2-5)] .
    show "\<exists>s'. tstep s s' \<and> work s' < work s" if "\<not> finished s" using progress[OF inv s0(2-5) that] .
    show "if only_sleeps s s' then work s' = work s else work s' < work s" if "tstep s s'" for s'
      using work_step_same[OF that inv(1)] only_sleeps_work by simp
  qed
qed

text \<open>C21: A run of the threads always ends. For a well-behaved benchmark the threads of a run start, and from
  any state that some interleaving of their steps has reached, \<open>RunThreads\<close> can still return: the main
  thread has created and joined the pool and every thread has been removed from the barrier.
  Until then some thread can take a step that leaves less work, and every step leaves less work, except that of a
  thread in the barrier that falls asleep again or wakes up without having been notified, which changes
  nothing else.  (A run of well-behaved calls without performance counters, of 1 to 10 ^ 12 iterations.)\<close>

theorem threads_complete:
  assumes "good_harness h (br_b r) (br_perf r)" "1 \<le> br_iters r" "br_iters r \<le> kMaxIterations"
  shows "\<exists>s0. threads_start h r m = Inr s0 \<and> (\<forall>s. tstep\<^sup>*\<^sup>* s0 s \<longrightarrow>
    (\<exists>s'. tstep\<^sup>*\<^sup>* s s' \<and> finished s') \<and>
    (\<not> finished s \<longrightarrow> (\<exists>s'. tstep s s' \<and> work s' < work s)) \<and>
    (\<forall>s'. tstep s s' \<longrightarrow> (if only_sleeps s s' then work s' = work s else work s' < work s)))"
  by (rule threads_progress[OF assms])

section \<open>The results are those of the sequential composition\<close>

text \<open>A function that neither looks at the shared results nor changes them.\<close>

definition put_results :: "ThreadResult \<Rightarrow> world \<Rightarrow> world" where
  "put_results r w = w\<lparr>w_results := Some r\<rparr>"

definition oblivious :: "body \<Rightarrow> bool" where
  "oblivious f \<longleftrightarrow> (\<forall>st w r. w_results w \<noteq> None \<longrightarrow>
     f st (put_results r w) = rbind (f st w) (\<lambda>(st', w'). Inr (st', put_results r w')))"

lemma put_results_simps [simp]:
  "w_results (put_results r w) = Some r" "w_timer (put_results r w) = w_timer w" "w_trace (put_results r w) = w_trace w"
  "w_perf (put_results r w) = w_perf w" "w_profiler (put_results r w) = w_profiler w"
  "w_perf_stops (put_results r w) = w_perf_stops w" "put_results r (put_results r' w) = put_results r w"
  by (simp_all add: put_results_def)

lemma timer_running_put [simp]: "timer_running (put_results r w) = timer_running w"
  by (simp add: timer_running_def)

lemma put_results_same: "w_results w = Some r \<Longrightarrow> put_results r w = w"
  by (simp add: put_results_def)

lemma oblivious_keeps:
  assumes "oblivious f" "f st w = Inr (st', w')" "w_results w = Some r"
  shows "w_results w' = Some r"
proof -
  have "f st w = Inr (st', put_results r w')"
    using assms put_results_same[OF assms(3)] unfolding oblivious_def by (metis (no_types, lifting) case_prod_conv option.distinct(1) rbind_Inr)
  then show ?thesis using assms(2) by (metis Inr_inject prod.inject put_results_simps(1))
qed

lemma StopTimer_put: "StopTimer (put_results r w) = rbind (StopTimer w) (\<lambda>w'. Inr (put_results r w'))"
  by (cases "w_timer w") (simp_all add: StopTimer_def the_timer_def ChronoClockNow_def ReadCpuTimerOfChoice_def
      put_results_def Let_def rbind_def BM_CHECK_def)

lemma StartTimer_put: "StartTimer (put_results r w) = rbind (StartTimer w) (\<lambda>w'. Inr (put_results r w'))"
  by (cases "w_timer w") (simp_all add: StartTimer_def the_timer_def ChronoClockNow_def ReadCpuTimerOfChoice_def
      put_results_def Let_def rbind_def)

lemma skip_with_put:
  assumes "w_results w \<noteq> None"
  shows "skip_with reason msg st (put_results r w) =
    rbind (skip_with reason msg st w) (\<lambda>(st', w'). Inr (st', put_results (first_skip reason msg r) w'))"
proof -
  obtain q where q: "w_results w = Some q" using assms by auto
  have w: "put_results (first_skip reason msg q) (put_results r w) = put_results (first_skip reason msg q) w" by simp
  have eq: "(put_results q' v)\<lparr>w_results := Some q''\<rparr> = put_results q'' v" "v\<lparr>w_results := Some q''\<rparr> = put_results q'' v" for q' q'' v
    by (simp_all add: put_results_def)
  show ?thesis
    by (cases "w_timer w")
      (simp_all add: skip_with_def the_results_def q Let_def the_timer_def eq StopTimer_put rbind_assoc
        first_skip_def[symmetric])
qed

lemma thread_world_put:
  "thread_world h k b perf profiled r = put_results r (thread_world h k b perf profiled ThreadResult_init)"
  by (simp add: thread_world_def put_results_def)

text \<open>One thread of the sequential composition does what its actions say.\<close>

lemma RunInThread_program:
  assumes obl: "oblivious (h_run h (m_calls m))"
    and acts: "thread_actions h b iters perf (m_calls m) tid = Inr p"
  shows "\<exists>m'. m_calls m' = Suc (m_calls m) \<and> RunInThread h b iters perf False (r, m) tid =
    rbind (merge_of p (with_skip (skips p) r)) (\<lambda>r1. Inr (r1, m'))"
proof -
  let ?w0 = "thread_world h (m_calls m) b perf False ThreadResult_init"
  obtain st w where run: "Instance_Run (h_run h (m_calls m)) b iters tid ?w0 = Inr (st, w)"
    using acts by (auto simp: thread_actions_def elim!: rbindE)
  have w0: "w_results ?w0 = Some ThreadResult_init" by (simp add: thread_world_def)
  then have w: "w_results w = Some ThreadResult_init"
    using oblivious_keeps[OF obl] run by (auto simp: Instance_Run_def elim!: rbindE)
  have run': "Instance_Run (h_run h (m_calls m)) b iters tid (thread_world h (m_calls m) b perf False r) =
      Inr (st, put_results r w)"
    using run obl w0 unfolding thread_world_put[of h _ b perf False r] Instance_Run_def oblivious_def
    by (auto elim!: rbindE)
  let ?ran = "skipped st \<or> iterations st \<ge> s_max_iterations st"
  have "\<exists>st1 w1 timer. (if \<not> ?ran then SkipWithError did_not_run st w else Inr (st, w)) = Inr (st1, w1) \<and>
      w_timer w1 = Some timer \<and> p = program (barrier_calls w) (\<not> ?ran) st1 timer"
    using acts run by (cases ?ran)
      (auto simp: thread_actions_def program_def Let_def the_timer_def split: option.splits elim!: rbindE)
  then obtain st1 w1 timer where fin:
    "(if \<not> ?ran then SkipWithError did_not_run st w else Inr (st, w)) = Inr (st1, w1)"
    "w_timer w1 = Some timer" "p = program (barrier_calls w) (\<not> ?ran) st1 timer" by blast
  have fin': "(if \<not> ?ran then SkipWithError did_not_run st (put_results r w) else Inr (st, put_results r w)) =
      Inr (st1, put_results (with_skip (\<not> ?ran) r) w1)"
    using fin(1) skip_with_put[of w SkippedWithError did_not_run st r] w
    by (cases ?ran) (auto simp: skip_calls with_skip_def)
  show ?thesis
    using fin(2)
    by (intro exI[of _ "(m_emit (MThread tid iters (w_trace w1)) m)\<lparr>m_calls := Suc (m_calls m)\<rparr>"])
      (simp only: RunInThread_def case_prod_conv run' rbind_Inr fin', simp add: fin(3) the_results_def the_timer_def)
qed

lemma RunInThread_order:
  assumes obl: "\<forall>k. oblivious (h_run h k)"
    and acts: "\<forall>j < length order. thread_actions h b iters perf (m_calls m + j) (int (order ! j)) = Inr (ts_todo s0 ! (order ! j))"
    and merged: "merged_results s0 order = Inr r"
  shows "\<exists>m'. m_calls m' = m_calls m + length order \<and>
    rfold (RunInThread h b iters perf False) (ThreadResult_init, m) (map int order) =
      Inr (with_skip (\<exists>i \<in> set order. skips (ts_todo s0 ! i)) r, m')"
  using acts merged
proof (induction order arbitrary: r rule: rev_induct)
  case Nil
  then show ?case by (simp add: merged_results_def with_skip_def)
next
  case (snoc i order)
  let ?p = "ts_todo s0 ! i"
  obtain r0 where r0: "merged_results s0 order = Inr r0" "merge_of ?p r0 = Inr r"
    using snoc.prems(2) by (auto simp: merged_results_def rfold_snoc elim!: rbindE)
  have "\<forall>j < length order. thread_actions h b iters perf (m_calls m + j) (int (order ! j)) = Inr (ts_todo s0 ! (order ! j))"
  proof (intro allI impI)
    fix j assume "j < length order"
    then show "thread_actions h b iters perf (m_calls m + j) (int (order ! j)) = Inr (ts_todo s0 ! (order ! j))"
      using snoc.prems(1)[rule_format, of j] by (simp add: nth_append)
  qed
  then obtain m1 where m1: "m_calls m1 = m_calls m + length order"
    "rfold (RunInThread h b iters perf False) (ThreadResult_init, m) (map int order) =
      Inr (with_skip (\<exists>i \<in> set order. skips (ts_todo s0 ! i)) r0, m1)"
    using snoc.IH[OF _ r0(1)] by blast
  have p: "thread_actions h b iters perf (m_calls m1) (int i) = Inr ?p"
    using snoc.prems(1)[rule_format, of "length order"] m1(1) by simp
  obtain k sk st timer where prog: "?p = program k sk st timer" using thread_actions_program[OF p] by blast
  have both: "with_skip sk (with_skip c q) = with_skip (c \<or> sk) q" for c q
    by (simp add: with_skip_def first_skip_def)
  obtain m2 where m2: "m_calls m2 = Suc (m_calls m1)"
    "RunInThread h b iters perf False (with_skip (\<exists>i \<in> set order. skips (ts_todo s0 ! i)) r0, m1) (int i) =
      rbind (merge_of ?p (with_skip (skips ?p) (with_skip (\<exists>i \<in> set order. skips (ts_todo s0 ! i)) r0))) (\<lambda>r1. Inr (r1, m2))"
    using RunInThread_program[OF obl[rule_format] p] by blast
  have "merge_of ?p (with_skip (skips ?p) (with_skip (\<exists>i \<in> set order. skips (ts_todo s0 ! i)) r0)) =
      Inr (with_skip (\<exists>j \<in> set (order @ [i]). skips (ts_todo s0 ! j)) r)"
    using r0(2) by (simp add: prog both merge_results_with_skip disj_commute)
  then show ?case using m1 m2 by (intro exI[of _ m2]) (simp add: rfold_snoc)
qed

lemma call_index_nth:
  assumes "distinct order" "j < length order"
  shows "call_index (map int order) (int (order ! j)) = j"
proof -
  have "takeWhile (\<lambda>k. k \<noteq> int (order ! j)) (map int order) = take j (map int order)"
    by (rule takeWhile_eq_take_P_nth) (use assms in \<open>auto simp: nth_eq_iff_index_eq\<close>)
  then show ?thesis using assms(2) by (simp add: call_index_def)
qed

lemma finished_all:
  assumes "tinv n s0 s" "minv n s0 s" "finished s" "1 \<le> n"
  shows "distinct (ts_merged s)" "set (ts_merged s) = {..<n}"
    "\<exists>r. merged_results s0 (ts_merged s) = Inr r \<and> ts_results s = with_skip (\<exists>i < n. skips (ts_todo s0 ! i)) r"
proof -
  have "ts_todo s ! i = []" if "i < n" for i
  proof -
    have "ts_pcs s ! i = Removed" using assms that by (cases "i = 0") (auto simp: finished_def tinv_def)
    then show ?thesis using tinvD(1)[OF assms(1) that] by simp
  qed
  then have none: "\<not> merges (ts_todo s ! i)" "\<not> skips (ts_todo s ! i)" if "i < n" for i
    using that by (simp_all add: merges_def skips_def)
  then have "skipped_yet n s0 s = (\<exists>i < n. skips (ts_todo s0 ! i))" by (auto simp: skipped_yet_def)
  then show "distinct (ts_merged s)" "set (ts_merged s) = {..<n}"
    "\<exists>r. merged_results s0 (ts_merged s) = Inr r \<and> ts_results s = with_skip (\<exists>i < n. skips (ts_todo s0 ! i)) r"
    using assms(2) none by (auto simp: minv_def)
qed

lemma interleaving_refines:
  assumes start: "threads_start h r m = Inr s0" and reach: "tstep\<^sup>*\<^sup>* s0 s" and fin: "finished s"
    and obl: "\<forall>k. oblivious (h_run h k)"
    and order: "h_order h (m_calls m) (i_threads (br_b r)) = map int (ts_merged s)"
  shows "\<exists>i m'. DoNIterations h r m = Inr (i, m') \<and> it_results i = ts_results s \<and>
    m_calls m' = m_calls m + nat (i_threads (br_b r))"
proof -
  define n where "n = nat (i_threads (br_b r))"
  note s0 = threads_startD[OF start, folded n_def]
  have inv: "tinv n s0 s" "minv n s0 s" using invs_reach[OF start reach] by (simp_all add: n_def)
  have n: "1 \<le> n" using s0(1) by (simp add: n_def)
  note all = finished_all[OF inv fin n]
  have len: "length (ts_merged s) = n" using distinct_card[OF all(1)] all(2) by simp
  obtain q where q: "merged_results s0 (ts_merged s) = Inr q"
    "ts_results s = with_skip (\<exists>i < n. skips (ts_todo s0 ! i)) q" using all(3) by blast
  have acts: "\<forall>j < length (ts_merged s). thread_actions h (br_b r) (br_iters r) (br_perf r) (m_calls m + j)
      (int (ts_merged s ! j)) = Inr (ts_todo s0 ! (ts_merged s ! j))"
  proof (intro allI impI)
    fix j assume j: "j < length (ts_merged s)"
    then have i: "ts_merged s ! j < n" using all(2) nth_mem[of j "ts_merged s"] by auto
    show "thread_actions h (br_b r) (br_iters r) (br_perf r) (m_calls m + j)
      (int (ts_merged s ! j)) = Inr (ts_todo s0 ! (ts_merged s ! j))"
      using s0(9)[OF i] unfolding order call_index_nth[OF all(1) j] .
  qed
  obtain m' where m': "m_calls m' = m_calls m + length (ts_merged s)"
    "rfold (RunInThread h (br_b r) (br_iters r) (br_perf r) False) (ThreadResult_init, m) (map int (ts_merged s)) =
      Inr (with_skip (\<exists>i \<in> set (ts_merged s). skips (ts_todo s0 ! i)) q, m')"
    using RunInThread_order[OF obl acts q(1)] by blast
  have "(\<exists>i \<in> set (ts_merged s). skips (ts_todo s0 ! i)) = (\<exists>i < n. skips (ts_todo s0 ! i))" using all(2) by auto
  then show ?thesis
    using s0(1) m' q(2) len by (auto simp: DoNIterations_def Let_def order n_def)
qed

text \<open>C5: The sequential model of a run is sound for all interleavings. When the threads of a run have finished
  under any schedule, and the user's function leaves the shared results alone, then composing the
  threads one after the other, in the order in which they had the mutex of the results, gives
  the same results: \<open>DoNIterations\<close> succeeds with them and makes one call per thread.\<close>

theorem DoNIterations_sound:
  assumes "threads_start h r m = Inr s0" "tstep\<^sup>*\<^sup>* s0 s" "finished s" "\<forall>k. oblivious (h_run h k)"
    and "h_order h (m_calls m) (i_threads (br_b r)) = map int (ts_merged s)"
  shows "\<exists>i m'. DoNIterations h r m = Inr (i, m') \<and> it_results i = ts_results s \<and>
    m_calls m' = m_calls m + nat (i_threads (br_b r))"
  by (rule interleaving_refines[OF assms])

section \<open>The loop functions are oblivious\<close>

lemma the_put [simp]:
  "the_timer (put_results r w) = the_timer w" "the_results (put_results r w) = Inr r"
  "emit e (put_results r w) = put_results r (emit e w)"
  "(put_results r w)\<lparr>w_perf_stops := k\<rparr> = put_results r (w\<lparr>w_perf_stops := k\<rparr>)"
  by (simp_all add: the_timer_def the_results_def emit_def put_results_def)

lemma StopTimer_results: "StopTimer w = Inr w' \<Longrightarrow> w_results w' = w_results w"
  by (auto simp: StopTimer_def ChronoClockNow_def ReadCpuTimerOfChoice_def Let_def elim!: rbindE)

lemma StartTimer_results: "StartTimer w = Inr w' \<Longrightarrow> w_results w' = w_results w"
  by (auto simp: StartTimer_def ChronoClockNow_def ReadCpuTimerOfChoice_def Let_def elim!: rbindE)

lemma PauseTiming_results: "PauseTiming st w = Inr (st', w') \<Longrightarrow> w_results w' = w_results w"
  by (auto simp: PauseTiming_def Let_def StopTimer_results split: option.splits elim!: rbindE)

lemma PauseTiming_put: "PauseTiming st (put_results r w) = rbind (PauseTiming st w) (\<lambda>(st', w'). Inr (st', put_results r w'))"
  by (auto simp: PauseTiming_def StopTimer_put rbind_assoc Let_def intro!: rbind_cong split: option.split)

lemma ResumeTiming_put: "ResumeTiming st (put_results r w) = rbind (ResumeTiming st w) (\<lambda>w'. Inr (put_results r w'))"
  by (auto simp: ResumeTiming_def StartTimer_put rbind_assoc intro!: rbind_cong split: option.split)

lemma emit_simps [simp]: "w_results (emit e w) = w_results w" "w_profiler (emit e w) = w_profiler w"
  by (simp_all add: emit_def)

lemma StartStopBarrier_has: "w_results w \<noteq> None \<Longrightarrow> StartStopBarrier w = Inr (emit (EvStartStopBarrier (timer_running w)) w)"
  by (auto simp: StartStopBarrier_def the_results_def)

lemma StartKeepRunning_put:
  assumes "w_results w \<noteq> None"
  shows "StartKeepRunning st (put_results r w) = rbind (StartKeepRunning st w) (\<lambda>(st', w'). Inr (st', put_results r w'))"
  using assms by (cases "s_started st \<or> s_finished st")
    (auto simp: StartKeepRunning_def Let_def StartStopBarrier_has ResumeTiming_put rbind_assoc)

lemma FinishKeepRunning_put:
  assumes "w_results w \<noteq> None"
  shows "FinishKeepRunning st (put_results r w) = rbind (FinishKeepRunning st w) (\<lambda>(st', w'). Inr (st', put_results r w'))"
proof (cases "PauseTiming st w")
  case (Inr v)
  then have "w_results (snd v) \<noteq> None" using PauseTiming_results[of st w "fst v" "snd v"] assms by simp
  then show ?thesis
    using assms Inr by (cases "s_started st \<and> (\<not> s_finished st \<or> skipped st)")
      (auto simp: FinishKeepRunning_def Let_def StartStopBarrier_has PauseTiming_put split: prod.split)
qed (use assms in \<open>auto simp: FinishKeepRunning_def PauseTiming_put StartStopBarrier_has Let_def rbind_BM_CHECK\<close>)

lemma StartKeepRunning_results: "StartKeepRunning st w = Inr (st', w') \<Longrightarrow> w_results w \<noteq> None \<Longrightarrow> w_results w' \<noteq> None"
  by (auto simp: StartKeepRunning_def StartStopBarrier_def ResumeTiming_def Let_def emit_def StartTimer_results
      split: if_splits option.splits elim!: rbindE)

lemma KeepRunningInternal_put:
  assumes "w_results w \<noteq> None"
  shows "KeepRunningInternal n is_batch st (put_results r w) =
    rbind (KeepRunningInternal n is_batch st w) (\<lambda>(c, st', w'). Inr (c, st', put_results r w'))"
proof -
  consider "s_started st" | e where "\<not> s_started st" "StartKeepRunning st w = Inl e"
    | st1 w1 where "\<not> s_started st" "StartKeepRunning st w = Inr (st1, w1)"
    by (cases "StartKeepRunning st w") auto
  then show ?thesis
  proof cases
    case 1
    then show ?thesis
      by (simp add: KeepRunningInternal_def FinishKeepRunning_put[OF assms] rbind_assoc rbind_ASSERT split_def)
  next
    case 2
    then show ?thesis
      by (simp add: KeepRunningInternal_def StartKeepRunning_put[OF assms] rbind_ASSERT)
  next
    case 3
    then have w1: "w_results w1 \<noteq> None" using StartKeepRunning_results assms by blast
    from 3 show ?thesis
      by (simp add: KeepRunningInternal_def StartKeepRunning_put[OF assms] FinishKeepRunning_put[OF w1]
          rbind_assoc rbind_ASSERT split_def)
  qed
qed

text \<open>So is \<open>while (state.KeepRunning())\<close> around an oblivious body.\<close>

lemma while_keep_running_put:
  assumes f: "oblivious f" and w: "w_results w \<noteq> None"
  shows "while_keep_running fuel KeepRunning f k st (put_results r w) =
    map_option (\<lambda>v. rbind v (\<lambda>(k', st', w'). Inr (k', st', put_results r w'))) (while_keep_running fuel KeepRunning f k st w)"
  using w
proof (induction fuel arbitrary: k st w)
  case (Suc fuel)
  have K: "KeepRunning st (put_results r' w) = rbind (KeepRunning st w) (\<lambda>(c, st', w'). Inr (c, st', put_results r' w'))" for r'
    using KeepRunningInternal_put[OF Suc.prems] by (simp add: KeepRunning_def)
  show ?case
  proof (cases "KeepRunning st w")
    case (Inl e)
    then show ?thesis using K by simp
  next
    case (Inr v)
    obtain c st1 w1 where v: "v = (c, st1, w1)" by (cases v)
    obtain q where q: "w_results w = Some q" using Suc.prems by auto
    have "w1 = put_results q w1" using K[of q] Inr v by (simp add: put_results_same[OF q])
    then have w1: "w_results w1 \<noteq> None" using put_results_simps(1)[of q w1] by simp
    have F: "f st1 (put_results r w1) = rbind (f st1 w1) (\<lambda>(st', w'). Inr (st', put_results r w'))"
      using f w1 by (simp add: oblivious_def)
    show ?thesis
    proof (cases c)
      case False
      then show ?thesis using K Inr v by simp
    next
      case True
      show ?thesis
      proof (cases "f st1 w1")
        case (Inl e)
        then show ?thesis using K Inr v True F by simp
      next
        case f1: (Inr p)
        obtain st2 w2 where p: "p = (st2, w2)" by (cases p)
        have "w_results w2 \<noteq> None" using oblivious_keeps[OF f] f1 p w1 by auto
        then show ?thesis using K Inr v True F f1 p Suc.IH by simp
      qed
    qed
  qed
qed simp

lemma empty_loop_oblivious: "oblivious empty_loop"
  unfolding oblivious_def
proof (intro allI impI)
  fix st r and w :: world assume w: "w_results w \<noteq> None"
  have "oblivious quiet" by (simp add: oblivious_def quiet_def)
  note loop = while_keep_running_put[OF this w, of "nat (s_max_iterations st) + 1" 0 st r]
  show "empty_loop st (put_results r w) = rbind (empty_loop st w) (\<lambda>(st', w'). Inr (st', put_results r w'))"
    unfolding empty_loop_def loop by (auto split: option.split sum.split)
qed

section \<open>Two threads\<close>

definition duo_instance :: BenchmarkInstance where
  "duo_instance = BenchmarkInstance_new kNanosecond
     (Benchmark_new StatisticsMean StatisticsMedian StatisticsStdDev StatisticsCV kNanosecond ''BM_f'') 0 0 [] 2"

definition duo_runner :: BenchmarkRunner where
  "duo_runner = sample_runner\<lparr>br_b := duo_instance\<rparr>"

lemma duo_simps [simp]:
  "i_threads duo_instance = 2" "br_b duo_runner = duo_instance" "br_perf duo_runner = Some []" "br_iters duo_runner = 1"
  by (simp_all add: duo_instance_def BenchmarkInstance_new_def duo_runner_def sample_runner_def)

lemma duo_good: "good_harness stuck_clock_harness duo_instance (Some [])"
  unfolding good_harness_def duo_simps
  by (auto simp: stuck_clock_harness_def kMaxIterations_def int64_max_def
      intro!: exI[of _ kMaxIterations] empty_loop_well_behaved)

text \<open>In the harness every call is the same, so the order in which the calls are numbered does not matter.\<close>

lemma duo_order:
  "threads_start (stuck_clock_harness\<lparr>h_order := \<lambda>_ _. order\<rparr>) duo_runner m = threads_start stuck_clock_harness duo_runner m"
proof -
  have "thread_actions (stuck_clock_harness\<lparr>h_order := \<lambda>_ _. order\<rparr>) b iters perf k tid =
      thread_actions stuck_clock_harness b iters perf k' tid" for b iters perf k k' tid
    by (simp add: thread_actions_def thread_world_def stuck_clock_harness_def)
  then show ?thesis by (simp add: threads_start_def GetThreadRunner_def Let_def) (metis (no_types, lifting))
qed



theorem threads_complete_witness:
  "\<exists>s0 s. threads_start stuck_clock_harness duo_runner machine_init = Inr s0 \<and> tstep\<^sup>*\<^sup>* s0 s \<and> finished s"
  using threads_complete[of stuck_clock_harness duo_runner machine_init] duo_good by (auto simp: kMaxIterations_def)

theorem DoNIterations_sound_witness:
  "\<exists>order s0 s i m'. threads_start (stuck_clock_harness\<lparr>h_order := \<lambda>_ _. order\<rparr>) duo_runner machine_init = Inr s0 \<and>
     tstep\<^sup>*\<^sup>* s0 s \<and> finished s \<and>
     DoNIterations (stuck_clock_harness\<lparr>h_order := \<lambda>_ _. order\<rparr>) duo_runner machine_init = Inr (i, m') \<and>
     it_results i = ts_results s \<and> m_calls m' = 2"
proof -
  obtain s0 where s0: "threads_start stuck_clock_harness duo_runner machine_init = Inr s0"
    "\<forall>s. tstep\<^sup>*\<^sup>* s0 s \<longrightarrow> (\<exists>s'. tstep\<^sup>*\<^sup>* s s' \<and> finished s')"
    using threads_progress[of stuck_clock_harness duo_runner machine_init] duo_good by (auto simp: kMaxIterations_def)
  then obtain s where s: "threads_start stuck_clock_harness duo_runner machine_init = Inr s0" "tstep\<^sup>*\<^sup>* s0 s" "finished s"
    by (meson rtranclp.rtrancl_refl)
  let ?h = "stuck_clock_harness\<lparr>h_order := \<lambda>_ _. map int (ts_merged s)\<rparr>"
  have start: "threads_start ?h duo_runner machine_init = Inr s0" using s(1) by (simp add: duo_order)
  have obl: "\<forall>k. oblivious (h_run ?h k)" using empty_loop_oblivious by (simp add: stuck_clock_harness_def)
  have "h_order ?h (m_calls machine_init) (i_threads (br_b duo_runner)) = map int (ts_merged s)" by simp
  from DoNIterations_sound[OF start s(2,3) obl this] obtain i m' where
    "DoNIterations ?h duo_runner machine_init = Inr (i, m')" "it_results i = ts_results s" "m_calls m' = m_calls machine_init + 2"
    by auto
  then show ?thesis
    using start s(2,3) by (intro exI[of _ "map int (ts_merged s)"] exI[of _ s0] exI[of _ s] exI[of _ i] exI[of _ m'])
      (simp add: machine_init_def)
qed

end
