(* ===== verification/Platforms.thy ===== *)
theory Platforms
  imports SysInfo Timers "HOL-Library.Word"
begin

text \<open>
  What the library compiles on other systems than Linux: the parts of src/src/sysinfo.cc for macOS and the BSDs
  (\<open>sysctl\<close>), Windows, QNX, QuRT and Solaris, the CPU times of src/src/timers.cc there, and the conversions of
  src/src/string_util.cc for the Android library that lacks them.  What the system calls return is a parameter.
\<close>

section \<open>The values of sysctl\<close>

text \<open>
  \<open>sysctlbyname\<close>: the size it asks for, and the bytes it writes into a buffer that is large enough.
  A \<open>ValueUnion\<close> has a size and at least eight bytes, which are zero at first; the processors are
  little-endian.
\<close>

record sysctl_env =
  sc_size :: "string \<Rightarrow> nat option"
  sc_bytes :: "string \<Rightarrow> 8 word list option"

record ValueUnion =
  vu_size :: nat
  vu_data :: "8 word list"

definition ValueUnion_new :: "nat \<Rightarrow> ValueUnion" where
  "ValueUnion_new buff_size = \<lparr>vu_size = 8 + buff_size, vu_data = replicate (8 + buff_size) 0\<rparr>"

definition GetSysctlImp :: "sysctl_env \<Rightarrow> string \<Rightarrow> ValueUnion option" where
  "GetSysctlImp env name =
     (case sc_size env name of
        None \<Rightarrow> None
      | Some cur_buff_size \<Rightarrow>
          (let buff = ValueUnion_new cur_buff_size in
           case sc_bytes env name of
             None \<Rightarrow> None
           | Some bytes \<Rightarrow> Some (buff\<lparr>vu_size := length bytes, vu_data := bytes @ drop (length bytes) (vu_data buff)\<rparr>)))"

text \<open>On OpenBSD only two values are known, by their number, and the buffer is for an \<open>int\<close>.\<close>

definition GetSysctlImp_openbsd :: "sysctl_env \<Rightarrow> string \<Rightarrow> ValueUnion option" where
  "GetSysctlImp_openbsd env name =
     (if name = ''hw.ncpuonline'' \<or> name = ''hw.cpuspeed'' then
        (let buff = ValueUnion_new 4 in
         case sc_bytes env name of
           None \<Rightarrow> None
         | Some bytes \<Rightarrow> Some (buff\<lparr>vu_size := length bytes, vu_data := bytes @ drop (length bytes) (vu_data buff)\<rparr>))
      else None)"

fun le_value :: "8 word list \<Rightarrow> int" where
  "le_value [] = 0"
| "le_value (b # bs) = uint b + 256 * le_value bs"

definition int32_at :: "nat \<Rightarrow> 8 word list \<Rightarrow> int" where
  "int32_at k bytes = sint (word_of_int (le_value (take 4 (drop (4 * k) bytes))) :: 32 word)"

definition GetAsString :: "ValueUnion \<Rightarrow> string" where
  "GetAsString v = map (\<lambda>b. char_of (unat b)) (takeWhile (\<lambda>b. b \<noteq> 0) (vu_data v))"

definition GetAsInteger :: "ValueUnion \<Rightarrow> int res" where
  "GetAsInteger v =
     (if vu_size v = 4 then Inr (int32_at 0 (vu_data v))
      else if vu_size v = 8 then Inr (sint (word_of_int (le_value (take 8 (vu_data v))) :: 64 word))
      else Inl (Undefined ''BENCHMARK_UNREACHABLE''))"

definition GetAsArray :: "nat \<Rightarrow> ValueUnion \<Rightarrow> int list res" where
  "GetAsArray n v = rbind (BM_CHECK (4 * n \<le> vu_size v) ''arr_size <= size'') (\<lambda>_.
     Inr (map (\<lambda>k. int32_at k (vu_data v)) [0..<n]))"

text \<open>The three forms of \<open>GetSysctl\<close>: what they return and what they leave in \<open>out\<close>.\<close>

definition GetSysctl_string :: "sysctl_env \<Rightarrow> string \<Rightarrow> bool \<times> string" where
  "GetSysctl_string env name = (case GetSysctlImp env name of None \<Rightarrow> (False, []) | Some buff \<Rightarrow> (True, GetAsString buff))"

definition GetSysctl_int :: "sysctl_env \<Rightarrow> string \<Rightarrow> (bool \<times> int) res" where
  "GetSysctl_int env name = (case GetSysctlImp env name of
       None \<Rightarrow> Inr (False, 0)
     | Some buff \<Rightarrow> rbind (GetAsInteger buff) (\<lambda>v. Inr (True, sint (word_of_int v :: 32 word))))"

definition GetSysctl_u64 :: "sysctl_env \<Rightarrow> string \<Rightarrow> (bool \<times> int) res" where
  "GetSysctl_u64 env name = (case GetSysctlImp env name of
       None \<Rightarrow> Inr (False, 0)
     | Some buff \<Rightarrow> rbind (GetAsInteger buff) (\<lambda>v. Inr (True, v mod 2 ^ 64)))"

definition GetSysctl_array :: "sysctl_env \<Rightarrow> string \<Rightarrow> int list \<Rightarrow> (bool \<times> int list) res" where
  "GetSysctl_array env name out = (case GetSysctlImp env name of
       None \<Rightarrow> Inr (False, out)
     | Some buff \<Rightarrow> rbind (GetAsArray (length out) buff) (\<lambda>arr. Inr (True, arr)))"

section \<open>Caches\<close>

definition macos_caches :: "int list \<Rightarrow> (string \<times> string \<times> int \<times> int) list" where
  "macos_caches cache_counts =
     [(''hw.l1dcachesize'', ''Data'', 1, cache_counts ! 1), (''hw.l1icachesize'', ''Instruction'', 1, cache_counts ! 1),
      (''hw.l2cachesize'', ''Unified'', 2, cache_counts ! 2), (''hw.l3cachesize'', ''Unified'', 3, cache_counts ! 3)]"

definition GetCacheSizesMacOSX :: "sysctl_env \<Rightarrow> CacheInfo list res" where
  "GetCacheSizesMacOSX env =
     rbind (GetSysctl_array env ''hw.cacheconfig'' [0, 0, 0, 0]) (\<lambda>(_, cache_counts).
     rfold (\<lambda>res (name, type, level, num_sharing).
       rbind (GetSysctl_int env name) (\<lambda>(found, val).
       Inr (if \<not> found then res
            else res @ [\<lparr>ca_type = type, ca_level = level, ca_size = val, ca_num_sharing = num_sharing\<rparr>])))
       [] (macos_caches cache_counts))"

text \<open>\<open>SYSTEM_LOGICAL_PROCESSOR_INFORMATION\<close>, and its kinds of cache.\<close>

datatype PROCESSOR_CACHE_TYPE = CacheUnified | CacheInstruction | CacheData | CacheTrace | CacheUnknown

record PInfo =
  pi_is_cache :: bool
  pi_ProcessorMask :: nat
  pi_Level :: int
  pi_Size :: "32 word"
  pi_Type :: PROCESSOR_CACHE_TYPE

fun cache_type_name :: "PROCESSOR_CACHE_TYPE \<Rightarrow> string" where
  "cache_type_name CacheUnified = ''Unified''"
| "cache_type_name CacheInstruction = ''Instruction''"
| "cache_type_name CacheData = ''Data''"
| "cache_type_name CacheTrace = ''Trace''"
| "cache_type_name CacheUnknown = ''Unknown''"

definition GetCacheSizesWindows :: "PInfo list option \<Rightarrow> CacheInfo list res" where
  "GetCacheSizesWindows infos = (case infos of
       None \<Rightarrow> die
     | Some entries \<Rightarrow> Inr (foldl (\<lambda>res it.
         if \<not> pi_is_cache it then res
         else if pi_ProcessorMask it mod 2 = 0 then res
         else res @ [\<lparr>ca_type = cache_type_name (pi_Type it), ca_level = pi_Level it, ca_size = sint (pi_Size it),
           ca_num_sharing = int (popcount (pi_ProcessorMask it))\<rparr>]) [] entries))"

text \<open>The entries of the system page of QNX.  An entry of another kind is skipped by \<open>continue\<close>, before the pointer moves on.\<close>

datatype CACHE_FLAG = CACHE_FLAG_INSTR | CACHE_FLAG_DATA | CACHE_FLAG_UNIFIED | CACHE_FLAG_SHARED | CACHE_FLAG_OTHER int

record cacheattr_entry =
  ce_flags :: CACHE_FLAG
  ce_line_size :: "32 word"
  ce_num_lines :: "32 word"

fun cache_kind :: "CACHE_FLAG \<Rightarrow> (string \<times> int) option" where
  "cache_kind CACHE_FLAG_INSTR = Some (''Instruction'', 1)"
| "cache_kind CACHE_FLAG_DATA = Some (''Data'', 1)"
| "cache_kind CACHE_FLAG_UNIFIED = Some (''Unified'', 2)"
| "cache_kind CACHE_FLAG_SHARED = Some (''Shared'', 3)"
| "cache_kind (CACHE_FLAG_OTHER _) = None"

definition cache_of_entry :: "cacheattr_entry \<Rightarrow> string \<times> int \<Rightarrow> CacheInfo" where
  "cache_of_entry cache = (\<lambda>(type, level). \<lparr>ca_type = type, ca_level = level,
     ca_size = sint (ce_line_size cache * ce_num_lines cache), ca_num_sharing = 0\<rparr>)"

fun qnx_loop :: "nat \<Rightarrow> cacheattr_entry list \<Rightarrow> nat \<Rightarrow> CacheInfo list \<Rightarrow> CacheInfo list" where
  "qnx_loop 0 entries pos res = res"
| "qnx_loop (Suc k) entries pos res =
     (case cache_kind (ce_flags (entries ! pos)) of
        None \<Rightarrow> qnx_loop k entries pos res
      | Some kind \<Rightarrow> qnx_loop k entries (Suc pos) (res @ [cache_of_entry (entries ! pos) kind]))"

definition GetCacheSizesQNX :: "cacheattr_entry list \<Rightarrow> CacheInfo list" where
  "GetCacheSizesQNX entries = qnx_loop (length entries) entries 0 []"

section \<open>The other facts\<close>

definition GetNumCPUsImpl_windows :: "32 word \<Rightarrow> int" where
  "GetNumCPUsImpl_windows dwNumberOfProcessors = sint dwNumberOfProcessors"

definition GetNumCPUsImpl_qurt :: "int option \<Rightarrow> int" where
  "GetNumCPUsImpl_qurt max_hthreads = (case max_hthreads of None \<Rightarrow> 1 | Some n \<Rightarrow> n)"

definition GetNumCPUsImpl_sysctl :: "string \<Rightarrow> sysctl_env \<Rightarrow> int res" where
  "GetNumCPUsImpl_sysctl hwncpu env =
     rbind (GetSysctl_int env hwncpu) (\<lambda>(found, num_cpu). if found then Inr num_cpu else die)"

definition GetSystemName_windows :: "string option \<Rightarrow> string" where
  "GetSystemName_windows hostname = (case hostname of None \<Rightarrow> [] | Some name \<Rightarrow> name)"

definition GetSystemName_qurt :: "nat option \<Rightarrow> string" where
  "GetSystemName_qurt arch_version = ''Hexagon DSP'' @
     (case arch_version of None \<Rightarrow> [] | Some v \<Rightarrow> '' v'' @ show_int (int v))"

text \<open>
  The affinity on Windows: \<open>SetThreadAffinityMask\<close> gives the previous mask, or 0 when it fails.
\<close>

definition SetAffinity_windows :: "nat \<Rightarrow> (nat \<Rightarrow> nat) \<Rightarrow> (bool \<times> nat) res" where
  "SetAffinity_windows current_processor SetThreadAffinityMask =
     (if current_processor \<ge> 64 then Inl (Undefined ''shift by the width of the type'')
      else (let previous_affinity = SetThreadAffinityMask (2 ^ current_processor)
            in Inr (previous_affinity \<noteq> 0, previous_affinity)))"

definition reset_affinity_windows :: "bool \<times> nat \<Rightarrow> (nat \<Rightarrow> nat) \<Rightarrow> unit res" where
  "reset_affinity_windows = (\<lambda>(reset_affinity, previous_affinity) SetThreadAffinityMask.
     if \<not> reset_affinity then Inr ()
     else if SetThreadAffinityMask previous_affinity \<noteq> 0 then Inr () else die)"

text \<open>A frequency, or that the estimate is tried (\<open>None\<close>), and what is written to \<open>stderr\<close>.\<close>

definition GetCPUCyclesPerSecond_sysctl ::
  "bool \<Rightarrow> string \<Rightarrow> string \<Rightarrow> sysctl_env \<Rightarrow> (double option \<times> string) res" where
  "GetCPUCyclesPerSecond_sysctl openbsd freqStr errno_text env =
     rbind (GetSysctl_u64 env freqStr) (\<lambda>(found, hz).
     Inr (if found then (Some (double_of_int (if openbsd then hz * 1000000 mod 2 ^ 64 else hz)), [])
          else (None, ''Unable to determine clock rate from sysctl: '' @ freqStr @ '': '' @ errno_text @ ''\<newline>'' @
            ''This does not affect benchmark measurements, only the '' @ ''metadata output.\<newline>'')))"

definition GetCPUCyclesPerSecond_windows :: "32 word option \<Rightarrow> double option" where
  "GetCPUCyclesPerSecond_windows mhz = map_option (\<lambda>data. double_of_int (uint data * (1000 * 1000))) mhz"

definition GetCPUCyclesPerSecond_qnx :: "32 word \<Rightarrow> double" where
  "GetCPUCyclesPerSecond_qnx speed = double_of_int (uint speed * (1000 * 1000))"

definition GetCPUCyclesPerSecond_qurt :: double where
  "GetCPUCyclesPerSecond_qurt = Fin 1000000000"

text \<open>The statistics of the Solaris kernel: each call may fail, and the datum has a type.\<close>

record kstat_env =
  ks_open :: bool
  ks_lookup :: bool
  ks_read :: bool
  ks_data :: "(int \<times> 64 word) option"

definition GetCPUCyclesPerSecond_solaris :: "int \<Rightarrow> kstat_env \<Rightarrow> double \<times> string" where
  "GetCPUCyclesPerSecond_solaris KSTAT_DATA_UINT64 env =
     (if \<not> ks_open env then (Fin (-1), ''failed to open /dev/kstat\<newline>'')
      else if \<not> ks_lookup env then (Fin (-1), ''failed to lookup in /dev/kstat\<newline>'')
      else if \<not> ks_read env then (Fin (-1), ''failed to read from /dev/kstat\<newline>'')
      else (case ks_data env of
          None \<Rightarrow> (Fin (-1), ''failed to lookup data in /dev/kstat\<newline>'')
        | Some (data_type, ui64) \<Rightarrow>
            if data_type \<noteq> KSTAT_DATA_UINT64
            then (Fin (-1), ''current_clock_Hz is of unexpected data type: '' @ show_int data_type @ ''\<newline>'')
            else (double_of_int (uint ui64), [])))"

section \<open>CPU times\<close>

text \<open>A \<open>FILETIME\<close> has two halves of 32 bits and counts tenths of microseconds.\<close>

record FILETIME =
  dwHighDateTime :: "32 word"
  dwLowDateTime :: "32 word"

definition QuadPart :: "FILETIME \<Rightarrow> int" where
  "QuadPart t = uint (dwHighDateTime t) * 2 ^ 32 + uint (dwLowDateTime t)"

definition MakeTime_windows :: "FILETIME \<Rightarrow> FILETIME \<Rightarrow> double" where
  "MakeTime_windows kernel_time user_time =
     (double_of_int (QuadPart kernel_time) + double_of_int (QuadPart user_time)) * rnd (1 / 10000000)"

text \<open>Seconds and microseconds of the user and of the system: a \<open>rusage\<close>, or the information on a thread of macOS.\<close>

record rusage =
  utime_sec :: int
  utime_usec :: int
  stime_sec :: int
  stime_usec :: int

definition MakeTime_rusage :: "rusage \<Rightarrow> double" where
  "MakeTime_rusage ru =
     double_of_int (utime_sec ru) + double_of_int (utime_usec ru) * rnd (1 / 1000000) +
     double_of_int (stime_sec ru) + double_of_int (stime_usec ru) * rnd (1 / 1000000)"

definition ProcessCPUUsage_windows :: "(FILETIME \<times> FILETIME) option \<Rightarrow> double res" where
  "ProcessCPUUsage_windows process_times = (case process_times of
       Some (kernel_time, user_time) \<Rightarrow> Inr (MakeTime_windows kernel_time user_time) | None \<Rightarrow> Inl (ExitWith 1))"

definition ProcessCPUUsage_qurt :: "int \<Rightarrow> double" where
  "ProcessCPUUsage_qurt ticks_us = double_of_int ticks_us * rnd (1 / 1000000)"

definition ProcessCPUUsage_emscripten :: "double \<Rightarrow> double" where
  "ProcessCPUUsage_emscripten emscripten_now = emscripten_now * rnd (1 / 1000)"

text \<open>\<open>getrusage\<close> for the process or for the thread.\<close>

definition CPUUsage_rusage :: "rusage option \<Rightarrow> double res" where
  "CPUUsage_rusage usage = (case usage of Some ru \<Rightarrow> Inr (MakeTime_rusage ru) | None \<Rightarrow> Inl (ExitWith 1))"

text \<open>On Windows the result of \<open>GetThreadTimes\<close> is not checked: when it fails the times are not initialised.\<close>

definition ThreadCPUUsage_windows :: "(FILETIME \<times> FILETIME) option \<Rightarrow> double res" where
  "ThreadCPUUsage_windows thread_times = (case thread_times of
       Some (kernel_time, user_time) \<Rightarrow> Inr (MakeTime_windows kernel_time user_time)
     | None \<Rightarrow> Inl (Undefined ''uninitialised FILETIME''))"

definition ThreadCPUUsage_macos :: "rusage option \<Rightarrow> double res" where
  "ThreadCPUUsage_macos info = (case info of Some i \<Rightarrow> Inr (MakeTime_rusage i) | None \<Rightarrow> Inl (ExitWith 1))"

section \<open>The conversions for Android\<close>

text \<open>
  \<open>strtoul(s, &end, base)\<close> for the bases 10 and 16 and a 64-bit \<open>unsigned long\<close>: the value, what
  follows the number, whether \<open>errno\<close> is \<open>ERANGE\<close>.
\<close>

definition strtoul :: "nat \<Rightarrow> string \<Rightarrow> int \<times> string \<times> bool" where
  "strtoul base s =
     (let digit = (if base = 16 then hex_value else dec_value);
          (neg, t) = split_sign (dropWhile is_space s);
          u = (if base = 16 \<and> starts_with (lower t) ''0x'' \<and> length t > 2 \<and> hex_value (t ! 2) \<noteq> None then drop 2 t else t);
          (n, k, rest) = read_base digit base 0 0 u
      in if k = 0 then (0, s, False)
         else if n \<ge> 2 ^ 64 then (2 ^ 64 - 1, rest, True)
         else (if neg then (- int n) mod 2 ^ 64 else int n, rest, False))"

text \<open>The value and the position after it.\<close>

definition stoul :: "string \<Rightarrow> nat \<Rightarrow> (int \<times> nat) res" where
  "stoul str base =
     (let strStart = c_str str; (result, strEnd, range_error) = strtoul base strStart in
      if range_error then Inl (Threw (''std::out_of_range: stoul failed: '' @ str @ '' is outside of range of unsigned long''))
      else if strEnd = strStart then Inl (Threw (''std::invalid_argument: stoul failed: '' @ str @ '' is not an integer''))
      else Inr (result, length strStart - length strEnd))"

definition stoi :: "string \<Rightarrow> (int \<times> nat) res" where
  "stoi str =
     (let strStart = c_str str; (result, strEnd, range_error) = strtol strStart in
      if range_error \<or> \<not> in_i32 result
      then Inl (Threw (''std::out_of_range: stoul failed: '' @ str @ '' is outside of range of int''))
      else if strEnd = strStart then Inl (Threw (''std::invalid_argument: stoul failed: '' @ str @ '' is not an integer''))
      else Inr (result, length strStart - length strEnd))"

definition stod_android :: "string \<Rightarrow> (double \<times> nat) res" where
  "stod_android str =
     (let strStart = c_str str; (result, strEnd, range_error) = strtod strStart in
      if range_error then Inl (Threw (''std::out_of_range: stoul failed: '' @ str @ '' is outside of range of int''))
      else if strEnd = strStart then Inl (Threw (''std::invalid_argument: stoul failed: '' @ str @ '' is not an integer''))
      else Inr (result, length strStart - length strEnd))"

section \<open>Integers from sysctl\<close>

text \<open>The bytes of an integer, the least significant one first.\<close>

fun int_bytes :: "nat \<Rightarrow> int \<Rightarrow> 8 word list" where
  "int_bytes 0 n = []"
| "int_bytes (Suc k) n = word_of_int (n mod 256) # int_bytes k (n div 256)"

lemma length_int_bytes [simp]: "length (int_bytes k n) = k"
  by (induction k arbitrary: n) simp_all

lemma le_value_int_bytes: "le_value (int_bytes k n) = n mod 256 ^ k"
proof (induction k arbitrary: n)
  case (Suc k)
  have "uint (word_of_int (n mod 256) :: 8 word) = n mod 256" by (simp add: uint_word_of_int)
  then show ?case using Suc zmod_zmult2_eq[of "256 ^ k" n 256] by (simp add: add.commute)
qed simp

lemma sint_int_bytes:
  "in_i32 n \<Longrightarrow> sint (word_of_int (n mod 256 ^ 4) :: 32 word) = n"
  "in_i64 n \<Longrightarrow> sint (word_of_int (n mod 256 ^ 8) :: 64 word) = n"
proof -
  have "(word_of_int (n mod 256 ^ 4) :: 32 word) = word_of_int n" "(word_of_int (n mod 256 ^ 8) :: 64 word) = word_of_int n"
    by (simp_all add: word_of_int_eq_iff take_bit_eq_mod)
  then show "in_i32 n \<Longrightarrow> sint (word_of_int (n mod 256 ^ 4) :: 32 word) = n"
    "in_i64 n \<Longrightarrow> sint (word_of_int (n mod 256 ^ 8) :: 64 word) = n"
    by (simp_all add: sint_sbintrunc' signed_take_bit_int_eq_self int_width_defs)
qed

text \<open>A 32-bit integer of the kernel is read as it is, and so is a 64-bit one where 64 bits are asked for.\<close>

lemma GetSysctl_int_exact:
  assumes "sc_size env name = Some k" "sc_bytes env name = Some (int_bytes 4 n)" "in_i32 n"
  shows "GetSysctl_int env name = Inr (True, n)"
  using assms sint_int_bytes(1)[OF assms(3)]
  by (simp add: GetSysctl_int_def GetSysctlImp_def GetAsInteger_def int32_at_def Let_def le_value_int_bytes
      ValueUnion_new_def) (simp add: sint_sbintrunc' signed_take_bit_int_eq_self int_width_defs)

lemma GetSysctl_u64_exact:
  assumes "sc_size env name = Some k" "sc_bytes env name = Some (int_bytes 8 n)" "0 \<le> n" "n < 2 ^ 64"
  shows "GetSysctl_u64 env name = Inr (True, n)"
proof -
  have "sint (word_of_int n :: 64 word) mod 2 ^ 64 = n"
    using assms(3,4) take_bit_signed_take_bit[of 64 63 n] by (simp add: sint_sbintrunc' take_bit_eq_mod)
  then show ?thesis
    using assms(1,2) by (simp add: GetSysctl_u64_def GetSysctlImp_def GetAsInteger_def Let_def le_value_int_bytes ValueUnion_new_def)
qed

section \<open>The caches of QNX\<close>

text \<open>An entry of an unknown kind hides the entries after it, because the loop does not move past it.\<close>

lemma qnx_loop_stuck: "cache_kind (ce_flags (entries ! pos)) = None \<Longrightarrow> qnx_loop k entries pos res = res"
  by (induction k) simp_all

lemma qnx_loop_prefix:
  assumes "pos + k = length entries"
  shows "qnx_loop k entries pos res = res @ map (\<lambda>c. cache_of_entry c (the (cache_kind (ce_flags c))))
    (takeWhile (\<lambda>c. cache_kind (ce_flags c) \<noteq> None) (drop pos entries))"
  using assms
proof (induction k arbitrary: pos res)
  case (Suc k)
  have drop: "drop pos entries = entries ! pos # drop (Suc pos) entries" using Suc.prems by (simp add: Cons_nth_drop_Suc)
  show ?case
  proof (cases "cache_kind (ce_flags (entries ! pos))")
    case None
    then show ?thesis by (simp add: drop qnx_loop_stuck)
  next
    case (Some kind)
    then show ?thesis using Suc by (simp add: drop)
  qed
qed simp

lemma GetCacheSizesQNX_prefix:
  "GetCacheSizesQNX entries = map (\<lambda>c. cache_of_entry c (the (cache_kind (ce_flags c))))
     (takeWhile (\<lambda>c. cache_kind (ce_flags c) \<noteq> None) entries)"
  using qnx_loop_prefix[of 0 "length entries" entries "[]"] by (simp add: GetCacheSizesQNX_def)

section \<open>The Android conversions agree with the standard ones\<close>

lemma stoi_show_int:
  assumes "in_i32 n"
  shows "stoi (show_int n) = Inr (n, length (show_int n))"
proof -
  have "in_i64 n" using assms by (simp add: int_width_defs)
  from strtol_show_int[OF this, of "[]"] have "strtol (show_int n) = (n, [], False)" by simp
  moreover have "c_str (show_int n) = show_int n"
    using show_nat_digits[of "nat n"] show_nat_digits[of "nat (- n)"]
    by (intro c_str_plain) (auto simp: show_int_def is_digit_def)
  moreover have "show_int n \<noteq> []" by (auto simp: show_int_def)
  ultimately show ?thesis using assms by (simp add: stoi_def)
qed

text \<open>\<open>stod\<close> throws in the same cases and gives the same value.\<close>

lemma stod_android_value:
  assumes "CHR 0x00 \<notin> set str"
  shows "(\<exists>pos. stod_android str = Inr (v, pos)) \<longleftrightarrow> SystemMonitor.stod str = Inr v"
  using c_str_plain[OF assms] by (simp add: stod_android_def stod_def Let_def split: prod.split)

text \<open>The masks of CPUs: \<open>0x\<close> and hexadecimal digits.\<close>

lemma stoul_hex:
  assumes "hex_text s"
  shows "stoul (''0x'' @ s) 16 = Inr (int (hex_number s), length s + 2)"
proof -
  have s: "s \<noteq> []" "\<forall>c \<in> set s. hex_value c \<noteq> None" using assms by (auto simp: hex_text_def)
  have zero: "hex_value CHR 0x00 = None" by code_simp
  have str: "c_str (''0x'' @ s) = ''0x'' @ s" using s(2) zero by (intro c_str_plain) auto
  have "dropWhile is_space (''0x'' @ s) = ''0x'' @ s" "split_sign (''0x'' @ s) = (False, ''0x'' @ s)"
    "starts_with (lower (''0x'' @ s)) ''0x''" "hex_value ((''0x'' @ s) ! 2) \<noteq> None"
    using s by (simp_all add: is_space_def split_sign_def lower_def to_lower_def is_upper_def starts_with_def hd_conv_nth neq_Nil_conv)
  then have "strtoul 16 (''0x'' @ s) = (int (hex_number s), [], False)"
    using s read_base_hex[OF s(2), of 0 0] hex_number_bound[OF assms] by (simp add: strtoul_def hex_number_def)
  then show ?thesis unfolding stoul_def str by simp
qed

end
