(* ===== verification/CycleClock.thy ===== *)
theory CycleClock
  imports Doubles SysInfo "HOL-Library.Word"
begin

text \<open>
  The cycle counter: src/src/cycleclock.h.

  Which counter is compiled is decided by the macros the compiler and internal_macros.h define, a parameter
  (a macro may have a value).  What an instruction or a system call reads is a parameter too; how the readings
  are put together into an \<open>int64_t\<close> is the code's.  The counters of 32-bit PowerPC and RISC-V are read in
  two halves, and the reading is proved to lie between the values of the counter before and after.
\<close>

unbundle bit_operations_syntax

section \<open>Which counter is compiled\<close>

datatype counter =
    MachTime | EmscriptenNow | RdtscPair | RdtscHalves | TimeBase64 | TimeBase32 | SparcTick | Ia64Itc
  | VirtualTimer | RdtscIntrinsic | Monotonic | ArmCycles bool | TimeOfDay | StoreClock | RdTime32 | RdTime64
  | HexagonCycles

definition defd :: "(string \<Rightarrow> int option) \<Rightarrow> string \<Rightarrow> bool" where
  "defd macros m \<longleftrightarrow> macros m \<noteq> None"

text \<open>In a condition of the preprocessor a macro that is not defined is 0.\<close>

definition macro_value :: "(string \<Rightarrow> int option) \<Rightarrow> string \<Rightarrow> int" where
  "macro_value macros m = (case macros m of Some v \<Rightarrow> v | None \<Rightarrow> 0)"

text \<open>The chain of conditions; \<open>None\<close> is \<open>#error\<close>.\<close>

definition select_counter :: "(string \<Rightarrow> int option) \<Rightarrow> counter option" where
  "select_counter macros =
     (let d = defd macros in
      if d ''BENCHMARK_OS_MACOSX'' then Some MachTime
      else if d ''BENCHMARK_OS_EMSCRIPTEN'' then Some EmscriptenNow
      else if d ''__i386__'' then Some RdtscPair
      else if (d ''__x86_64__'' \<or> d ''__amd64__'') \<and> \<not> d ''__arm64ec__'' then Some RdtscHalves
      else if d ''__powerpc__'' \<or> d ''__ppc__'' then
        Some (if d ''__powerpc64__'' \<or> d ''__ppc64__'' then TimeBase64 else TimeBase32)
      else if d ''__sparc__'' then Some SparcTick
      else if d ''__ia64__'' then Some Ia64Itc
      else if d ''COMPILER_MSVC'' \<and> d ''_M_IX86'' then Some RdtscPair
      else if d ''COMPILER_MSVC'' \<and> (d ''_M_ARM64'' \<or> d ''_M_ARM64EC'') then Some VirtualTimer
      else if d ''COMPILER_MSVC'' then Some RdtscIntrinsic
      else if d ''BENCHMARK_OS_NACL'' then Some Monotonic
      else if d ''__aarch64__'' \<or> d ''__arm64ec__'' then Some VirtualTimer
      else if d ''__ARM_ARCH'' then Some (ArmCycles (6 \<le> macro_value macros ''__ARM_ARCH''))
      else if d ''__mips__'' \<or> d ''__m68k__'' then Some TimeOfDay
      else if d ''__loongarch__'' \<or> d ''__csky__'' then Some TimeOfDay
      else if d ''__s390__'' then Some StoreClock
      else if d ''__riscv'' then Some (if macro_value macros ''__riscv_xlen'' = 32 then RdTime32 else RdTime64)
      else if d ''__e2k__'' \<or> d ''__elbrus__'' then Some TimeOfDay
      else if d ''__hexagon__'' then Some HexagonCycles
      else if d ''__alpha__'' then Some TimeOfDay
      else if d ''__hppa__'' \<or> d ''__linux__'' then Some Monotonic
      else None)"

section \<open>What the hardware and the system give\<close>

text \<open>
  \<open>rdtsc\<close> leaves the two halves of the time stamp in EAX and EDX.  The three reads of a split counter are its
  upper half, its lower half and its upper half again.  A counter of 64 bits is read at once.
\<close>

record counter_env =
  ce_mach_absolute_time :: "64 word"
  ce_emscripten_now :: double
  ce_eax :: "32 word"
  ce_edx :: "32 word"
  ce_register :: "64 word"
  ce_upper0 :: "32 word"
  ce_lower :: "32 word"
  ce_upper1 :: "32 word"
  ce_pmuseren :: "32 word"
  ce_pmcntenset :: "32 word"
  ce_pmccntr :: "32 word"
  ce_gettimeofday :: "int \<times> int"
  ce_clock_gettime :: "(int \<times> int) option"

section \<open>The reading\<close>

text \<open>The conversion of an unsigned value to \<open>int64_t\<close> keeps the bits.\<close>

definition as_int64 :: "64 word \<Rightarrow> int" where
  "as_int64 w = sint w"

definition rdtsc_pair :: "counter_env \<Rightarrow> int" where
  "rdtsc_pair env = as_int64 (word_cat (ce_edx env) (ce_eax env))"

text \<open>The variables \<open>low\<close> and \<open>high\<close> have 64 bits.\<close>

definition rdtsc_halves :: "counter_env \<Rightarrow> int" where
  "rdtsc_halves env =
     (let low = ucast (ce_eax env) :: 64 word; high = ucast (ce_edx env) :: 64 word
      in as_int64 (push_bit 32 high OR low))"

text \<open>PowerPC: the lower half is masked with \<open>-(tbu0 == tbu1)\<close>, all ones or zero.\<close>

definition time_base32 :: "counter_env \<Rightarrow> int" where
  "time_base32 env =
     (let tbl = ce_lower env AND - (if ce_upper0 env = ce_upper1 env then 1 else 0)
      in as_int64 (push_bit 32 (ucast (ce_upper1 env)) OR ucast tbl))"

text \<open>RISC-V: the last four instructions of the assembly.\<close>

definition rdtime32 :: "counter_env \<Rightarrow> int" where
  "rdtime32 env =
     (let hi0 = ce_upper0 env - ce_upper1 env;
          hi0 = (if hi0 = 0 then 1 else 0);
          hi0 = 0 - hi0;
          lo = ce_lower env AND hi0
      in as_int64 (push_bit 32 (ucast (ce_upper1 env)) OR ucast lo))"

definition time_of_day :: "counter_env \<Rightarrow> int res" where
  "time_of_day env =
     (case ce_gettimeofday env of (tv_sec, tv_usec) \<Rightarrow>
        rbind (chk_int in_i64 (tv_sec * 1000000)) (\<lambda>us. chk_int in_i64 (us + tv_usec)))"

text \<open>The initial \<open>timespec\<close> is zero, and stays so when the call fails.\<close>

definition monotonic_clock :: "counter_env \<Rightarrow> int res" where
  "monotonic_clock env =
     (case (case ce_clock_gettime env of Some ts \<Rightarrow> ts | None \<Rightarrow> (0, 0)) of (tv_sec, tv_nsec) \<Rightarrow>
        rbind (chk_int in_i64 (tv_sec * 1000000000)) (\<lambda>ns. chk_int in_i64 (ns + tv_nsec)))"

text \<open>From version 6 on, the cycle counter if the user may read it and it counts, every 64th cycle.\<close>

definition arm_cycles :: "bool \<Rightarrow> counter_env \<Rightarrow> int res" where
  "arm_cycles arch6 env =
     (if arch6 \<and> ce_pmuseren env AND 1 \<noteq> 0 \<and> ce_pmcntenset env AND 0x80000000 \<noteq> 0
      then chk_int in_i64 (uint (ce_pmccntr env) * 64) else time_of_day env)"

fun Now :: "counter \<Rightarrow> counter_env \<Rightarrow> int res" where
  "Now MachTime env = Inr (as_int64 (ce_mach_absolute_time env))"
| "Now EmscriptenNow env = int_of_double (ce_emscripten_now env * Fin 1000000)"
| "Now RdtscPair env = Inr (rdtsc_pair env)"
| "Now RdtscHalves env = Inr (rdtsc_halves env)"
| "Now TimeBase32 env = Inr (time_base32 env)"
| "Now RdTime32 env = Inr (rdtime32 env)"
| "Now (ArmCycles arch6) env = arm_cycles arch6 env"
| "Now TimeOfDay env = time_of_day env"
| "Now Monotonic env = monotonic_clock env"
| "Now _ env = Inr (as_int64 (ce_register env))"

section \<open>A counter is always compiled on Linux, and the two ways to read the time stamp agree\<close>

lemma select_counter_linux: "defd macros ''__linux__'' \<Longrightarrow> select_counter macros \<noteq> None"
  by (simp add: select_counter_def Let_def)

lemma join_halves: "push_bit 32 (ucast (hi :: 32 word)) OR ucast (lo :: 32 word) = (word_cat hi lo :: 64 word)"
  by (simp add: word_cat_eq_push_bit_or)

lemma rdtsc_halves_pair: "rdtsc_halves env = rdtsc_pair env"
  by (simp add: rdtsc_halves_def rdtsc_pair_def join_halves Let_def)

text \<open>With a counter below \<open>2 ^ 63\<close> the two halves are the value.\<close>

lemma as_int64_join:
  fixes hi lo :: "32 word"
  assumes "uint hi < 2 ^ 31"
  shows "as_int64 (word_cat hi lo) = uint hi * 2 ^ 32 + uint lo"
proof -
  have lo: "0 \<le> uint lo" "uint lo < 2 ^ 32" and hi: "0 \<le> uint hi" using uint_bounded[of lo] by simp_all
  have "(word_cat hi lo :: 64 word) = word_of_int (uint lo + uint hi * 2 ^ 32)"
    using lo by (simp only: word_cat_eq' concat_bit_eq push_bit_eq_mult take_bit_eq_mod) (simp add: mod_pos_pos_trivial)
  then have "as_int64 (word_cat hi lo) = signed_take_bit 63 (uint lo + uint hi * 2 ^ 32)"
    by (simp only: as_int64_def sint_sbintrunc') simp
  also have "\<dots> = uint hi * 2 ^ 32 + uint lo"
  proof -
    have "uint hi * 2 ^ 32 \<le> (2 ^ 31 - 1) * 2 ^ 32" using assms by (intro mult_right_mono) simp_all
    then have "uint lo + uint hi * 2 ^ 32 < 2 ^ 63" using lo by simp
    moreover have "- (2 ^ 63) \<le> uint lo + uint hi * 2 ^ 32" using lo(1) hi by (simp add: order_trans[of _ 0])
    ultimately show ?thesis by (subst signed_take_bit_int_eq_self) simp_all
  qed
  finally show ?thesis .
qed

section \<open>Counters read in two halves\<close>

lemma rdtime32_time_base32: "rdtime32 env = time_base32 env"
  by (simp add: rdtime32_def time_base32_def Let_def)

lemma time_base32_eq:
  assumes "uint (ce_upper1 env) < 2 ^ 31"
  shows "time_base32 env =
    uint (ce_upper1 env) * 2 ^ 32 + (if ce_upper0 env = ce_upper1 env then uint (ce_lower env) else 0)"
  using as_int64_join[OF assms] by (simp add: time_base32_def join_halves Let_def)

text \<open>The three reads of a counter that is \<open>c0\<close>, \<open>c1\<close> and \<open>c2\<close> at the time of each.\<close>

definition split_reads :: "int \<Rightarrow> int \<Rightarrow> int \<Rightarrow> counter_env \<Rightarrow> bool" where
  "split_reads c0 c1 c2 env \<longleftrightarrow>
     ce_upper0 env = word_of_int (c0 div 2 ^ 32) \<and> ce_lower env = word_of_int c1 \<and>
     ce_upper1 env = word_of_int (c2 div 2 ^ 32)"

lemma upper_half:
  assumes "0 \<le> c" "c < 2 ^ 63"
  shows "uint (word_of_int (c div 2 ^ 32) :: 32 word) = c div 2 ^ 32" "c div 2 ^ 32 < 2 ^ 31"
proof -
  have "c div 2 ^ 32 < 2 ^ 31" using assms by simp
  then show "c div 2 ^ 32 < 2 ^ 31" "uint (word_of_int (c div 2 ^ 32) :: 32 word) = c div 2 ^ 32"
    using assms by (simp_all add: uint_word_of_int pos_imp_zdiv_nonneg_iff)
qed

lemma split_reading:
  assumes "0 \<le> c0" "c0 \<le> c1" "c1 \<le> c2" "c2 < 2 ^ 63" "split_reads c0 c1 c2 env"
  shows "c0 \<le> time_base32 env \<and> time_base32 env \<le> c2 \<and>
    (c0 div 2 ^ 32 = c2 div 2 ^ 32 \<longrightarrow> time_base32 env = c1)"
proof -
  have le: "c0 div 2 ^ 32 \<le> c1 div 2 ^ 32" "c1 div 2 ^ 32 \<le> c2 div 2 ^ 32"
    using assms by (simp_all add: zdiv_mono1)
  have up: "uint (ce_upper0 env) = c0 div 2 ^ 32" "uint (ce_upper1 env) = c2 div 2 ^ 32" "c2 div 2 ^ 32 < 2 ^ 31"
    using assms upper_half[of c0] upper_half[of c2] by (simp_all add: split_reads_def)
  have lo: "uint (ce_lower env) = c1 mod 2 ^ 32" using assms by (simp add: split_reads_def uint_word_of_int)
  have same: "ce_upper0 env = ce_upper1 env \<longleftrightarrow> c0 div 2 ^ 32 = c2 div 2 ^ 32"
    by (simp add: word_uint_eq_iff up)
  have t: "time_base32 env = c2 div 2 ^ 32 * 2 ^ 32 + (if c0 div 2 ^ 32 = c2 div 2 ^ 32 then c1 mod 2 ^ 32 else 0)"
    using time_base32_eq[of env] up lo same by simp
  show ?thesis
  proof (cases "c0 div 2 ^ 32 = c2 div 2 ^ 32")
    case True
    then have "c1 div 2 ^ 32 = c2 div 2 ^ 32" using le by linarith
    then have "time_base32 env = c1" using t True div_mult_mod_eq[of c1 "2 ^ 32"] by simp
    then show ?thesis using assms by simp
  next
    case False
    then have "c0 div 2 ^ 32 + 1 \<le> c2 div 2 ^ 32" using le by linarith
    moreover have "c0 < (c0 div 2 ^ 32 + 1) * 2 ^ 32" "c2 div 2 ^ 32 * 2 ^ 32 \<le> c2" by simp_all
    moreover have "(c0 div 2 ^ 32 + 1) * 2 ^ 32 \<le> c2 div 2 ^ 32 * 2 ^ 32"
      by (rule mult_right_mono) (use calculation(1) in simp_all)
    ultimately have "c0 < c2 div 2 ^ 32 * 2 ^ 32" by (meson order_less_le_trans)
    then show ?thesis using t False \<open>c2 div 2 ^ 32 * 2 ^ 32 \<le> c2\<close> by simp
  qed
qed

text \<open>C31: A split counter is read soundly although its halves are read one after the other: on 32-bit PowerPC
  and on 32-bit RISC-V the result is between the value of the counter at the first read and its value at the
  last one, even when the lower half wraps between them, and it is the value at the read of the lower half
  unless the upper half changed.\<close>

theorem split_counter_sound:
  assumes "0 \<le> c0" "c0 \<le> c1" "c1 \<le> c2" "c2 < 2 ^ 63" "split_reads c0 c1 c2 env"
    and "counter = TimeBase32 \<or> counter = RdTime32"
  shows "\<exists>t. Now counter env = Inr t \<and> c0 \<le> t \<and> t \<le> c2 \<and> (c0 div 2 ^ 32 = c2 div 2 ^ 32 \<longrightarrow> t = c1)"
  using split_reading[OF assms(1-5)] assms(6) by (auto simp: rdtime32_time_base32)

section \<open>Every reading is an \<open>int64_t\<close>\<close>

lemma as_int64_in [simp]: "in_i64 (as_int64 w)"
  using sint_range_size[of w] by (simp add: as_int64_def int_width_defs word_size)

lemma Now_in_i64: "Now c env = Inr t \<Longrightarrow> in_i64 t"
  by (induction c env rule: Now.induct)
    (auto simp: rdtsc_pair_def rdtsc_halves_def time_base32_def rdtime32_def arm_cycles_def time_of_day_def
      monotonic_clock_def int_of_double_def rbind_eq_Inr chk_int_eq_Inr Let_def split: if_splits prod.splits)

text \<open>A clock that fails reads 0; the fallbacks count nanoseconds and microseconds.\<close>

lemma monotonic_clock_eq:
  "monotonic_clock env = (case ce_clock_gettime env of None \<Rightarrow> Inr 0 | Some (s, ns) \<Rightarrow>
     rbind (chk_int in_i64 (s * 1000000000)) (\<lambda>m. chk_int in_i64 (m + ns)))"
  by (simp add: monotonic_clock_def int_width_defs split: option.split)

lemma time_of_day_exact:
  assumes "ce_gettimeofday env = (s, us)" "0 \<le> s" "s < 2 ^ 40" "0 \<le> us" "us < 1000000"
  shows "Now TimeOfDay env = Inr (s * 1000000 + us)"
  using assms by (simp add: time_of_day_def int_width_defs)

lemma arm_cycles_counter:
  assumes "bit (ce_pmuseren env) 0" "bit (ce_pmcntenset env) 31"
  shows "Now (ArmCycles True) env = Inr (uint (ce_pmccntr env) * 64)"
proof -
  have "ce_pmuseren env AND 1 \<noteq> 0" using assms(1) by (simp add: and_one_eq mod_2_eq_odd bit_0)
  moreover have "bit (ce_pmcntenset env AND 0x80000000) 31"
    using assms(2) by (simp add: bit_simps bit_numeral_rec)
  then have "ce_pmcntenset env AND 0x80000000 \<noteq> 0" by (metis bit_0_eq bot_apply bot_bool_def)
  moreover have "in_i64 (uint (ce_pmccntr env) * 64)"
    using uint_bounded[of "ce_pmccntr env", simplified] uint_ge_0[of "ce_pmccntr env"] unfolding int_width_defs by linarith
  ultimately show ?thesis by (simp add: arm_cycles_def)
qed

section \<open>The frequency that is estimated from two readings\<close>

text \<open>
  With a split counter the difference of two readings is not negative, does not overflow, and is at most what
  the counter has advanced between the first read of the first and the last read of the second.
\<close>

lemma estimate_split_counter:
  assumes c: "c = TimeBase32 \<or> c = RdTime32"
    and s: "0 \<le> s0" "s0 \<le> s1" "s1 \<le> s2" "split_reads s0 s1 s2 before"
    and e: "s2 \<le> e0" "e0 \<le> e1" "e1 \<le> e2" "e2 < 2 ^ 63" "split_reads e0 e1 e2 after"
    and env: "Now c before = Inr (sy_start_ticks env)" "Now c after = Inr (sy_end_ticks env)"
    and loop: "busy_loop fuel (sy_clock env) (sy_clock env 0) 1 = Some k" and guard: "reset_affinity env = Inr ()"
  shows "\<exists>ticks err. 0 \<le> ticks \<and> ticks \<le> e2 - s0 \<and>
    estimate_frequency fuel env = Some (Inr (double_of_int ticks / (sy_clock env k - sy_clock env 0), err))"
proof -
  have "s0 \<le> sy_start_ticks env \<and> sy_start_ticks env \<le> s2"
    using split_reading[OF s(1-3) _ s(4)] e env(1) c by (auto simp: rdtime32_time_base32)
  moreover have "e0 \<le> sy_end_ticks env \<and> sy_end_ticks env \<le> e2"
    using split_reading[OF _ e(2-5)] s e env(2) c by (auto simp: rdtime32_time_base32)
  ultimately have "0 \<le> sy_end_ticks env - sy_start_ticks env" "sy_end_ticks env - sy_start_ticks env \<le> e2 - s0"
    "in_i64 (sy_end_ticks env - sy_start_ticks env)" using s e by (auto simp: int_width_defs)
  then show ?thesis using loop guard
    by (intro exI[of _ "sy_end_ticks env - sy_start_ticks env"]) (auto simp: estimate_frequency_def Let_def)
qed

section \<open>Witness\<close>

text \<open>The lower half wraps between the first read and the second.\<close>

definition wrapping_env :: counter_env where
  "wrapping_env = \<lparr>ce_mach_absolute_time = 0, ce_emscripten_now = Fin 0, ce_eax = 0, ce_edx = 0, ce_register = 0,
     ce_upper0 = 0, ce_lower = 5, ce_upper1 = 1, ce_pmuseren = 0, ce_pmcntenset = 0, ce_pmccntr = 0,
     ce_gettimeofday = (0, 0), ce_clock_gettime = None\<rparr>"

theorem split_counter_sound_witness:
  "\<exists>t. Now TimeBase32 wrapping_env = Inr t \<and> 4294967290 \<le> t \<and> t \<le> 4294967310 \<and>
     ((4294967290 :: int) div 2 ^ 32 = 4294967310 div 2 ^ 32 \<longrightarrow> t = 4294967301)"
  by (rule split_counter_sound[of _ 4294967301]) (simp_all add: split_reads_def wrapping_env_def)

end
