(* ===== verification/Regex.thy ===== *)
theory Regex
  imports Instances
begin

text \<open>
  The wrapper around the regular-expression libraries (src/src/re.h), with its two implementations, and the log and
  the failing checks (src/src/log.h, src/src/check.h).  The engines themselves are parameters: \<open>std::regex\<close> as a
  constructor that gives an object or throws, the POSIX functions as an error code or an object.

  \<open>Instances\<close> takes the compiled filter as a function; here the locale \<open>regex_engine\<close> is what it relies on, and both
  implementations provide it.
\<close>

section \<open>Regex\<close>

record 'r Regex =
  re_init :: bool
  re_obj :: "'r option"

definition Regex_new :: "'r Regex" where
  "Regex_new = \<lparr>re_init = False, re_obj = None\<rparr>"

text \<open>\<open>Init\<close> returns whether it succeeded, and leaves the error message.\<close>

definition Init_std ::
  "(string \<Rightarrow> string + 'r) \<Rightarrow> string \<Rightarrow> 'r Regex \<Rightarrow> (bool \<times> 'r Regex \<times> string) res" where
  "Init_std std_regex spec re = Inr (case std_regex spec of
       Inr r \<Rightarrow> (True, re\<lparr>re_obj := Some r, re_init := True\<rparr>, [])
     | Inl what \<Rightarrow> (re_init re, re, what))"

definition Match_std :: "('r \<Rightarrow> string \<Rightarrow> bool) \<Rightarrow> 'r Regex \<Rightarrow> string \<Rightarrow> bool" where
  "Match_std regex_search re str =
     (if \<not> re_init re then False else (case re_obj re of None \<Rightarrow> False | Some r \<Rightarrow> regex_search r str))"

text \<open>
  \<open>regerror\<close> with a null buffer gives the size of its text with the null character at its end; the second call fills a
  buffer of that size, and the message is the buffer without its last character.
\<close>

definition regerror_size :: "(int \<Rightarrow> string) \<Rightarrow> int \<Rightarrow> nat" where
  "regerror_size regerror ec = length (regerror ec) + 1"

definition Init_posix ::
  "(string \<Rightarrow> int + 'r) \<Rightarrow> (int \<Rightarrow> string) \<Rightarrow> string \<Rightarrow> 'r Regex \<Rightarrow> (bool \<times> 'r Regex \<times> string) res" where
  "Init_posix regcomp regerror spec re =
     (case regcomp spec of
        Inl ec \<Rightarrow>
          (let needed = regerror_size regerror ec; errbuf = regerror ec @ [CHR 0x00] in
           rbind (BM_CHECK (needed \<noteq> 0) ''needed != 0'') (\<lambda>_. Inr (False, re, take (needed - 1) errbuf)))
      | Inr r \<Rightarrow> Inr (True, re\<lparr>re_obj := Some r, re_init := True\<rparr>, []))"

definition Match_posix :: "('r \<Rightarrow> string \<Rightarrow> int) \<Rightarrow> 'r Regex \<Rightarrow> string \<Rightarrow> bool" where
  "Match_posix regexec re str =
     (if \<not> re_init re then False else (case re_obj re of None \<Rightarrow> False | Some r \<Rightarrow> regexec r str = 0))"

section \<open>What the registry relies on\<close>

text \<open>How \<open>FindBenchmarks\<close> uses a fresh \<open>Regex\<close>: the error message, or the predicate on names.\<close>

definition compile_with ::
  "(string \<Rightarrow> 'r Regex \<Rightarrow> (bool \<times> 'r Regex \<times> string) res) \<Rightarrow> ('r Regex \<Rightarrow> string \<Rightarrow> bool) \<Rightarrow>
   string \<Rightarrow> string + (string \<Rightarrow> bool)" where
  "compile_with Init Match spec = (case Init spec Regex_new of
       Inr (ok, re, error_msg) \<Rightarrow> if ok then Inr (Match re) else Inl error_msg
     | Inl e \<Rightarrow> Inl [])"

locale regex_engine =
  fixes Init :: "string \<Rightarrow> 'r Regex \<Rightarrow> (bool \<times> 'r Regex \<times> string) res"
    and Match :: "'r Regex \<Rightarrow> string \<Rightarrow> bool"
    and accepts :: "string \<Rightarrow> (string \<Rightarrow> bool) option"
    and message :: "string \<Rightarrow> string"
  assumes compiles: "accepts spec = Some p \<Longrightarrow> \<exists>re. Init spec Regex_new = Inr (True, re, []) \<and> Match re = p"
    and rejects: "accepts spec = None \<Longrightarrow> \<exists>re. Init spec Regex_new = Inr (False, re, message spec)"
    and unusable: "\<not> Match Regex_new str"
begin

lemma compile_accepts: "compile_with Init Match spec = (case accepts spec of Some p \<Rightarrow> Inr p | None \<Rightarrow> Inl (message spec))"
  using compiles[of spec] rejects[of spec] by (auto simp: compile_with_def split: option.split)

text \<open>The registry with this engine: what is found, and the message for a pattern that does not compile.\<close>

lemma FindBenchmarks_accepts:
  assumes "accepts (if neg then tl spec else spec) = Some p" "neg = (spec \<noteq> [] \<and> hd spec = CHR ''-'')"
  shows "\<exists>s. FindBenchmarks u (compile_with Init Match) families spec [] =
      Inr (True, map (map_option with_default_args) families, s) \<and>
    fs_benchmarks s = concat (map (\<lambda>(j, f, sel).
        map (\<lambda>(k, args, t). BenchmarkInstance_new u f (int j) (int k) args t) (enumerate 0 sel))
      (enumerate 0 (matching_families p neg families)))"
  by (rule FindBenchmarks_found[OF _ assms(2)]) (simp add: compile_accepts assms(1))

lemma FindBenchmarks_rejects:
  assumes "accepts (if neg then tl spec else spec) = None" "neg = (spec \<noteq> [] \<and> hd spec = CHR ''-'')"
  shows "\<exists>s. FindBenchmarks u (compile_with Init Match) families spec benchmarks = Inr (False, families, s) \<and>
    fs_benchmarks s = benchmarks \<and>
    fs_err s = ''Could not compile benchmark re: '' @ message (if neg then tl spec else spec) @ ''\<newline>''"
proof -
  have neg: "(case spec of [] \<Rightarrow> False | c # _ \<Rightarrow> c = CHR ''-'') = neg" using assms(2) by (cases spec) auto
  show ?thesis by (simp add: FindBenchmarks_def neg compile_accepts assms(1) Let_def)
qed

end

text \<open>Both implementations are such engines.\<close>

definition accepts_std :: "(string \<Rightarrow> string + 'r) \<Rightarrow> ('r \<Rightarrow> string \<Rightarrow> bool) \<Rightarrow> string \<Rightarrow> (string \<Rightarrow> bool) option" where
  "accepts_std std_regex regex_search spec = (case std_regex spec of Inl _ \<Rightarrow> None | Inr r \<Rightarrow> Some (regex_search r))"

definition accepts_posix :: "(string \<Rightarrow> int + 'r) \<Rightarrow> ('r \<Rightarrow> string \<Rightarrow> int) \<Rightarrow> string \<Rightarrow> (string \<Rightarrow> bool) option" where
  "accepts_posix regcomp regexec spec = (case regcomp spec of Inl _ \<Rightarrow> None | Inr r \<Rightarrow> Some (\<lambda>str. regexec r str = 0))"

interpretation std_engine: regex_engine "Init_std std_regex" "Match_std regex_search" "accepts_std std_regex regex_search"
  "\<lambda>spec. case std_regex spec of Inl what \<Rightarrow> what | Inr _ \<Rightarrow> []"
  by unfold_locales
    (auto simp: Init_std_def Match_std_def accepts_std_def Regex_new_def fun_eq_iff split: sum.splits)

interpretation posix_engine: regex_engine "Init_posix regcomp regerror" "Match_posix regexec" "accepts_posix regcomp regexec"
  "\<lambda>spec. case regcomp spec of Inl ec \<Rightarrow> regerror ec | Inr _ \<Rightarrow> []"
  by unfold_locales
    (auto simp: Init_posix_def Match_posix_def accepts_posix_def Regex_new_def regerror_size_def Let_def fun_eq_iff
      split: sum.splits)

text \<open>The message of a pattern that POSIX rejects is whole: the null character is cut off and nothing else.\<close>

lemma posix_rejects:
  assumes "regcomp spec = Inl ec" "spec = [] \<or> hd spec \<noteq> CHR ''-''"
  shows "\<exists>s. FindBenchmarks u (compile_with (Init_posix regcomp regerror) (Match_posix regexec)) families spec [] =
      Inr (False, families, s) \<and> fs_err s = ''Could not compile benchmark re: '' @ regerror ec @ ''\<newline>''"
  using posix_engine.FindBenchmarks_rejects[where regcomp = regcomp and regerror = regerror and regexec = regexec and
      neg = False and spec = spec and u = u and families = families and benchmarks = "[]"] assms
  by (auto simp: accepts_posix_def)

section \<open>The log\<close>

text \<open>\<open>True\<close> stands for the instance that writes to \<open>std::clog\<close>, \<open>False\<close> for the null instance.\<close>

record log_state =
  ls_log_level :: int
  ls_clog :: string

definition GetLogInstanceForLevel :: "int \<Rightarrow> log_state \<Rightarrow> bool" where
  "GetLogInstanceForLevel level st \<longleftrightarrow> level \<le> ls_log_level st"

definition log_write :: "bool \<Rightarrow> string \<Rightarrow> log_state \<Rightarrow> log_state" where
  "log_write to_log value_text st = (if to_log then st\<lparr>ls_clog := ls_clog st @ value_text\<rparr> else st)"

definition BM_VLOG :: "int \<Rightarrow> string \<Rightarrow> log_state \<Rightarrow> log_state" where
  "BM_VLOG x message_text st =
     log_write (GetLogInstanceForLevel x st) (''-- LOG('' @ show_int x @ ''): '' @ message_text) st"

lemma BM_VLOG_silent: "ls_log_level st < x \<Longrightarrow> BM_VLOG x t st = st"
  by (simp add: BM_VLOG_def GetLogInstanceForLevel_def log_write_def)

text \<open>A failing check writes where it is and what it checked, then the rest of its message, and calls the abort handler.\<close>

definition CheckHandler_message :: "string \<Rightarrow> string \<Rightarrow> string \<Rightarrow> int \<Rightarrow> string" where
  "CheckHandler_message check_text file_name func line =
     file_name @ '':'' @ show_int line @ '': '' @ func @ '': Check `'' @ check_text @ ''' failed. ''"

definition check_failed :: "string \<Rightarrow> string \<Rightarrow> string \<Rightarrow> int \<Rightarrow> string \<Rightarrow> log_state \<Rightarrow> failure \<times> log_state" where
  "check_failed check_text file_name func line rest st =
     (CheckFailed check_text,
      log_write True ''\<newline>'' (log_write True rest (log_write True (CheckHandler_message check_text file_name func line) st)))"

lemma check_failed_message:
  "ls_clog (snd (check_failed check_text file_name func line rest st)) =
   ls_clog st @ CheckHandler_message check_text file_name func line @ rest @ ''\<newline>''"
  by (simp add: check_failed_def log_write_def)

end
