(* ===== verification/Lifecycle.thy ===== *)
theory Lifecycle
  imports Program
begin

text \<open>
  The interface of src/include/benchmark/benchmark.h over the life of a process: the calls a user's \<open>main\<close> makes,
  in any order and any number, on the state that src/src/benchmark.cc and src/src/benchmark_register.cc keep
  between them.  That state has pointers: the custom context that \<open>Shutdown\<close> deletes, the default display
  reporter that the first run deletes, the families that \<open>ClearRegisteredBenchmarks\<close> deletes.  Using a deleted
  object is the error \<open>Undefined\<close>, and the theorems say which sequences of calls are free of it.
\<close>

section \<open>The state of a process\<close>

datatype 'a pointer = Null | Live 'a | Deleted

text \<open>
  The map of the custom context is in the globals; \<open>ps_context_deleted\<close> says that the pointer to it dangles.
  \<open>ps_generation\<close> counts how often the registry has been cleared.  A manager is a number.
\<close>

record process =
  ps_globals :: Globals
  ps_context_deleted :: bool
  ps_default_display :: "reporter pointer"
  ps_families :: BenchmarkFamilies
  ps_generation :: nat
  ps_memory_manager :: "nat option"
  ps_profiler_manager :: "nat option"
  ps_machine :: machine
  ps_sessions :: "session_result list"

definition process_start :: "Globals \<Rightarrow> BenchmarkFamilies \<Rightarrow> machine \<Rightarrow> process" where
  "process_start g families mach = \<lparr>ps_globals = g, ps_context_deleted = False, ps_default_display = Null,
     ps_families = families, ps_generation = 0, ps_memory_manager = None, ps_profiler_manager = None,
     ps_machine = mach, ps_sessions = []\<rparr>"

section \<open>The calls\<close>

text \<open>
  The display reporter of a run: none (a null pointer), the pointer that \<open>CreateDefaultDisplayReporter\<close> returns,
  or a reporter of the user's own.  The filter of a run is \<open>None\<close> in the overloads that take the flag's.  A family
  is named by the generation and the index of its registration, as \<open>RegisterBenchmarkInternal\<close> returns a pointer to it.
\<close>

datatype display_arg = NullDisplay | DefaultDisplay | OwnDisplay reporter

datatype api_call =
    ApiInitialize "string list option"
  | ApiRegisterBenchmark Benchmark
  | ApiConfigure nat nat builder_call
  | ApiClearRegisteredBenchmarks
  | ApiAddCustomContext string string
  | ApiSetBenchmarkFilter string
  | ApiSetDefaultTimeUnit TimeUnit
  | ApiRegisterMemoryManager "nat option"
  | ApiRegisterProfilerManager "nat option"
  | ApiCreateDefaultDisplayReporter
  | ApiRun display_arg "reporter option" "string option"
  | ApiShutdown

definition use_context :: "process \<Rightarrow> 'a res \<Rightarrow> 'a res" where
  "use_context p r = (if ps_context_deleted p then Inl (Undefined ''use of the deleted custom context'') else r)"

definition AddCustomContext_call :: "string \<Rightarrow> string \<Rightarrow> process \<Rightarrow> process res" where
  "AddCustomContext_call key val p = use_context p (Inr (p\<lparr>ps_globals := AddCustomContext key val (ps_globals p)\<rparr>))"

text \<open>\<open>Initialize\<close> adds to the context what the flags say.\<close>

definition Initialize_call :: "string list option \<Rightarrow> process \<Rightarrow> process res" where
  "Initialize_call argv p =
     rbind (Initialize argv (ps_globals p)) (\<lambda>(_, _, g).
       (if fl_dry_run (g_flags g) \<or> fl_context (g_flags g) \<noteq> [] then use_context p (Inr (p\<lparr>ps_globals := g\<rparr>))
        else Inr (p\<lparr>ps_globals := g\<rparr>)))"

text \<open>\<open>delete\<close> of a null pointer does nothing; the pointer itself is not reset.\<close>

definition Shutdown_call :: "process \<Rightarrow> process res" where
  "Shutdown_call p =
     (if g_context (ps_globals p) = None then Inr p else use_context p (Inr (p\<lparr>ps_context_deleted := True\<rparr>)))"

definition RegisterBenchmarkInternal :: "Benchmark \<Rightarrow> process \<Rightarrow> (nat \<times> nat) \<times> process" where
  "RegisterBenchmarkInternal bench p =
     (case AddBenchmark bench (ps_families p) of
        (index, families) \<Rightarrow> ((ps_generation p, index), p\<lparr>ps_families := families\<rparr>))"

text \<open>A configuring call through the pointer.\<close>

definition Configure_call :: "int \<Rightarrow> nat \<Rightarrow> nat \<Rightarrow> builder_call \<Rightarrow> process \<Rightarrow> process res" where
  "Configure_call cpus generation index c p =
     (if generation \<noteq> ps_generation p \<or> length (ps_families p) \<le> index
      then Inl (Undefined ''use of a deleted family'')
      else (case ps_families p ! index of
          None \<Rightarrow> Inl (Undefined ''use of a deleted family'')
        | Some family \<Rightarrow> rbind (call cpus c family) (\<lambda>family'.
            Inr (p\<lparr>ps_families := (ps_families p)[index := Some family']\<rparr>))))"

definition ClearRegisteredBenchmarks :: "process \<Rightarrow> process" where
  "ClearRegisteredBenchmarks p =
     p\<lparr>ps_families := ClearBenchmarks (ps_families p), ps_generation := ps_generation p + 1\<rparr>"

definition RegisterMemoryManager :: "nat option \<Rightarrow> process \<Rightarrow> process" where
  "RegisterMemoryManager manager p = p\<lparr>ps_memory_manager := manager\<rparr>"

definition RegisterProfilerManager :: "nat option \<Rightarrow> process \<Rightarrow> process res" where
  "RegisterProfilerManager manager p =
     rbind (BM_CHECK (manager = None \<or> ps_profiler_manager p = None) ''internal::profiler_manager == nullptr'') (\<lambda>_.
     Inr (p\<lparr>ps_profiler_manager := manager\<rparr>))"

text \<open>The static of \<open>CreateDefaultDisplayReporter\<close> is initialised once, from the flags of that moment.\<close>

definition CreateDefaultDisplayReporter_call :: "bool \<Rightarrow> process \<Rightarrow> process res" where
  "CreateDefaultDisplayReporter_call is_color_terminal p =
     (case ps_default_display p of
        Null \<Rightarrow> rbind (CreateDefaultDisplayReporter is_color_terminal (g_flags (ps_globals p))) (\<lambda>r.
          Inr (p\<lparr>ps_default_display := Live r\<rparr>))
      | _ \<Rightarrow> Inr p)"

section \<open>RunSpecifiedBenchmarks\<close>

text \<open>The reporter a run uses: its first use is \<open>GetOutputStream\<close>.\<close>

definition display_reporter :: "bool \<Rightarrow> display_arg \<Rightarrow> process \<Rightarrow> (reporter \<times> process) res" where
  "display_reporter is_color_terminal d p =
     (case d of
        OwnDisplay r \<Rightarrow> Inr (r, p)
      | _ \<Rightarrow> rbind (CreateDefaultDisplayReporter_call is_color_terminal p) (\<lambda>p1.
          (case ps_default_display p1 of
             Live r \<Rightarrow> Inr (r, p1)
           | _ \<Rightarrow> Inl (Undefined ''use of the deleted display reporter''))))"

text \<open>The reporters of the library accept every context; the managers and the time unit are the process's.\<close>

definition run_env :: "program_env \<Rightarrow> process \<Rightarrow> reporter \<Rightarrow> reporter option \<Rightarrow> session_env" where
  "run_env env p display filed = (pg_session env)\<lparr>
     se_ctx_display := (display \<noteq> CustomReporter \<or> se_ctx_display (pg_session env)),
     se_ctx_file := (filed \<noteq> Some CustomReporter \<or> se_ctx_file (pg_session env)),
     se_harness := (se_harness (pg_session env))\<lparr>
       h_memory_manager := ps_memory_manager p \<noteq> None, h_profiler_manager := ps_profiler_manager p \<noteq> None,
       h_default_time_unit := g_default_time_unit (ps_globals p)\<rparr>\<rparr>"

text \<open>A reporter of the library prints the custom context when it is given the context.\<close>

definition has_context :: "report_call list \<Rightarrow> bool" where
  "has_context calls = list_ex (\<lambda>c. case c of CallContext _ \<Rightarrow> True | _ \<Rightarrow> False) calls"

definition reads_context :: "session_result \<Rightarrow> bool" where
  "reads_context s \<longleftrightarrow>
     sr_display s \<noteq> CustomReporter \<and> has_context (out_display (sr_outputs s)) \<or>
     (case (sr_file s, out_file (sr_outputs s)) of
        (Some r, Some calls) \<Rightarrow> r \<noteq> CustomReporter \<and> has_context calls
      | _ \<Rightarrow> False)"

text \<open>The reporter that \<open>RunSpecifiedBenchmarks\<close> got for a null pointer is deleted when it returns.\<close>

definition Run_call ::
  "nat \<Rightarrow> program_env \<Rightarrow> display_arg \<Rightarrow> reporter option \<Rightarrow> string option \<Rightarrow> process \<Rightarrow> process res option" where
  "Run_call fuel env d filed spec p =
     (case display_reporter (se_is_color_terminal (pg_session env)) d p of
        Inl e \<Rightarrow> Some (Inl e)
      | Inr (display, p1) \<Rightarrow>
          (let fl = g_flags (ps_globals p1) in
           case RunSpecifiedBenchmarks fuel (run_env env p1 display filed) fl (ps_families p1) (Some display) filed
               (case spec of None \<Rightarrow> fl_filter fl | Some s \<Rightarrow> s) (ps_machine p1) of
             None \<Rightarrow> None
           | Some (Inl e) \<Rightarrow> Some (Inl e)
           | Some (Inr s) \<Rightarrow>
               (let p2 = p1\<lparr>ps_families := sr_families s, ps_machine := sr_machine s, ps_sessions := ps_sessions p1 @ [s],
                      ps_default_display := (if d = NullDisplay then Deleted else ps_default_display p1)\<rparr>
                in Some (if reads_context s then use_context p1 (Inr p2) else Inr p2))))"

fun api :: "nat \<Rightarrow> program_env \<Rightarrow> process \<Rightarrow> api_call \<Rightarrow> process res option" where
  "api fuel env p (ApiInitialize argv) = Some (Initialize_call argv p)"
| "api fuel env p (ApiRegisterBenchmark bench) = Some (Inr (snd (RegisterBenchmarkInternal bench p)))"
| "api fuel env p (ApiConfigure generation index c) =
     Some (Configure_call (cpu_num_cpus (cx_cpu_info (pg_context env))) generation index c p)"
| "api fuel env p ApiClearRegisteredBenchmarks = Some (Inr (ClearRegisteredBenchmarks p))"
| "api fuel env p (ApiAddCustomContext key val) = Some (AddCustomContext_call key val p)"
| "api fuel env p (ApiSetBenchmarkFilter val) = Some (Inr (p\<lparr>ps_globals := SetBenchmarkFilter val (ps_globals p)\<rparr>))"
| "api fuel env p (ApiSetDefaultTimeUnit unit) = Some (Inr (p\<lparr>ps_globals := SetDefaultTimeUnit unit (ps_globals p)\<rparr>))"
| "api fuel env p (ApiRegisterMemoryManager m) = Some (Inr (RegisterMemoryManager m p))"
| "api fuel env p (ApiRegisterProfilerManager m) = Some (RegisterProfilerManager m p)"
| "api fuel env p ApiCreateDefaultDisplayReporter =
     Some (CreateDefaultDisplayReporter_call (se_is_color_terminal (pg_session env)) p)"
| "api fuel env p (ApiRun d filed spec) = Run_call fuel env d filed spec p"
| "api fuel env p ApiShutdown = Some (Shutdown_call p)"

text \<open>The program: the calls one after the other.\<close>

definition process_run :: "nat \<Rightarrow> program_env \<Rightarrow> process \<Rightarrow> api_call list \<Rightarrow> process res option" where
  "process_run fuel env = ofold (api fuel env)"

section \<open>Deleted objects stay deleted\<close>

lemma ofold_append_Inr:
  "ofold f s (xs @ ys) = Some (Inr t) \<longleftrightarrow> (\<exists>u. ofold f s xs = Some (Inr u) \<and> ofold f u ys = Some (Inr t))"
  by (induction xs arbitrary: s) (auto split: option.splits sum.splits)

lemma ofold_Cons_Inr:
  "ofold f s (x # xs) = Some (Inr t) \<longleftrightarrow> (\<exists>u. f s x = Some (Inr u) \<and> ofold f u xs = Some (Inr t))"
  by (auto split: option.splits sum.splits)

lemma use_context_Inr [simp]: "use_context p r = Inr x \<longleftrightarrow> \<not> ps_context_deleted p \<and> r = Inr x"
  by (simp add: use_context_def)

lemmas call_defs = Initialize_call_def AddCustomContext_call_def Shutdown_call_def RegisterBenchmarkInternal_def
  Configure_call_def ClearRegisteredBenchmarks_def RegisterMemoryManager_def RegisterProfilerManager_def
  CreateDefaultDisplayReporter_call_def AddBenchmark_def

text \<open>What a run does to the process.\<close>

lemma display_reporter_Inr:
  assumes "display_reporter color d p = Inr (r, p1)"
  shows "p1 = p\<lparr>ps_default_display := ps_default_display p1\<rparr>"
    "d = OwnDisplay r \<and> p1 = p \<or> (\<forall>r'. d \<noteq> OwnDisplay r') \<and> ps_default_display p \<noteq> Deleted \<and> ps_default_display p1 = Live r"
proof -
  have "p1 = p\<lparr>ps_default_display := ps_default_display p1\<rparr> \<and>
    (d = OwnDisplay r \<and> p1 = p \<or> (\<forall>r'. d \<noteq> OwnDisplay r') \<and> ps_default_display p \<noteq> Deleted \<and> ps_default_display p1 = Live r)"
    using assms
    by (cases d; cases "ps_default_display p"; cases "CreateDefaultDisplayReporter color (g_flags (ps_globals p))")
      (auto simp: display_reporter_def CreateDefaultDisplayReporter_call_def)
  then show "p1 = p\<lparr>ps_default_display := ps_default_display p1\<rparr>"
    "d = OwnDisplay r \<and> p1 = p \<or> (\<forall>r'. d \<noteq> OwnDisplay r') \<and> ps_default_display p \<noteq> Deleted \<and> ps_default_display p1 = Live r"
    by blast+
qed

definition finished_run :: "display_arg \<Rightarrow> process \<Rightarrow> process \<Rightarrow> session_result \<Rightarrow> process" where
  "finished_run d p1 p s = p\<lparr>ps_families := sr_families s, ps_machine := sr_machine s, ps_sessions := ps_sessions p @ [s],
     ps_default_display := (if d = NullDisplay then Deleted else ps_default_display p1)\<rparr>"

lemma Run_call_eq:
  assumes "display_reporter (se_is_color_terminal (pg_session env)) d p = Inr (r, p1)"
  shows "Run_call fuel env d filed spec p =
    (case RunSpecifiedBenchmarks fuel (run_env env p r filed) (g_flags (ps_globals p)) (ps_families p) (Some r) filed
         (case spec of None \<Rightarrow> fl_filter (g_flags (ps_globals p)) | Some f \<Rightarrow> f) (ps_machine p) of
       None \<Rightarrow> None
     | Some (Inl e) \<Rightarrow> Some (Inl e)
     | Some (Inr s) \<Rightarrow> Some (if reads_context s then use_context p (Inr (finished_run d p1 p s))
         else Inr (finished_run d p1 p s)))"
proof -
  obtain x where p1: "p1 = p\<lparr>ps_default_display := x\<rparr>" using display_reporter_Inr(1)[OF assms] by metis
  then have same: "ps_globals p1 = ps_globals p" "ps_families p1 = ps_families p" "ps_machine p1 = ps_machine p"
    "ps_sessions p1 = ps_sessions p" "use_context p1 = (use_context p :: process res \<Rightarrow> _)"
    "run_env env p1 r filed = run_env env p r filed"
    by (simp_all add: run_env_def use_context_def fun_eq_iff)
  have fin: "p1\<lparr>ps_families := sr_families s, ps_machine := sr_machine s, ps_sessions := ps_sessions p @ [s],
      ps_default_display := (if d = NullDisplay then Deleted else ps_default_display p1)\<rparr> = finished_run d p1 p s" for s
    by (simp add: finished_run_def p1)
  show ?thesis unfolding Run_call_def assms sum.case prod.case Let_def same fin by (rule refl)
qed

lemma Run_call_Inr:
  assumes "Run_call fuel env d filed spec p = Some (Inr p')"
  obtains r p1 s where "display_reporter (se_is_color_terminal (pg_session env)) d p = Inr (r, p1)"
    "RunSpecifiedBenchmarks fuel (run_env env p r filed) (g_flags (ps_globals p)) (ps_families p) (Some r) filed
       (case spec of None \<Rightarrow> fl_filter (g_flags (ps_globals p)) | Some f \<Rightarrow> f) (ps_machine p) = Some (Inr s)"
    "reads_context s \<longrightarrow> \<not> ps_context_deleted p" "p' = finished_run d p1 p s"
proof -
  obtain r p1 where r: "display_reporter (se_is_color_terminal (pg_session env)) d p = Inr (r, p1)"
    using assms by (auto simp: Run_call_def split: sum.splits)
  let ?run = "RunSpecifiedBenchmarks fuel (run_env env p r filed) (g_flags (ps_globals p)) (ps_families p) (Some r) filed
       (case spec of None \<Rightarrow> fl_filter (g_flags (ps_globals p)) | Some f \<Rightarrow> f) (ps_machine p)"
  obtain s where s: "?run = Some (Inr s)"
    using assms unfolding Run_call_eq[OF r] by (cases ?run) (simp_all split: sum.splits)
  show thesis
    by (rule that[OF r s]) (use assms in \<open>simp_all add: Run_call_eq[OF r] s split: if_splits\<close>)
qed

lemma finished_run_simps [simp]:
  "ps_globals (finished_run d p1 p s) = ps_globals p" "ps_context_deleted (finished_run d p1 p s) = ps_context_deleted p"
  "ps_sessions (finished_run d p1 p s) = ps_sessions p @ [s]" "ps_families (finished_run d p1 p s) = sr_families s"
  "ps_default_display (finished_run d p1 p s) = (if d = NullDisplay then Deleted else ps_default_display p1)"
  by (simp_all add: finished_run_def)

lemma deleted_display_stays:
  assumes "api fuel env p c = Some (Inr p')" "ps_default_display p = Deleted"
  shows "ps_default_display p' = Deleted" "c = ApiRun d filed spec \<Longrightarrow> \<exists>r. d = OwnDisplay r"
proof -
  have "ps_default_display p' = Deleted \<and> (\<forall>d filed spec. c = ApiRun d filed spec \<longrightarrow> (\<exists>r. d = OwnDisplay r))"
  proof (cases c)
    case (ApiRun d filed spec)
    then have "Run_call fuel env d filed spec p = Some (Inr p')" using assms(1) by simp
    then show ?thesis
      using assms(2) ApiRun by (elim Run_call_Inr) (auto dest!: display_reporter_Inr(2))
  qed (use assms in \<open>auto simp: call_defs rbind_eq_Inr split: if_splits option.splits\<close>)
  then show "ps_default_display p' = Deleted" "c = ApiRun d filed spec \<Longrightarrow> \<exists>r. d = OwnDisplay r" by auto
qed

lemma deleted_display_run:
  assumes "process_run fuel env p cs = Some (Inr p')" "ps_default_display p = Deleted" "ApiRun d filed spec \<in> set cs"
  shows "\<exists>r. d = OwnDisplay r"
  using assms unfolding process_run_def
proof (induction cs arbitrary: p)
  case (Cons c cs)
  then obtain u where u: "api fuel env p c = Some (Inr u)" "ofold (api fuel env) u cs = Some (Inr p')"
    unfolding ofold_Cons_Inr by blast
  then show ?case using Cons.IH[OF u(2)] deleted_display_stays[OF u(1) Cons.prems(2)] Cons.prems(3) by auto
qed simp

text \<open>The custom context.\<close>

lemma Initialize_keeps_context:
  assumes "Initialize argv g = Inr (argv', e, g')" "\<not> fl_dry_run (g_flags g')" "fl_context (g_flags g') = []"
  shows "g_context g' = g_context g"
proof -
  have "g_context g2 = g_context g1 \<and> g_flags g2 = g_flags g1" if "SetDefaultTimeUnitFromFlag u g1 = Inr g2" for u g1 g2
    using that by (auto simp: SetDefaultTimeUnitFromFlag_def SetDefaultTimeUnit_def split: if_splits)
  then show ?thesis
    using assms
    by (fastforce simp: Initialize_def ParseCommandLineFlags_def Let_def rbind_eq_Inr add_context_loop AddCustomContext_frame
        split: if_splits prod.splits)
qed

definition dangling :: "process \<Rightarrow> bool" where
  "dangling p \<longleftrightarrow> ps_context_deleted p \<and> g_context (ps_globals p) \<noteq> None"

lemma deleted_context_stays:
  assumes "api fuel env p c = Some (Inr p')" "dangling p"
  shows "dangling p' \<and> c \<noteq> ApiShutdown \<and> (\<forall>k v. c \<noteq> ApiAddCustomContext k v) \<and>
    (\<exists>new. ps_sessions p' = ps_sessions p @ new \<and> (\<forall>s \<in> set new. \<not> reads_context s))"
proof (cases c)
  case (ApiInitialize argv)
  then obtain argv' e g where "Initialize argv (ps_globals p) = Inr (argv', e, g)" "p' = p\<lparr>ps_globals := g\<rparr>"
    "\<not> fl_dry_run (g_flags g) \<and> fl_context (g_flags g) = []"
    using assms by (auto simp: dangling_def Initialize_call_def rbind_eq_Inr split: if_splits)
  then show ?thesis using Initialize_keeps_context assms(2) ApiInitialize by (auto simp: dangling_def)
next
  case (ApiRun d filed spec)
  then have "Run_call fuel env d filed spec p = Some (Inr p')" using assms(1) by simp
  then show ?thesis using assms(2) ApiRun by (elim Run_call_Inr) (auto simp: dangling_def)
qed (use assms in \<open>auto simp: dangling_def call_defs rbind_eq_Inr SetBenchmarkFilter_def SetDefaultTimeUnit_def
    split: if_splits option.splits pointer.splits\<close>)

lemma deleted_context_run:
  assumes "process_run fuel env p cs = Some (Inr p')" "dangling p"
  shows "ApiShutdown \<notin> set cs \<and> (\<forall>k v. ApiAddCustomContext k v \<notin> set cs) \<and>
    (\<exists>new. ps_sessions p' = ps_sessions p @ new \<and> (\<forall>s \<in> set new. \<not> reads_context s))"
  using assms unfolding process_run_def
proof (induction cs arbitrary: p)
  case (Cons c cs)
  then obtain u where u: "api fuel env p c = Some (Inr u)" "ofold (api fuel env) u cs = Some (Inr p')"
    unfolding ofold_Cons_Inr by blast
  note step = deleted_context_stays[OF u(1) Cons.prems(2)]
  then show ?case using Cons.IH[OF u(2)] by (auto intro!: exI[of _ "_ @ _"])
qed simp

section \<open>What a program may call\<close>

text \<open>The pointer that a registration returns configures this family.\<close>

lemma registered_family:
  assumes "RegisterBenchmarkInternal bench p = ((generation, index), p1)"
  shows "Configure_call cpus generation index c p1 =
    rbind (call cpus c bench) (\<lambda>bench'. Inr (p1\<lparr>ps_families := ps_families p @ [Some bench']\<rparr>))"
proof -
  have p: "p1 = p\<lparr>ps_families := ps_families p @ [Some bench]\<rparr>" "generation = ps_generation p" "index = length (ps_families p)"
    using assms by (simp_all add: RegisterBenchmarkInternal_def AddBenchmark_def)
  show ?thesis unfolding p by (simp add: Configure_call_def)
qed

lemma process_run_append:
  assumes "process_run fuel env p cs = Some (Inr q)"
  shows "process_run fuel env p (cs @ ds) = process_run fuel env q ds"
proof -
  have "ofold f s (xs @ ys) = ofold f u ys" if "ofold f s xs = Some (Inr u)" for f :: "process \<Rightarrow> api_call \<Rightarrow> process res option" and s u xs ys
    using that by (induction xs arbitrary: s) (auto split: option.splits sum.splits)
  then show ?thesis using assms by (simp add: process_run_def)
qed

lemma deleted_display_persists:
  assumes "process_run fuel env p cs = Some (Inr p')" "ps_default_display p = Deleted"
  shows "ps_default_display p' = Deleted"
  using assms unfolding process_run_def
proof (induction cs arbitrary: p)
  case (Cons c cs)
  then obtain u where u: "api fuel env p c = Some (Inr u)" "ofold (api fuel env) u cs = Some (Inr p')"
    unfolding ofold_Cons_Inr by blast
  then show ?case using Cons.IH[OF u(2)] deleted_display_stays(1)[OF u(1) Cons.prems(2)] by simp
qed simp

text \<open>C38: The default display reporter serves one run only.  After a run that was given no display reporter, whatever
  the program calls next (as long as those calls succeed), another run without a display reporter, or with the
  pointer that \<open>CreateDefaultDisplayReporter\<close> returns, uses the reporter that the first run has deleted.\<close>

theorem second_default_run:
  assumes "process_run fuel env p (cs @ ApiRun NullDisplay filed spec # ds) = Some (Inr q)"
    and "d = NullDisplay \<or> d = DefaultDisplay"
  shows "process_run fuel env p (cs @ ApiRun NullDisplay filed spec # ds @ [ApiRun d filed' spec']) =
    Some (Inl (Undefined ''use of the deleted display reporter''))"
proof -
  obtain p1 p2 where p: "process_run fuel env p cs = Some (Inr p1)" "Run_call fuel env NullDisplay filed spec p1 = Some (Inr p2)"
    "process_run fuel env p2 ds = Some (Inr q)"
    using assms(1) by (auto simp: process_run_def ofold_append_Inr ofold_Cons_Inr simp del: ofold.simps)
  have "ps_default_display p2 = Deleted" using p(2) by (elim Run_call_Inr) simp
  then have "ps_default_display q = Deleted" by (rule deleted_display_persists[OF p(3)])
  then have "Run_call fuel env d filed' spec' q = Some (Inl (Undefined ''use of the deleted display reporter''))"
    using assms(2) by (auto simp: Run_call_def display_reporter_def CreateDefaultDisplayReporter_call_def)
  then have "process_run fuel env q [ApiRun d filed' spec'] = Some (Inl (Undefined ''use of the deleted display reporter''))"
    by (simp add: process_run_def)
  then show ?thesis using process_run_append[OF assms(1), of "[ApiRun d filed' spec']"] by simp
qed

text \<open>After \<open>Shutdown\<close> has deleted a custom context, a program that goes on without undefined behaviour calls
  neither \<open>Shutdown\<close> nor \<open>AddCustomContext\<close>, and no session it still runs gives a context to a reporter of
  the library.\<close>

theorem nothing_after_shutdown:
  assumes "process_run fuel env p cs = Some (Inr p1)" "g_context (ps_globals p1) \<noteq> None"
    and "process_run fuel env p (cs @ ApiShutdown # ds) = Some (Inr q)"
  shows "ApiShutdown \<notin> set ds \<and> (\<forall>k v. ApiAddCustomContext k v \<notin> set ds) \<and>
    (\<exists>sessions. ps_sessions q = ps_sessions p1 @ sessions \<and> (\<forall>s \<in> set sessions. \<not> reads_context s))"
proof -
  have "process_run fuel env p1 (ApiShutdown # ds) = Some (Inr q)" using process_run_append[OF assms(1)] assms(3) by simp
  then obtain p2 where p2: "Shutdown_call p1 = Inr p2" "process_run fuel env p2 ds = Some (Inr q)"
    by (auto simp: process_run_def ofold_Cons_Inr simp del: ofold.simps)
  then have "dangling p2" "ps_sessions p2 = ps_sessions p1"
    using assms(2) by (auto simp: Shutdown_call_def dangling_def split: if_splits)
  then show ?thesis using deleted_context_run[OF p2(2)] by simp
qed

section \<open>\<open>BENCHMARK_MAIN\<close> is such a program\<close>

lemma RunSpecifiedBenchmarks_default:
  assumes "CreateDefaultDisplayReporter (se_is_color_terminal env) fl = Inr r"
  shows "RunSpecifiedBenchmarks fuel env fl families None filed spec mach =
    RunSpecifiedBenchmarks fuel env fl families (Some r) filed spec mach"
  using assms by (simp add: RunSpecifiedBenchmarks_def)

lemma run_env_main:
  assumes "r \<noteq> CustomReporter" "ps_memory_manager p = None" "ps_profiler_manager p = None"
    and "\<not> h_memory_manager (se_harness (pg_session env))" "\<not> h_profiler_manager (se_harness (pg_session env))"
  shows "run_env env p r None = main_session_env env (ps_globals p)"
proof -
  have "(se_harness (pg_session env))\<lparr>h_memory_manager := False, h_profiler_manager := False, h_default_time_unit := u\<rparr> =
      (se_harness (pg_session env))\<lparr>h_default_time_unit := u\<rparr>" for u
    using assms(4,5) by (cases "se_harness (pg_session env)") simp
  then show ?thesis using assms(1-3) by (simp add: run_env_def main_session_env_def)
qed

text \<open>C34: The main function of a benchmark program is three calls: \<open>Initialize\<close>, a run without reporters, \<open>Shutdown\<close>.
  When the modelled \<open>BENCHMARK_MAIN\<close> gets to a session, these calls succeed in a fresh process in which no
  manager is registered, and they run exactly this session.\<close>

theorem BENCHMARK_MAIN_calls:
  assumes "BENCHMARK_MAIN fuel env (Some argv) g0 families mach = Some (Inr result)" "mr_session result = Some s"
    and "\<not> h_memory_manager (se_harness (pg_session env))" "\<not> h_profiler_manager (se_harness (pg_session env))"
  shows "\<exists>p. process_run fuel env (process_start g0 families mach)
      [ApiInitialize (Some argv), ApiRun NullDisplay None None, ApiShutdown] = Some (Inr p) \<and>
    ps_sessions p = [s] \<and> ps_families p = sr_families s \<and> ps_machine p = sr_machine s"
proof -
  obtain argv' err g where init: "Initialize (Some argv) g0 = Inr (argv', err, g)"
    using assms(1) by (cases "Initialize (Some argv) g0") (auto simp: BENCHMARK_MAIN_def)
  have run: "RunSpecifiedBenchmarks fuel (main_session_env env g) (g_flags g) families None None (fl_filter (g_flags g)) mach =
      Some (Inr s)"
    using assms(1,2) init by (auto simp: BENCHMARK_MAIN_def rbind_eq_Inr split: option.splits sum.splits prod.splits if_splits)
  have color: "se_is_color_terminal (main_session_env env g) = se_is_color_terminal (pg_session env)"
    by (simp add: main_session_env_def)
  define r where "r = sr_display s"
  have r: "CreateDefaultDisplayReporter (se_is_color_terminal (pg_session env)) (g_flags g) = Inr r"
    using RunSpecifiedBenchmarks_display(1)[OF run] by (simp add: CreateDefaultDisplayReporter_def color r_def)
  then have library: "r \<noteq> CustomReporter"
    by (auto simp: CreateDefaultDisplayReporter_def CreateReporter_def split: if_splits)
  define p where "p = (process_start g0 families mach)\<lparr>ps_globals := g\<rparr>"
  define p1 where "p1 = p\<lparr>ps_default_display := Live r\<rparr>"
  have p: "ps_globals p = g" "ps_families p = families" "ps_machine p = mach" "ps_sessions p = []" "\<not> ps_context_deleted p"
    "ps_memory_manager p = None" "ps_profiler_manager p = None" "ps_default_display p = Null"
    by (simp_all add: p_def process_start_def)
  have "Initialize_call (Some argv) (process_start g0 families mach) = Inr p"
    using init by (simp add: Initialize_call_def p_def process_start_def use_context_def)
  moreover have "display_reporter (se_is_color_terminal (pg_session env)) NullDisplay p = Inr (r, p1)"
    by (simp add: display_reporter_def CreateDefaultDisplayReporter_call_def p r p1_def)
  then have "Run_call fuel env NullDisplay None None p = Some (Inr (finished_run NullDisplay p1 p s))"
    using run_env_main[OF library p(6,7) assms(3,4)] run RunSpecifiedBenchmarks_default[of "main_session_env env g" "g_flags g" r] r
    by (simp add: Run_call_eq color p use_context_def)
  moreover have "\<exists>p'. Shutdown_call q = Inr p' \<and> ps_sessions p' = ps_sessions q \<and> ps_families p' = ps_families q \<and>
      ps_machine p' = ps_machine q" if "\<not> ps_context_deleted q" for q
    using that by (simp add: Shutdown_call_def use_context_def)
  from this[of "finished_run NullDisplay p1 p s"] p obtain p' where "Shutdown_call (finished_run NullDisplay p1 p s) = Inr p'"
    "ps_sessions p' = [s]" "ps_families p' = sr_families s" "ps_machine p' = sr_machine s"
    by (auto simp: finished_run_def)
  ultimately show ?thesis by (simp add: process_run_def)
qed

section \<open>Running again\<close>

lemma with_default_args_again: "with_default_args (with_default_args f) = with_default_args f"
  by (auto simp: with_default_args_def ArgsCnt_def split: list.splits)

lemma find_in_family_default:
  "find_in_family u matches neg s (map_option with_default_args fam) = find_in_family u matches neg s fam"
  "find_in_family u matches neg s fam = Inr (s', fam') \<Longrightarrow> fam' = map_option with_default_args fam"
proof -
  have args: "(if ArgsCnt f = -1 then Args [] f else Inr f) = Inr (with_default_args f)" for f
    by (auto simp: with_default_args_def Args_def)
  show "find_in_family u matches neg s (map_option with_default_args fam) = find_in_family u matches neg s fam"
    by (cases fam) (simp_all add: find_in_family_def args with_default_args_again)
  show "find_in_family u matches neg s fam = Inr (s', fam') \<Longrightarrow> fam' = map_option with_default_args fam"
    by (cases fam) (auto simp: find_in_family_def args Let_def)
qed

lemma find_all_default:
  assumes "rfold (\<lambda>(s, fams) fam. rbind (find_in_family u matches neg s fam) (\<lambda>(s', fam'). Inr (s', fams @ [fam'])))
      (s, before) families = Inr (s', result)"
  shows "result = before @ map (map_option with_default_args) families \<and>
    rfold (\<lambda>(s, fams) fam. rbind (find_in_family u matches neg s fam) (\<lambda>(s', fam'). Inr (s', fams @ [fam'])))
      (s, before) (map (map_option with_default_args) families) = Inr (s', result)"
  using assms
proof (induction families arbitrary: s before)
  case (Cons fam families)
  then obtain s1 where s1: "find_in_family u matches neg s fam = Inr (s1, map_option with_default_args fam)"
    using find_in_family_default(2) by (fastforce simp: rbind_eq_Inr)
  then show ?case
    using Cons.IH[of s1 "before @ [map_option with_default_args fam]"] Cons.prems
    by (simp add: find_in_family_default(1) option.map_comp comp_def with_default_args_again)
qed simp

text \<open>The families that a search leaves give the same benchmarks in the next one.\<close>

lemma FindBenchmarks_again:
  assumes "FindBenchmarks u compile families spec benchmarks = Inr (found, families', fs)"
  shows "FindBenchmarks u compile families' spec benchmarks = Inr (found, families', fs)"
proof (cases "compile (if (case spec of [] \<Rightarrow> False | c # _ \<Rightarrow> c = CHR ''-'') then tl spec else spec)")
  case (Inl e)
  then show ?thesis using assms by (auto simp: FindBenchmarks_def Let_def)
next
  case (Inr matches)
  let ?fold = "rfold (\<lambda>(s, fams) fam. rbind (find_in_family u matches
      (case spec of [] \<Rightarrow> False | c # _ \<Rightarrow> c = CHR ''-'') s fam) (\<lambda>(s', fam'). Inr (s', fams @ [fam'])))
    (\<lparr>fs_benchmarks = benchmarks, fs_next_family_index = 0, fs_per_family_instance_index = 0, fs_err = []\<rparr>, [])"
  have "found \<and> ?fold families = Inr (fs, families')"
    using assms Inr by (auto simp: FindBenchmarks_def Let_def rbind_eq_Inr)
  then have "found" "?fold families' = Inr (fs, families')" using find_all_default by fastforce+
  then show ?thesis using Inr by (simp add: FindBenchmarks_def Let_def)
qed

lemma RunSpecifiedBenchmarks_finds:
  assumes "RunSpecifiedBenchmarks fuel env fl families (Some r) filed spec mach = Some (Inr s)"
  shows "\<exists>found fs. FindBenchmarks (h_default_time_unit (se_harness env)) (se_compile env) families (effective_spec spec) [] =
      Inr (found, sr_families s, fs) \<and> sr_count s = (if found then length (fs_benchmarks fs) else 0)"
proof (cases "FindBenchmarks (h_default_time_unit (se_harness env)) (se_compile env) families (effective_spec spec) []")
  case (Inl e)
  then show ?thesis using assms by (cases "setup_file_reporter env fl filed") (simp_all add: RunSpecifiedBenchmarks_def)
next
  case (Inr x)
  obtain found families' fs where x: "x = (found, families', fs)" by (cases x)
  obtain out where out: "setup_file_reporter env fl filed = Inr out"
    using assms by (cases "setup_file_reporter env fl filed") (simp_all add: RunSpecifiedBenchmarks_def)
  have "sr_families s = families' \<and> sr_count s = (if found then length (fs_benchmarks fs) else 0)"
    using assms unfolding RunSpecifiedBenchmarks_def Let_def out Inr x
    by (auto split: if_splits option.splits sum.splits)
  then show ?thesis using Inr x by simp
qed

lemma own_run_finds:
  assumes "Run_call fuel env (OwnDisplay r) filed spec p = Some (Inr p')"
  shows "\<exists>s found fs. p' = finished_run (OwnDisplay r) p p s \<and>
    FindBenchmarks (g_default_time_unit (ps_globals p)) (se_compile (pg_session env)) (ps_families p)
      (effective_spec (case spec of None \<Rightarrow> fl_filter (g_flags (ps_globals p)) | Some f \<Rightarrow> f)) [] =
      Inr (found, sr_families s, fs) \<and> sr_count s = (if found then length (fs_benchmarks fs) else 0)"
proof -
  have env: "h_default_time_unit (se_harness (run_env env p r filed)) = g_default_time_unit (ps_globals p)"
    "se_compile (run_env env p r filed) = se_compile (pg_session env)" by (simp_all add: run_env_def)
  obtain s where s: "RunSpecifiedBenchmarks fuel (run_env env p r filed) (g_flags (ps_globals p)) (ps_families p) (Some r) filed
      (case spec of None \<Rightarrow> fl_filter (g_flags (ps_globals p)) | Some f \<Rightarrow> f) (ps_machine p) = Some (Inr s)"
    and p': "p' = finished_run (OwnDisplay r) p p s"
  proof (rule Run_call_Inr[OF assms])
    fix r' p1 s
    assume "display_reporter (se_is_color_terminal (pg_session env)) (OwnDisplay r) p = Inr (r', p1)"
      "RunSpecifiedBenchmarks fuel (run_env env p r' filed) (g_flags (ps_globals p)) (ps_families p) (Some r') filed
        (case spec of None \<Rightarrow> fl_filter (g_flags (ps_globals p)) | Some f \<Rightarrow> f) (ps_machine p) = Some (Inr s)"
      "p' = finished_run (OwnDisplay r) p1 p s"
    then show thesis using that[of s] by (simp add: display_reporter_def)
  qed
  show ?thesis using RunSpecifiedBenchmarks_finds[OF s] p' unfolding env by blast
qed

text \<open>A program that brings its own reporter can run the benchmarks again: the second run returns the same count,
  and the families, to which the first run may have added an empty list of arguments, stay as they are.\<close>

theorem runs_repeat:
  assumes "process_run fuel env p [ApiRun (OwnDisplay r) filed spec, ApiRun (OwnDisplay r) filed spec] = Some (Inr q)"
  shows "\<exists>s1 s2. ps_sessions q = ps_sessions p @ [s1, s2] \<and> sr_count s2 = sr_count s1 \<and>
    ps_families q = sr_families s1"
proof -
  obtain p1 where p1: "Run_call fuel env (OwnDisplay r) filed spec p = Some (Inr p1)"
    "Run_call fuel env (OwnDisplay r) filed spec p1 = Some (Inr q)"
    using assms by (auto simp: process_run_def ofold_Cons_Inr simp del: ofold.simps) (auto simp: ofold_Cons_Inr)
  obtain s1 found fs where s1: "p1 = finished_run (OwnDisplay r) p p s1"
    "FindBenchmarks (g_default_time_unit (ps_globals p)) (se_compile (pg_session env)) (ps_families p)
      (effective_spec (case spec of None \<Rightarrow> fl_filter (g_flags (ps_globals p)) | Some f \<Rightarrow> f)) [] = Inr (found, sr_families s1, fs)"
    "sr_count s1 = (if found then length (fs_benchmarks fs) else 0)"
    using own_run_finds[OF p1(1)] by blast
  have p1s: "ps_globals p1 = ps_globals p" "ps_families p1 = sr_families s1" by (simp_all add: s1(1))
  obtain s2 where s2: "q = finished_run (OwnDisplay r) p1 p1 s2" "sr_families s2 = sr_families s1" "sr_count s2 = sr_count s1"
    using own_run_finds[OF p1(2), unfolded p1s FindBenchmarks_again[OF s1(2)]] s1(3) by auto
  show ?thesis by (rule exI[of _ s1], rule exI[of _ s2]) (simp add: s1(1) s2)
qed

section \<open>Witnesses\<close>

text \<open>A program without benchmarks: every run reports that nothing matches.\<close>

definition empty_process :: process where
  "empty_process = process_start json_globals [] machine_init"

definition adding_process :: process where
  "adding_process = process_start (AddCustomContext ''k'' ''v'' json_globals) [] machine_init"

lemmas empty_run_defs = process_run_def Run_call_def display_reporter_def CreateDefaultDisplayReporter_call_def
  CreateDefaultDisplayReporter_def CreateReporter_def process_start_def RunSpecifiedBenchmarks_def FindBenchmarks_def
  setup_file_reporter_def run_env_def sample_program_def sample_env_def reads_context_def has_context_def Let_def
  json_globals_flags

lemma empty_default_run:
  "\<exists>q. process_run 0 sample_program empty_process [ApiRun NullDisplay None None] = Some (Inr q)"
  by (simp add: empty_run_defs empty_process_def)

theorem second_default_run_witness:
  "process_run 0 sample_program empty_process [ApiRun NullDisplay None None, ApiRun NullDisplay None None] =
     Some (Inl (Undefined ''use of the deleted display reporter''))"
  using empty_default_run second_default_run[of 0 sample_program empty_process "[]" None None "[]" _ NullDisplay None None]
  by auto

theorem nothing_after_shutdown_witness:
  "\<exists>q. process_run 0 sample_program adding_process [ApiShutdown, ApiRun (OwnDisplay CustomReporter) None None] = Some (Inr q) \<and>
     (\<exists>sessions. ps_sessions q = sessions \<and> (\<forall>s \<in> set sessions. \<not> reads_context s))"
proof -
  have "\<exists>q. process_run 0 sample_program adding_process [ApiShutdown, ApiRun (OwnDisplay CustomReporter) None None] = Some (Inr q)"
    by (simp add: empty_run_defs adding_process_def AddCustomContext_def Shutdown_call_def use_context_def)
  then obtain q where q: "process_run 0 sample_program adding_process ([] @ ApiShutdown # [ApiRun (OwnDisplay CustomReporter) None None]) = Some (Inr q)"
    by auto
  have start: "process_run 0 sample_program adding_process [] = Some (Inr adding_process)"
    "g_context (ps_globals adding_process) \<noteq> None" "ps_sessions adding_process = []"
    by (simp_all add: process_run_def adding_process_def process_start_def AddCustomContext_def Let_def)
  show ?thesis using nothing_after_shutdown[OF start(1,2) q] q start(3) by auto
qed

theorem runs_repeat_witness:
  "\<exists>q s1 s2. process_run 0 sample_program empty_process
       [ApiRun (OwnDisplay CustomReporter) None None, ApiRun (OwnDisplay CustomReporter) None None] = Some (Inr q) \<and>
     ps_sessions q = [s1, s2] \<and> sr_count s2 = sr_count s1"
proof -
  have "\<exists>q. process_run 0 sample_program empty_process
       [ApiRun (OwnDisplay CustomReporter) None None, ApiRun (OwnDisplay CustomReporter) None None] = Some (Inr q)"
    by (simp add: empty_run_defs empty_process_def)
  then obtain q where q: "process_run 0 sample_program empty_process
       [ApiRun (OwnDisplay CustomReporter) None None, ApiRun (OwnDisplay CustomReporter) None None] = Some (Inr q)" by blast
  show ?thesis using runs_repeat[OF q] q by (auto simp: empty_process_def process_start_def)
qed

theorem BENCHMARK_MAIN_calls_witness:
  "\<exists>result s p. BENCHMARK_MAIN 0 sample_program (Some [''bench'']) json_globals [] machine_init = Some (Inr result) \<and>
     mr_session result = Some s \<and>
     process_run 0 sample_program (process_start json_globals [] machine_init)
       [ApiInitialize (Some [''bench'']), ApiRun NullDisplay None None, ApiShutdown] = Some (Inr p) \<and> ps_sessions p = [s]"
proof -
  have "\<exists>result s. BENCHMARK_MAIN 0 sample_program (Some [''bench'']) json_globals [] machine_init = Some (Inr result) \<and>
      mr_session result = Some s"
    by (simp add: BENCHMARK_MAIN_def json_globals_Initialize ReportUnrecognizedArguments_def main_session_env_def
        session_texts_def reporter_text_def replay_def empty_run_defs)
  then obtain result s where main: "BENCHMARK_MAIN 0 sample_program (Some [''bench'']) json_globals [] machine_init = Some (Inr result)"
    "mr_session result = Some s" by blast
  have "\<not> h_memory_manager (se_harness (pg_session sample_program))" "\<not> h_profiler_manager (se_harness (pg_session sample_program))"
    by (simp_all add: sample_program_def sample_env_def stuck_clock_harness_def)
  from BENCHMARK_MAIN_calls[OF main this] show ?thesis using main by blast
qed

end
