(* ===== verification/Spec2Isabelle.thy ===== *)
theory Spec2Isabelle
  imports Register Instances Stats Fitting Runtime Barrier Strings Flags Options Runner Session Measuring Sessions Reports CommandLine Gpu MonitorReport HardwareCounters SysInfo Timers Program Repetitions Threads Platforms CycleClock Regex Lifecycle
begin

text \<open>
  Google Benchmark (src/src, src/include/benchmark) and the two benchmark programs built on it
  (src/benchmark_monitor_C, src/gpu_benchmarks): a model of the library and of the programs, and the
  theorems that make it correct.

  \<^bold>\<open>The program.\<close>  A program registers benchmark functions with a builder (\<open>internal::Benchmark\<close>).  The registry
  expands each family into instances, one for each argument list and thread count, whose name matches
  the filter.  A session (\<open>RunBenchmarks\<close>) gives each instance a runner.  A runner repeats its
  instance: it warms up, looks for a number of iterations that takes long enough, and turns each repetition
  into a run report.  In each repetition every thread drives the measured loop of its own \<open>State\<close>, starts and
  stops its timer at a barrier that all threads share, and adds its results to those of the
  others.  After the last repetition the session adds the statistics over the repetitions and, for a family that asks
  for it, the fitted complexity; it hands them to the display reporter and to the file reporter.

  \<^bold>\<open>The theories\<close>, from the bottom up:

  \<^item> \<open>Prelude\<close>: results of code that can fail ('a res), the checks (\<open>BM_CHECK\<close>, \<open>assert\<close>), signed integers of
    fixed width, loops that can fail (\<open>rfold\<close>).  \<open>Doubles\<close>: IEEE 754 binary64.  \<open>CText\<close>: numbers to text and back
    as the C and C++ libraries do it.  \<open>StdMap\<close>: \<open>std::map\<close>, behind the locale \<open>ordered_map\<close>.
  \<^item> \<open>Types\<close> (benchmark.h: enumerations, counters, \<open>Run\<close>), \<open>Names\<close> (benchmark_name.cc), \<open>Counters\<close>
    (counter.cc), \<open>Strings\<close> (string_util.cc), \<open>Flags\<close> (commandlineflags.cc).
  \<^item> Registration.  \<open>Ranges\<close> and \<open>Register\<close> (benchmark_register.h, benchmark_register.cc): the generators of arguments and
    the builder; \<open>Instances\<close> (benchmark_api_internal.cc and the registry): which instances a filter selects.
  \<^item> Measuring.  \<open>Runtime\<close> (\<open>State\<close>, ThreadTimer, ThreadManager): one thread of a run.  \<open>Barrier\<close> (mutex.h): the
    barrier, as a step relation over all interleavings of the threads.  \<open>Runner\<close> and \<open>Measuring\<close>
    (benchmark_runner.cc): the code of the runner, and that its loops end.  \<open>Threads\<close> (\<open>ThreadRunnerDefault\<close>,
    \<open>RunInThread\<close>): the threads of one run as a step relation over the barrier, the shared results and their mutex.
  \<^item> Evaluating.  \<open>Stats\<close> (statistics.cc) and \<open>Fitting\<close> (complexity.cc).
  \<^item> The session.  \<open>Session\<close> and \<open>Sessions\<close> (benchmark.cc: \<open>RunBenchmarks\<close>, \<open>RunSpecifiedBenchmarks\<close>): a session is a
    sequence of calls to the reporters.  \<open>Repetitions\<close>: sessions with several repetitions of each benchmark, down
    to their aggregates.  \<open>Options\<close> and \<open>CommandLine\<close> (benchmark.cc): the flags and \<open>Initialize\<close>.
  \<^item> Reporters.  \<open>Reporting\<close> (reporter.cc: contexts, and the locale \<open>reporter_contract\<close>, what a session may rely on),
    \<open>Json\<close>, \<open>Csv\<close>, \<open>Console\<close> (json_reporter.cc, csv_reporter.cc, console_reporter.cc, colorprint.cc) and \<open>Reports\<close>:
    sessions and reporters together.
  \<^item> \<open>Program\<close>: \<open>BENCHMARK_MAIN\<close> (benchmark.h), from the command line to the text on the output and the exit code, and
    \<open>MaybeReenterWithoutASLR\<close>.  \<open>Lifecycle\<close>: the calls a user's \<open>main\<close> may make, in any order, and the objects that live between them.
  \<^item> The machine.  \<open>SysInfo\<close> (sysinfo.cc), \<open>Timers\<close> (timers.cc), \<open>CycleClock\<close> (cycleclock.h), \<open>HardwareCounters\<close> (perf_counters.cc, perf_counters.h).
    \<open>Platforms\<close>: what sysinfo.cc, timers.cc and string_util.cc compile on other systems (sysctl, Windows, QNX, Solaris, Android).
    \<open>Regex\<close> (re.h, log.h, check.h): the wrapper around the regular-expression libraries, behind the locale
    \<open>regex_engine\<close>, the log, the message of a failing check.
  \<^item> The programs.  \<open>SystemMonitor\<close> (system_monitor.cpp), \<open>Kernels\<close> (the benchmark functions of
    benchmark_monitor.cpp), \<open>MonitorReport\<close> (its reporter and \<open>main\<close>), \<open>Gpu\<close> (gpu_benchmarks.cu).

  \<^bold>\<open>How the code is represented.\<close>  A function of the source is a function of the model with the same name; a method gets
  the state of its object and returns it changed.  A record has the members of the struct, each with a short prefix.  An
  error is a value: \<open>AssertFailed\<close> for \<open>BM_CHECK\<close> and \<open>assert\<close>, \<open>ExitWith\<close> for \<open>std::exit\<close>, \<open>Threw\<close> for an exception that
  leaves the function, \<open>Undefined\<close> for undefined behaviour (signed overflow, an index out of range, a null
  pointer).  Signed integers are \<open>int\<close> with the check of their width written out, unsigned ones words or \<open>mod 2 ^ 64\<close>.
  A \<open>double\<close> is a rational, an infinity or a NaN, and every operation rounds to
  nearest.  The build is the one for Linux without \<open>NDEBUG\<close>, with libpfm.

  \<^bold>\<open>Parameters.\<close>  What is not under src/ is an argument: the functions that users benchmark (\<open>h_run\<close>) and the clocks they
  are measured with, regular expressions, libm, the environment, files, the kernel and libpfm, NVML and the
  events of CUDA, the shuffle of the repetitions.

  \<^bold>\<open>What is shown\<close>, by group of lemmas:

  \<^item> the measured loop runs the body exactly as often as asked, in all three forms of the loop, and stops when the
    benchmark is skipped (\<open>Runtime\<close>); the barrier lets nobody pass early and never deadlocks (\<open>Barrier\<close>);
  \<^item> the timer of a thread runs only between its two passages of the barrier, and under every interleaving the
    threads of a run pass it together; every step but falling asleep and waking up decreases the work left, the run can always be
    completed, and its results are those of the threads run one after the other in the order in which they finish
    (\<open>Runtime\<close>, \<open>Threads\<close>);
  \<^item> the builder keeps the invariants of a registration, the generated arguments are the documented ones (without any list the
    product of lists is undefined), the registry selects exactly the matching instances (\<open>Register\<close>, \<open>Ranges\<close>, \<open>Instances\<close>);
  \<^item> for a minimum time that is zero or between a nanosecond and 2^1000 seconds the search for the number of
    iterations ends, without a failing assertion, whatever the clocks say; \<open>enough_turns\<close> = 98 turns are
    enough since the number grows by at least a third every turn, up to \<open>kMaxIterations\<close> (\<open>Measuring\<close>);
  \<^item> every selected benchmark is reported once, when its last repetition is done, with a run for each repetition and an aggregate for
    each statistic (\<open>Sessions\<close>, \<open>Repetitions\<close>); the calls to the reporters follow the
    protocol (\<open>Sessions\<close>, \<open>Reports\<close>); the whole output is one JSON document, a CSV table that reads back, rows of the
    console that are aligned (\<open>Json\<close>, \<open>Csv\<close>, \<open>Console\<close>);
  \<^item> a whole program returns 1 exactly for an unknown argument and otherwise runs and reports what its filter selects; it replaces
    itself at most once to get rid of address space randomisation (\<open>Program\<close>); \<open>BENCHMARK_MAIN\<close> is three calls of the interface, a
    second run with the default reporter uses a deleted object, and so does what reads the context after \<open>Shutdown\<close> (\<open>Lifecycle\<close>);
  \<^item> a cycle counter that is read in two halves gives a value between the first and the last read (\<open>CycleClock\<close>);
  \<^item> statistics and complexity: the aggregates are those of the counted repetitions (none, or a null pointer, when the
    first one was skipped), the statistics are the textbook's over the reals, the fitted coefficient minimises the
    absolute deviations, not the relative ones that the comments speak of, the curve is the best of six (\<open>Stats\<close>, \<open>Fitting\<close>);
  \<^item> flags and their values, which argument sets which flag, and what \<open>Initialize\<close> leaves of the command line
    (\<open>Flags\<close>, \<open>CommandLine\<close>);
  \<^item> the hardware counters that the kernel grants are reported, in the order asked for, each under its own name, caches as the kernel prints them, dates
    that read back (\<open>HardwareCounters\<close>, \<open>SysInfo\<close>, \<open>Timers\<close>);
  \<^item> the kernels of the programs compute what they should, on the GPU for every order of the threads, and the monitor's
    results are one table (\<open>Kernels\<close>, \<open>Gpu\<close>, \<open>SystemMonitor\<close>, \<open>MonitorReport\<close>).

  \<^bold>\<open>Fuel.\<close>  A loop that may run forever takes the number of its turns and gives \<open>None\<close> when they are used up: the user's loops in
  \<open>Runtime\<close> and \<open>Kernels\<close> (enough: the number of iterations plus one), the runner's (98), the search for caches (their
  number plus one), the busy loop of the frequency estimate.

  \<^bold>\<open>Not modelled.\<close>  The runner composes the threads of one run in the order in which they finish.  \<open>Threads\<close> justifies that for
  functions that leave the shared results alone; threads that skip or set labels at the same time are not
  interleaved, nor is a thread that cannot be created.  Of the code for operating systems other than Linux the
  Windows console is not modelled.  What an assembly instruction of cycleclock.h reads is a parameter; internal_macros.h and arraysize.h are wrappers whose effect is in the definitions
  that use them.  \<open>State::iterations\<close> is computed without the overflow of its sum.  \<open>PrintDefaultHelp\<close> prints a constant text.  The sign and payload of a NaN, the contraction of a product and a sum into a fused operation and the encoding of the text of a JSON string as
  UTF-8 are not modelled, nor is a CUDA call that fails (the code does not look).  Containers are assumed to have fewer than
  2^31 elements where the code casts their size to int.
\<close>

end
